(* ===== verification/Prelude.thy ===== *)
theory Prelude
  imports Main "HOL-Library.Word" "HOL-Library.Multiset"
begin

unbundle bit_operations_syntax

text \<open>
  Shared vocabulary of the development: the machine types of the Go sources, Go errors
  as values, the standard library's byte streams (\<open>io.Reader\<close>, \<open>io.Writer\<close>), slices and
  strings, and the generic facts on lists and bits that the component proofs share.

  The collections: \<open>byte_simps\<close> turns bit tests on bytes into arithmetic on their values,
  \<open>io_simps\<close> unfolds the stream operations.
\<close>

named_theorems byte_simps
named_theorems io_simps

type_synonym byte = "8 word"
type_synonym bytes = "byte list"
type_synonym u64 = "64 word"

text \<open>A Go \<open>error\<close> value; \<open>nil\<close> is \<open>None\<close> in an \<open>err option\<close>.  Errors made by \<open>errors.New\<close>
  or \<open>fmt.Errorf\<close> are compared by identity in the sources; each such variable has its own
  message, so the message stands for the identity.  \<open>Errorf p e\<close> is \<open>fmt.Errorf\<close> of the prefix
  \<open>p\<close> and the error \<open>e\<close> (\<open>%s\<close> of its message, or \<open>%w\<close>).\<close>

datatype err =
    io_EOF
  | io_ErrUnexpectedEOF
  | io_ErrShortBuffer
  | io_ErrClosedPipe
  | json_SyntaxError
  | json_TypeError
  | json_UnknownField
  | hex_InvalidByte char
  | hex_ErrLength
  | bufio_ErrTooLong
  | Err string
  | Errorf string err

section \<open>Byte streams\<close>

text \<open>
  An \<open>io.Reader\<close> is the bytes it still delivers and the error it reports, for ever, after
  the last of them (\<open>io.EOF\<close> for a stream that ends regularly).  A \<open>Read\<close> into a non-empty
  buffer returns at least one byte or an error, never both: the behaviour of the in-memory
  readers, network connections and pipes that the sources read from.
\<close>

record reader =
  rdata :: bytes
  rerr :: err

text \<open>\<open>r.Read(b[:])\<close> with a one-byte buffer.\<close>

definition read_byte :: "reader \<Rightarrow> err + byte \<times> reader" where
  "read_byte r =
     (case rdata r of [] \<Rightarrow> Inl (rerr r) | b # bs \<Rightarrow> Inr (b, r\<lparr>rdata := bs\<rparr>))"

text \<open>\<open>io.ReadFull(r, p)\<close> with a buffer of \<open>k\<close> bytes: the bytes read, the error, the rest.\<close>

definition ReadFull :: "reader \<Rightarrow> nat \<Rightarrow> (bytes \<times> err option) \<times> reader" where
  "ReadFull r k =
     (if k \<le> length (rdata r) then ((take k (rdata r), None), r\<lparr>rdata := drop k (rdata r)\<rparr>)
      else ((rdata r,
             Some (if rdata r \<noteq> [] \<and> rerr r = io_EOF then io_ErrUnexpectedEOF else rerr r)),
            r\<lparr>rdata := []\<rparr>))"

text \<open>\<open>io.CopyN(io.Discard, r, k)\<close>: the error and the rest of the stream.\<close>

definition DiscardN :: "reader \<Rightarrow> nat \<Rightarrow> err option \<times> reader" where
  "DiscardN r k =
     (if k \<le> length (rdata r) then (None, r\<lparr>rdata := drop k (rdata r)\<rparr>)
      else (Some (rerr r), r\<lparr>rdata := []\<rparr>))"

text \<open>
  An \<open>io.Writer\<close> is what has been written to it and, for a writer that breaks, how many
  bytes it still takes before it reports its error.  (Where the models treat bytes as characters,
  it takes characters.)
\<close>

record 'a gen_writer =
  wout :: "'a list"
  wroom :: "nat option"
  werr :: err

type_synonym writer = "byte gen_writer"

definition Write :: "'a gen_writer \<Rightarrow> 'a list \<Rightarrow> (nat \<times> err option) \<times> 'a gen_writer" where
  "Write w p =
     (case wroom w of
        None \<Rightarrow> ((length p, None), w\<lparr>wout := wout w @ p\<rparr>)
      | Some k \<Rightarrow>
          if length p \<le> k then
            ((length p, None), w\<lparr>wout := wout w @ p, wroom := Some (k - length p)\<rparr>)
          else ((k, Some (werr w)), w\<lparr>wout := wout w @ take k p, wroom := Some 0\<rparr>))"

definition bytes_Buffer :: "'a list \<Rightarrow> 'a gen_writer" where
  "bytes_Buffer p = \<lparr>wout = p, wroom = None, werr = io_ErrClosedPipe\<rparr>"

definition bytes_Reader :: "bytes \<Rightarrow> reader" where
  "bytes_Reader p = \<lparr>rdata = p, rerr = io_EOF\<rparr>"

section \<open>Strings\<close>

text \<open>Go strings are byte strings; the models use \<^typ>\<open>string\<close> where the sources use text.\<close>

definition HasPrefix :: "'a list \<Rightarrow> 'a list \<Rightarrow> bool" where
  "HasPrefix s p \<longleftrightarrow> take (length p) s = p"

definition HasSuffix :: "'a list \<Rightarrow> 'a list \<Rightarrow> bool" where
  "HasSuffix s p \<longleftrightarrow> length p \<le> length s \<and> drop (length s - length p) s = p"

definition TrimPrefix :: "'a list \<Rightarrow> 'a list \<Rightarrow> 'a list" where
  "TrimPrefix s p = (if HasPrefix s p then drop (length p) s else s)"

definition TrimSuffix :: "'a list \<Rightarrow> 'a list \<Rightarrow> 'a list" where
  "TrimSuffix s p = (if HasSuffix s p then take (length s - length p) s else s)"

section \<open>Generic lemmas\<close>

subsection \<open>Prefixes and suffixes\<close>

lemma HasPrefix_iff: "HasPrefix s p \<longleftrightarrow> (\<exists>t. s = p @ t)"
  by (metis HasPrefix_def append_eq_conv_conj append_take_drop_id)

lemma HasSuffix_iff: "HasSuffix s p \<longleftrightarrow> (\<exists>t. s = t @ p)"
proof
  assume "HasSuffix s p"
  then show "\<exists>t. s = t @ p"
    by (metis HasSuffix_def append_take_drop_id)
next
  assume "\<exists>t. s = t @ p"
  then show "HasSuffix s p"
    by (auto simp: HasSuffix_def)
qed

lemma HasSuffix_refl [simp]: "HasSuffix s s"
  by (auto simp: HasSuffix_iff)

lemma HasSuffix_Nil [simp]: "HasSuffix s []"
  by (auto simp: HasSuffix_iff)

lemma HasSuffix_append [simp]: "HasSuffix (t @ s) s"
  by (auto simp: HasSuffix_iff)

lemma HasSuffix_trans: "HasSuffix a b \<Longrightarrow> HasSuffix b c \<Longrightarrow> HasSuffix a c"
  by (auto simp: HasSuffix_iff)

lemma HasPrefix_append [simp]: "HasPrefix (p @ s) p"
  by (auto simp: HasPrefix_iff)

lemma TrimPrefix_append [simp]: "TrimPrefix (p @ s) p = s"
  by (simp add: TrimPrefix_def)

lemma TrimSuffix_append [simp]: "TrimSuffix (s @ p) p = s"
  by (simp add: TrimSuffix_def)

subsection \<open>Bits of bytes as arithmetic\<close>

lemma int_and_mask: "(x::int) AND (2 ^ n - 1) = x mod 2 ^ n"
  by (simp add: take_bit_eq_mod flip: take_bit_eq_mask mask_eq_exp_minus_1)

lemma int_and_slice: "(x::int) AND ((2 ^ m - 1) * 2 ^ n) = (x div 2 ^ n mod 2 ^ m) * 2 ^ n"
proof -
  have "x AND push_bit n (mask m) = push_bit n (take_bit m (drop_bit n x))"
    by (simp only: push_bit_mask_eq slice_eq_mask and.assoc)
  then show ?thesis
    by (simp add: push_bit_eq_mult take_bit_eq_mod drop_bit_eq_div mask_eq_exp_minus_1)
qed

lemma int_divmod_add:
  assumes "0 \<le> c" "c < (k::int)"
  shows "(a * k + c) div k = a" "(a * k + c) mod k = c"
  using assms by simp_all

lemma int_mod_step:
  assumes "0 \<le> x" "x < 2 * (k::int)"
  shows "(if x < k then 0 else k) + x mod k = x"
  using assms mod_pos_pos_trivial [of "x - k" k] by (simp add: mod_pos_pos_trivial)

lemma int_and_63 [byte_simps]: "(x::int) AND 63 = x mod 64"
  using int_and_mask [of x 6] by simp

lemma int_and_127 [byte_simps]: "(x::int) AND 127 = x mod 128"
  using int_and_mask [of x 7] by simp

lemma uint_and_63 [byte_simps]: "uint ((b::byte) AND 63) = uint b mod 64"
  by (simp add: uint_and int_and_63)

lemma uint_and_127 [byte_simps]: "uint ((b::byte) AND 127) = uint b mod 128"
  by (simp add: uint_and int_and_127)

lemma uint_byte_lt [simp]: "uint (b::byte) < 256"
  using uint_bounded [of b] by simp

lemma unat_byte_lt [simp]: "unat (b::byte) < 256"
  using uint_byte_lt [of b] unfolding uint_nat by linarith

lemma bit_byte_uint: "bit (b::byte) n = bit (uint b) n"
  by (auto simp: bit_uint_iff dest: bit_imp_le_length)

lemma even_div_128: "0 \<le> x \<Longrightarrow> x < 256 \<Longrightarrow> even (x div 128) \<longleftrightarrow> (x::int) < 128"
proof (cases "x < 128")
  case True
  moreover assume "0 \<le> x"
  ultimately show ?thesis by simp
next
  case False
  moreover assume "x < 256"
  ultimately have "x div 128 = 1"
    by (intro int_div_pos_eq [of _ _ _ "x - 128"]) auto
  with False show ?thesis by simp
qed

lemma even_div_64: "even (x div 64) \<longleftrightarrow> (x::int) mod 128 < 64"
proof -
  have eq: "x mod 128 = 64 * (x div 64 mod 2) + x mod 64"
    using zmod_zmult2_eq [of 2 x 64] by simp
  have b: "0 \<le> x mod 64" "x mod 64 < 64" by simp_all
  show ?thesis
  proof (cases "even (x div 64)")
    case True
    then have "x div 64 mod 2 = 0" by (rule even_iff_mod_2_eq_zero [THEN iffD1])
    with eq b True show ?thesis by linarith
  next
    case False
    then have "x div 64 mod 2 = 1" by (rule odd_iff_mod_2_eq_one [THEN iffD1])
    with eq b False show ?thesis by linarith
  qed
qed

lemma byte_and_128 [byte_simps]: "(b::byte) AND 128 = 0 \<longleftrightarrow> uint b < 128"
  using and_exp_eq_0_iff_not_bit [of b 7] even_div_128 [of "uint b"]
  by (simp add: bit_byte_uint bit_iff_odd)

lemma byte_and_64 [byte_simps]: "(b::byte) AND 64 = 0 \<longleftrightarrow> uint b mod 128 < 64"
  using and_exp_eq_0_iff_not_bit [of b 6] even_div_64 [of "uint b"]
  by (simp add: bit_byte_uint bit_iff_odd)

lemma push_bit_or_add:
  assumes "0 \<le> y" "y < 2 ^ k"
  shows "push_bit k n OR y = n * 2 ^ k + (y::int)"
proof -
  have y: "take_bit k y = y"
    using assms by (simp add: take_bit_int_eq_self_iff)
  have "push_bit k n OR take_bit k y = push_bit k n + take_bit k y"
    by (rule disjunctive_add [symmetric]) (auto simp: bit_simps)
  with y show ?thesis
    by (simp add: push_bit_eq_mult)
qed

lemma uint_byte_or_add:
  assumes "0 \<le> y" "y < 2 ^ k" "m = n * 2 ^ k" "m + y < 256" "0 \<le> m"
  shows "uint ((word_of_int m :: byte) OR word_of_int y) = m + y"
proof -
  have "m OR y = m + y"
    using push_bit_or_add [of y k n] assms by (simp add: push_bit_eq_mult)
  moreover have "uint ((word_of_int m :: byte) OR word_of_int y) = take_bit 8 (m OR y)"
    by (simp only: uint_or uint_word_of_int take_bit_or) (simp add: take_bit_eq_mod)
  ultimately show ?thesis
    using assms by (simp add: take_bit_int_eq_self_iff)
qed

lemma byte_or_numeral:
  assumes "0 \<le> y" "y < 2 ^ k" "numeral w = (n::int) * 2 ^ k" "numeral w + y < 256"
  shows "(numeral w :: byte) OR word_of_int y = word_of_int (numeral w + y)"
proof -
  have "uint ((word_of_int (numeral w) :: byte) OR word_of_int y) = numeral w + y"
    by (rule uint_byte_or_add [of _ k _ n]) (use assms in simp_all)
  then show ?thesis
    by (metis of_int_numeral word_of_int_uint)
qed

lemma uint_byte_of_int: "0 \<le> y \<Longrightarrow> y < 256 \<Longrightarrow> uint (word_of_int y :: byte) = y"
  by (simp add: uint_word_of_int take_bit_int_eq_self_iff)

subsection \<open>Streams\<close>

lemma reader_rdata_self [simp]: "rdata r = s \<Longrightarrow> r\<lparr>rdata := s\<rparr> = r"
  by auto

lemma read_byte_Nil [io_simps]: "rdata r = [] \<Longrightarrow> read_byte r = Inl (rerr r)"
  by (simp add: read_byte_def)

lemma read_byte_Cons [io_simps]:
  "rdata r = b # bs \<Longrightarrow> read_byte r = Inr (b, r\<lparr>rdata := bs\<rparr>)"
  by (simp add: read_byte_def)

lemma read_byte_shorter:
  "read_byte r = Inr (b, r') \<Longrightarrow> length (rdata r') < length (rdata r)"
  by (auto simp: read_byte_def split: list.splits)

lemma ReadFull_append [io_simps]:
  "rdata r = p @ q \<Longrightarrow> k = length p \<Longrightarrow> ReadFull r k = ((p, None), r\<lparr>rdata := q\<rparr>)"
  by (simp add: ReadFull_def)

lemma DiscardN_append [io_simps]:
  "rdata r = p @ q \<Longrightarrow> k = length p \<Longrightarrow> DiscardN r k = (None, r\<lparr>rdata := q\<rparr>)"
  by (simp add: DiscardN_def)

lemma DiscardN_length: "DiscardN r k = (e, r') \<Longrightarrow> length (rdata r') \<le> length (rdata r)"
  by (auto simp: DiscardN_def split: if_splits)

lemma Write_Buffer [io_simps]:
  "Write (bytes_Buffer p) q = ((length q, None), bytes_Buffer (p @ q))"
  by (simp add: Write_def bytes_Buffer_def)

lemma Write_unlimited:
  "wroom w = None \<Longrightarrow> Write w p = ((length p, None), w\<lparr>wout := wout w @ p\<rparr>)"
  by (simp add: Write_def)

lemma Write_count_le: "fst (fst (Write w p)) \<le> length p"
  by (simp add: Write_def split: option.split)

lemma Write_out: "wout (snd (Write w p)) = wout w @ take (fst (fst (Write w p))) p"
  by (simp add: Write_def split: option.split)

lemma Write_ok: "snd (fst (Write w p)) = None \<Longrightarrow> fst (fst (Write w p)) = length p"
  by (auto simp: Write_def split: option.splits if_splits)

end
