(* ===== verification/Encapsulation.thy ===== *)
theory Encapsulation
  imports Prelude
begin

unbundle bit_operations_syntax

text \<open>
  The framing of \<open>src/common/encapsulation/encapsulation.go\<close>: chunks of data or padding in a
  byte stream, each behind a length prefix of one to three bytes.  The model keeps Go's
  \<open>int\<close> arithmetic on prefixes as bit operations on \<^typ>\<open>int\<close> (all values stay far below
  \<open>2\<^sup>6\<^sup>3\<close>), the reader's loop as a terminating recursion, and every early return.
\<close>

section \<open>Definitions\<close>

definition ErrTooLong :: err where
  "ErrTooLong = Err ''length prefix is too long''"

text \<open>The loop of \<open>ReadData\<close> over the continuation bytes of a length prefix.\<close>

function read_more :: "nat \<Rightarrow> bool \<Rightarrow> int \<Rightarrow> reader \<Rightarrow> (err + int) \<times> reader" where
  "read_more i moreLength n r =
     (if \<not> moreLength then (Inr n, r)
      else if 2 \<le> i then (Inl ErrTooLong, r)
      else
        (case read_byte r of
           Inl e \<Rightarrow> (Inl (if e = io_EOF then io_ErrUnexpectedEOF else e), r)
         | Inr (b, r') \<Rightarrow>
             read_more (Suc i) (b AND 0x80 \<noteq> 0) (push_bit 7 n OR uint (b AND 0x7f)) r'))"
  by pat_completeness auto
termination
  by (relation "measure (\<lambda>(i, _). 2 - i)") auto

declare read_more.simps [simp del]

lemma read_more_length:
  "read_more i m n r = (x, r') \<Longrightarrow> length (rdata r') \<le> length (rdata r)"
proof (induction i m n r rule: read_more.induct)
  case (1 i m n r)
  show ?case
  proof (cases "read_byte r")
    case (Inl e)
    with "1.prems" show ?thesis
      by (simp add: read_more.simps [of i] split: if_splits)
  next
    case (Inr p)
    obtain b r1 where p: "p = (b, r1)" by (cases p)
    show ?thesis
      using "1.prems" "1.IH" [OF _ _ Inr p [symmetric]] Inr p
        read_byte_shorter [of r b r1]
      by (simp add: read_more.simps [of i] split: if_splits)
  qed
qed

text \<open>
  \<open>ReadData(r, p)\<close> with \<open>plen = len(p)\<close>.  The result is the bytes copied into \<open>p\<close> (their
  number is Go's first result), the error, and the rest of the stream.
\<close>

function ReadData :: "reader \<Rightarrow> nat \<Rightarrow> (bytes \<times> err option) \<times> reader" where
  "ReadData r plen =
     (case read_byte r of
        Inl e \<Rightarrow> (([], Some e), r)
      | Inr (b, r1) \<Rightarrow>
          (case read_more 0 (b AND 0x40 \<noteq> 0) (uint (b AND 0x3f)) r1 of
             (Inl e, r2) \<Rightarrow> (([], Some e), r2)
           | (Inr n, r2) \<Rightarrow>
               if b AND 0x80 \<noteq> 0 then
                 (case ReadFull r2 (min plen (nat n)) of
                    ((d, err), r3) \<Rightarrow>
                      if err = None \<and> int (length d) < n then
                        (case DiscardN r3 (nat (n - int (length d))) of
                           (err', r4) \<Rightarrow>
                             ((d, Some (case err' of
                                          None \<Rightarrow> io_ErrShortBuffer
                                        | Some e \<Rightarrow> if e = io_EOF then io_ErrUnexpectedEOF else e)),
                              r4))
                      else
                        ((d, if err = Some io_EOF then Some io_ErrUnexpectedEOF else err), r3))
               else if 0 < n then
                 (case DiscardN r2 (nat n) of
                    (Some e, r3) \<Rightarrow>
                      (([], Some (if e = io_EOF then io_ErrUnexpectedEOF else e)), r3)
                  | (None, r3) \<Rightarrow> ReadData r3 plen)
               else ReadData r2 plen))"
  by pat_completeness auto
termination
  by (relation "measure (\<lambda>(r, plen). length (rdata r))")
    (auto dest!: read_byte_shorter read_more_length [OF sym] DiscardN_length [OF sym])

declare ReadData.simps [simp del]

text \<open>\<open>dataPrefixForLength(n)\<close>, with its three cases in the order of the \<open>switch\<close>.\<close>

definition dataPrefixForLength :: "int \<Rightarrow> err + bytes" where
  "dataPrefixForLength n =
     (if drop_bit 0 n AND 0x3f = drop_bit 0 n then
        Inr [0x80 OR word_of_int (drop_bit 0 n AND 0x3f)]
      else if drop_bit 7 n AND 0x3f = drop_bit 7 n then
        Inr [0xc0 OR word_of_int (drop_bit 7 n AND 0x3f), word_of_int (drop_bit 0 n AND 0x7f)]
      else if drop_bit 14 n AND 0x3f = drop_bit 14 n then
        Inr [0xc0 OR word_of_int (drop_bit 14 n AND 0x3f),
             0x80 OR word_of_int (drop_bit 7 n AND 0x7f), word_of_int (drop_bit 0 n AND 0x7f)]
      else Inl ErrTooLong)"

definition WriteData :: "writer \<Rightarrow> bytes \<Rightarrow> (nat \<times> err option) \<times> writer" where
  "WriteData w data =
     (case dataPrefixForLength (int (length data)) of
        Inl e \<Rightarrow> ((0, Some e), w)
      | Inr prefix \<Rightarrow>
          (case Write w prefix of
             ((n1, Some e), w1) \<Rightarrow> ((n1, Some e), w1)
           | ((n1, None), w1) \<Rightarrow>
               (case Write w1 data of ((n2, err), w2) \<Rightarrow> ((n1 + n2, err), w2))))"

text \<open>The \<open>switch\<close> of \<open>WritePadding\<close>: how many padding bytes follow, and the prefix.\<close>

definition padding_prefix :: "int \<Rightarrow> int \<times> bytes" where
  "padding_prefix p =
     (if drop_bit 0 (p - 1) AND 0x3f = drop_bit 0 (p - 1) then
        (p - 1, [word_of_int (drop_bit 0 (p - 1) AND 0x3f)])
      else if drop_bit 7 (p - 2) AND 0x3f = drop_bit 7 (p - 2) then
        (p - 2, [0x40 OR word_of_int (drop_bit 7 (p - 2) AND 0x3f),
                 word_of_int (drop_bit 0 (p - 2) AND 0x7f)])
      else if drop_bit 14 (p - 3) AND 0x3f = drop_bit 14 (p - 3) then
        (p - 3, [0x40 OR word_of_int (drop_bit 14 (p - 3) AND 0x3f),
                 0x80 OR word_of_int (drop_bit 7 (p - 3) AND 0x3f),
                 word_of_int (drop_bit 0 (p - 3) AND 0x7f)])
      else (p, []))"

definition paddingBuffer :: bytes where
  "paddingBuffer = replicate 1024 0"

lemma length_paddingBuffer [simp]: "length paddingBuffer = 1024"
  by (simp only: paddingBuffer_def length_replicate)

function padding_loop :: "writer \<Rightarrow> int \<Rightarrow> nat \<Rightarrow> (nat \<times> err option) \<times> writer" where
  "padding_loop w n tot =
     (if 0 < n then
        (let p = (if n < int (length paddingBuffer) then n else int (length paddingBuffer));
             (q, prefix) = padding_prefix p
         in case Write w prefix of
              ((n1, Some e), w1) \<Rightarrow> ((tot + n1, Some e), w1)
            | ((n1, None), w1) \<Rightarrow>
                (case Write w1 (take (nat q) paddingBuffer) of
                   ((n2, Some e), w2) \<Rightarrow> ((tot + n1 + n2, Some e), w2)
                 | ((n2, None), w2) \<Rightarrow> padding_loop w2 (n - p) (tot + n1 + n2)))
      else ((tot, None), w))"
  by pat_completeness auto
termination
  by (relation "measure (\<lambda>(w, n, tot). nat n)") auto

declare padding_loop.simps [simp del]

text \<open>\<open>WritePadding\<close> panics on a negative length: \<^term>\<open>None\<close>.\<close>

definition WritePadding :: "writer \<Rightarrow> int \<Rightarrow> ((nat \<times> err option) \<times> writer) option" where
  "WritePadding w n = (if n < 0 then None else Some (padding_loop w n 0))"

text \<open>\<open>MaxDataForSize\<close> panics on zero: \<^term>\<open>None\<close>.\<close>

definition MaxDataForSize :: "int \<Rightarrow> int option" where
  "MaxDataForSize n =
     (if n = 0 then None
      else
        (case dataPrefixForLength n of
           Inl e \<Rightarrow> if e = ErrTooLong then Some (push_bit (6 + 7 + 7) 1 - 1 - 3) else None
         | Inr prefix \<Rightarrow> Some (n - int (length prefix))))"

subsection \<open>The documented format\<close>

text \<open>
  The specification the package comment gives: the length prefixes \<open>dcxxxxxx\<close>,
  \<open>dcxxxxxx cyyyyyyy\<close> and \<open>dcxxxxxx cyyyyyyy cyyyyyyy\<close>.  \<open>prefix_form k d n\<close> is the \<open>k\<close>-byte
  prefix of a chunk of \<open>n\<close> bytes, of data when \<open>d = 128\<close> and of padding when \<open>d = 0\<close>;
  it need not be the shortest one.
\<close>

definition prefix_form :: "nat \<Rightarrow> int \<Rightarrow> int \<Rightarrow> bytes" where
  "prefix_form k d n =
     (if k = 1 then [word_of_int (d + n)]
      else if k = 2 then [word_of_int (d + 64 + n div 128), word_of_int (n mod 128)]
      else [word_of_int (d + 64 + n div 16384), word_of_int (128 + n div 128 mod 128),
            word_of_int (n mod 128)])"

definition prefix_fits :: "nat \<Rightarrow> int \<Rightarrow> bool" where
  "prefix_fits k n \<longleftrightarrow>
     0 \<le> n \<and> (k = 1 \<and> n < 64 \<or> k = 2 \<and> n < 8192 \<or> k = 3 \<and> n < 1048576)"

datatype chunk = Data bytes | Padding bytes

fun encode_chunk :: "nat \<times> chunk \<Rightarrow> bytes" where
  "encode_chunk (k, Data d) = prefix_form k 128 (int (length d)) @ d"
| "encode_chunk (k, Padding d) = prefix_form k 0 (int (length d)) @ d"

fun chunk_fits :: "nat \<times> chunk \<Rightarrow> bool" where
  "chunk_fits (k, Data d) = prefix_fits k (int (length d))"
| "chunk_fits (k, Padding d) = prefix_fits k (int (length d))"

definition encode_stream :: "(nat \<times> chunk) list \<Rightarrow> bytes" where
  "encode_stream cs = concat (map encode_chunk cs)"

definition all_padding :: "(nat \<times> chunk) list \<Rightarrow> bool" where
  "all_padding cs \<longleftrightarrow> list_all (\<lambda>(k, c). case c of Padding _ \<Rightarrow> chunk_fits (k, c) | Data _ \<Rightarrow> False) cs"

section \<open>Lemmas\<close>

lemma byte_or_128: "0 \<le> y \<Longrightarrow> y < 128 \<Longrightarrow> (0x80 :: byte) OR word_of_int y = word_of_int (128 + y)"
  by (rule byte_or_numeral [of _ 7 _ 1]) simp_all

lemma byte_or_64: "0 \<le> y \<Longrightarrow> y < 64 \<Longrightarrow> (0x40 :: byte) OR word_of_int y = word_of_int (64 + y)"
  by (rule byte_or_numeral [of _ 6 _ 1]) simp_all

lemma byte_or_192: "0 \<le> y \<Longrightarrow> y < 64 \<Longrightarrow> (0xc0 :: byte) OR word_of_int y = word_of_int (192 + y)"
  by (rule byte_or_numeral [of _ 6 _ 3]) simp_all

lemma and_63_self: "(x::int) AND 63 = x \<longleftrightarrow> 0 \<le> x \<and> x < 64"
  by (auto simp: byte_simps mod_pos_pos_trivial elim: subst)

lemma drop_bit_fits:
  "drop_bit 0 n AND 0x3f = drop_bit 0 n \<longleftrightarrow> prefix_fits 1 n"
  "drop_bit 7 n AND 0x3f = drop_bit 7 n \<longleftrightarrow> prefix_fits 2 n"
  "drop_bit 14 n AND 0x3f = drop_bit 14 n \<longleftrightarrow> prefix_fits 3 n"
proof -
  have "0 \<le> n div 128 \<and> n div 128 < 64 \<longleftrightarrow> 0 \<le> n \<and> n < 8192"
    "0 \<le> n div 16384 \<and> n div 16384 < 64 \<longleftrightarrow> 0 \<le> n \<and> n < 1048576"
    by (auto simp: pos_imp_zdiv_nonneg_iff div_less_iff_less_mult)
  then show "drop_bit 0 n AND 0x3f = drop_bit 0 n \<longleftrightarrow> prefix_fits 1 n"
    "drop_bit 7 n AND 0x3f = drop_bit 7 n \<longleftrightarrow> prefix_fits 2 n"
    "drop_bit 14 n AND 0x3f = drop_bit 14 n \<longleftrightarrow> prefix_fits 3 n"
    by (simp_all add: and_63_self prefix_fits_def drop_bit_eq_div)
qed

text \<open>The bit-level prefixes of the code are the documented ones.\<close>

lemma data_prefix_form:
  "dataPrefixForLength n =
     (if prefix_fits 1 n then Inr (prefix_form 1 128 n)
      else if prefix_fits 2 n then Inr (prefix_form 2 128 n)
      else if prefix_fits 3 n then Inr (prefix_form 3 128 n)
      else Inl ErrTooLong)"
proof -
  have d: "drop_bit 7 n = n div 128" "drop_bit 14 n = n div 16384" "drop_bit 0 n = n"
    by (simp_all add: drop_bit_eq_div)
  have m: "n AND 0x7f = n mod 128" "(n div 128) AND 0x7f = n div 128 mod 128"
    by (simp_all add: byte_simps)
  have b: "0 \<le> n div 128 mod 128" "n div 128 mod 128 < 128" by simp_all
  have f1: "[0x80 OR word_of_int (n AND 0x3f)] = prefix_form 1 128 n" if f: "prefix_fits 1 n"
  proof -
    have "n AND 0x3f = n" "0 \<le> n" "n < 128"
      using f drop_bit_fits(1) [of n] by (simp_all add: d prefix_fits_def)
    then show ?thesis by (simp only: byte_or_128 prefix_form_def) simp
  qed
  have f2: "[0xc0 OR word_of_int (n div 128 AND 0x3f), word_of_int (n mod 128)]
      = prefix_form 2 128 n" if f: "prefix_fits 2 n"
  proof -
    have "n div 128 AND 0x3f = n div 128"
      using f drop_bit_fits(2) [of n] by (simp add: d)
    moreover from this have "0 \<le> n div 128" "n div 128 < 64"
      by (simp_all only: and_63_self)
    ultimately show ?thesis
      by (simp only: byte_or_192 prefix_form_def) simp
  qed
  have f3: "[0xc0 OR word_of_int (n div 16384 AND 0x3f),
             0x80 OR word_of_int (n div 128 mod 128), word_of_int (n mod 128)]
      = prefix_form 3 128 n" if f: "prefix_fits 3 n"
  proof -
    have "n div 16384 AND 0x3f = n div 16384"
      using f drop_bit_fits(3) [of n] by (simp add: d)
    moreover from this have "0 \<le> n div 16384" "n div 16384 < 64"
      by (simp_all only: and_63_self)
    ultimately show ?thesis
      using b by (simp only: byte_or_192 byte_or_128 prefix_form_def) simp
  qed
  show ?thesis
    by (simp only: dataPrefixForLength_def drop_bit_fits) (simp only: d m f1 f2 f3 cong: if_cong)
qed

lemma uint_prefix_byte:
  assumes "d = 0 \<or> d = 128" "0 \<le> m" "m < 64" "c = 0 \<or> c = 64"
  shows "uint (word_of_int (d + c + m) :: byte) = d + c + m"
  by (rule uint_byte_of_int) (use assms in auto)

lemma prefix_byte_mods:
  assumes "d = 0 \<or> d = 128" "c = 0 \<or> c = 64" "0 \<le> m" "m < (64::int)"
  shows "(d + c + m) mod 128 = c + m" "(d + c + m) mod 64 = m"
proof -
  have "(d + (c + m)) mod 128 = (c + m) mod 128" "(d + (c + m)) mod 64 = (c + m) mod 64"
    using assms(1) mod_mult_self1 [of "c + m" 1 128] mod_mult_self1 [of "c + m" 2 64]
    by (auto simp: add.commute)
  moreover have "(c + m) mod 128 = c + m" "(c + m) mod 64 = m"
    using assms(2-4) by (auto simp: mod_pos_pos_trivial)
  ultimately show "(d + c + m) mod 128 = c + m" "(d + c + m) mod 64 = m"
    by (simp_all add: add.assoc)
qed

lemma prefix_byte_bits:
  fixes b :: byte
  assumes u: "uint b = d + c + m" and dc: "d = 0 \<or> d = 128" "c = 0 \<or> c = 64"
    and m: "0 \<le> m" "m < 64"
  shows "b AND 0x40 \<noteq> 0 \<longleftrightarrow> c = 64" "uint (b AND 0x3f) = m" "b AND 0x80 \<noteq> 0 \<longleftrightarrow> d = 128"
  using dc m by (auto simp: byte_simps u prefix_byte_mods)

lemma prefix_bytes:
  assumes "prefix_fits k n" "d = 0 \<or> d = 128"
  obtains (One) b where "prefix_form k d n = [b]" "uint b = d + 0 + n" "0 \<le> n" "n < 64"
  | (Two) b c where "prefix_form k d n = [b, c]" "uint b = d + 64 + n div 128"
      "uint c = n mod 128" "0 \<le> n div 128" "n div 128 < 64"
  | (Three) b y c where "prefix_form k d n = [b, y, c]" "uint b = d + 64 + n div 16384"
      "uint y = 128 + n div 128 mod 128" "uint c = n mod 128"
      "0 \<le> n div 16384" "n div 16384 < 64"
proof -
  have c: "uint (word_of_int (n mod 128) :: byte) = n mod 128"
    by (rule uint_byte_of_int) (auto intro: order.strict_trans [OF pos_mod_bound])
  have "0 \<le> n div 128 mod 128" "n div 128 mod 128 < 128" by simp_all
  then have y: "uint (word_of_int (128 + n div 128 mod 128) :: byte) = 128 + n div 128 mod 128"
    by (intro uint_byte_of_int) linarith+
  consider "k = 1" "0 \<le> n" "n < 64" | "k = 2" "0 \<le> n" "n < 8192" | "k = 3" "0 \<le> n" "n < 1048576"
    using assms(1) by (auto simp: prefix_fits_def)
  then show thesis
  proof cases
    case 1
    with uint_prefix_byte [of d n 0] assms(2) show thesis
      by (intro One [of "word_of_int (d + n)"]) (simp_all add: prefix_form_def del: of_int_add)
  next
    case 2
    then have m: "0 \<le> n div 128" "n div 128 < 64"
      by (simp_all add: pos_imp_zdiv_nonneg_iff div_less_iff_less_mult)
    with 2 uint_prefix_byte [of d "n div 128" 64] assms(2) c show thesis
      by (intro Two [of "word_of_int (d + 64 + n div 128)" "word_of_int (n mod 128)"])
        (simp_all add: prefix_form_def del: of_int_add)
  next
    case 3
    then have m: "0 \<le> n div 16384" "n div 16384 < 64"
      by (simp_all add: pos_imp_zdiv_nonneg_iff div_less_iff_less_mult)
    with 3 uint_prefix_byte [of d "n div 16384" 64] assms(2) c y show thesis
      by (intro Three [of "word_of_int (d + 64 + n div 16384)"
            "word_of_int (128 + n div 128 mod 128)" "word_of_int (n mod 128)"])
        (simp_all add: prefix_form_def del: of_int_add)
  qed
qed

text \<open>
  Every documented prefix, minimal or not, is decoded to its length, and its first byte
  tells data from padding.
\<close>

lemma read_more_1:
  assumes "rdata r = b # rest" "uint b < 128"
  shows "read_more i True m r = (if 2 \<le> i then (Inl ErrTooLong, r)
    else (Inr (m * 128 + uint b), r\<lparr>rdata := rest\<rparr>))"
proof -
  have "push_bit 7 m OR uint (b AND 0x7f) = m * 128 + uint b"
    using push_bit_or_add [of "uint b" 7 m] assms(2) by (simp add: byte_simps)
  with assms show ?thesis
    by (simp add: read_more.simps [of i] read_more.simps [of "Suc i"] io_simps byte_simps)
qed

lemma read_more_2:
  assumes "rdata r = b # c # rest" "128 \<le> uint b" "uint c < 128"
  shows "read_more 0 True m r =
    (Inr ((m * 128 + (uint b - 128)) * 128 + uint c), r\<lparr>rdata := rest\<rparr>)"
proof -
  have u: "uint b mod 128 = uint b - 128"
    using assms(2) uint_byte_lt [of b] mod_pos_pos_trivial [of "uint b - 128" 128]
    by (simp add: mod_diff_eq [symmetric, of "uint b" 128])
  have "push_bit 7 m OR uint (b AND 0x7f) = m * 128 + (uint b - 128)"
    using push_bit_or_add [of "uint b - 128" 7 m] assms(2) uint_byte_lt [of b]
    by (simp add: byte_simps u)
  with assms show ?thesis
    by (simp add: read_more.simps [of 0] io_simps byte_simps read_more_1)
qed

lemma read_prefix:
  assumes "prefix_fits k n" "d = 0 \<or> d = 128"
    and r: "rdata r = prefix_form k d n @ rest"
  obtains b r1 where "read_byte r = Inr (b, r1)"
    and "read_more 0 (b AND 0x40 \<noteq> 0) (uint (b AND 0x3f)) r1 = (Inr n, r\<lparr>rdata := rest\<rparr>)"
    and "b AND 0x80 \<noteq> 0 \<longleftrightarrow> d = 128"
proof -
  from assms(1,2) show thesis
  proof (cases rule: prefix_bytes)
    case (One b)
    note bits = prefix_byte_bits [OF One(2) assms(2) disjI1 [OF refl] One(3,4)]
    from One(1) r bits show thesis
      by (intro that [of b "r\<lparr>rdata := rest\<rparr>"]) (simp_all add: io_simps read_more.simps)
  next
    case (Two b c)
    note bits = prefix_byte_bits [OF Two(2) assms(2) disjI2 [OF refl] Two(4,5)]
    from Two(1) r bits show thesis
      by (intro that [of b "r\<lparr>rdata := c # rest\<rparr>"])
        (simp_all add: io_simps read_more_1 Two(3))
  next
    case (Three b y c)
    note bits = prefix_byte_bits [OF Three(2) assms(2) disjI2 [OF refl] Three(5,6)]
    have "n div 16384 = n div 128 div 128" by (simp add: zdiv_zmult2_eq)
    then have "(n div 16384 * 128 + n div 128 mod 128) * 128 + n mod 128 = n" by simp
    with Three(1) r bits show thesis
      by (intro that [of b "r\<lparr>rdata := y # c # rest\<rparr>"])
        (simp_all add: io_simps read_more_2 Three(3,4))
  qed
qed

subsection \<open>Reading one chunk\<close>

lemma ReadData_data:
  assumes "prefix_fits k (int (length d))"
    and r: "rdata r = prefix_form k 128 (int (length d)) @ d @ rest" and "length d \<le> plen"
  shows "ReadData r plen = ((d, None), r\<lparr>rdata := rest\<rparr>)"
proof (rule read_prefix [OF assms(1) disjI2 [OF refl] r])
  fix b r1
  assume *: "read_byte r = Inr (b, r1)"
    "read_more 0 (b AND 64 \<noteq> 0) (uint (b AND 63)) r1 = (Inr (int (length d)), r\<lparr>rdata := d @ rest\<rparr>)"
    "(b AND 128 \<noteq> 0) = (128 = (128::int))"
  have "ReadFull (r\<lparr>rdata := d @ rest\<rparr>) (length d) = ((d, None), r\<lparr>rdata := rest\<rparr>)"
    by (simp add: ReadFull_def)
  with * assms(3) show ?thesis
    by (simp add: ReadData.simps [of r] min_def)
qed

lemma ReadData_short:
  assumes "prefix_fits k (int (length d))"
    and r: "rdata r = prefix_form k 128 (int (length d)) @ d @ rest" and "plen < length d"
  shows "ReadData r plen = ((take plen d, Some io_ErrShortBuffer), r\<lparr>rdata := rest\<rparr>)"
proof (rule read_prefix [OF assms(1) disjI2 [OF refl] r])
  fix b r1
  assume *: "read_byte r = Inr (b, r1)"
    "read_more 0 (b AND 64 \<noteq> 0) (uint (b AND 63)) r1 = (Inr (int (length d)), r\<lparr>rdata := d @ rest\<rparr>)"
    "(b AND 128 \<noteq> 0) = (128 = (128::int))"
  have "ReadFull (r\<lparr>rdata := d @ rest\<rparr>) plen =
      ((take plen d, None), r\<lparr>rdata := drop plen d @ rest\<rparr>)"
    using assms(3) by (simp add: ReadFull_def)
  moreover have "DiscardN (r\<lparr>rdata := drop plen d @ rest\<rparr>) (nat (int (length d) - int plen)) =
      (None, r\<lparr>rdata := rest\<rparr>)"
    using assms(3) by (simp add: DiscardN_def)
  ultimately show ?thesis
    using * assms(3) by (simp add: ReadData.simps [of r] min_def)
qed

lemma ReadData_chunk:
  assumes "prefix_fits k (int (length d))"
  shows "ReadData \<lparr>rdata = prefix_form k 128 (int (length d)) @ d @ s, rerr = e\<rparr> plen =
    ((take plen d, if length d \<le> plen then None else Some io_ErrShortBuffer), \<lparr>rdata = s, rerr = e\<rparr>)"
  using ReadData_data [OF assms, of _ s plen] ReadData_short [OF assms, of _ s plen]
  by (cases "length d \<le> plen") simp_all

lemma ReadData_padding:
  assumes "prefix_fits k (int (length d))"
    and r: "rdata r = prefix_form k 0 (int (length d)) @ d @ rest"
  shows "ReadData r plen = ReadData (r\<lparr>rdata := rest\<rparr>) plen"
proof (rule read_prefix [OF assms(1) disjI1 [OF refl] r])
  fix b r1
  assume *: "read_byte r = Inr (b, r1)"
    "read_more 0 (b AND 64 \<noteq> 0) (uint (b AND 63)) r1 = (Inr (int (length d)), r\<lparr>rdata := d @ rest\<rparr>)"
    "(b AND 128 \<noteq> 0) = (0 = (128::int))"
  have "DiscardN (r\<lparr>rdata := d @ rest\<rparr>) (length d) = (None, r\<lparr>rdata := rest\<rparr>)"
    by (simp add: DiscardN_def)
  with * show ?thesis
    by (simp add: ReadData.simps [of r])
qed

lemma ReadData_end: "rdata r = [] \<Longrightarrow> ReadData r plen = (([], Some (rerr r)), r)"
  by (simp add: ReadData.simps [of r] io_simps)

subsection \<open>Only documented chunks are accepted\<close>

lemma byte_split:
  fixes b :: byte
  shows "uint b = (if b AND 0x80 \<noteq> 0 then 128 else 0) + (if b AND 0x40 \<noteq> 0 then 64 else 0)
    + uint (b AND 0x3f)"
proof -
  let ?y = "uint b mod 128"
  have "(if uint b < 128 then 0 else 128) + ?y = uint b"
    by (rule int_mod_step) simp_all
  moreover have "(if ?y < 64 then 0 else 64) + ?y mod 64 = ?y"
    by (rule int_mod_step) simp_all
  moreover have "?y mod 64 = uint b mod 64" by (simp add: mod_mod_cancel)
  ultimately show ?thesis
    unfolding byte_and_128 byte_and_64 uint_and_63 by (simp only: if_not_P if_P split: if_splits) auto
qed

lemma uint_and_63_bounds: "0 \<le> uint ((b::byte) AND 63)" "uint ((b::byte) AND 63) < 64"
  by (simp_all add: byte_simps)

lemma prefix_form_inv:
  fixes b c y :: byte
  defines "d \<equiv> (if b AND 0x80 \<noteq> 0 then 128 else 0)" and "m \<equiv> uint (b AND 0x3f)"
  shows "b AND 0x40 = 0 \<Longrightarrow> prefix_form 1 d m = [b] \<and> prefix_fits 1 m"
    and "b AND 0x40 \<noteq> 0 \<Longrightarrow> uint c < 128 \<Longrightarrow>
      prefix_form 2 d (m * 128 + uint c) = [b, c] \<and> prefix_fits 2 (m * 128 + uint c)"
    and "b AND 0x40 \<noteq> 0 \<Longrightarrow> 128 \<le> uint y \<Longrightarrow> uint c < 128 \<Longrightarrow>
      prefix_form 3 d ((m * 128 + (uint y - 128)) * 128 + uint c) = [b, y, c] \<and>
      prefix_fits 3 ((m * 128 + (uint y - 128)) * 128 + uint c)"
proof -
  have b: "word_of_int (d + (if b AND 0x40 \<noteq> 0 then 64 else 0) + m) = b"
    unfolding d_def m_def byte_split [symmetric] by simp
  have m: "0 \<le> m" "m < 64" unfolding m_def by (rule uint_and_63_bounds)+
  show "b AND 0x40 = 0 \<Longrightarrow> prefix_form 1 d m = [b] \<and> prefix_fits 1 m"
    using b m by (simp add: prefix_form_def prefix_fits_def del: of_int_add)
  show "prefix_form 2 d (m * 128 + uint c) = [b, c] \<and> prefix_fits 2 (m * 128 + uint c)"
    if "b AND 0x40 \<noteq> 0" "uint c < 128"
  proof -
    note int_divmod_add [OF uint_ge_0 that(2), of m]
    with b m that show ?thesis by (simp add: prefix_form_def prefix_fits_def del: of_int_add)
  qed
  show "prefix_form 3 d ((m * 128 + (uint y - 128)) * 128 + uint c) = [b, y, c] \<and>
      prefix_fits 3 ((m * 128 + (uint y - 128)) * 128 + uint c)"
    if "b AND 0x40 \<noteq> 0" "128 \<le> uint y" "uint c < 128"
  proof -
    define q where "q = m * 128 + (uint y - 128)"
    define n where "n = q * 128 + uint c"
    have y: "0 \<le> uint y - 128" "uint y - 128 < 128" using that(2) uint_byte_lt [of y] by simp_all
    have n: "n div 128 = q" "n mod 128 = uint c"
      unfolding n_def by (rule int_divmod_add [OF uint_ge_0 that(3)])+
    have q: "q div 128 = m" "q mod 128 = uint y - 128"
      unfolding q_def by (rule int_divmod_add [OF y])+
    have "n div 16384 = n div 128 div 128" by (simp add: zdiv_zmult2_eq)
    then have "n div 16384 = m" by (simp add: n q)
    moreover have "0 \<le> q" "q < 8192" using m y unfolding q_def by linarith+
    then have "0 \<le> n" "n < 1048576" using that(3) uint_ge_0 [of c] unfolding n_def by linarith+
    ultimately show ?thesis
      using b that unfolding n_def [symmetric] q_def [symmetric]
      by (simp add: prefix_form_def prefix_fits_def n q del: of_int_add)
  qed
qed

lemma read_more_inv:
  assumes "read_more 0 True m r = (Inr n, r')"
  obtains (One) c where "rdata r = c # rdata r'" "uint c < 128" "n = m * 128 + uint c"
      "rerr r' = rerr r"
  | (Two) y c where "rdata r = y # c # rdata r'" "128 \<le> uint y" "uint c < 128"
      "n = (m * 128 + (uint y - 128)) * 128 + uint c" "rerr r' = rerr r"
proof (cases "rdata r")
  case Nil
  with assms show thesis by (simp add: read_more.simps [of 0] io_simps)
next
  case (Cons c bs)
  show thesis
  proof (cases "uint c < 128")
    case True
    with assms Cons read_more_1 [of r c bs 0 m] show thesis
      by (intro One [of c]) auto
  next
    case False
    have "read_more (Suc 0) True (push_bit 7 m OR uint (c AND 0x7f)) (r\<lparr>rdata := bs\<rparr>) = (Inr n, r')"
      using assms Cons False by (simp add: read_more.simps [of 0] io_simps byte_simps)
    moreover from this obtain e es where bs: "bs = e # es"
      by (cases bs) (auto simp: read_more.simps [of "Suc 0"] io_simps)
    ultimately have e: "uint e < 128"
      by (rule_tac ccontr) (simp add: read_more.simps [of "Suc 0"] read_more.simps [of "Suc (Suc 0)"]
        io_simps byte_simps)
    have "read_more 0 True m r =
        (Inr ((m * 128 + (uint c - 128)) * 128 + uint e), r\<lparr>rdata := es\<rparr>)"
      using read_more_2 [of r c e es m] Cons bs e False by simp
    with assms Cons bs e False show thesis
      by (intro Two [of c e]) auto
  qed
qed

lemma prefix_inv:
  assumes "read_byte r = Inr (b, r1)"
    and "read_more 0 (b AND 0x40 \<noteq> 0) (uint (b AND 0x3f)) r1 = (Inr n, r2)"
  obtains k where "prefix_fits k n" "rerr r2 = rerr r"
    and "rdata r = prefix_form k (if b AND 0x80 \<noteq> 0 then 128 else 0) n @ rdata r2"
proof -
  have r1: "rdata r = b # rdata r1" "rerr r1 = rerr r"
    using assms(1) by (auto simp: read_byte_def split: list.splits)
  show thesis
  proof (cases "b AND 0x40 = 0")
    case True
    with assms(2) have "n = uint (b AND 0x3f)" "r2 = r1" by (simp_all add: read_more.simps)
    with r1 prefix_form_inv(1) [OF True] show thesis by (intro that [of 1]) simp_all
  next
    case False
    with assms(2) have "read_more 0 True (uint (b AND 0x3f)) r1 = (Inr n, r2)" by simp
    then show thesis
    proof (cases rule: read_more_inv)
      case (One c)
      with r1 prefix_form_inv(2) [OF False One(2)] show thesis
        by (intro that [of 2]) simp_all
    next
      case (Two y c)
      with r1 prefix_form_inv(3) [OF False Two(2,3)] show thesis
        by (intro that [of 3]) simp_all
    qed
  qed
qed

text \<open>
  A packet that \<open>ReadData\<close> delivers is the content of a documented data chunk, after
  documented padding chunks only.
\<close>

lemma ReadFull_inv:
  "ReadFull r k = ((d, None), r') \<longleftrightarrow> rdata r = d @ rdata r' \<and> length d = k \<and> rerr r' = rerr r"
  by (auto simp: ReadFull_def split: if_splits intro: reader.equality)

lemma DiscardN_inv:
  "DiscardN r k = (None, r') \<Longrightarrow> \<exists>d. rdata r = d @ rdata r' \<and> length d = k \<and> rerr r' = rerr r"
  by (rule exI [of _ "take k (rdata r)"]) (auto simp: DiscardN_def split: if_splits)

lemma all_padding_simps [simp]:
  "all_padding []"
  "all_padding ((k, Padding p) # cs) \<longleftrightarrow> prefix_fits k (int (length p)) \<and> all_padding cs"
  "\<not> all_padding ((k, Data p) # cs)"
  by (simp_all add: all_padding_def)

lemma encode_stream_simps [simp]:
  "encode_stream [] = []"
  "encode_stream (c # cs) = encode_chunk c @ encode_stream cs"
  "encode_stream (as @ bs) = encode_stream as @ encode_stream bs"
  by (simp_all add: encode_stream_def)

text \<open>The three ways a call goes on after a complete length prefix.\<close>

lemma read_more_not_EOF: "read_more i m n r = (Inl e, r') \<Longrightarrow> e \<noteq> io_EOF"
proof (induction i m n r rule: read_more.induct)
  case (1 i m n r)
  show ?case
    using "1.prems" "1.IH"
    by (cases "read_byte r")
      (auto simp: read_more.simps [of i] ErrTooLong_def split: if_splits)
qed

lemma ReadData_cases:
  obtains (At_End) "rdata r = []"
  | (Is_Data) k n s where "prefix_fits k (int n)" "rdata r = prefix_form k 128 (int n) @ s"
  | (Is_Padding) k p s where "prefix_fits k (int (length p))"
    "rdata r = prefix_form k 0 (int (length p)) @ p @ s"
    "ReadData r plen = ReadData (r\<lparr>rdata := s\<rparr>) plen"
  | (Cut) e r' where "ReadData r plen = (([], Some e), r')" "e \<noteq> io_EOF"
proof (cases "read_byte r")
  case (Inl e)
  then show thesis by (intro At_End) (auto simp: read_byte_def split: list.splits)
next
  case (Inr q)
  obtain b r1 where rb: "read_byte r = Inr (b, r1)" using Inr by (cases q) auto
  obtain x r2 where rm: "read_more 0 (b AND 0x40 \<noteq> 0) (uint (b AND 0x3f)) r1 = (x, r2)"
    by (cases "read_more 0 (b AND 0x40 \<noteq> 0) (uint (b AND 0x3f)) r1")
  show thesis
  proof (cases x)
    case (Inl e)
    with rm have "e \<noteq> io_EOF" by (auto dest: read_more_not_EOF)
    with Inl rb rm show thesis by (intro Cut) (auto simp: ReadData.simps [of r])
  next
    case (Inr n)
    from rb rm [unfolded Inr] obtain k where k: "prefix_fits k n" "rerr r2 = rerr r"
      "rdata r = prefix_form k (if b AND 0x80 \<noteq> 0 then 128 else 0) n @ rdata r2"
      by (rule prefix_inv)
    then have n: "n = int (nat n)" by (simp add: prefix_fits_def)
    show thesis
    proof (cases "b AND 0x80 = 0")
      case False
      with k n show thesis by (intro Is_Data [of k "nat n" "rdata r2"]) simp_all
    next
      case True
      show thesis
      proof (cases "nat n \<le> length (rdata r2)")
        case le: True
        define p s where "p = take (nat n) (rdata r2)" and "s = drop (nat n) (rdata r2)"
        have "int (length p) = n" "rdata r2 = p @ s" using le n by (simp_all add: p_def s_def)
        with k True ReadData_padding [of k p r s plen] show thesis
          by (intro Is_Padding [of k p s]) simp_all
      next
        case False
        with True rb rm Inr n show thesis
          by (intro Cut [of "if rerr r2 = io_EOF then io_ErrUnexpectedEOF else rerr r2"
                "r2\<lparr>rdata := []\<rparr>"]) (auto simp: ReadData.simps [of r] DiscardN_def)
      qed
    qed
  qed
qed

lemma ReadData_cut_data:
  assumes "prefix_fits k (int n)" and r: "rdata r = prefix_form k 128 (int n) @ s" and "length s < n"
  shows "fst (ReadData r plen) = (take plen s, Some (if rerr r = io_EOF then io_ErrUnexpectedEOF else rerr r))"
proof (rule read_prefix [OF assms(1) disjI2 [OF refl] r])
  fix b r1
  assume *: "read_byte r = Inr (b, r1)"
    "read_more 0 (b AND 64 \<noteq> 0) (uint (b AND 63)) r1 = (Inr (int n), r\<lparr>rdata := s\<rparr>)"
    "(b AND 128 \<noteq> 0) = (128 = (128::int))"
  with assms(3) show ?thesis
    by (auto simp: ReadData.simps [of r] ReadFull_def DiscardN_def min_def)
qed

lemma ReadData_sound_data:
  assumes "prefix_fits k (int n)" "rdata r = prefix_form k 128 (int n) @ s"
    and "ReadData r plen = ((d, None), r')"
  shows "length d = n" "s = d @ rdata r'" "length d \<le> plen" "rerr r' = rerr r"
proof -
  have n: "n \<le> length s"
    using ReadData_cut_data [OF assms(1,2), of plen] assms(3) by (cases "n \<le> length s") auto
  define a b where "a = take n s" and "b = drop n s"
  have s: "s = a @ b" "length a = n" using n by (simp_all add: a_def b_def)
  have "n \<le> plen"
    using ReadData_short [of k a r b plen] assms s by (cases "n \<le> plen") auto
  then have "ReadData r plen = ((a, None), r\<lparr>rdata := b\<rparr>)"
    using ReadData_data [of k a r b plen] assms s by simp
  with assms(3) s \<open>n \<le> plen\<close>
  show "length d = n" "s = d @ rdata r'" "length d \<le> plen" "rerr r' = rerr r" by auto
qed

lemma ReadData_sound:
  assumes "ReadData r plen = ((d, None), r')"
  shows "\<exists>cs k. all_padding cs \<and> prefix_fits k (int (length d)) \<and> length d \<le> plen \<and> rerr r' = rerr r \<and>
    rdata r = encode_stream cs @ prefix_form k 128 (int (length d)) @ d @ rdata r'"
  using assms
proof (induction "length (rdata r)" arbitrary: r rule: less_induct)
  case less
  show ?case
  proof (cases rule: ReadData_cases [where r = r and plen = plen])
    case At_End
    with less.prems show ?thesis by (simp add: ReadData_end)
  next
    case (Is_Data k n s)
    with ReadData_sound_data [OF Is_Data less.prems] show ?thesis
      by (intro exI [of _ "[]"] exI [of _ k]) simp
  next
    case (Is_Padding k p s)
    have "length (rdata (r\<lparr>rdata := s\<rparr>)) < length (rdata r)"
      using Is_Padding(2) by (simp add: prefix_form_def)
    from less.hyps [OF this] less.prems Is_Padding(3) obtain cs k' where
      "all_padding cs" "prefix_fits k' (int (length d))" "length d \<le> plen" "rerr r' = rerr r"
      "s = encode_stream cs @ prefix_form k' 128 (int (length d)) @ d @ rdata r'" by auto
    with Is_Padding(1,2) show ?thesis
      by (intro exI [of _ "(k, Padding p) # cs"] exI [of _ k']) simp
  next
    case (Cut e r')
    with less.prems show ?thesis by simp
  qed
qed

lemma ReadData_EOF:
  assumes "ReadData r plen = ((d, Some io_EOF), r')"
  shows "d = [] \<and> rerr r = io_EOF \<and> (\<exists>cs. all_padding cs \<and> rdata r = encode_stream cs)"
  using assms
proof (induction "length (rdata r)" arbitrary: r rule: less_induct)
  case less
  show ?case
  proof (cases rule: ReadData_cases [where r = r and plen = plen])
    case At_End
    with less.prems show ?thesis by (simp add: ReadData_end) (metis all_padding_simps(1) encode_stream_simps(1))
  next
    case (Is_Data k n s)
    then consider "length s < n" | "n \<le> length s" "plen < n" | "n \<le> length s" "n \<le> plen" by linarith
    then show ?thesis
    proof cases
      case 1
      from ReadData_cut_data [OF Is_Data 1, of plen] less.prems show ?thesis by (auto split: if_splits)
    next
      case 2
      with ReadData_short [of k "take n s" r "drop n s" plen] Is_Data less.prems show ?thesis by simp
    next
      case 3
      with ReadData_data [of k "take n s" r "drop n s" plen] Is_Data less.prems show ?thesis by simp
    qed
  next
    case (Is_Padding k p s)
    have "length (rdata (r\<lparr>rdata := s\<rparr>)) < length (rdata r)"
      using Is_Padding(2) by (simp add: prefix_form_def)
    from less.hyps [OF this] less.prems Is_Padding(3) obtain cs where
      "d = []" "rerr r = io_EOF" "all_padding cs" "s = encode_stream cs" by auto
    with Is_Padding(1,2) show ?thesis
      by (intro conjI exI [of _ "(k, Padding p) # cs"]) simp_all
  next
    case (Cut e r')
    with less.prems show ?thesis by simp
  qed
qed

lemma ReadData_skip_padding:
  "all_padding cs \<Longrightarrow> rdata r = encode_stream cs @ s \<Longrightarrow>
    ReadData r plen = ReadData (r\<lparr>rdata := s\<rparr>) plen"
proof (induction cs arbitrary: r)
  case (Cons c cs)
  obtain k p where c: "c = (k, Padding p)"
    using Cons.prems(1) by (cases c rule: encode_chunk.cases) simp_all
  with Cons.prems ReadData_padding [of k p r "encode_stream cs @ s" plen]
    Cons.IH [of "r\<lparr>rdata := encode_stream cs @ s\<rparr>"]
  show ?case by simp
qed simp

subsection \<open>Writing\<close>

lemma data_prefix_fits:
  assumes "0 \<le> n" "n < 1048576"
  obtains k where "dataPrefixForLength n = Inr (prefix_form k 128 n)" "prefix_fits k n"
    "int (length (prefix_form k 128 n)) = (if n < 64 then 1 else if n < 8192 then 2 else 3)"
proof -
  consider "n < 64" | "64 \<le> n" "n < 8192" | "8192 \<le> n" by linarith
  then show thesis
  proof cases
    case 1
    with assms show thesis
      by (intro that [of 1]) (simp_all add: data_prefix_form prefix_fits_def prefix_form_def)
  next
    case 2
    with assms show thesis
      by (intro that [of 2]) (simp_all add: data_prefix_form prefix_fits_def prefix_form_def)
  next
    case 3
    with assms show thesis
      by (intro that [of 3]) (simp_all add: data_prefix_form prefix_fits_def prefix_form_def)
  qed
qed

lemma data_prefix_too_long: "1048576 \<le> n \<Longrightarrow> dataPrefixForLength n = Inl ErrTooLong"
  by (simp add: data_prefix_form prefix_fits_def)

lemma WriteData_unlimited:
  assumes "length data < 1048576" "wroom w = None"
  obtains k where "prefix_fits k (int (length data))"
    and "WriteData w data = ((length (encode_chunk (k, Data data)), None),
      w\<lparr>wout := wout w @ encode_chunk (k, Data data)\<rparr>)"
    and "length (encode_chunk (k, Data data)) = length data +
      (if length data < 64 then 1 else if length data < 8192 then 2 else 3)"
proof -
  obtain k where k: "dataPrefixForLength (int (length data)) = Inr (prefix_form k 128 (int (length data)))"
    "prefix_fits k (int (length data))" "int (length (prefix_form k 128 (int (length data)))) =
      (if int (length data) < 64 then 1 else if int (length data) < 8192 then 2 else 3)"
    using data_prefix_fits [of "int (length data)"] assms(1) by auto
  then show thesis
    using assms(2) by (intro that [of k]) (auto simp: WriteData_def Write_unlimited split: if_splits)
qed

lemma padding_prefix_form:
  assumes "0 < p" "p \<le> 1024"
  obtains k q where "padding_prefix p = (q, prefix_form k 0 q)" "prefix_fits k q" "q \<le> 1024"
    "int (length (prefix_form k 0 q)) + q = p"
proof -
  have f1: "drop_bit 0 (p - 1) AND 0x3f = drop_bit 0 (p - 1) \<longleftrightarrow> prefix_fits 1 (p - 1)"
    and f2: "drop_bit 7 (p - 2) AND 0x3f = drop_bit 7 (p - 2) \<longleftrightarrow> prefix_fits 2 (p - 2)"
    by (rule drop_bit_fits)+
  show thesis
  proof (cases "p \<le> 64")
    case True
    then have "prefix_fits 1 (p - 1)" "(p - 1) mod 64 = p - 1"
      using assms by (simp_all add: prefix_fits_def mod_pos_pos_trivial)
    with True show thesis
      by (intro that [of "p - 1" 1]) (simp_all add: padding_prefix_def f1 prefix_form_def byte_simps)
  next
    case False
    have d: "0 \<le> (p - 2) div 128" "(p - 2) div 128 < 64"
      using False assms by (simp_all add: pos_imp_zdiv_nonneg_iff div_less_iff_less_mult)
    then have "((p - 2) div 128) mod 64 = (p - 2) div 128" by (rule mod_pos_pos_trivial)
    moreover from False have "\<not> prefix_fits 1 (p - 1)" "prefix_fits 2 (p - 2)"
      using assms by (simp_all add: prefix_fits_def)
    moreover have "(p - 1) mod 64 \<noteq> p - 1" using False pos_mod_bound [of 64 "p - 1"] by linarith
    ultimately show thesis
      using assms byte_or_64 [OF d]
      by (intro that [of "p - 2" 2])
        (simp_all add: padding_prefix_def f1 f2 prefix_form_def drop_bit_eq_div byte_simps del: of_int_add)
  qed
qed

lemma take_paddingBuffer: "q \<le> 1024 \<Longrightarrow> take q paddingBuffer = replicate q 0"
  by (simp only: paddingBuffer_def take_replicate min_absorb1)

lemma padding_loop_unlimited:
  assumes "0 \<le> n" "wroom w = None"
  shows "\<exists>cs. all_padding cs \<and> length (encode_stream cs) = nat n \<and>
    padding_loop w n tot = ((tot + nat n, None), w\<lparr>wout := wout w @ encode_stream cs\<rparr>)"
  using assms
proof (induction "nat n" arbitrary: w n tot rule: less_induct)
  case less
  show ?case
  proof (cases "0 < n")
    case False
    with less.prems show ?thesis by (intro exI [of _ "[]"]) (simp add: padding_loop.simps)
  next
    case True
    define p where "p = (if n < 1024 then n else 1024)"
    with True have p: "0 < p" "p \<le> 1024" "p \<le> n" by simp_all
    obtain k q where q: "padding_prefix p = (q, prefix_form k 0 q)" "prefix_fits k q" "q \<le> 1024"
      "int (length (prefix_form k 0 q)) + q = p" by (rule padding_prefix_form [OF p(1,2)])
    have q0: "0 \<le> q" using q(2) by (simp add: prefix_fits_def)
    define c where "c = (k, Padding (replicate (nat q) 0))"
    have t: "take (nat q) paddingBuffer = replicate (nat q) 0" "nat q \<le> 1024"
      using q(3) by (simp_all add: take_paddingBuffer)
    have c: "encode_chunk c = prefix_form k 0 q @ replicate (nat q) 0" "int (length (encode_chunk c)) = p"
      using q0 q(4) by (simp_all add: c_def)
    define w2 where "w2 = w\<lparr>wout := wout w @ encode_chunk c\<rparr>"
    have step: "padding_loop w n tot = padding_loop w2 (n - p) (tot + length (encode_chunk c))"
      using True q(1) less.prems t p_def
      by (cases "n < 1024") (simp_all add: padding_loop.simps [of w] Write_unlimited w2_def c add.assoc)
    have "\<exists>cs. all_padding cs \<and> length (encode_stream cs) = nat (n - p) \<and>
      padding_loop w2 (n - p) (tot + length (encode_chunk c)) =
        ((tot + length (encode_chunk c) + nat (n - p), None), w2\<lparr>wout := wout w2 @ encode_stream cs\<rparr>)"
      using p less.prems by (intro less.hyps) (simp_all add: w2_def)
    then obtain cs where cs: "all_padding cs" "length (encode_stream cs) = nat (n - p)"
      "padding_loop w2 (n - p) (tot + length (encode_chunk c)) =
        ((tot + length (encode_chunk c) + nat (n - p), None), w2\<lparr>wout := wout w2 @ encode_stream cs\<rparr>)"
      by blast
    moreover have "length (encode_chunk c) + nat (n - p) = nat n" using c(2) p by linarith
    ultimately show ?thesis
      using q(2) q0 by (intro exI [of _ "c # cs"]) (simp add: step w2_def, simp add: c_def)
  qed
qed

section \<open>Properties\<close>

text \<open>
  C14. \<open>ReadData\<close> accepts exactly the documented format: it returns the packet \<open>d\<close> without an
  error if and only if the stream holds, after any number of complete padding chunks, a data
  chunk whose content is \<open>d\<close> and \<open>d\<close> fits the buffer, and it then consumes that chunk entirely.
\<close>

theorem ReadData_exact:
  "ReadData r plen = ((d, None), r') \<longleftrightarrow>
     length d \<le> plen \<and> rerr r' = rerr r \<and>
     (\<exists>cs k. all_padding cs \<and> chunk_fits (k, Data d) \<and>
        rdata r = encode_stream cs @ encode_chunk (k, Data d) @ rdata r')"
proof
  assume "ReadData r plen = ((d, None), r')"
  from ReadData_sound [OF this] show "length d \<le> plen \<and> rerr r' = rerr r \<and>
     (\<exists>cs k. all_padding cs \<and> chunk_fits (k, Data d) \<and>
        rdata r = encode_stream cs @ encode_chunk (k, Data d) @ rdata r')"
    by auto
next
  assume "length d \<le> plen \<and> rerr r' = rerr r \<and>
     (\<exists>cs k. all_padding cs \<and> chunk_fits (k, Data d) \<and>
        rdata r = encode_stream cs @ encode_chunk (k, Data d) @ rdata r')"
  then obtain cs k where *: "length d \<le> plen" "rerr r' = rerr r" "all_padding cs"
    "prefix_fits k (int (length d))"
    "rdata r = encode_stream cs @ prefix_form k 128 (int (length d)) @ d @ rdata r'" by auto
  have "r\<lparr>rdata := rdata r'\<rparr> = r'" using *(2) by (intro reader.equality) simp_all
  moreover have "ReadData r plen = ReadData (r\<lparr>rdata := prefix_form k 128 (int (length d)) @ d @ rdata r'\<rparr>) plen"
    by (rule ReadData_skip_padding) fact+
  moreover have "ReadData (r\<lparr>rdata := prefix_form k 128 (int (length d)) @ d @ rdata r'\<rparr>) plen =
      ((d, None), r\<lparr>rdata := prefix_form k 128 (int (length d)) @ d @ rdata r', rdata := rdata r'\<rparr>)"
    by (rule ReadData_data [OF *(4) _ *(1)]) simp
  ultimately show "ReadData r plen = ((d, None), r')" by simp
qed

text \<open>
  C16. \<open>ReadData\<close> reports \<open>io.EOF\<close> if and only if the stream ends cleanly, that is, consists of
  complete padding chunks only.  A stream cut inside a chunk never looks like a clean end.
\<close>

theorem ReadData_EOF_exact:
  "snd (fst (ReadData r plen)) = Some io_EOF \<longleftrightarrow>
     rerr r = io_EOF \<and> (\<exists>cs. all_padding cs \<and> rdata r = encode_stream cs)"
proof
  assume "snd (fst (ReadData r plen)) = Some io_EOF"
  then show "rerr r = io_EOF \<and> (\<exists>cs. all_padding cs \<and> rdata r = encode_stream cs)"
    using ReadData_EOF [of r plen] by (metis prod.collapse)
next
  assume "rerr r = io_EOF \<and> (\<exists>cs. all_padding cs \<and> rdata r = encode_stream cs)"
  then obtain cs where "rerr r = io_EOF" "all_padding cs" "rdata r = encode_stream cs" by blast
  then show "snd (fst (ReadData r plen)) = Some io_EOF"
    using ReadData_skip_padding [of cs r "[]" plen] by (simp add: ReadData_end)
qed

text \<open>
  C24. \<open>WritePadding\<close> on a working writer writes exactly \<open>n\<close> bytes, reports that count, and what
  it writes is complete padding chunks, so that every reader skips it.
\<close>

theorem WritePadding_exact:
  assumes "0 \<le> n" "wroom w = None"
  shows "\<exists>p. WritePadding w n = Some ((nat n, None), w\<lparr>wout := wout w @ p\<rparr>) \<and> length p = nat n \<and>
    (\<forall>e s plen. ReadData \<lparr>rdata = p @ s, rerr = e\<rparr> plen = ReadData \<lparr>rdata = s, rerr = e\<rparr> plen)"
proof -
  obtain cs where "all_padding cs" "length (encode_stream cs) = nat n"
    "padding_loop w n 0 = ((nat n, None), w\<lparr>wout := wout w @ encode_stream cs\<rparr>)"
    using padding_loop_unlimited [OF assms, of 0] by auto
  then show ?thesis
    using assms(1) by (intro exI [of _ "encode_stream cs"])
      (simp add: WritePadding_def ReadData_skip_padding)
qed

theorem WritePadding_exact_witness:
  "\<exists>p. WritePadding (bytes_Buffer []) 2000 = Some ((2000, None), (bytes_Buffer [])\<lparr>wout := p\<rparr>)"
  using WritePadding_exact [of 2000 "bytes_Buffer []"] by (auto simp: bytes_Buffer_def)

text \<open>
  C20. A packet written by \<open>WriteData\<close> comes back unchanged from \<open>ReadData\<close>, whatever follows it
  in the stream, if it is shorter than \<open>2\<^sup>2\<^sup>0\<close> bytes; a longer one is refused with
  \<open>ErrTooLong\<close> and nothing is written.  If the reader's buffer is too small, it gets the first
  bytes and \<open>io.ErrShortBuffer\<close>, and the next read starts at the next chunk.
\<close>

theorem WriteData_ReadData:
  assumes "wroom w = None"
  shows "(length data < 2 ^ 20 \<longrightarrow>
      (\<exists>p. WriteData w data = ((length p, None), w\<lparr>wout := wout w @ p\<rparr>) \<and>
        (\<forall>e s plen. ReadData \<lparr>rdata = p @ s, rerr = e\<rparr> plen =
          ((take plen data, if length data \<le> plen then None else Some io_ErrShortBuffer),
           \<lparr>rdata = s, rerr = e\<rparr>)))) \<and>
    (2 ^ 20 \<le> length data \<longrightarrow> WriteData w data = ((0, Some ErrTooLong), w))"
proof (intro conjI impI)
  assume "length data < 2 ^ 20"
  then obtain k where k: "prefix_fits k (int (length data))"
    "WriteData w data = ((length (encode_chunk (k, Data data)), None),
      w\<lparr>wout := wout w @ encode_chunk (k, Data data)\<rparr>)"
    by (rule_tac WriteData_unlimited [of data w]) (simp_all add: assms)
  then show "\<exists>p. WriteData w data = ((length p, None), w\<lparr>wout := wout w @ p\<rparr>) \<and>
      (\<forall>e s plen. ReadData \<lparr>rdata = p @ s, rerr = e\<rparr> plen =
        ((take plen data, if length data \<le> plen then None else Some io_ErrShortBuffer),
         \<lparr>rdata = s, rerr = e\<rparr>))"
    using ReadData_chunk [OF k(1)] by (intro exI [of _ "encode_chunk (k, Data data)"]) simp
next
  assume "2 ^ 20 \<le> length data"
  then show "WriteData w data = ((0, Some ErrTooLong), w)"
    by (simp add: WriteData_def data_prefix_too_long)
qed

theorem WriteData_ReadData_witness:
  "\<exists>p. WriteData (bytes_Buffer []) [1, 2, 3] = ((length p, None), bytes_Buffer p) \<and>
     ReadData (bytes_Reader p) 2 = (([1, 2], Some io_ErrShortBuffer), bytes_Reader [])"
proof -
  obtain p where "WriteData (bytes_Buffer []) [1, 2, 3] = ((length p, None), bytes_Buffer p)"
    and p: "ReadData \<lparr>rdata = p @ s, rerr = e\<rparr> plen =
      ((take plen [1, 2, 3], if 3 \<le> plen then None else Some io_ErrShortBuffer),
       \<lparr>rdata = s, rerr = e\<rparr>)" for e s plen
    using WriteData_ReadData [of "bytes_Buffer []" "[1, 2, 3]"] by (auto simp: bytes_Buffer_def)
  with p [of "[]" io_EOF 2] show ?thesis by (auto simp: bytes_Reader_def)
qed

text \<open>
  \<open>MaxDataForSize(n)\<close> is safe for every positive budget: it does not panic, and a slice of
  the length it returns is accepted by \<open>WriteData\<close> and encodes to at most \<open>n\<close> bytes.
\<close>

theorem MaxDataForSize_safe:
  assumes "0 < n"
  shows "\<exists>m. MaxDataForSize n = Some m \<and> 0 \<le> m \<and>
    (\<forall>w data. wroom w = None \<longrightarrow> int (length data) = m \<longrightarrow>
      (case WriteData w data of ((k, err), _) \<Rightarrow> err = None \<and> int k \<le> n))"
proof (cases "n < 1048576")
  case True
  with assms obtain k where k: "dataPrefixForLength n = Inr (prefix_form k 128 n)"
    "int (length (prefix_form k 128 n)) = (if n < 64 then 1 else if n < 8192 then 2 else 3)"
    using data_prefix_fits [of n] by auto
  have "case WriteData w data of ((k, err), _) \<Rightarrow> err = None \<and> int k \<le> n"
    if "wroom w = None" "int (length data) = n - (if n < 64 then 1 else if n < 8192 then 2 else 3)" for w data
    by (rule WriteData_unlimited [of data w]) (use that True in \<open>simp_all split: if_splits\<close>)
  with assms k show ?thesis by (simp add: MaxDataForSize_def)
next
  case False
  have "case WriteData w data of ((k, err), _) \<Rightarrow> err = None \<and> int k \<le> n"
    if "wroom w = None" "int (length data) = 1048572" for w data
    by (rule WriteData_unlimited [of data w]) (use that False in \<open>simp_all split: if_splits\<close>)
  with assms False show ?thesis by (simp add: MaxDataForSize_def data_prefix_too_long)
qed

theorem MaxDataForSize_safe_witness:
  "\<exists>m. MaxDataForSize 1200 = Some m \<and>
    (case WriteData (bytes_Buffer []) (replicate (nat m) 0) of ((k, err), _) \<Rightarrow> err = None \<and> int k \<le> 1200)"
proof -
  obtain m where "MaxDataForSize 1200 = Some m" "0 \<le> m"
    and m: "wroom w = None \<Longrightarrow> int (length data) = m \<Longrightarrow>
      (case WriteData w data of ((k, err), _) \<Rightarrow> err = None \<and> int k \<le> 1200)" for w data
    using MaxDataForSize_safe [of 1200] by auto
  then show ?thesis
    using m [of "bytes_Buffer []" "replicate (nat m) 0"]
    by (intro exI [of _ m]) (simp add: bytes_Buffer_def)
qed

text \<open>
  The comment of \<open>MaxDataForSize\<close> promises the longest such slice.  At a budget of 64 bytes the
  code answers 62, although 63 bytes of data encode to exactly 64.
\<close>

theorem MaxDataForSize_not_longest:
  "MaxDataForSize 64 = Some 62 \<and>
   fst (WriteData (bytes_Buffer []) (replicate 63 0)) = (64, None)"
proof
  show "MaxDataForSize 64 = Some 62"
    by (simp add: MaxDataForSize_def data_prefix_form prefix_fits_def prefix_form_def)
  show "fst (WriteData (bytes_Buffer []) (replicate 63 0)) = (64, None)"
    by (rule WriteData_unlimited [of "replicate 63 0" "bytes_Buffer []"])
      (simp_all add: bytes_Buffer_def)
qed

end
