(* ===== verification/Go_Heap.thy ===== *)
theory Go_Heap
  imports Prelude
begin

text \<open>
  Go's \<open>container/heap\<close>: the sift loops \<open>up\<close> and \<open>down\<close> and the operations \<open>Init\<close>, \<open>Push\<close>,
  \<open>Pop\<close>, \<open>Remove\<close> and \<open>Fix\<close>, over the \<open>heap.Interface\<close> of a client (\<open>Len\<close>, \<open>Less\<close>, \<open>Swap\<close>,
  \<open>Push\<close>, \<open>Pop\<close>), as the standard library defines them.  The correctness proof is done once, on
  plain lists, and carried to every client by the locale \<open>heap_interface\<close>: the broker's
  snowflake heaps and the expiry queue of the turbotunnel client map interpret it.
\<close>

section \<open>The operations of container/heap\<close>

function heap_up :: "('s \<Rightarrow> nat \<Rightarrow> nat \<Rightarrow> bool) \<Rightarrow> ('s \<Rightarrow> nat \<Rightarrow> nat \<Rightarrow> 's) \<Rightarrow> 's \<Rightarrow> nat \<Rightarrow> 's" where
  "heap_up Less Swap h j =
     (let i = (j - 1) div 2 in
      if i = j \<or> \<not> Less h j i then h else heap_up Less Swap (Swap h i j) i)"
  by pat_completeness auto
termination
  by (relation "measure (\<lambda>(_, _, _, j). j)") auto

function heap_down ::
  "('s \<Rightarrow> nat \<Rightarrow> nat \<Rightarrow> bool) \<Rightarrow> ('s \<Rightarrow> nat \<Rightarrow> nat \<Rightarrow> 's) \<Rightarrow> 's \<Rightarrow> nat \<Rightarrow> nat \<Rightarrow> 's \<times> nat" where
  "heap_down Less Swap h i n =
     (let j1 = 2 * i + 1 in
      if n \<le> j1 then (h, i)
      else
        (let j = (if j1 + 1 < n \<and> Less h (j1 + 1) j1 then j1 + 1 else j1) in
         if \<not> Less h j i then (h, i) else heap_down Less Swap (Swap h i j) j n))"
  by pat_completeness auto
termination
  by (relation "measure (\<lambda>(_, _, _, i, n). n - i)") (auto split: if_splits)

declare heap_up.simps [simp del] heap_down.simps [simp del]

text \<open>\<open>down\<close> reports whether it moved the element; here the final index is kept for the caller.\<close>

definition heap_Push ::
  "('s \<Rightarrow> nat) \<Rightarrow> ('s \<Rightarrow> nat \<Rightarrow> nat \<Rightarrow> bool) \<Rightarrow> ('s \<Rightarrow> nat \<Rightarrow> nat \<Rightarrow> 's) \<Rightarrow> ('s \<Rightarrow> 'x \<Rightarrow> 's) \<Rightarrow> 's \<Rightarrow> 'x \<Rightarrow> 's" where
  "heap_Push Len Less Swap PushI h x =
     (let h1 = PushI h x in heap_up Less Swap h1 (Len h1 - 1))"

definition heap_Pop ::
  "('s \<Rightarrow> nat) \<Rightarrow> ('s \<Rightarrow> nat \<Rightarrow> nat \<Rightarrow> bool) \<Rightarrow> ('s \<Rightarrow> nat \<Rightarrow> nat \<Rightarrow> 's) \<Rightarrow> ('s \<Rightarrow> 'x \<times> 's) \<Rightarrow> 's \<Rightarrow> 'x \<times> 's" where
  "heap_Pop Len Less Swap PopI h =
     (let n = Len h - 1; h1 = Swap h 0 n in PopI (fst (heap_down Less Swap h1 0 n)))"

definition sift ::
  "('s \<Rightarrow> nat \<Rightarrow> nat \<Rightarrow> bool) \<Rightarrow> ('s \<Rightarrow> nat \<Rightarrow> nat \<Rightarrow> 's) \<Rightarrow> 's \<Rightarrow> nat \<Rightarrow> nat \<Rightarrow> 's" where
  "sift Less Swap h i n =
     (case heap_down Less Swap h i n of
        (h1, k) \<Rightarrow> if i < k then h1 else heap_up Less Swap h1 i)"

definition heap_Remove ::
  "('s \<Rightarrow> nat) \<Rightarrow> ('s \<Rightarrow> nat \<Rightarrow> nat \<Rightarrow> bool) \<Rightarrow> ('s \<Rightarrow> nat \<Rightarrow> nat \<Rightarrow> 's) \<Rightarrow> ('s \<Rightarrow> 'x \<times> 's) \<Rightarrow> 's \<Rightarrow> nat \<Rightarrow> 'x \<times> 's" where
  "heap_Remove Len Less Swap PopI h i =
     (let n = Len h - 1 in
      PopI (if n \<noteq> i then sift Less Swap (Swap h i n) i n else h))"

definition heap_Fix ::
  "('s \<Rightarrow> nat) \<Rightarrow> ('s \<Rightarrow> nat \<Rightarrow> nat \<Rightarrow> bool) \<Rightarrow> ('s \<Rightarrow> nat \<Rightarrow> nat \<Rightarrow> 's) \<Rightarrow> 's \<Rightarrow> nat \<Rightarrow> 's" where
  "heap_Fix Len Less Swap h i = sift Less Swap h i (Len h)"

section \<open>Heaps on lists\<close>

definition lswap :: "'a list \<Rightarrow> nat \<Rightarrow> nat \<Rightarrow> 'a list" where
  "lswap xs i j = xs[i := xs ! j, j := xs ! i]"

definition lless :: "('a \<Rightarrow> 'a \<Rightarrow> bool) \<Rightarrow> 'a list \<Rightarrow> nat \<Rightarrow> nat \<Rightarrow> bool" where
  "lless lt xs i j = lt (xs ! i) (xs ! j)"

text \<open>The heap property, and the heap property of the first \<open>n\<close> entries except around \<open>i\<close>.\<close>

definition ordered :: "('a \<Rightarrow> 'a \<Rightarrow> bool) \<Rightarrow> 'a list \<Rightarrow> nat \<Rightarrow> bool" where
  "ordered lt xs k \<longleftrightarrow> \<not> lt (xs ! k) (xs ! ((k - 1) div 2))"

definition heapn :: "('a \<Rightarrow> 'a \<Rightarrow> bool) \<Rightarrow> 'a list \<Rightarrow> nat \<Rightarrow> bool" where
  "heapn lt xs n \<longleftrightarrow> (\<forall>k. 0 < k \<and> k < n \<longrightarrow> ordered lt xs k)"

abbreviation is_heap :: "('a \<Rightarrow> 'a \<Rightarrow> bool) \<Rightarrow> 'a list \<Rightarrow> bool" where
  "is_heap lt xs \<equiv> heapn lt xs (length xs)"

definition spans :: "('a \<Rightarrow> 'a \<Rightarrow> bool) \<Rightarrow> 'a list \<Rightarrow> nat \<Rightarrow> nat \<Rightarrow> bool" where
  "spans lt xs n i \<longleftrightarrow>
     (\<forall>k. 0 < i \<and> k < n \<and> 0 < k \<and> (k - 1) div 2 = i \<longrightarrow> \<not> lt (xs ! k) (xs ! ((i - 1) div 2)))"

definition up_inv :: "('a \<Rightarrow> 'a \<Rightarrow> bool) \<Rightarrow> 'a list \<Rightarrow> nat \<Rightarrow> nat \<Rightarrow> bool" where
  "up_inv lt xs n i \<longleftrightarrow>
     (\<forall>k. 0 < k \<and> k < n \<and> k \<noteq> i \<longrightarrow> ordered lt xs k) \<and> spans lt xs n i"

definition down_inv :: "('a \<Rightarrow> 'a \<Rightarrow> bool) \<Rightarrow> 'a list \<Rightarrow> nat \<Rightarrow> nat \<Rightarrow> bool \<Rightarrow> bool" where
  "down_inv lt xs n i b \<longleftrightarrow>
     (\<forall>k. 0 < k \<and> k < n \<and> (k - 1) div 2 \<noteq> i \<and> (k \<noteq> i \<or> b) \<longrightarrow> ordered lt xs k) \<and> spans lt xs n i"

section \<open>Lemmas on lists\<close>

lemma length_lswap [simp]: "length (lswap xs i j) = length xs"
  by (simp add: lswap_def)

lemma mset_lswap [simp]: "i < length xs \<Longrightarrow> j < length xs \<Longrightarrow> mset (lswap xs i j) = mset xs"
  by (simp add: lswap_def mset_swap)

lemma nth_lswap:
  "i < length xs \<Longrightarrow> j < length xs \<Longrightarrow>
    lswap xs i j ! k = (if k = i then xs ! j else if k = j then xs ! i else xs ! k)"
  by (cases "k < length xs") (auto simp: lswap_def nth_list_update)

lemma map_lswap: "i < length xs \<Longrightarrow> j < length xs \<Longrightarrow> map f (lswap xs i j) = lswap (map f xs) i j"
  by (simp add: lswap_def map_update)

lemma set_lswap [simp]: "i < length xs \<Longrightarrow> j < length xs \<Longrightarrow> set (lswap xs i j) = set xs"
  by (simp add: lswap_def set_swap)

lemma distinct_lswap [simp]: "i < length xs \<Longrightarrow> j < length xs \<Longrightarrow> distinct (lswap xs i j) = distinct xs"
  by (simp add: lswap_def distinct_swap)

lemma heap_parent_lt: "0 < k \<Longrightarrow> (k - 1) div 2 < (k::nat)"
  by auto

lemma heap_up_preserves:
  assumes "\<And>h i j. R h \<Longrightarrow> R (Swap h i j)"
  shows "R h \<Longrightarrow> R (heap_up Less Swap h j)"
proof (induction j arbitrary: h rule: less_induct)
  case (less j)
  have "(j - 1) div 2 \<noteq> j \<Longrightarrow> (j - 1) div 2 < j" by auto
  with less assms show ?case by (subst heap_up.simps) (auto simp: Let_def)
qed

lemma heap_down_preserves:
  assumes "\<And>h i j. R h \<Longrightarrow> R (Swap h i j)"
  shows "R h \<Longrightarrow> R (fst (heap_down Less Swap h i n))"
proof (induction "n - i" arbitrary: h i rule: less_induct)
  case less
  show ?case
    by (subst heap_down.simps) (use less assms in \<open>auto simp: Let_def\<close>)
qed

lemma sift_preserves:
  "(\<And>h i j. R h \<Longrightarrow> R (Swap h i j)) \<Longrightarrow> R h \<Longrightarrow> R (sift Less Swap h i n)"
  using heap_down_preserves [of R Swap h Less i n] heap_up_preserves [of R Swap]
  by (auto simp: sift_def split: prod.split)

lemmas heap_preserves = heap_up_preserves heap_down_preserves sift_preserves

lemma length_heap_down: "length (fst (heap_down L lswap xs i n)) = length xs"
  by (rule heap_down_preserves [of "\<lambda>ys. length ys = length xs"]) simp_all

locale strict_weak =
  fixes lt :: "'a \<Rightarrow> 'a \<Rightarrow> bool"
  assumes asym: "lt a b \<Longrightarrow> \<not> lt b a"
    and le_trans: "\<not> lt b a \<Longrightarrow> \<not> lt c b \<Longrightarrow> \<not> lt c a"
begin

lemma irrefl: "\<not> lt a a"
  using asym by blast

lemma lt_le: "lt a b \<Longrightarrow> \<not> lt b a"
  by (rule asym)

lemma heap_root: "heapn lt xs n \<Longrightarrow> k < n \<Longrightarrow> \<not> lt (xs ! k) (xs ! 0)"
proof (induction k rule: less_induct)
  case (less k)
  show ?case
  proof (cases "k = 0")
    case True
    then show ?thesis by (simp add: irrefl)
  next
    case False
    then have "(k - 1) div 2 < k" by auto
    with less have "\<not> lt (xs ! ((k - 1) div 2)) (xs ! 0)" by auto
    moreover have "\<not> lt (xs ! k) (xs ! ((k - 1) div 2))"
      using less.prems False by (simp add: heapn_def ordered_def)
    ultimately show ?thesis using le_trans by blast
  qed
qed

lemma up_step:
  assumes inv: "up_inv lt xs n j" and j: "0 < j" "j < n" "n \<le> length xs"
    and i: "i = (j - 1) div 2" and lt: "lt (xs ! j) (xs ! i)"
  shows "up_inv lt (lswap xs i j) n i"
proof -
  have ij: "i < j" using i j by auto
  then have nth: "lswap xs i j ! k = (if k = i then xs ! j else if k = j then xs ! i else xs ! k)" for k
    using j by (intro nth_lswap) simp_all
  have ord: "\<not> lt (xs ! k) (xs ! ((k - 1) div 2))" if "0 < k" "k < n" "k \<noteq> j" for k
    using inv that by (simp add: up_inv_def ordered_def)
  have sp: "\<not> lt (xs ! k) (xs ! i)" if "0 < k" "k < n" "(k - 1) div 2 = j" for k
    using inv that i j by (simp add: up_inv_def spans_def)
  have "ordered lt (lswap xs i j) k" if k: "0 < k" "k < n" "k \<noteq> i" for k
  proof -
    consider "k = j" | "k \<noteq> j" "(k - 1) div 2 = j" | "k \<noteq> j" "(k - 1) div 2 = i" "i \<noteq> j"
      | "k \<noteq> j" "(k - 1) div 2 \<noteq> j" "(k - 1) div 2 \<noteq> i" using ij by auto
    then show ?thesis
    proof cases
      case 1
      moreover have "(j - 1) div 2 = i" using i by simp
      ultimately show ?thesis using ij asym [OF lt] by (simp add: ordered_def nth)
    next
      case 2
      then show ?thesis using ij k sp [of k] by (simp add: ordered_def nth)
    next
      case 3
      then have "\<not> lt (xs ! k) (xs ! i)" using ord [of k] k by simp
      then have "\<not> lt (xs ! k) (xs ! j)" using asym [OF lt] le_trans by blast
      then show ?thesis using 3 k by (simp add: ordered_def nth)
    next
      case 4
      then show ?thesis using ord [of k] k by (simp add: ordered_def nth)
    qed
  qed
  moreover have "\<not> lt (lswap xs i j ! k) (lswap xs i j ! ((i - 1) div 2))"
    if k: "0 < i" "k < n" "0 < k" "(k - 1) div 2 = i" for k
  proof -
    have p: "(i - 1) div 2 < i" using k by auto
    have oi: "\<not> lt (xs ! i) (xs ! ((i - 1) div 2))" using ord [of i] ij k j by simp
    have ki: "k \<noteq> i" using k by auto
    show ?thesis
    proof (cases "k = j")
      case True
      then show ?thesis using oi p ij by (simp add: nth)
    next
      case False
      then have "\<not> lt (xs ! k) (xs ! i)" using ord [of k] k by simp
      then have "\<not> lt (xs ! k) (xs ! ((i - 1) div 2))" using oi le_trans by blast
      then show ?thesis using False ki p ij by (simp add: nth)
    qed
  qed
  ultimately show ?thesis by (auto simp: up_inv_def spans_def)
qed

lemma heap_up_spec:
  assumes "up_inv lt xs n j" "j < n" "n \<le> length xs"
  shows "heapn lt (heap_up (lless lt) lswap xs j) n \<and>
    mset (heap_up (lless lt) lswap xs j) = mset xs \<and>
    length (heap_up (lless lt) lswap xs j) = length xs \<and>
    drop n (heap_up (lless lt) lswap xs j) = drop n xs"
  using assms
proof (induction j arbitrary: xs rule: less_induct)
  case (less j)
  let ?i = "(j - 1) div 2"
  show ?case
  proof (cases "j = 0 \<or> \<not> lt (xs ! j) (xs ! ?i)")
    case True
    have "heapn lt xs n"
      unfolding heapn_def
    proof (intro allI impI)
      fix k assume k: "0 < k \<and> k < n"
      show "ordered lt xs k"
        using less.prems(1) k True by (cases "k = j") (auto simp: up_inv_def ordered_def)
    qed
    moreover have "heap_up (lless lt) lswap xs j = xs"
      using True by (auto simp: heap_up.simps [of _ _ xs] lless_def Let_def)
    ultimately show ?thesis by simp
  next
    case False
    then have j: "0 < j" "?i < j" "lt (xs ! j) (xs ! ?i)" by auto
    have step: "heap_up (lless lt) lswap xs j = heap_up (lless lt) lswap (lswap xs ?i j) ?i"
      using j by (simp add: heap_up.simps [of _ _ xs] lless_def Let_def)
    have "up_inv lt (lswap xs ?i j) n ?i"
      using up_step [OF less.prems(1) j(1) less.prems(2,3) refl j(3)] .
    from less.IH [OF j(2) this] less.prems j show ?thesis
      by (simp add: step) (simp add: lswap_def)
  qed
qed

lemma heap_child: "(k - 1) div 2 = i \<Longrightarrow> 0 < k \<Longrightarrow> k = 2 * i + 1 \<or> k = 2 * i + (2::nat)"
  by auto

lemma down_step:
  assumes inv: "down_inv lt xs n i b" and n: "n \<le> length xs"
    and j: "j = 2 * i + 1 \<or> j = 2 * i + 2" "j < n" and lt: "lt (xs ! j) (xs ! i)"
    and least: "\<And>k. k = 2 * i + 1 \<or> k = 2 * i + 2 \<Longrightarrow> k < n \<Longrightarrow> \<not> lt (xs ! k) (xs ! j)"
  shows "down_inv lt (lswap xs i j) n j True"
proof -
  have ij: "i < j" "0 < j" "(j - 1) div 2 = i" using j(1) by auto
  have nth: "lswap xs i j ! k = (if k = i then xs ! j else if k = j then xs ! i else xs ! k)" for k
    using ij j(2) n by (intro nth_lswap) simp_all
  have ord: "\<not> lt (xs ! k) (xs ! ((k - 1) div 2))"
    if "0 < k" "k < n" "(k - 1) div 2 \<noteq> i" "k \<noteq> i" for k
    using inv that by (simp add: down_inv_def ordered_def)
  have "ordered lt (lswap xs i j) k" if k: "0 < k" "k < n" "(k - 1) div 2 \<noteq> j" for k
  proof -
    consider "k = j" | "k \<noteq> j" "k \<noteq> i" "(k - 1) div 2 = i" | "k = i" | "k \<noteq> j" "k \<noteq> i" "(k - 1) div 2 \<noteq> i" 
      by blast
    then show ?thesis
    proof cases
      case 1
      then show ?thesis using ij asym [OF lt] by (simp add: ordered_def nth)
    next
      case 2
      then show ?thesis using k least [of k] heap_child [of k i] by (simp add: ordered_def nth)
    next
      case 3
      then have "\<not> lt (xs ! j) (xs ! ((i - 1) div 2))"
        using inv k ij j(2) by (simp add: down_inv_def spans_def)
      moreover have "(i - 1) div 2 < i" using 3 k by auto
      ultimately show ?thesis using 3 ij by (simp add: ordered_def nth)
    next
      case 4
      then show ?thesis using ord [of k] k by (simp add: ordered_def nth)
    qed
  qed
  moreover have "\<not> lt (lswap xs i j ! k) (lswap xs i j ! ((j - 1) div 2))"
    if k: "k < n" "0 < k" "(k - 1) div 2 = j" for k
  proof -
    have "k \<noteq> i" "k \<noteq> j" using k ij by auto
    then show ?thesis using k ij ord [of k] by (simp add: nth)
  qed
  ultimately show ?thesis by (auto simp: down_inv_def spans_def)
qed

lemma down_stop:
  assumes "down_inv lt xs n i b"
    and "\<And>k. k = 2 * i + 1 \<or> k = 2 * i + 2 \<Longrightarrow> k < n \<Longrightarrow> \<not> lt (xs ! k) (xs ! i)"
  shows "up_inv lt xs n i" "b \<Longrightarrow> heapn lt xs n"
proof -
  have "ordered lt xs k" if "0 < k" "k < n" "k \<noteq> i \<or> b" for k
    using that assms(1) assms(2) [of k] heap_child [of k i]
    by (cases "(k - 1) div 2 = i") (auto simp: down_inv_def ordered_def)
  then show "up_inv lt xs n i" "b \<Longrightarrow> heapn lt xs n"
    using assms(1) by (auto simp: up_inv_def heapn_def down_inv_def)
qed

lemma heap_down_spec:
  assumes "down_inv lt xs n i b" "n \<le> length xs" "heap_down (lless lt) lswap xs i n = (ys, k)"
  shows "i \<le> k \<and> mset ys = mset xs \<and> length ys = length xs \<and> drop n ys = drop n xs \<and>
    (i < k \<or> b \<longrightarrow> heapn lt ys n) \<and> (k = i \<longrightarrow> ys = xs \<and> up_inv lt xs n i)"
  using assms
proof (induction "n - i" arbitrary: xs i b rule: less_induct)
  case less
  let ?j1 = "2 * i + 1"
  define j where "j = (if ?j1 + 1 < n \<and> lt (xs ! (?j1 + 1)) (xs ! ?j1) then ?j1 + 1 else ?j1)"
  have unf: "heap_down (lless lt) lswap xs i n =
      (if n \<le> ?j1 \<or> \<not> lt (xs ! j) (xs ! i) then (xs, i) else heap_down (lless lt) lswap (lswap xs i j) j n)"
    by (simp add: heap_down.simps [of _ _ xs] lless_def Let_def j_def)
  have least: "\<not> lt (xs ! k) (xs ! j)" if "k = 2 * i + 1 \<or> k = 2 * i + 2" "k < n" for k
    using that irrefl asym by (auto simp: j_def)
  show ?case
  proof (cases "?j1 < n \<and> lt (xs ! j) (xs ! i)")
    case False
    have "\<not> lt (xs ! k) (xs ! i)" if "k = 2 * i + 1 \<or> k = 2 * i + 2" "k < n" for k
      using that False least [OF that] le_trans by auto
    with down_stop [OF less.prems(1)] have "up_inv lt xs n i" "b \<Longrightarrow> heapn lt xs n" by blast+
    moreover have "ys = xs" "k = i"
      using less.prems(3) False by (auto simp: unf)
    ultimately show ?thesis by simp
  next
    case True
    then have j: "j = 2 * i + 1 \<or> j = 2 * i + 2" "j < n" by (auto simp: j_def)
    have rec: "heap_down (lless lt) lswap (lswap xs i j) j n = (ys, k)"
      using less.prems(3) True by (simp add: unf)
    have inv: "down_inv lt (lswap xs i j) n j True"
      using down_step [OF less.prems(1,2) j _ least] True by blast
    have "n - j < n - i" using j by auto
    from less.hyps [OF this inv _ rec] less.prems(2) j show ?thesis
      by (auto simp: lswap_def mset_swap)
  qed
qed

lemma sift_spec:
  assumes "down_inv lt xs n i b" "i < n" "n \<le> length xs"
  shows "heapn lt (sift (lless lt) lswap xs i n) n \<and> mset (sift (lless lt) lswap xs i n) = mset xs \<and>
    length (sift (lless lt) lswap xs i n) = length xs \<and>
    drop n (sift (lless lt) lswap xs i n) = drop n xs"
proof -
  obtain ys k where d: "heap_down (lless lt) lswap xs i n = (ys, k)" by force
  have s: "sift (lless lt) lswap xs i n = (if i < k then ys else heap_up (lless lt) lswap ys i)"
    by (simp add: sift_def d)
  from heap_down_spec [OF assms(1,3) d] heap_up_spec [of xs n i] assms(2,3)
  show ?thesis unfolding s by (cases "i < k") auto
qed

text \<open>How the operations on a heap establish the invariants of the sift loops.\<close>

lemma heapn_mono: "heapn lt xs n \<Longrightarrow> m \<le> n \<Longrightarrow> heapn lt xs m"
  by (simp add: heapn_def)

lemma heapn_take: "heapn lt xs n \<Longrightarrow> n \<le> length xs \<Longrightarrow> heapn lt (take n xs) n"
  by (auto simp: heapn_def ordered_def)

lemma down_inv_update:
  assumes h: "is_heap lt xs" and i: "i < n" "n \<le> length xs"
    and same: "\<And>k. k < n \<Longrightarrow> k \<noteq> i \<Longrightarrow> ys ! k = xs ! k"
  shows "down_inv lt ys n i (i = 0)"
proof -
  have ord: "\<not> lt (xs ! k) (xs ! ((k - 1) div 2))" if "0 < k" "k < n" for k
    using h that i by (simp add: heapn_def ordered_def)
  have "ordered lt ys k" if "0 < k" "k < n" "(k - 1) div 2 \<noteq> i" "k \<noteq> i \<or> i = 0" for k
  proof -
    have "(k - 1) div 2 < n" using that by auto
    then show ?thesis using that ord [of k] same [of k] same [of "(k - 1) div 2"] by (auto simp: ordered_def)
  qed
  moreover have "\<not> lt (ys ! k) (ys ! ((i - 1) div 2))"
    if k: "0 < i" "k < n" "0 < k" "(k - 1) div 2 = i" for k
  proof -
    have "\<not> lt (xs ! k) (xs ! i)" "\<not> lt (xs ! i) (xs ! ((i - 1) div 2))"
      using ord [of k] ord [of i] k i by simp_all
    then have "\<not> lt (xs ! k) (xs ! ((i - 1) div 2))" using le_trans by blast
    moreover have "(i - 1) div 2 < i" "k \<noteq> i" using k by auto
    ultimately show ?thesis using k i same [of k] same [of "(i - 1) div 2"] by simp
  qed
  ultimately show ?thesis by (auto simp: down_inv_def spans_def)
qed

lemma up_inv_append:
  assumes "is_heap lt xs"
  shows "up_inv lt (xs @ [x]) (length xs + 1) (length xs)"
proof -
  have "ordered lt (xs @ [x]) k" if "0 < k" "k < length xs" for k
  proof -
    have "(k - 1) div 2 < length xs" using that by auto
    then show ?thesis using assms that by (simp add: heapn_def ordered_def nth_append)
  qed
  then show ?thesis by (auto simp: up_inv_def spans_def)
qed

end

section \<open>The contract of heap.Interface\<close>

text \<open>
  What a client of \<open>container/heap\<close> provides: an abstraction \<open>seq\<close> to the sequence of its elements
  on which \<open>Len\<close>, \<open>Less\<close>, \<open>Swap\<close>, \<open>Push\<close> and \<open>Pop\<close> act as on an array.
\<close>

locale heap_interface = strict_weak lt for lt :: "'a \<Rightarrow> 'a \<Rightarrow> bool" +
  fixes Len :: "'s \<Rightarrow> nat" and Less :: "'s \<Rightarrow> nat \<Rightarrow> nat \<Rightarrow> bool" and Swap :: "'s \<Rightarrow> nat \<Rightarrow> nat \<Rightarrow> 's"
    and PushI :: "'s \<Rightarrow> 'x \<Rightarrow> 's" and PopI :: "'s \<Rightarrow> 'x \<times> 's"
    and seq :: "'s \<Rightarrow> 'a list" and wf :: "'s \<Rightarrow> bool"
    and pre :: "'s \<Rightarrow> 'x \<Rightarrow> bool" and elt :: "'s \<Rightarrow> 'x \<Rightarrow> 'a" and obj :: "'a \<Rightarrow> 'x"
  assumes Len: "wf h \<Longrightarrow> Len h = length (seq h)"
    and Less: "wf h \<Longrightarrow> i < length (seq h) \<Longrightarrow> j < length (seq h) \<Longrightarrow>
      Less h i j \<longleftrightarrow> lt (seq h ! i) (seq h ! j)"
    and Swap: "wf h \<Longrightarrow> i < length (seq h) \<Longrightarrow> j < length (seq h) \<Longrightarrow>
      wf (Swap h i j) \<and> seq (Swap h i j) = lswap (seq h) i j"
    and PushI: "wf h \<Longrightarrow> pre h x \<Longrightarrow> wf (PushI h x) \<and> seq (PushI h x) = seq h @ [elt h x]"
    and PopI: "wf h \<Longrightarrow> seq h \<noteq> [] \<Longrightarrow>
      fst (PopI h) = obj (last (seq h)) \<and> wf (snd (PopI h)) \<and> seq (snd (PopI h)) = butlast (seq h)"
begin

lemma up_refines:
  "wf h \<Longrightarrow> j < length (seq h) \<Longrightarrow>
    wf (heap_up Less Swap h j) \<and> seq (heap_up Less Swap h j) = heap_up (lless lt) lswap (seq h) j"
proof (induction j arbitrary: h rule: less_induct)
  case (less j)
  let ?i = "(j - 1) div 2"
  have i: "?i < length (seq h)" using less.prems by auto
  have L: "Less h j ?i = lless lt (seq h) j ?i"
    using Less [OF less.prems(1) less.prems(2) i] by (simp add: lless_def)
  show ?case
  proof (cases "?i = j \<or> \<not> Less h j ?i")
    case True
    then show ?thesis using less.prems L
      by (simp add: heap_up.simps [of _ _ h] heap_up.simps [of _ _ "seq h"] Let_def)
  next
    case False
    then have ij: "?i < j" by auto
    have S: "wf (Swap h ?i j)" "seq (Swap h ?i j) = lswap (seq h) ?i j"
      using Swap [OF less.prems(1) i less.prems(2)] by simp_all
    then show ?thesis
      using less.IH [OF ij S(1)] i False L
      by (simp add: heap_up.simps [of _ _ h] heap_up.simps [of _ _ "seq h"] Let_def)
  qed
qed

lemma down_refines:
  "wf h \<Longrightarrow> i < length (seq h) \<Longrightarrow> n \<le> length (seq h) \<Longrightarrow>
    wf (fst (heap_down Less Swap h i n)) \<and>
    heap_down (lless lt) lswap (seq h) i n =
      (seq (fst (heap_down Less Swap h i n)), snd (heap_down Less Swap h i n))"
proof (induction "n - i" arbitrary: h i rule: less_induct)
  case less
  let ?j1 = "2 * i + 1"
  define j where "j = (if ?j1 + 1 < n \<and> Less h (?j1 + 1) ?j1 then ?j1 + 1 else ?j1)"
  have u: "heap_down Less Swap h i n =
      (if n \<le> ?j1 \<or> \<not> Less h j i then (h, i) else heap_down Less Swap (Swap h i j) j n)"
    by (simp add: heap_down.simps [of _ _ h] Let_def j_def)
  have v: "heap_down (lless lt) lswap (seq h) i n =
      (if n \<le> ?j1 \<or> \<not> Less h j i then (seq h, i) else heap_down (lless lt) lswap (lswap (seq h) i j) j n)"
  proof (cases "n \<le> ?j1")
    case False
    then have "j = (if ?j1 + 1 < n \<and> lless lt (seq h) (?j1 + 1) ?j1 then ?j1 + 1 else ?j1)"
      "Less h j i = lless lt (seq h) j i"
      using less.prems by (auto simp: j_def lless_def Less)
    then show ?thesis
      using False unfolding heap_down.simps [of _ _ "seq h"] Let_def by (simp only: if_False) simp
  qed (simp add: heap_down.simps [of _ _ "seq h"])
  show ?case
  proof (cases "n \<le> ?j1 \<or> \<not> Less h j i")
    case True
    then show ?thesis using less.prems by (simp add: u v)
  next
    case False
    then have j: "j < n" "i < j" "j < length (seq h)" using less.prems by (auto simp: j_def)
    have "wf (Swap h i j)" "seq (Swap h i j) = lswap (seq h) i j"
      using Swap [OF less.prems(1,2) j(3)] by simp_all
    with j less.prems less.hyps [of j "Swap h i j"] False show ?thesis by (simp add: u v)
  qed
qed

lemma sift_refines:
  assumes "wf h" "i < length (seq h)" "n \<le> length (seq h)"
  shows "wf (sift Less Swap h i n) \<and> seq (sift Less Swap h i n) = sift (lless lt) lswap (seq h) i n"
proof -
  obtain h1 k where d: "heap_down Less Swap h i n = (h1, k)" by force
  with down_refines [OF assms] have D: "wf h1" "heap_down (lless lt) lswap (seq h) i n = (seq h1, k)"
    by simp_all
  have "length (seq h1) = length (seq h)"
    using length_heap_down [of "lless lt" "seq h" i n] D(2) by simp
  then show ?thesis
    using D up_refines [of h1 i] assms by (auto simp: sift_def d)
qed

lemma Push_spec:
  assumes "wf h" "is_heap lt (seq h)" "pre h x"
  defines "h' \<equiv> heap_Push Len Less Swap PushI h x"
  shows "wf h'" "is_heap lt (seq h')" "mset (seq h') = add_mset (elt h x) (mset (seq h))"
proof -
  let ?h1 = "PushI h x"
  have P: "wf ?h1" "seq ?h1 = seq h @ [elt h x]" using PushI [OF assms(1,3)] by simp_all
  have h': "h' = heap_up Less Swap ?h1 (length (seq h))"
    using P Len [OF P(1)] by (simp add: h'_def heap_Push_def)
  have U: "wf h'" "seq h' = heap_up (lless lt) lswap (seq h @ [elt h x]) (length (seq h))"
    using up_refines [OF P(1), of "length (seq h)"] by (simp_all add: h' P)
  from heap_up_spec [OF up_inv_append [OF assms(2)], of "elt h x"] U
  show "wf h'" "is_heap lt (seq h')" "mset (seq h') = add_mset (elt h x) (mset (seq h))" by simp_all
qed

lemma sift_heap:
  assumes "wf h" "i < n" "n \<le> length (seq h)" "down_inv lt (seq h) n i b"
  defines "h' \<equiv> sift Less Swap h i n"
  shows "wf h'" "heapn lt (seq h') n" "mset (seq h') = mset (seq h)"
    "length (seq h') = length (seq h)" "drop n (seq h') = drop n (seq h)"
  using sift_refines [OF assms(1) _ assms(3), of i] sift_spec [OF assms(4,2,3)] assms(2,3)
  by (simp_all add: h'_def)

lemma Fix_spec:
  assumes "wf h" "i < length (seq h)" "down_inv lt (seq h) (length (seq h)) i b"
  defines "h' \<equiv> heap_Fix Len Less Swap h i"
  shows "wf h'" "is_heap lt (seq h')" "mset (seq h') = mset (seq h)"
  using sift_heap [OF assms(1,2) order.refl assms(3)]
  by (simp_all add: h'_def heap_Fix_def Len [OF assms(1)])

text \<open>Removing the last entry after the sift keeps the heap and yields the entry moved there.\<close>

lemma PopI_after:
  assumes "wf h" "length (seq h) = Suc n" "heapn lt (seq h) n" "drop n (seq h) = [y]"
  shows "fst (PopI h) = obj y \<and> wf (snd (PopI h)) \<and> is_heap lt (seq (snd (PopI h))) \<and>
    mset (seq h) = add_mset y (mset (seq (snd (PopI h))))"
proof -
  have ne: "seq h \<noteq> []" using assms(2) by auto
  have t: "seq h = take n (seq h) @ [y]" using assms(4) by (metis append_take_drop_id)
  then have "last (seq h) = y" "butlast (seq h) = take n (seq h)" by (metis last_snoc, metis butlast_snoc)
  moreover have "mset (seq h) = add_mset y (mset (take n (seq h)))" by (subst t) simp
  moreover have "is_heap lt (take n (seq h))" using heapn_take [OF assms(3)] assms(2) by simp
  ultimately show ?thesis using PopI [OF assms(1) ne] by simp
qed

lemma Pop_spec:
  assumes "wf h" "is_heap lt (seq h)" "seq h \<noteq> []"
  obtains x h' where "heap_Pop Len Less Swap PopI h = (x, h')" "x = obj (seq h ! 0)" "wf h'"
    "is_heap lt (seq h')" "mset (seq h) = add_mset (seq h ! 0) (mset (seq h'))"
    "\<And>y. y \<in> set (seq h) \<Longrightarrow> \<not> lt y (seq h ! 0)"
proof -
  define n where "n = length (seq h) - 1"
  have n: "length (seq h) = Suc n" using assms(3) by (simp add: n_def)
  let ?h1 = "Swap h 0 n" and ?h2 = "fst (heap_down Less Swap (Swap h 0 n) 0 n)"
  have S: "wf ?h1" "seq ?h1 = lswap (seq h) 0 n" using Swap [OF assms(1)] n by simp_all
  have D: "wf ?h2" "heap_down (lless lt) lswap (seq ?h1) 0 n = (seq ?h2, snd (heap_down Less Swap ?h1 0 n))"
    using down_refines [OF S(1), of 0 n] S n by simp_all
  have "down_inv lt (seq ?h1) n 0 True"
  proof (cases "n = 0")
    case True
    then show ?thesis by (simp add: down_inv_def spans_def)
  next
    case False
    then show ?thesis
      using down_inv_update [OF assms(2), of 0 n "seq ?h1"] n by (simp add: S nth_lswap)
  qed
  from heap_down_spec [OF this _ D(2)] S n
  have H: "mset (seq ?h2) = mset (seq h)" "length (seq ?h2) = Suc n" "heapn lt (seq ?h2) n"
    "drop n (seq ?h2) = drop n (seq ?h1)" by auto
  have d: "drop n (seq ?h1) = [seq h ! 0]"
    using n by (intro nth_equalityI) (simp_all add: S nth_lswap)
  from PopI_after [OF D(1) H(2,3)] H(4) d H(1)
  have "fst (PopI ?h2) = obj (seq h ! 0) \<and> wf (snd (PopI ?h2)) \<and> is_heap lt (seq (snd (PopI ?h2))) \<and>
    mset (seq h) = add_mset (seq h ! 0) (mset (seq (snd (PopI ?h2))))" by simp
  moreover have "heap_Pop Len Less Swap PopI h = PopI ?h2"
    by (simp add: heap_Pop_def Let_def Len [OF assms(1)] n_def)
  moreover have "\<not> lt y (seq h ! 0)" if "y \<in> set (seq h)" for y
    using that heap_root [OF assms(2)] by (auto simp: in_set_conv_nth)
  ultimately show thesis by (intro that [of "fst (PopI ?h2)" "snd (PopI ?h2)"]) (auto simp: prod_eq_iff)
qed

lemma Remove_spec:
  assumes "wf h" "is_heap lt (seq h)" "i < length (seq h)"
  obtains x h' where "heap_Remove Len Less Swap PopI h i = (x, h')" "x = obj (seq h ! i)" "wf h'"
    "is_heap lt (seq h')" "mset (seq h) = add_mset (seq h ! i) (mset (seq h'))"
proof -
  define n where "n = length (seq h) - 1"
  have n: "length (seq h) = Suc n" "i \<le> n" using assms(3) by (simp_all add: n_def)
  define h2 where "h2 = (if n \<noteq> i then sift Less Swap (Swap h i n) i n else h)"
  have H: "wf h2 \<and> length (seq h2) = Suc n \<and> heapn lt (seq h2) n \<and> drop n (seq h2) = [seq h ! i] \<and>
    mset (seq h2) = mset (seq h)"
  proof (cases "n = i")
    case True
    have "drop n (seq h) = [seq h ! i]" using n True by (intro nth_equalityI) simp_all
    with True assms n show ?thesis by (simp add: h2_def heapn_mono)
  next
    case False
    let ?h1 = "Swap h i n"
    have S: "wf ?h1" "seq ?h1 = lswap (seq h) i n" using Swap [OF assms(1)] n by simp_all
    have "down_inv lt (seq ?h1) n i (i = 0)"
      using down_inv_update [OF assms(2), of i n "seq ?h1"] n False by (simp add: S nth_lswap)
    from sift_heap [OF S(1) _ _ this] n False S
    have *: "wf h2" "heapn lt (seq h2) n" "mset (seq h2) = mset (seq h)" "length (seq h2) = Suc n"
      "drop n (seq h2) = drop n (seq ?h1)" by (simp_all add: h2_def)
    moreover have "drop n (seq ?h1) = [seq h ! i]"
      using n False by (intro nth_equalityI) (simp_all add: S nth_lswap)
    ultimately show ?thesis by simp
  qed
  have "fst (PopI h2) = obj (seq h ! i) \<and> wf (snd (PopI h2)) \<and>
    is_heap lt (seq (snd (PopI h2))) \<and> mset (seq h2) = add_mset (seq h ! i) (mset (seq (snd (PopI h2))))"
    by (rule PopI_after [where n = n]) (simp_all add: H)
  moreover have "heap_Remove Len Less Swap PopI h i = PopI h2"
    by (simp add: heap_Remove_def Let_def Len [OF assms(1)] n_def h2_def)
  ultimately show thesis using H by (intro that [of "fst (PopI h2)" "snd (PopI h2)"]) (auto simp: prod_eq_iff)
qed

end

end
