(* ===== verification/Snowflake_Heap.thy ===== *)
theory Snowflake_Heap
  imports Go_Heap
begin

text \<open>
  The pools of available proxies, \<open>src/broker/snowflake-heap.go\<close>.  A \<open>*Snowflake\<close> is a reference
  (a number) into a store, because the heap writes the \<open>index\<close> field of the shared objects and
  \<open>Remove\<close> later relies on it; both pools of the broker live in the same store.  The two
  channels of a snowflake belong to the broker's concurrency and are modelled there.
\<close>

section \<open>Definitions\<close>

record Snowflake =
  sf_id :: string
  proxyType :: string
  natType :: string
  clients :: u64
  index :: int

definition NewSnowflake :: "string \<Rightarrow> string \<Rightarrow> string \<Rightarrow> u64 \<Rightarrow> Snowflake" where
  "NewSnowflake sid ptype natt n =
     \<lparr>sf_id = sid, proxyType = ptype, natType = natt, clients = n, index = 0\<rparr>"

type_synonym sref = nat
type_synonym sstore = "sref \<Rightarrow> Snowflake"
type_synonym SnowflakeHeap = "sstore \<times> sref list"

fun sh_Len :: "SnowflakeHeap \<Rightarrow> nat" where
  "sh_Len (st, sh) = length sh"

fun sh_Less :: "SnowflakeHeap \<Rightarrow> nat \<Rightarrow> nat \<Rightarrow> bool" where
  "sh_Less (st, sh) i j \<longleftrightarrow> clients (st (sh ! i)) < clients (st (sh ! j))"

definition set_index :: "sstore \<Rightarrow> sref \<Rightarrow> int \<Rightarrow> sstore" where
  "set_index st p k = st(p := (st p)\<lparr>index := k\<rparr>)"

fun sh_Swap :: "SnowflakeHeap \<Rightarrow> nat \<Rightarrow> nat \<Rightarrow> SnowflakeHeap" where
  "sh_Swap (st, sh) i j =
     (let sh' = lswap sh i j in
      (set_index (set_index st (sh' ! i) (int i)) (sh' ! j) (int j), sh'))"

fun sh_Push :: "SnowflakeHeap \<Rightarrow> sref \<Rightarrow> SnowflakeHeap" where
  "sh_Push (st, sh) p = (set_index st p (int (length sh)), sh @ [p])"

text \<open>\<open>Pop\<close> is only called on a non-empty slice.\<close>

fun sh_Pop :: "SnowflakeHeap \<Rightarrow> sref \<times> SnowflakeHeap" where
  "sh_Pop (st, sh) =
     (let n = length sh; p = sh ! (n - 1)
      in (p, (set_index st p (-1), take (n - 1) sh)))"

record SnowflakePool =
  pool_h :: "sref list"
  pollInterval :: int

text \<open>Durations are in nanoseconds.\<close>

definition NewSnowflakePool :: SnowflakePool where
  "NewSnowflakePool = \<lparr>pool_h = [], pollInterval = 20 * 1000000000\<rparr>"

definition pool_Push :: "sstore \<Rightarrow> SnowflakePool \<Rightarrow> sref \<Rightarrow> sstore \<times> SnowflakePool" where
  "pool_Push st sp s =
     (case heap_Push sh_Len sh_Less sh_Swap sh_Push (st, pool_h sp) s of
        (st', h') \<Rightarrow> (st', sp\<lparr>pool_h := h'\<rparr>))"

text \<open>The result \<^const>\<open>None\<close> is Go's \<open>nil\<close>.\<close>

definition pool_Pop :: "sstore \<Rightarrow> SnowflakePool \<Rightarrow> sref option \<times> sstore \<times> SnowflakePool" where
  "pool_Pop st sp =
     (if 0 < sh_Len (st, pool_h sp) then
        (case heap_Pop sh_Len sh_Less sh_Swap sh_Pop (st, pool_h sp) of
           (s, st', h') \<Rightarrow> (Some s, st', sp\<lparr>pool_h := h'\<rparr>))
      else (None, st, sp))"

text \<open>An index outside the slice makes \<open>heap.Remove\<close> panic: the result \<^const>\<open>None\<close>.\<close>

definition pool_Remove :: "sstore \<Rightarrow> SnowflakePool \<Rightarrow> sref \<Rightarrow> (sstore \<times> SnowflakePool) option" where
  "pool_Remove st sp s =
     (if index (st s) \<noteq> -1 then
        if 0 \<le> index (st s) \<and> nat (index (st s)) < length (pool_h sp) then
          (case heap_Remove sh_Len sh_Less sh_Swap sh_Pop (st, pool_h sp) (nat (index (st s))) of
             (_, st', h') \<Rightarrow> Some (st', sp\<lparr>pool_h := h'\<rparr>))
        else None
      else Some (st, sp))"

definition GetPollInterval :: "SnowflakePool \<Rightarrow> int" where
  "GetPollInterval sp = pollInterval sp"

definition SetPollInterval :: "SnowflakePool \<Rightarrow> int \<Rightarrow> SnowflakePool" where
  "SetPollInterval sp d = sp\<lparr>pollInterval := d\<rparr>"

subsection \<open>Well-formed pools\<close>

text \<open>Every entry knows its position.\<close>

fun sh_wf :: "SnowflakeHeap \<Rightarrow> bool" where
  "sh_wf (st, sh) \<longleftrightarrow> distinct sh \<and> (\<forall>i < length sh. index (st (sh ! i)) = int i)"

fun sh_seq :: "SnowflakeHeap \<Rightarrow> (sref \<times> u64) list" where
  "sh_seq (st, sh) = map (\<lambda>p. (p, clients (st p))) sh"

definition fewer_clients :: "sref \<times> u64 \<Rightarrow> sref \<times> u64 \<Rightarrow> bool" where
  "fewer_clients a b \<longleftrightarrow> snd a < snd b"

definition pool_wf :: "sstore \<Rightarrow> SnowflakePool \<Rightarrow> bool" where
  "pool_wf st sp \<longleftrightarrow> sh_wf (st, pool_h sp) \<and> is_heap fewer_clients (sh_seq (st, pool_h sp))"

text \<open>What the pool operations never touch: everything but the \<open>index\<close> of snowflakes in \<open>P\<close>.\<close>

definition same_but_index :: "sref set \<Rightarrow> sstore \<Rightarrow> sstore \<Rightarrow> bool" where
  "same_but_index P st st' \<longleftrightarrow>
     (\<forall>p. st' p = (st p)\<lparr>index := index (st' p)\<rparr> \<and> (p \<notin> P \<longrightarrow> st' p = st p))"

section \<open>The heap interface\<close>

lemma clients_set_index [simp]: "clients (set_index st p k q) = clients (st q)"
  by (simp add: set_index_def)

lemma index_set_index [simp]: "index (set_index st p k q) = (if q = p then k else index (st q))"
  by (simp add: set_index_def)

lemma sh_seq_inj: "mset (sh_seq (st, a)) = add_mset (p, clients (st p)) (mset (sh_seq (st, b))) \<Longrightarrow>
    mset a = add_mset p (mset b)"
  by (drule arg_cong [of _ _ "image_mset fst"]) (simp add: image_mset.compositionality comp_def)

text \<open>
  The invariant carried through the sift loops says, besides the positions, what is left alone:
  only snowflakes of \<open>P\<close> are in the slice, and only their \<open>index\<close> may differ from the store \<open>st0\<close>.
\<close>

definition sh_inv :: "sref set \<Rightarrow> sstore \<Rightarrow> SnowflakeHeap \<Rightarrow> bool" where
  "sh_inv P st0 h \<longleftrightarrow> sh_wf h \<and> set (snd h) \<subseteq> P \<and> same_but_index P st0 (fst h)"

lemma same_but_index_refl [simp]: "same_but_index P st st"
  by (simp add: same_but_index_def)

lemma same_but_index_set [simp]: "same_but_index P st0 st \<Longrightarrow> p \<in> P \<Longrightarrow> same_but_index P st0 (set_index st p k)"
  by (cases "st p"; cases "st0 p")
    (auto simp: same_but_index_def set_index_def dest: spec [of _ p])

interpretation sh: heap_interface fewer_clients sh_Len sh_Less sh_Swap sh_Push sh_Pop sh_seq
  "sh_inv P st0" "\<lambda>h p. p \<notin> set (snd h) \<and> p \<in> P" "\<lambda>h p. (p, clients (fst h p))" fst for P st0
proof unfold_locales
  fix h :: SnowflakeHeap and i j
  obtain st xs where h: "h = (st, xs)" by force
  assume wf: "sh_inv P st0 h" and ij: "i < length (sh_seq h)" "j < length (sh_seq h)"
  have n: "lswap xs i j ! k = (if k = i then xs ! j else if k = j then xs ! i else xs ! k)" for k
    using ij by (intro nth_lswap) (simp_all add: h)
  have ij': "i < length xs" "j < length xs" using ij by (simp_all add: h)
  moreover have "index (set_index (set_index st (lswap xs i j ! i) (int i)) (lswap xs i j ! j) (int j)
      (lswap xs i j ! k)) = int k" if "k < length xs" for k
    using wf ij that nth_eq_iff_index_eq [of xs] by (auto simp: h n sh_inv_def)
  moreover have "lswap xs i j ! i \<in> P" "lswap xs i j ! j \<in> P"
    using wf ij' nth_mem [of _ xs] by (auto simp: h n sh_inv_def)
  ultimately show "sh_inv P st0 (sh_Swap h i j) \<and> sh_seq (sh_Swap h i j) = lswap (sh_seq h) i j"
    using wf by (auto simp: h Let_def sh_inv_def map_lswap simp del: index_set_index)
next
  fix h :: SnowflakeHeap and x
  obtain st xs where h: "h = (st, xs)" by force
  assume "sh_inv P st0 h" "x \<notin> set (snd h) \<and> x \<in> P"
  then show "sh_inv P st0 (sh_Push h x) \<and> sh_seq (sh_Push h x) = sh_seq h @ [(x, clients (fst h x))]"
    by (auto simp: h sh_inv_def nth_append less_Suc_eq)
next
  fix h :: SnowflakeHeap
  obtain st xs where h: "h = (st, xs)" by force
  assume wf: "sh_inv P st0 h" "sh_seq h \<noteq> []"
  then have xs: "xs \<noteq> []" by (simp add: h)
  then have l: "last xs = xs ! (length xs - 1)" "butlast xs = take (length xs - 1) xs"
    by (simp_all add: last_conv_nth butlast_conv_take)
  have "xs ! i \<noteq> xs ! (length xs - 1)" if "i < length xs - 1" for i
    using wf that by (auto simp: h sh_inv_def nth_eq_iff_index_eq)
  moreover have "xs ! (length xs - 1) \<in> P" using wf xs by (auto simp: h sh_inv_def)
  moreover have "set (take (length xs - 1) xs) \<subseteq> P"
    using wf set_take_subset [of "length xs - 1" xs] by (auto simp: h sh_inv_def)
  ultimately show "fst (sh_Pop h) = fst (last (sh_seq h)) \<and> sh_inv P st0 (snd (sh_Pop h)) \<and>
      sh_seq (snd (sh_Pop h)) = butlast (sh_seq h)"
    using wf xs l by (simp add: h Let_def sh_inv_def last_map flip: map_butlast)
qed (auto simp: fewer_clients_def sh_inv_def)

lemma pool_wf_inv:
  "sh_inv P st0 (st, pool_h sp) \<Longrightarrow> is_heap fewer_clients (sh_seq (st, pool_h sp)) \<Longrightarrow> pool_wf st sp"
  by (simp add: pool_wf_def sh_inv_def)

lemma pool_wf_start:
  "pool_wf st sp \<Longrightarrow> set (pool_h sp) \<subseteq> P \<Longrightarrow>
    sh_inv P st (st, pool_h sp) \<and> is_heap fewer_clients (sh_seq (st, pool_h sp))"
  by (simp add: pool_wf_def sh_inv_def)

lemma sh_seq_fst: "map fst (sh_seq h) = snd h"
  by (cases h) (simp add: comp_def)

lemma mset_sh_seq: "mset (snd h) = image_mset fst (mset (sh_seq h))"
  by (simp flip: sh_seq_fst)

section \<open>The pool operations\<close>

lemma pool_Push_spec:
  assumes "pool_wf st sp" "s \<notin> set (pool_h sp)" "pool_Push st sp s = (st', sp')"
  shows "pool_wf st' sp'" "mset (pool_h sp') = add_mset s (mset (pool_h sp))"
    "same_but_index (insert s (set (pool_h sp))) st st'" "pollInterval sp' = pollInterval sp"
proof -
  let ?P = "insert s (set (pool_h sp))" and ?h = "heap_Push sh_Len sh_Less sh_Swap sh_Push (st, pool_h sp) s"
  have w: "sh_inv ?P st (st, pool_h sp)" "is_heap fewer_clients (sh_seq (st, pool_h sp))"
    using pool_wf_start [OF assms(1), of ?P] by auto
  have h: "?h = (st', pool_h sp')" and sp': "sp' = sp\<lparr>pool_h := pool_h sp'\<rparr>"
    using assms(3) by (auto simp: pool_Push_def split: prod.splits)
  from sh.Push_spec [OF w, of s] assms(2)
  have "sh_inv ?P st ?h" "is_heap fewer_clients (sh_seq ?h)"
    "mset (sh_seq ?h) = add_mset (s, clients (st s)) (mset (sh_seq (st, pool_h sp)))" by simp_all
  then show "pool_wf st' sp'" "mset (pool_h sp') = add_mset s (mset (pool_h sp))"
    "same_but_index ?P st st'"
    using mset_sh_seq [of ?h] mset_sh_seq [of "(st, pool_h sp)"]
    by (auto simp: h pool_wf_inv sh_inv_def simp del: sh_seq.simps sh_wf.simps)
  show "pollInterval sp' = pollInterval sp" by (subst sp') simp
qed

lemma sh_Pop_index: "sh_Pop h = (s, st', xs) \<Longrightarrow> index (st' s) = -1"
  by (cases h) (auto simp: Let_def)

lemma pool_Pop_empty: "pool_h sp = [] \<Longrightarrow> pool_Pop st sp = (None, st, sp)"
  by (simp add: pool_Pop_def)

lemma pool_Pop_spec:
  assumes "pool_wf st sp" "pool_h sp \<noteq> []"
  obtains s st' sp' where "pool_Pop st sp = (Some s, st', sp')" "pool_wf st' sp'"
    "mset (pool_h sp) = add_mset s (mset (pool_h sp'))"
    "same_but_index (set (pool_h sp)) st st'" "index (st' s) = -1"
    "\<And>p. p \<in> set (pool_h sp) \<Longrightarrow> clients (st s) \<le> clients (st p)" "pollInterval sp' = pollInterval sp"
proof -
  let ?P = "set (pool_h sp)" and ?h = "(st, pool_h sp)"
  have w: "sh_inv ?P st ?h" "is_heap fewer_clients (sh_seq ?h)"
    using pool_wf_start [OF assms(1), of ?P] by auto
  obtain s h' where *: "heap_Pop sh_Len sh_Less sh_Swap sh_Pop ?h = (s, h')"
    "s = fst (sh_seq ?h ! 0)" "sh_inv ?P st h'" "is_heap fewer_clients (sh_seq h')"
    "mset (sh_seq ?h) = add_mset (sh_seq ?h ! 0) (mset (sh_seq h'))"
    "\<And>y. y \<in> set (sh_seq ?h) \<Longrightarrow> \<not> fewer_clients y (sh_seq ?h ! 0)"
    using sh.Pop_spec [OF w] assms(2) by auto
  obtain st' xs where h': "h' = (st', xs)" by force
  have "index (st' s) = -1"
    using *(1) h' by (auto simp: heap_Pop_def Let_def dest: sh_Pop_index)
  moreover have "mset (pool_h sp) = add_mset s (mset xs)"
    using *(2,5) mset_sh_seq [of h'] mset_sh_seq [of ?h] h' by simp
  moreover have "clients (st s) \<le> clients (st p)" if "p \<in> set (pool_h sp)" for p
    using that *(2) *(6) [of "(p, clients (st p))"] assms(2) by (auto simp: fewer_clients_def not_less)
  ultimately show thesis
    using * assms(2) h'
    by (intro that [of s st' "sp\<lparr>pool_h := xs\<rparr>"]) (auto simp: pool_Pop_def sh_inv_def pool_wf_def)
qed

lemma pool_Remove_spec:
  assumes "pool_wf st sp" "s \<in> set (pool_h sp)"
  obtains st' sp' where "pool_Remove st sp s = Some (st', sp')" "pool_wf st' sp'"
    "mset (pool_h sp) = add_mset s (mset (pool_h sp'))"
    "same_but_index (set (pool_h sp)) st st'" "index (st' s) = -1" "pollInterval sp' = pollInterval sp"
proof -
  let ?P = "set (pool_h sp)" and ?h = "(st, pool_h sp)"
  have w: "sh_inv ?P st ?h" "is_heap fewer_clients (sh_seq ?h)"
    using pool_wf_start [OF assms(1), of ?P] by auto
  obtain i where i: "i < length (pool_h sp)" "pool_h sp ! i = s"
    using assms(2) by (auto simp: in_set_conv_nth)
  with assms(1) have ix: "index (st s) = int i" by (auto simp: pool_wf_def)
  obtain x h' where *: "heap_Remove sh_Len sh_Less sh_Swap sh_Pop ?h i = (x, h')"
    "x = fst (sh_seq ?h ! i)" "sh_inv ?P st h'" "is_heap fewer_clients (sh_seq h')"
    "mset (sh_seq ?h) = add_mset (sh_seq ?h ! i) (mset (sh_seq h'))"
    using sh.Remove_spec [OF w, of i] i by auto
  obtain st' xs where h': "h' = (st', xs)" by force
  have x: "x = s" using *(2) i by simp
  have "index (st' s) = -1"
    using *(1) h' x by (auto simp: heap_Remove_def Let_def dest: sh_Pop_index)
  moreover have "mset (pool_h sp) = add_mset s (mset xs)"
    using *(2,5) mset_sh_seq [of h'] mset_sh_seq [of ?h] h' i by simp
  ultimately show thesis
    using * i ix h'
    by (intro that [of st' "sp\<lparr>pool_h := xs\<rparr>"]) (auto simp: pool_Remove_def sh_inv_def pool_wf_def)
qed

lemma pool_Remove_absent: "index (st s) = -1 \<Longrightarrow> pool_Remove st sp s = Some (st, sp)"
  by (simp add: pool_Remove_def)

text \<open>A pool does not notice changes to snowflakes that are not in it.\<close>

lemma pool_wf_cong:
  assumes "pool_wf st sp" "\<And>p. p \<in> set (pool_h sp) \<Longrightarrow> st' p = st p"
  shows "pool_wf st' sp"
proof -
  have "sh_seq (st', pool_h sp) = sh_seq (st, pool_h sp)" using assms(2) by simp
  moreover have "sh_wf (st', pool_h sp)" using assms by (auto simp: pool_wf_def)
  ultimately show ?thesis using assms(1) by (simp add: pool_wf_def del: sh_seq.simps)
qed

lemma NewSnowflakePool_wf: "pool_wf st NewSnowflakePool"
  by (simp add: NewSnowflakePool_def pool_wf_def heapn_def)

section \<open>Properties\<close>

text \<open>
  C1. A pool is a priority queue of snowflakes: on a well-formed pool, \<open>Push\<close> adds the snowflake,
  \<open>Pop\<close> takes out one with the fewest clients (or returns \<open>nil\<close> on an empty pool), \<open>Remove\<close> takes
  out exactly its argument and does not panic, each keeps the pool well formed (heap order, and
  every entry's \<open>index\<close> its position), and a snowflake taken out has index \<open>-1\<close>, so that
  removing it again does nothing.
\<close>

theorem pool_priority_queue:
  assumes "pool_wf st sp"
  shows "(s \<notin> set (pool_h sp) \<longrightarrow>
      (case pool_Push st sp s of (st', sp') \<Rightarrow>
         pool_wf st' sp' \<and> mset (pool_h sp') = add_mset s (mset (pool_h sp)))) \<and>
    (case pool_Pop st sp of (r, st', sp') \<Rightarrow> pool_wf st' sp' \<and>
      (case r of
         None \<Rightarrow> pool_h sp = [] \<and> st' = st \<and> sp' = sp
       | Some p \<Rightarrow> mset (pool_h sp) = add_mset p (mset (pool_h sp')) \<and> index (st' p) = -1 \<and>
           (\<forall>q \<in> set (pool_h sp). clients (st p) \<le> clients (st q)))) \<and>
    (s \<in> set (pool_h sp) \<longrightarrow>
      (\<exists>st' sp'. pool_Remove st sp s = Some (st', sp') \<and> pool_wf st' sp' \<and>
        mset (pool_h sp) = add_mset s (mset (pool_h sp')) \<and> pool_Remove st' sp' s = Some (st', sp')))"
proof (intro conjI impI)
  assume "s \<notin> set (pool_h sp)"
  with assms show "case pool_Push st sp s of (st', sp') \<Rightarrow>
      pool_wf st' sp' \<and> mset (pool_h sp') = add_mset s (mset (pool_h sp))"
    using pool_Push_spec(1,2) [OF assms] by (cases "pool_Push st sp s") simp
next
  show "case pool_Pop st sp of (r, st', sp') \<Rightarrow> pool_wf st' sp' \<and>
      (case r of
         None \<Rightarrow> pool_h sp = [] \<and> st' = st \<and> sp' = sp
       | Some p \<Rightarrow> mset (pool_h sp) = add_mset p (mset (pool_h sp')) \<and> index (st' p) = -1 \<and>
           (\<forall>q \<in> set (pool_h sp). clients (st p) \<le> clients (st q)))"
  proof (cases "pool_h sp = []")
    case True
    with assms show ?thesis by (auto simp: pool_Pop_empty)
  next
    case False
    show ?thesis by (rule pool_Pop_spec [OF assms False]) simp
  qed
next
  assume "s \<in> set (pool_h sp)"
  show "\<exists>st' sp'. pool_Remove st sp s = Some (st', sp') \<and> pool_wf st' sp' \<and>
      mset (pool_h sp) = add_mset s (mset (pool_h sp')) \<and> pool_Remove st' sp' s = Some (st', sp')"
    by (rule pool_Remove_spec [OF assms \<open>s \<in> set (pool_h sp)\<close>]) (simp add: pool_Remove_absent)
qed

definition pool_example :: sstore where
  "pool_example = (\<lambda>p. (NewSnowflake ''sid'' ''standalone'' ''restricted'' (if p = 0 then 1 else 8))
     \<lparr>index := int p\<rparr>)"

theorem pool_priority_queue_witness:
  "\<exists>st3 sp3. pool_Remove pool_example \<lparr>pool_h = [0, 1], pollInterval = 0\<rparr> 0 = Some (st3, sp3) \<and>
     pool_wf st3 sp3 \<and> mset (pool_h sp3) = {#1#}"
proof -
  have "pool_wf pool_example \<lparr>pool_h = [0, 1], pollInterval = 0\<rparr>"
    by (auto simp: pool_wf_def pool_example_def NewSnowflake_def heapn_def ordered_def
        fewer_clients_def less_Suc_eq nth_Cons')
  from pool_priority_queue [OF this, of 0] show ?thesis by auto
qed

end
