(* ===== verification/Name_Matcher.thy ===== *)
theory Name_Matcher
  imports Prelude
begin

text \<open>
  Host name patterns, \<open>src/common/namematcher/matcher.go\<close>, and the broker's test that a proxy
  accepts every relay the broker may name (\<open>CheckProxyRelayPattern\<close>, \<open>src/broker/broker.go\<close>).
\<close>

section \<open>Definitions\<close>

record NameMatcher =
  exact :: bool
  suffix :: string

definition NewNameMatcher :: "string \<Rightarrow> NameMatcher" where
  "NewNameMatcher rule =
     (let rule1 = TrimSuffix rule ''$''
      in \<lparr>exact = HasPrefix rule1 ''^'', suffix = TrimPrefix rule1 ''^''\<rparr>)"

definition IsValidRule :: "string \<Rightarrow> bool" where
  "IsValidRule rule \<longleftrightarrow> HasSuffix rule ''$''"

definition IsSupersetOf :: "NameMatcher \<Rightarrow> NameMatcher \<Rightarrow> bool" where
  "IsSupersetOf m matcher =
     (if exact m then exact matcher \<and> suffix m = suffix matcher
      else HasSuffix (suffix matcher) (suffix m))"

definition IsMember :: "NameMatcher \<Rightarrow> string \<Rightarrow> bool" where
  "IsMember m s = (if exact m then s = suffix m else HasSuffix s (suffix m))"

text \<open>The pattern of the proxy is a pointer: \<^term>\<open>None\<close> is Go's \<open>nil\<close>.\<close>

definition CheckProxyRelayPattern :: "string \<Rightarrow> string option \<Rightarrow> bool" where
  "CheckProxyRelayPattern allowedRelayPattern pattern =
     (case pattern of
        None \<Rightarrow> False
      | Some p \<Rightarrow> IsSupersetOf (NewNameMatcher p) (NewNameMatcher allowedRelayPattern))"

section \<open>Lemmas\<close>

lemma IsMember_suffix: "IsMember m (suffix m)"
  by (simp add: IsMember_def)

lemma superset_sound: "IsSupersetOf m n \<Longrightarrow> IsMember n s \<Longrightarrow> IsMember m s"
  by (auto simp: IsSupersetOf_def IsMember_def split: if_splits intro: HasSuffix_trans)

lemma superset_complete:
  assumes "\<And>s. IsMember n s \<Longrightarrow> IsMember m s"
  shows "IsSupersetOf m n"
proof (cases "exact m")
  case True
  have "suffix n = suffix m" using assms [OF IsMember_suffix] True by (simp add: IsMember_def)
  moreover have "exact n"
  proof (rule ccontr)
    assume "\<not> exact n"
    then have "IsMember n (CHR ''a'' # suffix n)"
      by (auto simp: IsMember_def HasSuffix_iff intro: exI [of _ "''a''"])
    from assms [OF this] True \<open>suffix n = suffix m\<close> show False by (simp add: IsMember_def)
  qed
  ultimately show ?thesis using True by (simp add: IsSupersetOf_def)
next
  case False
  then show ?thesis using assms [OF IsMember_suffix] by (simp add: IsSupersetOf_def IsMember_def)
qed

lemma superset_iff: "IsSupersetOf m n \<longleftrightarrow> {s. IsMember n s} \<subseteq> {s. IsMember m s}"
proof
  show "IsSupersetOf m n \<Longrightarrow> {s. IsMember n s} \<subseteq> {s. IsMember m s}"
    using superset_sound [of m n] by blast
  show "{s. IsMember n s} \<subseteq> {s. IsMember m s} \<Longrightarrow> IsSupersetOf m n"
    by (rule superset_complete) blast
qed

section \<open>Properties\<close>

text \<open>
  C11. The broker accepts a proxy's relay pattern exactly when the proxy gave one and every host
  name that the broker's own pattern allows is a member of it: the syntactic test on suffixes is
  sound and complete for the sets of names the two patterns stand for.
\<close>

theorem CheckProxyRelayPattern_exact:
  "CheckProxyRelayPattern allowed pattern \<longleftrightarrow>
     (\<exists>p. pattern = Some p \<and>
        {s. IsMember (NewNameMatcher allowed) s} \<subseteq> {s. IsMember (NewNameMatcher p) s})"
  by (cases pattern) (simp_all add: CheckProxyRelayPattern_def superset_iff)

end
