(* ===== verification/Json_String.thy ===== *)
theory Json_String
  imports Prelude
begin

text \<open>
  The string layer of Go's standard library that the signalling messages rest on: UTF-8
  validity (\<open>unicode/utf8\<close>), hexadecimal digits (\<open>encoding/hex\<close>), and the quoting and unquoting of
  string literals by \<open>encoding/json\<close>.  A Go string is a \<^typ>\<open>string\<close>, one \<^typ>\<open>char\<close> per byte.
  Quoting followed by unquoting replaces invalid bytes by U+FFFD and changes nothing else.
\<close>

section \<open>Hexadecimal digits\<close>

definition ch :: "nat \<Rightarrow> char" where "ch n = char_of n"

abbreviation code :: "char \<Rightarrow> nat" where "code c \<equiv> of_char c"

definition hex_digit :: "nat \<Rightarrow> char" where
  "hex_digit n = (if n < 10 then ch (48 + n) else ch (87 + n))"

definition hex_val :: "char \<Rightarrow> nat option" where
  "hex_val c =
     (let b = code c in
      if 48 \<le> b \<and> b \<le> 57 then Some (b - 48)
      else if 97 \<le> b \<and> b \<le> 102 then Some (b - 87)
      else if 65 \<le> b \<and> b \<le> 70 then Some (b - 55)
      else None)"

section \<open>UTF-8\<close>

definition in_range :: "nat \<Rightarrow> nat \<Rightarrow> char \<Rightarrow> bool" where
  "in_range lo hi c \<longleftrightarrow> lo \<le> code c \<and> code c \<le> hi"

text \<open>
  \<open>utf8.DecodeRune\<close>: the length of the valid encoding a string starts with, \<open>0\<close> when there is none
  (Go then returns \<open>RuneError\<close> and consumes one byte).
\<close>

fun utf8_size :: "string \<Rightarrow> nat" where
  "utf8_size [] = 0"
| "utf8_size (c # cs) =
     (let b = code c in
      if b < 128 then 1
      else if 194 \<le> b \<and> b \<le> 223 then
        (case cs of c1 # _ \<Rightarrow> if in_range 128 191 c1 then 2 else 0 | _ \<Rightarrow> 0)
      else if 224 \<le> b \<and> b \<le> 239 then
        (case cs of
           c1 # c2 # _ \<Rightarrow>
             if in_range (if b = 224 then 160 else 128) (if b = 237 then 159 else 191) c1 \<and>
                in_range 128 191 c2 then 3 else 0
         | _ \<Rightarrow> 0)
      else if 240 \<le> b \<and> b \<le> 244 then
        (case cs of
           c1 # c2 # c3 # _ \<Rightarrow>
             if in_range (if b = 240 then 144 else 128) (if b = 244 then 143 else 191) c1 \<and>
                in_range 128 191 c2 \<and> in_range 128 191 c3 then 4 else 0
         | _ \<Rightarrow> 0)
      else 0)"

definition encode_rune :: "nat \<Rightarrow> string" where
  "encode_rune r =
     (if r < 128 then [ch r]
      else if r < 2048 then [ch (192 + r div 64), ch (128 + r mod 64)]
      else if r < 65536 then [ch (224 + r div 4096), ch (128 + r div 64 mod 64), ch (128 + r mod 64)]
      else [ch (240 + r div 262144), ch (128 + r div 4096 mod 64), ch (128 + r div 64 mod 64),
            ch (128 + r mod 64)])"

definition RuneError :: string where
  "RuneError = [ch 239, ch 191, ch 189]"

text \<open>A string with every invalid byte replaced by U+FFFD.\<close>

function to_valid :: "string \<Rightarrow> string" where
  "to_valid s =
     (case s of
        [] \<Rightarrow> []
      | _ # cs \<Rightarrow>
          if utf8_size s = 0 then RuneError @ to_valid cs
          else take (utf8_size s) s @ to_valid (drop (utf8_size s) s))"
  by pat_completeness auto
termination
  by (relation "measure length") auto

declare to_valid.simps [simp del]

definition valid_utf8 :: "string \<Rightarrow> bool" where
  "valid_utf8 s \<longleftrightarrow> to_valid s = s"

section \<open>Quoting\<close>

definition esc_ascii :: "char \<Rightarrow> string" where
  "esc_ascii c =
     (let b = code c in
      if b = 34 \<or> b = 92 then [ch 92, c]
      else if b = 8 then [ch 92, CHR ''b'']
      else if b = 12 then [ch 92, CHR ''f'']
      else if b = 10 then [ch 92, CHR ''n'']
      else if b = 13 then [ch 92, CHR ''r'']
      else if b = 9 then [ch 92, CHR ''t'']
      else if b < 32 \<or> b = 60 \<or> b = 62 \<or> b = 38 then
        [ch 92, CHR ''u'', CHR ''0'', CHR ''0'', hex_digit (b div 16), hex_digit (b mod 16)]
      else [c])"

text \<open>U+2028 and U+2029 are escaped as well.\<close>

function quote_body :: "string \<Rightarrow> string" where
  "quote_body s =
     (case s of
        [] \<Rightarrow> []
      | c # cs \<Rightarrow>
          if utf8_size s = 0 then ch 92 # ''ufffd'' @ quote_body cs
          else if utf8_size s = 1 then esc_ascii c @ quote_body cs
          else if take 3 s = encode_rune 8232 then ch 92 # ''u2028'' @ quote_body (drop 3 s)
          else if take 3 s = encode_rune 8233 then ch 92 # ''u2029'' @ quote_body (drop 3 s)
          else take (utf8_size s) s @ quote_body (drop (utf8_size s) s))"
  by pat_completeness auto
termination
  by (relation "measure length") auto

declare quote_body.simps [simp del]

definition json_quote :: "string \<Rightarrow> string" where
  "json_quote s = ch 34 # quote_body s @ [ch 34]"

section \<open>Unquoting\<close>

definition hex4 :: "char \<Rightarrow> char \<Rightarrow> char \<Rightarrow> char \<Rightarrow> nat option" where
  "hex4 a b c d =
     (case (hex_val a, hex_val b, hex_val c, hex_val d) of
        (Some w, Some x, Some y, Some z) \<Rightarrow> Some (((w * 16 + x) * 16 + y) * 16 + z)
      | _ \<Rightarrow> None)"

text \<open>\<open>getu4\<close>: the code unit of a \<open>\\uXXXX\<close> escape at the start of a string.\<close>

fun getu4 :: "string \<Rightarrow> nat option" where
  "getu4 (e # u # a # b # c # d # _) =
     (if code e = 92 \<and> u = CHR ''u'' then hex4 a b c d else None)"
| "getu4 _ = None"

definition is_surrogate :: "nat \<Rightarrow> bool" where
  "is_surrogate r \<longleftrightarrow> 55296 \<le> r \<and> r < 57344"

text \<open>\<open>utf16.DecodeRune\<close>, \<^term>\<open>None\<close> when the two units are no surrogate pair.\<close>

definition surrogate_pair :: "nat \<Rightarrow> nat \<Rightarrow> nat option" where
  "surrogate_pair r1 r2 =
     (if 55296 \<le> r1 \<and> r1 < 56320 \<and> 56320 \<le> r2 \<and> r2 < 57344
      then Some ((r1 - 55296) * 1024 + (r2 - 56320) + 65536) else None)"

definition simple_escape :: "char \<Rightarrow> char option" where
  "simple_escape e =
     (if code e = 34 \<or> code e = 92 \<or> code e = 47 then Some e
      else if e = CHR ''b'' then Some (ch 8)
      else if e = CHR ''f'' then Some (ch 12)
      else if e = CHR ''n'' then Some (ch 10)
      else if e = CHR ''r'' then Some (ch 13)
      else if e = CHR ''t'' then Some (ch 9)
      else None)"

definition prepend :: "string \<Rightarrow> (string \<times> string) option \<Rightarrow> (string \<times> string) option" where
  "prepend p x = map_option (\<lambda>(s, r). (p @ s, r)) x"

text \<open>
  The rest of a string literal after its opening quote: the string it denotes and what follows
  the closing quote.  \<^term>\<open>None\<close> is a syntax error.
\<close>

function unquote :: "string \<Rightarrow> (string \<times> string) option" where
  "unquote s =
     (case s of
        [] \<Rightarrow> None
      | c # cs \<Rightarrow>
          if code c = 34 then Some ([], cs)
          else if code c = 92 then
            (case cs of
               [] \<Rightarrow> None
             | e # r \<Rightarrow>
                 (case simple_escape e of
                    Some x \<Rightarrow> prepend [x] (unquote r)
                  | None \<Rightarrow>
                      (case getu4 s of
                         None \<Rightarrow> None
                       | Some r1 \<Rightarrow>
                           if is_surrogate r1 then
                             (case getu4 (drop 6 s) of
                                Some r2 \<Rightarrow>
                                  (case surrogate_pair r1 r2 of
                                     Some rr \<Rightarrow> prepend (encode_rune rr) (unquote (drop 12 s))
                                   | None \<Rightarrow> prepend RuneError (unquote (drop 6 s)))
                              | None \<Rightarrow> prepend RuneError (unquote (drop 6 s)))
                           else prepend (encode_rune r1) (unquote (drop 6 s)))))
          else if code c < 32 then None
          else if utf8_size s = 0 then prepend RuneError (unquote cs)
          else prepend (take (utf8_size s) s) (unquote (drop (utf8_size s) s)))"
  by pat_completeness auto
termination
  by (relation "measure length") auto

declare unquote.simps [simp del]

section \<open>Lemmas\<close>

lemma code_ch [simp]: "n < 256 \<Longrightarrow> code (ch n) = n"
  by (simp add: ch_def)

lemma ch_code [simp]: "ch (code c) = c"
  by (simp add: ch_def)

lemma ch_eq [simp]: "m < 256 \<Longrightarrow> n < 256 \<Longrightarrow> ch m = ch n \<longleftrightarrow> m = n"
  by (metis code_ch)

lemma ch_eq_iff: "n < 256 \<Longrightarrow> ch n = c \<longleftrightarrow> code c = n" "n < 256 \<Longrightarrow> c = ch n \<longleftrightarrow> code c = n"
  by auto

lemma code_lt [simp]: "code c < 256"
  by (metis of_char_mod_256 mod_less_divisor zero_less_numeral)

lemma hex_val_digit [simp]: "n < 16 \<Longrightarrow> hex_val (hex_digit n) = Some n"
  by (auto simp: hex_val_def hex_digit_def)

lemma utf8_size_le: "utf8_size s \<le> length s"
  by (cases s) (auto simp: Let_def split: list.split)

lemma utf8_size_1: "utf8_size (c # cs) = 1 \<longleftrightarrow> code c < 128"
  by (auto simp: Let_def split: list.split)

lemma utf8_size_take:
  assumes "utf8_size s \<noteq> 0"
  shows "utf8_size (take (utf8_size s) s @ t) = utf8_size s"
proof (cases s)
  case Nil
  with assms show ?thesis by simp
next
  case (Cons c cs)
  consider "code c < 128" | "194 \<le> code c" "code c \<le> 223" | "224 \<le> code c" "code c \<le> 239"
    | "240 \<le> code c" "code c \<le> 244"
    using assms Cons by (auto simp: Let_def split: if_splits)
  then show ?thesis
  proof cases
    case 1
    then show ?thesis using Cons by (simp add: Let_def)
  next
    case 2
    then obtain c1 r where "cs = c1 # r" "in_range 128 191 c1"
      using assms Cons by (cases cs) (auto simp: Let_def split: if_splits)
    then show ?thesis using Cons 2 by (simp add: Let_def)
  next
    case 3
    show ?thesis
    proof (cases cs)
      case Nil
      with assms Cons 3 show ?thesis by simp
    next
      case cs: (Cons c1 cs1)
      show ?thesis
      proof (cases cs1)
        case Nil
        with assms Cons cs 3 show ?thesis by simp
      next
        case (Cons c2 r)
        with assms \<open>s = c # cs\<close> cs 3 show ?thesis by (simp add: Let_def split: if_splits)
      qed
    qed
  next
    case 4
    show ?thesis
    proof (cases cs)
      case Nil
      with assms Cons 4 show ?thesis by simp
    next
      case cs: (Cons c1 cs1)
      show ?thesis
      proof (cases cs1)
        case Nil
        with assms Cons cs 4 show ?thesis by simp
      next
        case cs1: (Cons c2 cs2)
        show ?thesis
        proof (cases cs2)
          case Nil
          with assms Cons cs cs1 4 show ?thesis by simp
        next
          case (Cons c3 r)
          with assms \<open>s = c # cs\<close> cs cs1 4 show ?thesis by (simp add: Let_def split: if_splits)
        qed
      qed
    qed
  qed
qed

text \<open>One step of \<^const>\<open>unquote\<close> on each kind of output of \<^const>\<open>quote_body\<close>.\<close>

lemma unquote_end: "code c = 34 \<Longrightarrow> unquote (c # t) = Some ([], t)"
  by (simp add: unquote.simps [of "c # t"])

lemma getu4_escape:
  "getu4 (ch 92 # CHR ''u'' # a # b # c # d # t) = hex4 a b c d"
  by simp

lemma unquote_u4:
  assumes "hex4 a b c d = Some r" "\<not> is_surrogate r"
  shows "unquote (ch 92 # CHR ''u'' # a # b # c # d # t) = prepend (encode_rune r) (unquote t)"
proof -
  have "simple_escape (CHR ''u'') = None" by (simp add: simple_escape_def)
  with assms show ?thesis by (simp add: unquote.simps [of "ch 92 # _"])
qed

lemma unquote_simple:
  "simple_escape e = Some x \<Longrightarrow> unquote (ch 92 # e # t) = prepend [x] (unquote t)"
  by (simp add: unquote.simps [of "ch 92 # _"])

lemma unquote_plain:
  assumes "x = c # r" "code c \<noteq> 34" "code c \<noteq> 92" "32 \<le> code c" "utf8_size x \<noteq> 0"
  shows "unquote x = prepend (take (utf8_size x) x) (unquote (drop (utf8_size x) x))"
  using assms(2-5) by (subst unquote.simps) (simp add: assms(1) del: utf8_size.simps)

lemma unquote_copy:
  assumes "s = c # r" "utf8_size s \<noteq> 0" "32 \<le> code c" "code c \<noteq> 34" "code c \<noteq> 92"
  shows "unquote (take (utf8_size s) s @ t) = prepend (take (utf8_size s) s) (unquote t)"
proof -
  let ?x = "take (utf8_size s) s @ t"
  have x: "?x = c # take (utf8_size s - 1) r @ t"
    using assms(1,2) by (cases "utf8_size s") simp_all
  have n: "utf8_size ?x = utf8_size s" by (rule utf8_size_take [OF assms(2)])
  have l: "length (take (utf8_size s) s) = utf8_size s" using utf8_size_le [of s] by simp
  have "unquote ?x = prepend (take (utf8_size ?x) ?x) (unquote (drop (utf8_size ?x) ?x))"
    by (rule unquote_plain [OF x assms(4,5,3)]) (simp only: n assms(2) not_False_eq_True)
  with l show ?thesis unfolding n by simp
qed

lemma prepend_Some [simp]: "prepend p (Some (s, r)) = Some (p @ s, r)"
  by (simp add: prepend_def)

lemma unquote_esc_ascii:
  assumes "code c < 128"
  shows "unquote (esc_ascii c @ t) = prepend [c] (unquote t)"
proof -
  let ?b = "code c"
  have c: "c = ch ?b" by simp
  consider "?b = 34 \<or> ?b = 92" | "?b = 8" | "?b = 12" | "?b = 10" | "?b = 13" | "?b = 9"
    | "?b \<notin> {34, 92, 8, 12, 10, 13, 9}" "?b < 32 \<or> ?b = 60 \<or> ?b = 62 \<or> ?b = 38"
    | "?b \<notin> {34, 92}" "32 \<le> ?b" "?b \<noteq> 60" "?b \<noteq> 62" "?b \<noteq> 38" by force
  then show ?thesis
  proof cases
    case 1
    then show ?thesis by (auto simp: esc_ascii_def unquote_simple simple_escape_def)
  next
    case 7
    have "hex_val (CHR ''0'') = Some 0" by (simp add: hex_val_def)
    then have "hex4 (CHR ''0'') (CHR ''0'') (hex_digit (?b div 16)) (hex_digit (?b mod 16)) = Some ?b"
      using assms by (simp add: hex4_def)
    moreover have "esc_ascii c = [ch 92, CHR ''u'', CHR ''0'', CHR ''0'', hex_digit (?b div 16), hex_digit (?b mod 16)]"
      using 7 unfolding esc_ascii_def Let_def by (simp only: if_False simp_thms insert_iff empty_iff) simp
    moreover have "encode_rune ?b = [c]" "\<not> is_surrogate ?b"
      using assms by (simp_all add: encode_rune_def is_surrogate_def)
    ultimately show ?thesis using unquote_u4 by simp
  next
    case 8
    have "utf8_size [c] = 1" using assms by (simp add: Let_def)
    with unquote_copy [of "[c]" c "[]" t] 8 show ?thesis by (simp add: esc_ascii_def)
  qed (use c in \<open>auto simp: esc_ascii_def unquote_simple simple_escape_def\<close>)
qed

lemma unquote_ufffd: "unquote (ch 92 # ''ufffd'' @ t) = prepend RuneError (unquote t)"
proof -
  have "hex4 (CHR ''f'') (CHR ''f'') (CHR ''f'') (CHR ''d'') = Some 65533"
    by (simp add: hex4_def hex_val_def)
  from unquote_u4 [OF this, of t] show ?thesis
    by (simp add: is_surrogate_def encode_rune_def RuneError_def)
qed

lemma unquote_u2028: "unquote (ch 92 # ''u2028'' @ t) = prepend (encode_rune 8232) (unquote t)"
proof -
  have "hex4 (CHR ''2'') (CHR ''0'') (CHR ''2'') (CHR ''8'') = Some 8232"
    by (simp add: hex4_def hex_val_def)
  from unquote_u4 [OF this, of t] show ?thesis by (simp add: is_surrogate_def)
qed

lemma unquote_u2029: "unquote (ch 92 # ''u2029'' @ t) = prepend (encode_rune 8233) (unquote t)"
proof -
  have "hex4 (CHR ''2'') (CHR ''0'') (CHR ''2'') (CHR ''9'') = Some 8233"
    by (simp add: hex4_def hex_val_def)
  from unquote_u4 [OF this, of t] show ?thesis by (simp add: is_surrogate_def)
qed

lemma utf8_size_line_sep:
  assumes "take 3 s = encode_rune 8232 \<or> take 3 s = encode_rune 8233"
  shows "utf8_size s = 3"
proof -
  obtain c where "take 3 s = [ch 226, ch 128, c]" "c = ch 168 \<or> c = ch 169"
    using assms by (auto simp: encode_rune_def)
  then obtain r where "s = ch 226 # ch 128 # c # r" "c = ch 168 \<or> c = ch 169"
    by (metis append_Cons append_Nil append_take_drop_id)
  then show ?thesis by (auto simp: in_range_def)
qed

lemma to_valid_Nil [simp]: "to_valid [] = []"
  by (simp add: to_valid.simps)

text \<open>Unquoting a quoted string gives the string, with invalid bytes replaced.\<close>

lemma unquote_quote: "unquote (quote_body s @ ch 34 # t) = Some (to_valid s, t)"
proof (induction "length s" arbitrary: s rule: less_induct)
  case less
  show ?case
  proof (cases s)
    case Nil
    then show ?thesis by (simp add: quote_body.simps [of "[]"] unquote_end)
  next
    case (Cons c cs)
    have IH: "unquote (quote_body x @ ch 34 # t) = Some (to_valid x, t)" if "length x < length s" for x
      using less that by blast
    note q = quote_body.simps [of s] and v = to_valid.simps [of s]
    consider "utf8_size s = 0" | "utf8_size s = 1"
      | "take 3 s = encode_rune 8232" "utf8_size s = 3" | "take 3 s = encode_rune 8233" "utf8_size s = 3"
      | "utf8_size s \<notin> {0, 1}" "take 3 s \<noteq> encode_rune 8232" "take 3 s \<noteq> encode_rune 8233"
      using utf8_size_line_sep [of s] by auto
    then show ?thesis
    proof cases
      case 1
      with q v Cons have "quote_body s = ch 92 # ''ufffd'' @ quote_body cs" "to_valid s = RuneError @ to_valid cs"
        by (simp_all del: utf8_size.simps)
      with IH [of cs] Cons show ?thesis
        using unquote_ufffd [of "quote_body cs @ ch 34 # t"] by simp
    next
      case 2
      with q v Cons have "quote_body s = esc_ascii c @ quote_body cs" "to_valid s = c # to_valid cs"
        by (simp_all del: utf8_size.simps)
      moreover have "code c < 128" using 2 Cons utf8_size_1 by blast
      ultimately show ?thesis
        using IH [of cs] Cons unquote_esc_ascii [of c "quote_body cs @ ch 34 # t"] by simp
    next
      case 3
      with q v Cons have "quote_body s = ch 92 # ''u2028'' @ quote_body (drop 3 s)"
        "to_valid s = encode_rune 8232 @ to_valid (drop 3 s)"
        by (simp_all del: utf8_size.simps take_Suc_Cons take_Cons_numeral drop_Cons_numeral)
      with IH [of "drop 3 s"] Cons show ?thesis
        using unquote_u2028 [of "quote_body (drop 3 s) @ ch 34 # t"] by simp
    next
      case 4
      have "encode_rune 8233 \<noteq> encode_rune 8232" by (simp add: encode_rune_def)
      with 4 q v Cons have "quote_body s = ch 92 # ''u2029'' @ quote_body (drop 3 s)"
        "to_valid s = encode_rune 8233 @ to_valid (drop 3 s)"
        by (simp_all del: utf8_size.simps take_Suc_Cons take_Cons_numeral drop_Cons_numeral)
      with IH [of "drop 3 s"] Cons show ?thesis
        using unquote_u2029 [of "quote_body (drop 3 s) @ ch 34 # t"] by simp
    next
      case 5
      let ?n = "utf8_size s"
      have "quote_body s = take ?n s @ quote_body (drop ?n s)" "to_valid s = take ?n s @ to_valid (drop ?n s)"
        using 5 Cons q v by (simp_all del: utf8_size.simps take_Suc_Cons take_Cons_numeral drop_Cons_numeral)
      moreover have "\<not> code c < 128" using 5(1) Cons utf8_size_1 [of c cs] by auto
      moreover have "length (drop ?n s) < length s" using 5(1) Cons by simp
      ultimately show ?thesis
        using IH [of "drop ?n s"] 5(1) unquote_copy [OF Cons, of "quote_body (drop ?n s) @ ch 34 # t"] by simp
    qed
  qed
qed

definition ascii :: "string \<Rightarrow> bool" where
  "ascii s \<longleftrightarrow> list_all (\<lambda>c. code c < 128) s"

lemma to_valid_ascii [simp]: "ascii s \<Longrightarrow> to_valid s = s"
proof (induction s)
  case (Cons c cs)
  then show ?case by (subst to_valid.simps) (simp add: ascii_def)
qed simp

text \<open>Characters that the encoder copies.\<close>

definition plain :: "string \<Rightarrow> bool" where
  "plain s \<longleftrightarrow> list_all (\<lambda>c. 32 \<le> code c \<and> code c < 128 \<and> code c \<notin> {34, 92, 60, 62, 38}) s"

lemma plain_ascii: "plain s \<Longrightarrow> ascii s"
  by (auto simp: plain_def ascii_def list_all_iff)

lemma quote_body_plain: "plain s \<Longrightarrow> quote_body s = s"
proof (induction s)
  case (Cons c cs)
  then have "esc_ascii c = [c]" "code c < 128" by (auto simp: plain_def esc_ascii_def Let_def)
  with Cons show ?case by (subst quote_body.simps) (simp add: plain_def)
qed (simp add: quote_body.simps)

lemma json_quote_plain: "plain s \<Longrightarrow> json_quote s = ch 34 # s @ [ch 34]"
  by (simp add: json_quote_def quote_body_plain)

end
