(* ===== verification/Json.thy ===== *)
theory Json
  imports Json_String
begin

text \<open>
  The part of Go's \<open>encoding/json\<close> that the signalling messages use: the grammar of JSON texts as
  the decoder checks it (white space, numbers, nesting limit), the compact texts of the encoder,
  and the assignment of object members to the fields of a struct.  Decimal numbers are those of
  \<open>strconv\<close>.  Printing a value and parsing it again gives the value, with invalid UTF-8 replaced.
\<close>

section \<open>Decimal numbers\<close>

definition digit :: "nat \<Rightarrow> char" where "digit n = ch (48 + n)"

definition is_digit :: "char \<Rightarrow> bool" where "is_digit c \<longleftrightarrow> 48 \<le> code c \<and> code c \<le> 57"

fun dec :: "nat \<Rightarrow> string" where
  "dec n = (if n < 10 then [digit n] else dec (n div 10) @ [digit (n mod 10)])"

declare dec.simps [simp del]

definition dec_int :: "int \<Rightarrow> string" where
  "dec_int i = (if i < 0 then CHR ''-'' # dec (nat (- i)) else dec (nat i))"

definition parse_dec :: "string \<Rightarrow> nat option" where
  "parse_dec s =
     (if s \<noteq> [] \<and> list_all is_digit s then Some (foldl (\<lambda>a c. a * 10 + (code c - 48)) 0 s) else None)"

text \<open>\<open>strconv.ParseInt(s, 10, 64)\<close>, which also accepts a leading plus sign.\<close>

definition ParseInt64 :: "string \<Rightarrow> int option" where
  "ParseInt64 s =
     (case
        (case s of
           c # r \<Rightarrow>
             if c = CHR ''-'' then map_option (\<lambda>n. - int n) (parse_dec r)
             else if c = CHR ''+'' then map_option int (parse_dec r)
             else map_option int (parse_dec s)
         | [] \<Rightarrow> None)
      of None \<Rightarrow> None
       | Some i \<Rightarrow> if - (2 ^ 63) \<le> i \<and> i < 2 ^ 63 then Some i else None)"

section \<open>Values and texts\<close>

datatype json =
  JNull | JBool bool | JNum string | JStr string | JArr "json list" | JObj "(string \<times> json) list"

definition skip_ws :: "string \<Rightarrow> string" where
  "skip_ws s = dropWhile (\<lambda>c. code c = 32 \<or> code c = 9 \<or> code c = 10 \<or> code c = 13) s"

definition scan_int :: "string \<Rightarrow> (string \<times> string) option" where
  "scan_int s =
     (case s of
        [] \<Rightarrow> None
      | c # r \<Rightarrow>
          if c = CHR ''0'' then Some ([c], r)
          else if is_digit c then Some (takeWhile is_digit s, dropWhile is_digit s)
          else None)"

definition scan_digits :: "string \<Rightarrow> (string \<times> string) option" where
  "scan_digits s =
     (if takeWhile is_digit s = [] then None else Some (takeWhile is_digit s, dropWhile is_digit s))"

definition scan_frac :: "string \<Rightarrow> (string \<times> string) option" where
  "scan_frac s =
     (case s of
        c # r \<Rightarrow> if c = CHR ''.'' then prepend [c] (scan_digits r) else Some ([], s)
      | [] \<Rightarrow> Some ([], s))"

definition scan_exp :: "string \<Rightarrow> (string \<times> string) option" where
  "scan_exp s =
     (case s of
        c # r \<Rightarrow>
          if c = CHR ''e'' \<or> c = CHR ''E'' then
            (case r of
               g # r' \<Rightarrow>
                 if g = CHR ''+'' \<or> g = CHR ''-'' then prepend [c, g] (scan_digits r')
                 else prepend [c] (scan_digits r)
             | [] \<Rightarrow> None)
          else Some ([], s)
      | [] \<Rightarrow> Some ([], s))"

definition scan_after :: "(string \<times> string) option \<Rightarrow> (string \<Rightarrow> (string \<times> string) option) \<Rightarrow> (string \<times> string) option" where
  "scan_after x f = (case x of None \<Rightarrow> None | Some (p, r) \<Rightarrow> prepend p (f r))"

definition scan_num :: "string \<Rightarrow> (string \<times> string) option" where
  "scan_num s =
     scan_after
       (scan_after
          (case s of
             c # r \<Rightarrow> if c = CHR ''-'' then prepend [c] (scan_int r) else scan_int s
           | [] \<Rightarrow> None)
          scan_frac)
       scan_exp"

definition scan_literal :: "string \<Rightarrow> (json \<times> string) option" where
  "scan_literal s =
     (if HasPrefix s ''true'' then Some (JBool True, drop 4 s)
      else if HasPrefix s ''false'' then Some (JBool False, drop 5 s)
      else if HasPrefix s ''null'' then Some (JNull, drop 4 s)
      else map_option (apfst JNum) (scan_num s))"

lemma length_skip_ws: "length (skip_ws s) \<le> length s"
  by (simp add: skip_ws_def length_dropWhile_le)

lemma skip_ws_Cons: "skip_ws s = c # r \<Longrightarrow> length r < length s"
  using length_skip_ws [of s] by simp

text \<open>
  The parser; \<open>d\<close> is the nesting depth that is left (Go allows \<open>10000\<close>).  The tests that a rest is
  shorter make the recursion visibly end; a parser always consumes input, so they are always true.
\<close>

function parse_value :: "nat \<Rightarrow> string \<Rightarrow> (json \<times> string) option"
  and parse_elems :: "nat \<Rightarrow> string \<Rightarrow> (json list \<times> string) option"
  and parse_members :: "nat \<Rightarrow> string \<Rightarrow> ((string \<times> json) list \<times> string) option" where
  "parse_value d s =
     (case skip_ws s of
        [] \<Rightarrow> None
      | c # r \<Rightarrow>
          if c = CHR ''{'' then
            if d = 0 then None
            else
              (case skip_ws r of
                 [] \<Rightarrow> None
               | e # r' \<Rightarrow>
                   if e = CHR ''}'' then Some (JObj [], r')
                   else map_option (apfst JObj) (parse_members (d - 1) r))
          else if c = CHR ''['' then
            if d = 0 then None
            else
              (case skip_ws r of
                 [] \<Rightarrow> None
               | e # r' \<Rightarrow>
                   if e = CHR '']'' then Some (JArr [], r')
                   else map_option (apfst JArr) (parse_elems (d - 1) r))
          else if code c = 34 then map_option (apfst JStr) (unquote r)
          else scan_literal (c # r))"
| "parse_elems d s =
     (case parse_value d s of
        None \<Rightarrow> None
      | Some (v, r) \<Rightarrow>
          if length r < length s then
            (case skip_ws r of
               [] \<Rightarrow> None
             | c # r' \<Rightarrow>
                 if c = CHR '','' then map_option (apfst (Cons v)) (parse_elems d r')
                 else if c = CHR '']'' then Some ([v], r')
                 else None)
          else None)"
| "parse_members d s =
     (case skip_ws s of
        [] \<Rightarrow> None
      | q # r \<Rightarrow>
          if code q \<noteq> 34 then None
          else
            (case unquote r of
               None \<Rightarrow> None
             | Some (k, r1) \<Rightarrow>
                 (case skip_ws r1 of
                    [] \<Rightarrow> None
                  | c # r2 \<Rightarrow>
                      if c = CHR '':'' \<and> length r2 < length s then
                        (case parse_value d r2 of
                           None \<Rightarrow> None
                         | Some (v, r3) \<Rightarrow>
                             (case skip_ws r3 of
                                [] \<Rightarrow> None
                              | e # r4 \<Rightarrow>
                                  if e = CHR '','' \<and> length r4 < length s then
                                    map_option (apfst (Cons (k, v))) (parse_members d r4)
                                  else if e = CHR ''}'' then Some ([(k, v)], r4)
                                  else None))
                      else None)))"
  by pat_completeness auto

termination
  by (relation "measure (\<lambda>x. case x of
        Inl (d, s) \<Rightarrow> 2 * length s
      | Inr (Inl (d, s)) \<Rightarrow> 2 * length s + 1
      | Inr (Inr (d, s)) \<Rightarrow> 2 * length s + 1)")
    (auto dest!: skip_ws_Cons [OF sym] skip_ws_Cons)

declare parse_value.simps [simp del] parse_elems.simps [simp del] parse_members.simps [simp del]

definition json_parse :: "string \<Rightarrow> json option" where
  "json_parse s =
     (case parse_value 10000 s of
        Some (v, r) \<Rightarrow> if skip_ws r = [] then Some v else None
      | None \<Rightarrow> None)"

subsection \<open>The encoder\<close>

fun sep_by :: "string list \<Rightarrow> string" where
  "sep_by [] = []"
| "sep_by [x] = x"
| "sep_by (x # xs) = x @ CHR '','' # sep_by xs"

fun json_print :: "json \<Rightarrow> string" where
  "json_print JNull = ''null''"
| "json_print (JBool b) = (if b then ''true'' else ''false'')"
| "json_print (JNum s) = s"
| "json_print (JStr s) = json_quote s"
| "json_print (JArr vs) = CHR ''['' # sep_by (map json_print vs) @ '']''"
| "json_print (JObj ms) =
     CHR ''{'' # sep_by (map (\<lambda>(k, v). json_quote k @ CHR '':'' # json_print v) ms) @ ''}''"

subsection \<open>Decoding into a struct\<close>

text \<open>
  \<open>foldName\<close>: upper case for ASCII letters; the long s and the Kelvin sign are the only other
  characters that fold to an ASCII letter.
\<close>

fun fold_name :: "string \<Rightarrow> string" where
  "fold_name [] = []"
| "fold_name (c # cs) =
     (if 97 \<le> code c \<and> code c \<le> 122 then ch (code c - 32) # fold_name cs
      else if code c = 197 \<and> cs \<noteq> [] \<and> code (hd cs) = 191 then CHR ''S'' # fold_name (tl cs)
      else if code c = 226 \<and> HasPrefix cs [ch 132, ch 170] then CHR ''K'' # fold_name (drop 2 cs)
      else c # fold_name cs)"

text \<open>
  A setter stores a value into a field; \<^term>\<open>None\<close> is a value of the wrong type.  A \<open>null\<close> leaves
  every field but a pointer alone.
\<close>

type_synonym 'r setter = "json \<Rightarrow> 'r \<Rightarrow> 'r option"
type_synonym 'r fields = "(string \<times> 'r setter) list"

definition set_string :: "(string \<Rightarrow> 'r \<Rightarrow> 'r) \<Rightarrow> 'r setter" where
  "set_string f v r = (case v of JStr s \<Rightarrow> Some (f s r) | JNull \<Rightarrow> Some r | _ \<Rightarrow> None)"

definition set_string_ptr :: "(string option \<Rightarrow> 'r \<Rightarrow> 'r) \<Rightarrow> 'r setter" where
  "set_string_ptr f v r = (case v of JStr s \<Rightarrow> Some (f (Some s) r) | JNull \<Rightarrow> Some (f None r) | _ \<Rightarrow> None)"

definition set_int64 :: "(int \<Rightarrow> 'r \<Rightarrow> 'r) \<Rightarrow> 'r setter" where
  "set_int64 f v r =
     (case v of
        JNum s \<Rightarrow> map_option (\<lambda>i. f i r) (ParseInt64 s)
      | JNull \<Rightarrow> Some r
      | _ \<Rightarrow> None)"

definition find_field :: "'r fields \<Rightarrow> string \<Rightarrow> 'r setter option" where
  "find_field fs k =
     (case map_of fs k of
        Some f \<Rightarrow> Some f
      | None \<Rightarrow> map_of (map (apfst fold_name) fs) (fold_name k))"

text \<open>
  The members of an object in order; a later one overwrites an earlier one.  A wrong type (or,
  when \<open>strict\<close>, an unknown name) is remembered, the first one is the error in the end.
\<close>

fun decode_members :: "bool \<Rightarrow> 'r fields \<Rightarrow> (string \<times> json) list \<Rightarrow> 'r \<Rightarrow> err option \<Rightarrow> err option \<times> 'r" where
  "decode_members strict fs [] r e = (e, r)"
| "decode_members strict fs ((k, v) # ms) r e =
     (case find_field fs k of
        None \<Rightarrow> decode_members strict fs ms r (if strict \<and> e = None then Some json_UnknownField else e)
      | Some f \<Rightarrow>
          (case f v r of
             Some r' \<Rightarrow> decode_members strict fs ms r' e
           | None \<Rightarrow> decode_members strict fs ms r (if e = None then Some json_TypeError else e)))"

definition decode_struct :: "bool \<Rightarrow> 'r fields \<Rightarrow> json \<Rightarrow> 'r \<Rightarrow> err + 'r" where
  "decode_struct strict fs v r =
     (case v of
        JNull \<Rightarrow> Inr r
      | JObj ms \<Rightarrow> (case decode_members strict fs ms r None of (Some e, _) \<Rightarrow> Inl e | (None, r') \<Rightarrow> Inr r')
      | _ \<Rightarrow> Inl json_TypeError)"

definition json_Unmarshal :: "'r fields \<Rightarrow> string \<Rightarrow> 'r \<Rightarrow> err + 'r" where
  "json_Unmarshal fs s r =
     (case json_parse s of None \<Rightarrow> Inl json_SyntaxError | Some v \<Rightarrow> decode_struct False fs v r)"

text \<open>
  \<open>json.NewDecoder(...).Decode\<close> with \<open>DisallowUnknownFields\<close> reads one value and does not look at
  what follows; on an empty input it returns \<open>io.EOF\<close>.
\<close>

definition json_DecodeStrict :: "'r fields \<Rightarrow> string \<Rightarrow> 'r \<Rightarrow> err + 'r" where
  "json_DecodeStrict fs s r =
     (if skip_ws s = [] then Inl io_EOF
      else
        (case parse_value 10000 s of
           None \<Rightarrow> Inl json_SyntaxError
         | Some (v, _) \<Rightarrow> decode_struct True fs v r))"

section \<open>Lemmas\<close>

lemma is_digit_digit [simp]: "n < 10 \<Longrightarrow> is_digit (digit n)"
  by (simp add: is_digit_def digit_def)

lemma code_digit [simp]: "n < 10 \<Longrightarrow> code (digit n) = 48 + n"
  by (simp add: digit_def)

lemma dec_digits: "list_all is_digit (dec n)" "dec n \<noteq> []"
  by (induction n rule: dec.induct) (subst dec.simps, simp)+

lemma foldl_dec: "foldl (\<lambda>a c. a * 10 + (code c - 48)) 0 (dec n) = n"
proof (induction n rule: dec.induct)
  case (1 n)
  then show ?case by (subst dec.simps) simp
qed

lemma parse_dec_dec [simp]: "parse_dec (dec n) = Some n"
  by (simp add: parse_dec_def dec_digits foldl_dec)

lemma hd_dec: "is_digit (hd (dec n))"
  using dec_digits [of n] by (cases "dec n") auto

lemma ParseInt64_dec:
  "ParseInt64 (dec n) = (if n < 2 ^ 63 then Some (int n) else None)"
proof -
  obtain c r where c: "dec n = c # r" using dec_digits(2) [of n] by (cases "dec n") auto
  have "is_digit c" using hd_dec [of n] c by simp
  then have "c \<noteq> CHR ''-''" "c \<noteq> CHR ''+''" by (auto simp: is_digit_def)
  then have "ParseInt64 (dec n) = (if - (2 ^ 63) \<le> int n \<and> int n < 2 ^ 63 then Some (int n) else None)"
    using parse_dec_dec [of n] by (simp add: ParseInt64_def c)
  moreover have "int n < 2 ^ 63 \<longleftrightarrow> n < 2 ^ 63" by (metis of_nat_less_iff of_nat_numeral of_nat_power)
  ultimately show ?thesis by simp
qed

lemma skip_ws_idem [simp]: "skip_ws [] = []"
  by (simp add: skip_ws_def)

lemma skip_ws_solid: "code c \<notin> {32, 9, 10, 13} \<Longrightarrow> skip_ws (c # r) = c # r"
  by (simp add: skip_ws_def)

subsection \<open>Printing and parsing\<close>

text \<open>What may follow a value inside a text, and the values whose texts can be read back.\<close>

definition delim :: "string \<Rightarrow> bool" where
  "delim t \<longleftrightarrow> t = [] \<or> hd t = CHR '','' \<or> hd t = CHR '']'' \<or> hd t = CHR ''}''"

fun printable :: "nat \<Rightarrow> json \<Rightarrow> bool" where
  "printable d (JNum s) \<longleftrightarrow> scan_num s = Some (s, [])"
| "printable d (JArr vs) \<longleftrightarrow> 0 < d \<and> list_all (printable (d - 1)) vs"
| "printable d (JObj ms) \<longleftrightarrow> 0 < d \<and> list_all (\<lambda>(k, v). printable (d - 1) v) ms"
| "printable d _ \<longleftrightarrow> True"

fun json_valid :: "json \<Rightarrow> json" where
  "json_valid (JStr s) = JStr (to_valid s)"
| "json_valid (JArr vs) = JArr (map json_valid vs)"
| "json_valid (JObj ms) = JObj (map (\<lambda>(k, v). (to_valid k, json_valid v)) ms)"
| "json_valid v = v"

lemma delim_digit: "delim t \<Longrightarrow> takeWhile is_digit t = [] \<and> dropWhile is_digit t = t"
  by (cases t) (auto simp: delim_def is_digit_def)

lemma takeWhile_delim:
  "delim t \<Longrightarrow> takeWhile is_digit (s @ t) = takeWhile is_digit s \<and>
    dropWhile is_digit (s @ t) = dropWhile is_digit s @ t"
  by (induction s) (auto simp: delim_digit)

lemma scan_digits_delim: "scan_digits s = Some (p, r) \<Longrightarrow> delim t \<Longrightarrow> scan_digits (s @ t) = Some (p, r @ t)"
  by (auto simp: scan_digits_def takeWhile_delim split: if_splits)

lemma prepend_eq_Some: "prepend p x = Some (q, r) \<longleftrightarrow> (\<exists>q'. x = Some (q', r) \<and> q = p @ q')"
  by (cases x) (auto simp: prepend_def)

lemma scan_int_delim: "scan_int s = Some (p, r) \<Longrightarrow> delim t \<Longrightarrow> scan_int (s @ t) = Some (p, r @ t)"
  using takeWhile_delim [of t s] by (cases s) (auto simp: scan_int_def split: if_splits)

lemma scan_frac_delim: "scan_frac s = Some (p, r) \<Longrightarrow> delim t \<Longrightarrow> scan_frac (s @ t) = Some (p, r @ t)"
  by (cases s; cases t)
    (auto simp: scan_frac_def prepend_eq_Some delim_def dest: scan_digits_delim [of _ _ _ t] split: if_splits)

lemma scan_exp_delim: "scan_exp s = Some (p, r) \<Longrightarrow> delim t \<Longrightarrow> scan_exp (s @ t) = Some (p, r @ t)"
proof (cases s)
  case Nil
  assume "scan_exp s = Some (p, r)" "delim t"
  with Nil show ?thesis by (cases t) (auto simp: scan_exp_def delim_def)
next
  case (Cons c cs)
  assume a: "scan_exp s = Some (p, r)" "delim t"
  show ?thesis
  proof (cases "c = CHR ''e'' \<or> c = CHR ''E''")
    case True
    with a Cons obtain g r' where g: "cs = g # r'" by (cases cs) (auto simp: scan_exp_def)
    show ?thesis
      using a Cons g True scan_digits_delim [of r' _ _ t] scan_digits_delim [of cs _ _ t]
      by (auto simp: scan_exp_def prepend_eq_Some split: if_splits)
  next
    case False
    with a Cons have "p = []" "r = s" by (simp_all add: scan_exp_def)
    with False Cons show ?thesis by (simp add: scan_exp_def)
  qed
qed

lemma scan_after_Some:
  "scan_after x f = Some (p, r) \<longleftrightarrow>
     (\<exists>p1 r1 p2. x = Some (p1, r1) \<and> f r1 = Some (p2, r) \<and> p = p1 @ p2)"
  by (cases x) (auto simp: scan_after_def prepend_eq_Some)

lemma scan_num_delim:
  assumes "scan_num s = Some (p, r)" "delim t"
  shows "scan_num (s @ t) = Some (p, r @ t)"
proof -
  let ?i = "\<lambda>s. case s of c # r \<Rightarrow> if c = CHR ''-'' then prepend [c] (scan_int r) else scan_int s | [] \<Rightarrow> None"
  have i: "?i (s @ t) = Some (q, u @ t)" if "?i s = Some (q, u)" for q u
  proof (cases s)
    case Nil
    with that show ?thesis by simp
  next
    case (Cons c cs)
    show ?thesis
      using that Cons scan_int_delim [OF _ assms(2), of cs] scan_int_delim [OF _ assms(2), of s]
      by (auto simp: prepend_eq_Some split: if_splits)
  qed
  from assms(1) obtain p1 r1 p2 r2 p3 where
    "?i s = Some (p1, r1)" "scan_frac r1 = Some (p2, r2)" "scan_exp r2 = Some (p3, r)" "p = (p1 @ p2) @ p3"
    unfolding scan_num_def scan_after_Some by blast
  then have "?i (s @ t) = Some (p1, r1 @ t)" "scan_frac (r1 @ t) = Some (p2, r2 @ t)"
    "scan_exp (r2 @ t) = Some (p3, r @ t)"
    using i scan_frac_delim [OF _ assms(2)] scan_exp_delim [OF _ assms(2)] by simp_all
  with \<open>p = (p1 @ p2) @ p3\<close> show ?thesis
    unfolding scan_num_def scan_after_def by (simp add: prepend_def)
qed

lemma scan_num_dec: "scan_num (dec n) = Some (dec n, [])"
proof -
  have all: "takeWhile is_digit (dec n) = dec n" "dropWhile is_digit (dec n) = []"
    using dec_digits(1) [of n] by (simp_all add: takeWhile_eq_all_conv dropWhile_eq_Nil_conv list_all_iff)
  obtain c r where c: "dec n = c # r" using dec_digits(2) [of n] by (cases "dec n") auto
  have d: "is_digit c" using hd_dec [of n] c by simp
  then have "c \<noteq> CHR ''-''" by (auto simp: is_digit_def)
  moreover have "scan_int (dec n) = Some (dec n, [])"
  proof (cases "c = CHR ''0''")
    case True
    have "n = 0"
    proof (rule ccontr)
      assume "n \<noteq> 0"
      then have "hd (dec n) \<noteq> CHR ''0''"
      proof (induction n rule: dec.induct)
        case (1 n)
        show ?case
        proof (cases "n < 10")
          case True
          then have "code (digit n) \<noteq> code (CHR ''0'')" using 1 by (simp add: digit_def)
          then have "digit n \<noteq> CHR ''0''" by metis
          then show ?thesis using True by (subst dec.simps) simp
        next
          case False
          then have "hd (dec n) = hd (dec (n div 10))"
            using dec_digits(2) [of "n div 10"] by (subst dec.simps) (simp add: hd_append)
          with 1 False show ?thesis by auto
        qed
      qed
      with True c show False by simp
    qed
    then have "r = []" using c by (simp add: dec.simps)
    then show ?thesis using True c by (simp add: scan_int_def)
  next
    case False
    with d show ?thesis using all by (simp add: scan_int_def c)
  qed
  ultimately show ?thesis
    by (simp add: scan_num_def c scan_after_def scan_frac_def scan_exp_def prepend_def)
qed

lemma delim_solid: "delim t \<Longrightarrow> skip_ws t = t"
  by (cases t) (auto simp: delim_def skip_ws_solid)

lemma parse_quoted: "parse_value d (json_quote s @ t) = Some (JStr (to_valid s), t)"
  by (simp add: parse_value.simps [of d] json_quote_def skip_ws_solid unquote_quote ch_eq_iff)

text \<open>No printed value begins with white space, a closing bracket or a closing brace.\<close>

lemma json_print_start:
  assumes "printable d v"
  shows "\<exists>c r. json_print v = c # r \<and> (\<forall>t. skip_ws (c # t) = c # t) \<and> c \<noteq> CHR '']'' \<and> c \<noteq> CHR ''}''"
proof (cases v)
  case (JNum s)
  with assms have s: "scan_num s = Some (s, [])" by simp
  then obtain c r where c: "s = c # r" "c = CHR ''-'' \<or> is_digit c"
    by (cases s) (auto simp: scan_num_def scan_after_Some scan_int_def is_digit_def split: if_splits)
  then have "c \<noteq> CHR '']''" "c \<noteq> CHR ''}''" "code c \<notin> {32, 9, 10, 13}"
    by (auto simp: is_digit_def)
  with JNum c show ?thesis by (simp add: skip_ws_solid)
next
  case (JStr s)
  then show ?thesis
    by (intro exI [of _ "ch 34"] exI [of _ "quote_body s @ [ch 34]"])
      (simp add: json_quote_def skip_ws_solid ch_eq_iff)
qed (simp_all add: skip_ws_solid)

lemma parse_elems_print:
  assumes "vs \<noteq> []" "\<And>v t. v \<in> set vs \<Longrightarrow> delim t \<Longrightarrow> parse_value d (json_print v @ t) = Some (json_valid v, t)"
    and "\<And>v. v \<in> set vs \<Longrightarrow> printable d v"
  shows "parse_elems d (sep_by (map json_print vs) @ CHR '']'' # t) = Some (map json_valid vs, t)"
  using assms
proof (induction vs)
  case Nil
  then show ?case by simp
next
  case (Cons v vs)
  obtain c r where c: "json_print v = c # r"
    using json_print_start [of d v] Cons.prems(3) [of v] by auto
  have P: "parse_value d (json_print v @ u) = Some (json_valid v, u)" if "delim u" for u
    using Cons.prems(2) [of v] that by simp
  show ?case
  proof (cases vs)
    case Nil
    then show ?thesis using P [of "CHR '']'' # t"]
      by (simp add: parse_elems.simps delim_def skip_ws_solid c)
  next
    case (Cons w ws)
    let ?rest = "sep_by (map json_print vs) @ CHR '']'' # t"
    have e: "sep_by (map json_print (v # vs)) @ CHR '']'' # t = json_print v @ CHR '','' # ?rest"
      using Cons by simp
    have "parse_elems d ?rest = Some (map json_valid vs, t)"
      using Cons.IH Cons.prems \<open>vs = w # ws\<close> by simp
    with P [of "CHR '','' # ?rest"] show ?thesis
      unfolding e by (subst parse_elems.simps) (simp add: delim_def skip_ws_solid c)
  qed
qed

abbreviation print_member :: "string \<times> json \<Rightarrow> string" where
  "print_member m \<equiv> (case m of (k, v) \<Rightarrow> json_quote k @ CHR '':'' # json_print v)"

lemma parse_members_step:
  assumes "\<And>t. delim t \<Longrightarrow> parse_value d (json_print v @ t) = Some (json_valid v, t)" "delim t" "t = e # t'"
  shows "parse_members d (print_member (k, v) @ t) =
    (if e = CHR '','' then map_option (apfst (Cons (to_valid k, json_valid v))) (parse_members d t')
     else if e = CHR ''}'' then Some ([(to_valid k, json_valid v)], t') else None)"
proof -
  have "parse_value d (json_print v @ t) = Some (json_valid v, t)" by (rule assms) fact
  then show ?thesis
    using assms(2,3) delim_solid [OF assms(2)]
    by (simp add: parse_members.simps [of d "_ @ _"] parse_members.simps [of d "_ # _"]
        json_quote_def skip_ws_solid unquote_quote)
qed

lemma parse_members_print:
  assumes "ms \<noteq> []" "\<And>k v t. (k, v) \<in> set ms \<Longrightarrow> delim t \<Longrightarrow> parse_value d (json_print v @ t) = Some (json_valid v, t)"
  shows "parse_members d (sep_by (map print_member ms) @ CHR ''}'' # t) =
    Some (map (\<lambda>(k, v). (to_valid k, json_valid v)) ms, t)"
  using assms
proof (induction ms)
  case Nil
  then show ?case by simp
next
  case (Cons m ms)
  obtain k v where m: "m = (k, v)" by force
  have P: "parse_value d (json_print v @ u) = Some (json_valid v, u)" if "delim u" for u
    using Cons.prems(2) [of k v] that m by simp
  show ?case
  proof (cases ms)
    case Nil
    then show ?thesis using parse_members_step [of d v "CHR ''}'' # t" "CHR ''}''" t k] P m
      by (simp add: delim_def)
  next
    case (Cons w ws)
    let ?rest = "sep_by (map print_member ms) @ CHR ''}'' # t"
    have e: "sep_by (map print_member (m # ms)) @ CHR ''}'' # t = print_member (k, v) @ CHR '','' # ?rest"
      using Cons m by simp
    have "parse_members d ?rest = Some (map (\<lambda>(k, v). (to_valid k, json_valid v)) ms, t)"
      using Cons.IH Cons.prems \<open>ms = w # ws\<close> by (metis list.distinct(1) list.set_intros(2))
    then show ?thesis
      unfolding e using parse_members_step [of d v "CHR '','' # ?rest" "CHR '',''" ?rest k] P m
      by (simp add: delim_def)
  qed
qed

lemma parse_print:
  "printable d v \<Longrightarrow> delim t \<Longrightarrow> parse_value d (json_print v @ t) = Some (json_valid v, t)"
proof (induction v arbitrary: d t)
  case (JNum s)
  obtain c r where c: "s = c # r" "c = CHR ''-'' \<or> is_digit c"
    using JNum.prems by (cases s) (auto simp: scan_num_def scan_after_Some scan_int_def is_digit_def split: if_splits)
  have "code c \<noteq> 123" "code c \<noteq> 91" "code c \<noteq> 34" "code c \<noteq> 116" "code c \<noteq> 102" "code c \<noteq> 110"
    "code c \<notin> {32, 9, 10, 13}"
    using c(2) by (auto simp: is_digit_def)
  then have "c \<noteq> CHR ''{''" "c \<noteq> CHR ''[''" "code c \<noteq> 34" "c \<noteq> CHR ''t''" "c \<noteq> CHR ''f''" "c \<noteq> CHR ''n''"
    "skip_ws (c # r @ t) = c # r @ t"
    by (auto intro: skip_ws_solid)
  moreover have "scan_num (c # r @ t) = Some (s, t)"
    using scan_num_delim [of s s "[]" t] JNum.prems c by simp
  ultimately show ?case
    by (simp add: parse_value.simps [of d] c(1) scan_literal_def HasPrefix_def)
next
  case (JStr s)
  then show ?case by (simp add: parse_quoted)
next
  case (JArr vs)
  show ?case
  proof (cases vs)
    case Nil
    with JArr.prems show ?thesis by (simp add: parse_value.simps [of d] skip_ws_solid)
  next
    case (Cons w ws)
    have p: "printable (d - 1) v" if "v \<in> set vs" for v using JArr.prems(1) that by (simp add: list_all_iff)
    obtain c r where c: "json_print w = c # r" "\<forall>t. skip_ws (c # t) = c # t" "c \<noteq> CHR '']''"
      using json_print_start [OF p, of w] Cons by auto
    let ?body = "sep_by (map json_print vs) @ CHR '']'' # t"
    have "parse_elems (d - 1) ?body = Some (map json_valid vs, t)"
      using parse_elems_print [of vs "d - 1" t] JArr.IH p Cons by blast
    moreover obtain r' where "?body = c # r'" using Cons c(1) by (cases ws) auto
    ultimately show ?thesis
      using JArr.prems c by (simp add: parse_value.simps [of d] skip_ws_solid)
  qed
next
  case (JObj ms)
  show ?case
  proof (cases ms)
    case Nil
    with JObj.prems show ?thesis by (simp add: parse_value.simps [of d] skip_ws_solid)
  next
    case (Cons w ws)
    have p: "printable (d - 1) v" if "(k, v) \<in> set ms" for k v
      using JObj.prems(1) that by (auto simp: list_all_iff)
    let ?body = "sep_by (map print_member ms) @ CHR ''}'' # t"
    have "parse_value (d - 1) (json_print v @ u) = Some (json_valid v, u)" if "(k, v) \<in> set ms" "delim u" for k v u
      using JObj.IH [of "(k, v)" v "d - 1" u] p that by simp
    then have "parse_members (d - 1) ?body = Some (map (\<lambda>(k, v). (to_valid k, json_valid v)) ms, t)"
      using parse_members_print [of ms "d - 1" t] Cons by blast
    moreover obtain r' where "?body = ch 34 # r'"
      using Cons by (cases w; cases ws) (auto simp: json_quote_def)
    ultimately show ?thesis
      using JObj.prems by (simp add: parse_value.simps [of d] skip_ws_solid ch_eq_iff)
  qed
qed (simp_all add: parse_value.simps skip_ws_solid scan_literal_def HasPrefix_def)

lemma json_parse_print: "printable 10000 v \<Longrightarrow> json_parse (json_print v) = Some (json_valid v)"
  using parse_print [of 10000 v "[]"] by (simp add: json_parse_def delim_def)

end
