(* ===== verification/Go_Net.thy ===== *)
theory Go_Net
  imports Json_String
begin

text \<open>
  What the sources use of Go's package \<open>net\<close>: addresses as byte slices, \<open>net.ParseIP\<close> with both
  address families, \<open>To4\<close>, the classes of addresses, and \<open>net.SplitHostPort\<close>.
\<close>

section \<open>Model\<close>

text \<open>A \<open>net.IP\<close> is a slice of bytes, of 4 or 16 when it is an address; \<open>nil\<close> is the empty one.\<close>

type_synonym IP = bytes

definition v4InV6Prefix :: bytes where
  "v4InV6Prefix = replicate 10 0 @ [0xff, 0xff]"

definition To4 :: "IP \<Rightarrow> IP option" where
  "To4 ip =
     (if length ip = 4 then Some ip
      else if length ip = 16 \<and> take 12 ip = v4InV6Prefix then Some (drop 12 ip)
      else None)"

definition IsPrivate :: "IP \<Rightarrow> bool" where
  "IsPrivate ip =
     (case To4 ip of
        Some ip4 \<Rightarrow>
          ip4 ! 0 = 10 \<or> (ip4 ! 0 = 172 \<and> and (ip4 ! 1) 0xf0 = 16) \<or> (ip4 ! 0 = 192 \<and> ip4 ! 1 = 168)
      | None \<Rightarrow> length ip = 16 \<and> and (ip ! 0) 0xfe = 0xfc)"

definition IsLinkLocalUnicast :: "IP \<Rightarrow> bool" where
  "IsLinkLocalUnicast ip =
     (case To4 ip of
        Some ip4 \<Rightarrow> ip4 ! 0 = 169 \<and> ip4 ! 1 = 254
      | None \<Rightarrow> length ip = 16 \<and> ip ! 0 = 0xfe \<and> and (ip ! 1) 0xc0 = 0x80)"

text \<open>\<open>IsLoopback\<close> and \<open>IsUnspecified\<close>; \<open>Equal\<close> takes an IPv4 address and its mapped form as equal.\<close>

definition IsLoopback :: "IP \<Rightarrow> bool" where
  "IsLoopback ip =
     (case To4 ip of Some ip4 \<Rightarrow> ip4 ! 0 = 127 | None \<Rightarrow> ip = replicate 15 0 @ [1])"

definition IsUnspecified :: "IP \<Rightarrow> bool" where
  "IsUnspecified ip \<longleftrightarrow> To4 ip = Some [0, 0, 0, 0] \<or> ip = replicate 16 0"

subsection \<open>Parsing addresses\<close>

text \<open>
  \<open>parseIPv4Fields\<close>: \<open>val\<close> is the value of the current octet, \<open>digLen\<close> the number of its digits, \<open>acc\<close>
  the octets before it.  A dot must follow a digit and be followed by one, which is what the tests on
  the neighbours of a dot say; an octet has no leading zero.
\<close>

fun parseIPv4Fields :: "nat \<Rightarrow> nat \<Rightarrow> byte list \<Rightarrow> string \<Rightarrow> bytes option" where
  "parseIPv4Fields val digLen acc [] =
     (if length acc = 3 \<and> 0 < digLen then Some (acc @ [word_of_nat val]) else None)"
| "parseIPv4Fields val digLen acc (c # s) =
     (if 48 \<le> code c \<and> code c \<le> 57 then
        if digLen = 1 \<and> val = 0 then None
        else
          (let val' = val * 10 + (code c - 48) in
           if val' > 255 then None else parseIPv4Fields val' (digLen + 1) acc s)
      else if c = CHR ''.'' then
        if digLen = 0 \<or> s = [] \<or> length acc = 3 then None
        else parseIPv4Fields 0 0 (acc @ [word_of_nat val]) s
      else None)"

text \<open>A group of hexadecimal digits at the front of a string: its value and the rest.\<close>

definition is_hex :: "char \<Rightarrow> bool" where
  "is_hex c \<longleftrightarrow> hex_val c \<noteq> None"

definition hex_group :: "string \<Rightarrow> nat \<times> string" where
  "hex_group s =
     (foldl (\<lambda>a c. a * 16 + the (hex_val c)) 0 (takeWhile is_hex s), dropWhile is_hex s)"

text \<open>
  The loop of \<open>parseIPv6\<close> with the bytes found so far and the position of the ellipsis.  It ends
  with the bytes, the ellipsis and an empty rest; the final \<open>len(s) != 0\<close> is the case of 16 bytes.
\<close>

function parseIPv6_loop :: "bytes \<Rightarrow> nat option \<Rightarrow> string \<Rightarrow> (bytes \<times> nat option) option" where
  "parseIPv6_loop ip ellipsis s =
     (if 16 \<le> length ip then if s = [] then Some (ip, ellipsis) else None
      else
        (case hex_group s of
           (acc, r) \<Rightarrow>
             let off = length s - length r in
             if off = 0 \<or> off > 4 then None
             else if r \<noteq> [] \<and> hd r = CHR ''.'' then
               if ellipsis = None \<and> length ip \<noteq> 12 then None
               else if length ip + 4 > 16 then None
               else map_option (\<lambda>v4. (ip @ v4, ellipsis)) (parseIPv4Fields 0 0 [] s)
             else
               (let ip = ip @ [word_of_nat (acc div 256), word_of_nat acc] in
                (case r of
                   [] \<Rightarrow> Some (ip, ellipsis)
                 | c # r1 \<Rightarrow>
                     if c \<noteq> CHR '':'' \<or> r1 = [] then None
                     else if hd r1 = CHR '':'' then
                       if ellipsis \<noteq> None then None
                       else if tl r1 = [] then Some (ip, Some (length ip))
                       else parseIPv6_loop ip (Some (length ip)) (tl r1)
                     else parseIPv6_loop ip ellipsis r1))))"
  by pat_completeness auto

termination
  by (relation "measure (\<lambda>(ip, _, _). 16 - length ip)") auto

declare parseIPv6_loop.simps [simp del]

text \<open>\<open>parseIPv6\<close> without a zone: \<open>net.ParseIP\<close> refuses an address with a zone.\<close>

definition parseIPv6 :: "string \<Rightarrow> bytes option" where
  "parseIPv6 s =
     (if s = ''::'' then Some (replicate 16 0)
      else
        (case (if HasPrefix s ''::'' then parseIPv6_loop [] (Some 0) (drop 2 s)
               else parseIPv6_loop [] None s) of
           None \<Rightarrow> None
         | Some (ip, ellipsis) \<Rightarrow>
             if length ip < 16 then
               (case ellipsis of
                  None \<Rightarrow> None
                | Some e \<Rightarrow> Some (take e ip @ replicate (16 - length ip) 0 @ drop e ip))
             else if ellipsis \<noteq> None then None
             else Some ip))"

definition ParseIP :: "string \<Rightarrow> IP option" where
  "ParseIP s =
     (case dropWhile (\<lambda>c. c \<notin> {CHR ''.'', CHR '':'', CHR ''%''}) s of
        [] \<Rightarrow> None
      | c # _ \<Rightarrow>
          if c = CHR ''.'' then map_option ((@) v4InV6Prefix) (parseIPv4Fields 0 0 [] s)
          else if c = CHR '':'' then if CHR ''%'' \<in> set s then None else parseIPv6 s
          else None)"

subsection \<open>Host and port\<close>

text \<open>\<open>strings.LastIndexByte\<close>: the parts before and after the last occurrence.\<close>

definition split_last :: "char \<Rightarrow> string \<Rightarrow> (string \<times> string) option" where
  "split_last c s =
     (if c \<in> set s then
        (let post = rev (takeWhile (\<lambda>d. d \<noteq> c) (rev s)) in
         Some (take (length s - length post - 1) s, post))
      else None)"

definition SplitHostPort :: "string \<Rightarrow> err + string \<times> string" where
  "SplitHostPort hostport =
     (case split_last (CHR '':'') hostport of
        None \<Rightarrow> Inl (Err ''missing port in address'')
      | Some (before, port) \<Rightarrow>
          (if hostport \<noteq> [] \<and> hd hostport = CHR ''['' then
             (let inner = takeWhile (\<lambda>c. c \<noteq> CHR '']'') hostport;
                  rest = dropWhile (\<lambda>c. c \<noteq> CHR '']'') hostport in
              if rest = [] then Inl (Err ''missing ']' in address'')
              else if tl rest = [] then Inl (Err ''missing port in address'')
              else if length inner + 1 = length before then
                if CHR ''['' \<in> set (tl inner) \<or> CHR ''['' \<in> set (tl rest) then
                  Inl (Err ''unexpected '[' in address'')
                else if CHR '']'' \<in> set (tl rest) then Inl (Err ''unexpected ']' in address'')
                else Inr (tl inner, port)
              else if hd (tl rest) = CHR '':'' then Inl (Err ''too many colons in address'')
              else Inl (Err ''missing port in address''))
           else if CHR '':'' \<in> set before then Inl (Err ''too many colons in address'')
           else if CHR ''['' \<in> set hostport then Inl (Err ''unexpected '[' in address'')
           else if CHR '']'' \<in> set hostport then Inl (Err ''unexpected ']' in address'')
           else Inr (before, port)))"

section \<open>Lemmas\<close>

lemma parseIPv4Fields_length: "parseIPv4Fields v d acc s = Some ip \<Longrightarrow> length ip = 4"
  by (induction v d acc s rule: parseIPv4Fields.induct) (auto simp: Let_def split: if_splits)

end
