(* ===== verification/Session_Description.thy ===== *)
theory Session_Description
  imports Json Go_Net
begin

text \<open>
  Session descriptions and addresses, \<open>src/common/util/util.go\<close>: the JSON form of a WebRTC session
  description, the test for addresses of local networks, and the two passes over the ICE candidates
  of an SDP.  The SDP, ICE and WebRTC libraries are pion's: what the code uses of them is a parameter.
\<close>

section \<open>Decoding into an untyped map\<close>

text \<open>
  \<open>encoding/json\<close> stores numbers of an \<open>interface{}\<close> as \<open>float64\<close> and refuses those that overflow.
  A literal is \<open>m * 10 ^ e\<close>; the largest values that do not round to infinity lie below
  \<open>2\<^sup>1\<^sup>0\<^sup>2\<^sup>4 - 2\<^sup>9\<^sup>7\<^sup>0\<close>.
\<close>

definition num_mantissa :: "string \<Rightarrow> string" where
  "num_mantissa s = takeWhile (\<lambda>c. c \<noteq> CHR ''e'' \<and> c \<noteq> CHR ''E'') (filter (\<lambda>c. c \<noteq> CHR ''-'') s)"

definition num_exponent :: "string \<Rightarrow> int" where
  "num_exponent s =
     (let e = drop 1 (dropWhile (\<lambda>c. c \<noteq> CHR ''e'' \<and> c \<noteq> CHR ''E'') s);
          n = (case parse_dec (filter is_digit e) of None \<Rightarrow> 0 | Some n \<Rightarrow> int n)
      in if HasPrefix e ''-'' then - n else n)"

definition float64_ok :: "string \<Rightarrow> bool" where
  "float64_ok s =
     (let m = num_mantissa s;
          digits = (case parse_dec (filter is_digit m) of None \<Rightarrow> 0 | Some n \<Rightarrow> n);
          e = num_exponent s - int (length (drop 1 (dropWhile (\<lambda>c. c \<noteq> CHR ''.'') m)));
          bound = (2::nat) ^ 1024 - 2 ^ 970
      in digits = 0 \<or> (if 0 \<le> e then digits * 10 ^ nat e < bound else digits < bound * 10 ^ nat (- e)))"

fun floats_ok :: "json \<Rightarrow> bool" where
  "floats_ok (JNum s) = float64_ok s"
| "floats_ok (JArr vs) = list_all floats_ok vs"
| "floats_ok (JObj ms) = list_all (\<lambda>(k, v). floats_ok v) ms"
| "floats_ok _ = True"

text \<open>\<open>json.Unmarshal\<close> into a \<open>map[string]interface{}\<close>; the last member of a name wins.\<close>

definition json_Unmarshal_map :: "string \<Rightarrow> err + (string \<rightharpoonup> json)" where
  "json_Unmarshal_map s =
     (case json_parse s of
        None \<Rightarrow> Inl json_SyntaxError
      | Some JNull \<Rightarrow> Inr Map.empty
      | Some (JObj ms) \<Rightarrow>
          if floats_ok (JObj ms) then Inr (map_of (rev ms)) else Inl json_TypeError
      | Some _ \<Rightarrow> Inl json_TypeError)"

section \<open>Session descriptions\<close>

datatype SDPType = SDPTypeOffer | SDPTypePranswer | SDPTypeAnswer | SDPTypeRollback

record SessionDescription =
  sd_Type :: SDPType
  sd_SDP :: string

definition DeserializeSessionDescription :: "string \<Rightarrow> err + SessionDescription" where
  "DeserializeSessionDescription msg =
     (case json_Unmarshal_map msg of
        Inl e \<Rightarrow> Inl e
      | Inr parsed \<Rightarrow>
          (case parsed ''type'' of
             None \<Rightarrow> Inl (Err ''cannot deserialize SessionDescription without type field'')
           | Some t \<Rightarrow>
               (case parsed ''sdp'' of
                  None \<Rightarrow> Inl (Err ''cannot deserialize SessionDescription without sdp field'')
                | Some p \<Rightarrow>
                    (case t of
                       JStr parsedType \<Rightarrow>
                         (case p of
                            JStr parsedSDP \<Rightarrow>
                              (let desc = (\<lambda>stype. Inr \<lparr>sd_Type = stype, sd_SDP = parsedSDP\<rparr>) in
                               if parsedType = ''offer'' then desc SDPTypeOffer
                               else if parsedType = ''pranswer'' then desc SDPTypePranswer
                               else if parsedType = ''answer'' then desc SDPTypeAnswer
                               else if parsedType = ''rollback'' then desc SDPTypeRollback
                               else Inl (Err ''unknown SDP type''))
                          | _ \<Rightarrow> Inl (Err ''invalid SDP''))
                     | _ \<Rightarrow> Inl (Err ''invalid SDP type'')))))"

text \<open>\<open>marshal\<close> is the JSON encoding that pion gives its type.\<close>

definition SerializeSessionDescription ::
  "(SessionDescription \<Rightarrow> err + string) \<Rightarrow> SessionDescription \<Rightarrow> err + string" where
  "SerializeSessionDescription marshal desc =
     (case marshal desc of Inl e \<Rightarrow> Inl e | Inr bytes \<Rightarrow> Inr bytes)"

text \<open>What pion documents: an object with the type's name and the description.\<close>

fun sdp_type_name :: "SDPType \<Rightarrow> string" where
  "sdp_type_name SDPTypeOffer = ''offer''"
| "sdp_type_name SDPTypePranswer = ''pranswer''"
| "sdp_type_name SDPTypeAnswer = ''answer''"
| "sdp_type_name SDPTypeRollback = ''rollback''"

definition pion_json :: "SessionDescription \<Rightarrow> json" where
  "pion_json desc = JObj [(''type'', JStr (sdp_type_name (sd_Type desc))), (''sdp'', JStr (sd_SDP desc))]"

section \<open>Addresses\<close>

definition IsLocal :: "IP \<Rightarrow> bool" where
  "IsLocal ip =
     (if IsPrivate ip then True
      else if IsLinkLocalUnicast ip then True
      else
        (case To4 ip of
           Some ip4 \<Rightarrow> if ip4 ! 0 = 100 \<and> and (ip4 ! 1) 0xc0 = 64 then True else False
         | None \<Rightarrow> False))"

section \<open>ICE candidates\<close>

text \<open>
  A parsed SDP is its media descriptions, each a list of attributes \<open>'a\<close> and a rest \<open>'m\<close>, with a rest
  \<open>'d\<close>.  \<open>pion\<close> collects the operations of the libraries \<open>sdp\<close> and \<open>ice\<close>; \<open>'c\<close> is \<open>ice.Candidate\<close>.
\<close>

record ('a, 'm, 'd) sdp_desc =
  MediaDescriptions :: "('a list \<times> 'm) list"
  sdp_rest :: 'd

datatype CandidateType = CandidateTypeHost | CandidateTypeServerReflexive | CandidateTypePeerReflexive | CandidateTypeRelay

record ('a, 'm, 'd, 'c) pion =
  sdp_Unmarshal :: "string \<Rightarrow> err + ('a, 'm, 'd) sdp_desc"
  sdp_Marshal :: "('a, 'm, 'd) sdp_desc \<Rightarrow> err + string"
  IsICECandidate :: "'a \<Rightarrow> bool"
  UnmarshalCandidate :: "'a \<Rightarrow> err + 'c"
  cand_Type :: "'c \<Rightarrow> CandidateType"
  Preference :: "CandidateType \<Rightarrow> nat"
  Priority :: "'c \<Rightarrow> nat"
  cand_Address :: "'c \<Rightarrow> string"

text \<open>The attribute that the loop skips: a host candidate with a local, unspecified or loopback address.\<close>

definition local_candidate :: "('a, 'm, 'd, 'c) pion \<Rightarrow> 'a \<Rightarrow> bool" where
  "local_candidate P a \<longleftrightarrow>
     IsICECandidate P a \<and>
     (case UnmarshalCandidate P a of
        Inl _ \<Rightarrow> False
      | Inr c \<Rightarrow>
          cand_Type P c = CandidateTypeHost \<and>
          (case ParseIP (cand_Address P c) of
             None \<Rightarrow> False
           | Some ip \<Rightarrow> IsLocal ip \<or> IsUnspecified ip \<or> IsLoopback ip))"

definition StripLocalAddresses :: "('a, 'm, 'd, 'c) pion \<Rightarrow> string \<Rightarrow> string" where
  "StripLocalAddresses P str =
     (case sdp_Unmarshal P str of
        Inl _ \<Rightarrow> str
      | Inr desc \<Rightarrow>
          (let desc = desc\<lparr>MediaDescriptions :=
                 map (\<lambda>(attrs, m). (filter (\<lambda>a. \<not> local_candidate P a) attrs, m)) (MediaDescriptions desc)\<rparr> in
           case sdp_Marshal P desc of Inl _ \<Rightarrow> str | Inr bts \<Rightarrow> bts))"

text \<open>The two loops that collect the candidates of a description.\<close>

definition candidates_of :: "('a, 'm, 'd, 'c) pion \<Rightarrow> ('a, 'm, 'd) sdp_desc \<Rightarrow> 'c list" where
  "candidates_of P desc =
     List.map_filter
       (\<lambda>a. if IsICECandidate P a then
              (case UnmarshalCandidate P a of Inr c \<Rightarrow> Some c | Inl _ \<Rightarrow> None)
            else None)
       (concat (map fst (MediaDescriptions desc)))"

text \<open>\<open>ice.CandidateType\<close> is a byte, so the preference is compared after a conversion to a byte.\<close>

definition candidate_less :: "('a, 'm, 'd, 'c) pion \<Rightarrow> 'c \<Rightarrow> 'c \<Rightarrow> bool" where
  "candidate_less P a b =
     (if cand_Type P a \<noteq> cand_Type P b
      then Preference P (cand_Type P a) mod 256 < Preference P (cand_Type P b) mod 256
      else Priority P a < Priority P b)"

text \<open>\<open>sort.Slice\<close> leaves the order of equivalent elements open, so the sort is an argument.\<close>

definition GetCandidateAddrs ::
  "(('c \<Rightarrow> 'c \<Rightarrow> bool) \<Rightarrow> 'c list \<Rightarrow> 'c list) \<Rightarrow> ('a, 'm, 'd, 'c) pion \<Rightarrow> string \<Rightarrow> IP list" where
  "GetCandidateAddrs sort_Slice P sdpStr =
     (case sdp_Unmarshal P sdpStr of
        Inl _ \<Rightarrow> []
      | Inr desc \<Rightarrow>
          (let iceCandidates = rev (sort_Slice (candidate_less P) (candidates_of P desc)) in
           List.map_filter (\<lambda>c. ParseIP (cand_Address P c)) iceCandidates))"

text \<open>\<open>GetClientIp\<close> runs a chain of strategies of the library \<open>realclientip\<close>.\<close>

definition GetClientIp ::
  "('s list \<Rightarrow> 'h \<Rightarrow> string \<Rightarrow> string) \<Rightarrow> (string \<Rightarrow> 's) \<Rightarrow> 's \<Rightarrow> 'h \<Rightarrow> string \<Rightarrow> string" where
  "GetClientIp chain_ClientIP NewLeftmostNonPrivateStrategy RemoteAddrStrategy header remoteAddr =
     chain_ClientIP
       [NewLeftmostNonPrivateStrategy ''Forwarded'', NewLeftmostNonPrivateStrategy ''X-Forwarded-For'',
        RemoteAddrStrategy]
       header remoteAddr"

section \<open>Specification of local addresses\<close>

text \<open>The specification: an IPv4 address as a number, and the reserved blocks as intervals.\<close>

definition ip4_nat :: "IP \<Rightarrow> nat" where
  "ip4_nat ip = ((unat (ip ! 0) * 256 + unat (ip ! 1)) * 256 + unat (ip ! 2)) * 256 + unat (ip ! 3)"

definition in_block :: "nat list \<Rightarrow> nat \<Rightarrow> nat \<Rightarrow> bool" where
  "in_block base bits n \<longleftrightarrow>
     n div 2 ^ (32 - bits) = foldl (\<lambda>a b. a * 256 + b) 0 base div 2 ^ (32 - bits)"

definition local_blocks :: "(nat list \<times> nat) list" where
  "local_blocks =
     [([10, 0, 0, 0], 8), ([172, 16, 0, 0], 12), ([192, 168, 0, 0], 16), ([169, 254, 0, 0], 16),
      ([100, 64, 0, 0], 10)]"

section \<open>Lemmas\<close>

lemma Deserialize_pion:
  assumes "valid_utf8 (sd_SDP desc)"
  shows "DeserializeSessionDescription (json_print (pion_json desc)) = Inr desc"
proof -
  have "ascii (sdp_type_name t)" for t by (cases t) (simp_all add: ascii_def)
  then have "json_parse (json_print (pion_json desc)) = Some (pion_json desc)"
    using json_parse_print [of "pion_json desc"] assms by (simp add: pion_json_def valid_utf8_def ascii_def)
  then show ?thesis
    by (cases "sd_Type desc")
      (simp_all add: DeserializeSessionDescription_def json_Unmarshal_map_def pion_json_def Let_def)
qed

lemma byte_and_slice:
  fixes b :: byte
  assumes "uint (numeral w :: byte) = (2 ^ m - 1) * 2 ^ n" "uint (numeral v :: byte) = k * 2 ^ n"
  shows "and b (numeral w) = numeral v \<longleftrightarrow> uint b div 2 ^ n mod 2 ^ m = k"
  using assms by (simp only: word_uint_eq_iff uint_and int_and_slice) simp

lemma int_div_less:
  assumes "(x::int) < k * 2 ^ n"
  shows "x div 2 ^ n < k"
proof (rule ccontr)
  assume "\<not> x div 2 ^ n < k"
  then have "k * 2 ^ n \<le> x div 2 ^ n * 2 ^ n"
    by (simp only: not_less mult_right_mono zero_le_power zero_le_numeral)
  moreover have "x div 2 ^ n * 2 ^ n + x mod 2 ^ n = x" by (rule div_mult_mod_eq)
  moreover have "0 \<le> x mod 2 ^ n" by simp
  ultimately show False using assms by linarith
qed

lemma byte_uint_div:
  fixes b :: byte
  assumes "2 ^ n * 2 ^ m = (256::int)"
  shows "uint b div 2 ^ n mod 2 ^ m = uint b div 2 ^ n"
proof (rule mod_pos_pos_trivial)
  show "0 \<le> uint b div 2 ^ n" by (simp add: pos_imp_zdiv_nonneg_iff)
  have "uint b < 2 ^ m * 2 ^ n"
    using assms by (simp only: mult.commute uint_byte_lt)
  then show "uint b div 2 ^ n < 2 ^ m"
    by (rule int_div_less)
qed

lemma byte_and_f0: "and (b::byte) 0xf0 = 16 \<longleftrightarrow> uint b div 16 = 1"
  using byte_and_slice [of "num.Bit0 (num.Bit0 (num.Bit0 (num.Bit0 (num.Bit1 (num.Bit1 (num.Bit1 num.One))))))" 4 4
      "num.Bit0 (num.Bit0 (num.Bit0 (num.Bit0 num.One)))" 1 b] byte_uint_div [of 4 4 b]
  by simp

lemma byte_and_c0: "and (b::byte) 0xc0 = 64 \<longleftrightarrow> uint b div 64 = 1"
  using byte_and_slice [of "num.Bit0 (num.Bit0 (num.Bit0 (num.Bit0 (num.Bit0 (num.Bit0 (num.Bit1 num.One))))))" 2 6
      "num.Bit0 (num.Bit0 (num.Bit0 (num.Bit0 (num.Bit0 (num.Bit0 num.One)))))" 1 b] byte_uint_div [of 6 2 b]
  by simp

lemma unat_div_eq_1: "uint (b::byte) div numeral k = 1 \<longleftrightarrow> unat b div numeral k = 1"
proof -
  have "uint b div numeral k = int (unat b div numeral k)"
    by (simp only: zdiv_int uint_nat of_nat_numeral)
  then show ?thesis by linarith
qed

lemma ip4_nat_div_16: "ip4_nat ip div 65536 = unat (ip ! 0) * 256 + unat (ip ! 1)"
proof -
  have "ip4_nat ip = (unat (ip ! 0) * 256 + unat (ip ! 1)) * 65536 + (unat (ip ! 2) * 256 + unat (ip ! 3))"
    by (simp add: ip4_nat_def)
  moreover have "unat (ip ! 2) * 256 + unat (ip ! 3) < 65536"
    using unat_byte_lt [of "ip ! 2"] unat_byte_lt [of "ip ! 3"] by linarith
  ultimately show ?thesis by simp
qed

lemma digits_div:
  fixes a b c d k :: nat
  assumes "b < k" "d < k"
  shows "a * k + b = c * k + d \<longleftrightarrow> a = c \<and> b = d"
  using assms by (metis add_diff_cancel_left' div_mult_self3 div_less mod_less mod_mult_self3 add.right_neutral add_cancel_right_right mult.commute less_nat_zero_code)

lemma two_bytes_div:
  fixes a b :: nat
  assumes "k * m = 256" "b < 256" "d < m" "0 < k"
  shows "(a * 256 + b) div k = c * m + d \<longleftrightarrow> a = c \<and> b div k = d"
proof -
  have "a * 256 + b = b + k * (a * m)" using assms(1) by (simp add: assms(1) [symmetric])
  then have "(a * 256 + b) div k = a * m + b div k" using assms(4) by (simp only: div_mult_self2)
  moreover have "b div k < m" using assms(1,2) by (intro less_mult_imp_div_less) (simp add: mult.commute)
  ultimately show ?thesis using assms(3) by (simp only: digits_div)
qed

lemma ip4_nat_div_less:
  assumes "k * 65536 = n"
  shows "ip4_nat ip div n = (unat (ip ! 0) * 256 + unat (ip ! 1)) div k"
  unfolding assms [symmetric] mult.commute [of k] div_mult2_eq ip4_nat_div_16 ..

lemma IsLocal_blocks:
  "length ip = 4 \<Longrightarrow> IsLocal ip \<longleftrightarrow> (\<exists>(base, bits) \<in> set local_blocks. in_block base bits (ip4_nat ip))"
proof -
  let ?a = "unat (ip ! 0)" and ?b = "unat (ip ! 1)"
  assume len: "length ip = 4"
  have lt: "?a < 256" "?b < 256" by (rule unat_byte_lt)+
  have eq: "x = numeral k \<longleftrightarrow> unat x = take_bit LENGTH(8) (numeral k)" for x :: byte and k
    by (simp only: word_unat_eq_iff unsigned_numeral of_nat_id)
  have d1: "(?a * 256 + ?b) div 256 = 10 \<longleftrightarrow> ?a = 10"
    using two_bytes_div [of 256 1 ?b 0 ?a 10] by simp
  have d2: "(?a * 256 + ?b) div 16 = 2753 \<longleftrightarrow> ?a = 172 \<and> ?b div 16 = 1"
    using two_bytes_div [of 16 16 ?b 1 ?a 172] by simp
  have d3: "?a * 256 + ?b = 49320 \<longleftrightarrow> ?a = 192 \<and> ?b = 168"
    using digits_div [of ?b 256 168 ?a 192] by simp
  have d4: "?a * 256 + ?b = 43518 \<longleftrightarrow> ?a = 169 \<and> ?b = 254"
    using digits_div [of ?b 256 254 ?a 169] by simp
  have d5: "(?a * 256 + ?b) div 64 = 401 \<longleftrightarrow> ?a = 100 \<and> ?b div 64 = 1"
    using two_bytes_div [of 64 4 ?b 1 ?a 100] by simp
  have "IsLocal ip \<longleftrightarrow> ?a = 10 \<or> ?a = 172 \<and> ?b div 16 = 1 \<or> ?a = 192 \<and> ?b = 168
      \<or> ?a = 169 \<and> ?b = 254 \<or> ?a = 100 \<and> ?b div 64 = 1"
    using len by (simp add: IsLocal_def IsPrivate_def IsLinkLocalUnicast_def To4_def byte_and_f0 byte_and_c0
        unat_div_eq_1) (simp only: eq, simp)
  also have "\<dots> \<longleftrightarrow> (?a * 256 + ?b) div 256 = 10 \<or> (?a * 256 + ?b) div 16 = 2753 \<or> ?a * 256 + ?b = 49320
      \<or> ?a * 256 + ?b = 43518 \<or> (?a * 256 + ?b) div 64 = 401"
    by (simp only: d1 d2 d3 d4 d5)
  also have "\<dots> \<longleftrightarrow> (\<exists>(base, bits) \<in> set local_blocks. in_block base bits (ip4_nat ip))"
    by (simp add: local_blocks_def in_block_def ip4_nat_div_less [of 256] ip4_nat_div_less [of 16]
        ip4_nat_div_less [of 1] ip4_nat_div_less [of 64])
  finally show ?thesis .
qed

section \<open>Properties\<close>

text \<open> C33. \<open>DeserializeSessionDescription\<close> undoes \<open>SerializeSessionDescription\<close> for every description
  with a UTF-8 body, of each of the four types, when pion encodes its type as the object it documents.\<close>

theorem SessionDescription_roundtrip:
  assumes "marshal desc = Inr (json_print (pion_json desc))" "valid_utf8 (sd_SDP desc)"
  shows "(case SerializeSessionDescription marshal desc of
            Inl e \<Rightarrow> Inl e | Inr msg \<Rightarrow> DeserializeSessionDescription msg) = Inr desc"
  using assms by (simp add: SerializeSessionDescription_def Deserialize_pion)

theorem SessionDescription_roundtrip_witness:
  "(case SerializeSessionDescription (\<lambda>d. Inr (json_print (pion_json d)))
           \<lparr>sd_Type = SDPTypeAnswer, sd_SDP = ''v=0''\<rparr> of
      Inl e \<Rightarrow> Inl e | Inr msg \<Rightarrow> DeserializeSessionDescription msg)
   = Inr \<lparr>sd_Type = SDPTypeAnswer, sd_SDP = ''v=0''\<rparr>"
  by (rule SessionDescription_roundtrip) (simp_all add: valid_utf8_def to_valid_ascii ascii_def)

text \<open> C34. An IPv4 address, in its 4-byte form or as an IPv6-mapped 16-byte form, is local exactly when its
  number lies in one of the blocks 10/8, 172.16/12, 192.168/16, 169.254/16 and 100.64/10.\<close>

theorem IsLocal_exact:
  assumes "length ip = 4" "ip' = ip \<or> ip' = v4InV6Prefix @ ip"
  shows "IsLocal ip' \<longleftrightarrow> (\<exists>(base, bits) \<in> set local_blocks. in_block base bits (ip4_nat ip))"
proof -
  have "length v4InV6Prefix = 12" by (simp add: v4InV6Prefix_def)
  then have "To4 (v4InV6Prefix @ ip) = Some ip" "To4 ip = Some ip" using assms(1) by (simp_all add: To4_def)
  then have "To4 ip' = Some ip" "To4 ip = Some ip" using assms(2) by (elim disjE; simp)+
  then have "IsLocal ip' = IsLocal ip"
    by (simp only: IsLocal_def IsPrivate_def IsLinkLocalUnicast_def option.case)
  then show ?thesis using IsLocal_blocks assms(1) by simp
qed

theorem IsLocal_exact_witness:
  "IsLocal (v4InV6Prefix @ [172, 31, 0, 9]) \<longleftrightarrow>
     (\<exists>(base, bits) \<in> set local_blocks. in_block base bits (ip4_nat [172, 31, 0, 9]))"
  by (rule IsLocal_exact) simp_all

end
