(* ===== verification/Bridge_List.thy ===== *)
theory Bridge_List
  imports Json
begin

text \<open>
  Bridge fingerprints (\<open>src/common/bridgefingerprint/fingerprint.go\<close>, over \<open>encoding/hex\<close>) and the
  broker's list of bridges (\<open>src/broker/bridge-list.go\<close>, over \<open>bufio.Scanner\<close> and a strict JSON
  decoder).  A bridge list file is loaded entirely or not at all.
\<close>

section \<open>Hexadecimal strings\<close>

fun hex_EncodeToString :: "string \<Rightarrow> string" where
  "hex_EncodeToString [] = []"
| "hex_EncodeToString (c # cs) =
     hex_digit (code c div 16) # hex_digit (code c mod 16) # hex_EncodeToString cs"

fun hex_DecodeString :: "string \<Rightarrow> err + string" where
  "hex_DecodeString [] = Inr []"
| "hex_DecodeString [c] = (if hex_val c = None then Inl (hex_InvalidByte c) else Inl hex_ErrLength)"
| "hex_DecodeString (a # b # cs) =
     (case hex_val a of
        None \<Rightarrow> Inl (hex_InvalidByte a)
      | Some x \<Rightarrow>
          (case hex_val b of
             None \<Rightarrow> Inl (hex_InvalidByte b)
           | Some y \<Rightarrow>
               (case hex_DecodeString cs of
                  Inl e \<Rightarrow> Inl e
                | Inr s \<Rightarrow> Inr (ch (x * 16 + y) # s))))"

section \<open>Fingerprints\<close>

type_synonym Fingerprint = string

definition ErrBridgeFingerprintInvalid :: err where
  "ErrBridgeFingerprintInvalid = Err ''bridge fingerprint invalid''"

definition FingerprintFromBytes :: "string \<Rightarrow> err + Fingerprint" where
  "FingerprintFromBytes bytes =
     (let n = length bytes in
      if n \<noteq> 20 \<and> n \<noteq> 32 then Inl ErrBridgeFingerprintInvalid else Inr bytes)"

definition FingerprintFromHexString :: "string \<Rightarrow> err + Fingerprint" where
  "FingerprintFromHexString hexString =
     (case hex_DecodeString hexString of
        Inl e \<Rightarrow> Inl e
      | Inr decoded \<Rightarrow> FingerprintFromBytes decoded)"

definition ToBytes :: "Fingerprint \<Rightarrow> string" where
  "ToBytes f = f"

section \<open>The bridge list\<close>

record BridgeInfo =
  DisplayName :: string
  WebSocketAddress :: string
  bi_Fingerprint :: string

definition ErrBridgeNotFound :: err where
  "ErrBridgeNotFound = Err ''bridge with requested fingerprint is unknown to the broker''"

type_synonym bridgeListHolder = "Fingerprint \<rightharpoonup> BridgeInfo"

definition NewBridgeListHolder :: bridgeListHolder where
  "NewBridgeListHolder = Map.empty"

definition GetBridgeInfo :: "bridgeListHolder \<Rightarrow> Fingerprint \<Rightarrow> err + BridgeInfo" where
  "GetBridgeInfo h fingerprint =
     (case h fingerprint of Some info \<Rightarrow> Inr info | None \<Rightarrow> Inl ErrBridgeNotFound)"

text \<open>\<open>bufio.ScanLines\<close>: the lines of a text without their line ends; at most 64 KiB each.\<close>

fun split_lines :: "string \<Rightarrow> string \<Rightarrow> string list" where
  "split_lines acc [] = (if acc = [] then [] else [rev acc])"
| "split_lines acc (c # cs) = (if code c = 10 then rev acc # split_lines [] cs else split_lines (c # acc) cs)"

definition drop_cr :: "string \<Rightarrow> string" where
  "drop_cr s = TrimSuffix s [ch 13]"

definition MaxScanTokenSize :: nat where "MaxScanTokenSize = 65536"

definition BridgeInfo_fields :: "BridgeInfo fields" where
  "BridgeInfo_fields =
     [(''displayName'', set_string (\<lambda>s r. r\<lparr>DisplayName := s\<rparr>)),
      (''webSocketAddress'', set_string (\<lambda>s r. r\<lparr>WebSocketAddress := s\<rparr>)),
      (''fingerprint'', set_string (\<lambda>s r. r\<lparr>bi_Fingerprint := s\<rparr>))]"

definition empty_BridgeInfo :: BridgeInfo where
  "empty_BridgeInfo = \<lparr>DisplayName = [], WebSocketAddress = [], bi_Fingerprint = []\<rparr>"

text \<open>The loop of \<open>LoadBridgeInfo\<close> over the scanned lines.\<close>

fun load_lines :: "string list \<Rightarrow> bridgeListHolder \<Rightarrow> err + bridgeListHolder" where
  "load_lines [] m = Inr m"
| "load_lines (l # ls) m =
     (if MaxScanTokenSize \<le> length l then Inl bufio_ErrTooLong
      else
        (case json_DecodeStrict BridgeInfo_fields (drop_cr l) empty_BridgeInfo of
           Inl e \<Rightarrow> Inl e
         | Inr info \<Rightarrow>
             (case FingerprintFromHexString (bi_Fingerprint info) of
                Inl e \<Rightarrow> Inl e
              | Inr f \<Rightarrow> load_lines ls (m(f \<mapsto> info)))))"

definition LoadBridgeInfo :: "bridgeListHolder \<Rightarrow> string \<Rightarrow> err option \<times> bridgeListHolder" where
  "LoadBridgeInfo h reader =
     (case load_lines (split_lines [] reader) Map.empty of
        Inl e \<Rightarrow> (Some e, h)
      | Inr m \<Rightarrow> (None, m))"

section \<open>Lemmas\<close>

lemma hex_val_bound: "hex_val c = Some x \<Longrightarrow> x < 16"
  by (auto simp: hex_val_def Let_def split: if_splits)

lemma hex_roundtrip: "hex_DecodeString (hex_EncodeToString s) = Inr s"
proof (induction s)
  case (Cons c cs)
  have "code c div 16 < 16" by (rule less_mult_imp_div_less) (use code_lt [of c] in simp)
  with Cons show ?case by simp
qed simp

lemma hex_decode_length: "hex_DecodeString h = Inr s \<Longrightarrow> length h = 2 * length s"
  by (induction h arbitrary: s rule: hex_DecodeString.induct) (auto split: option.splits sum.splits if_splits)

lemma load_lines_valid:
  assumes "load_lines ls m = Inr m'" "m' f = Some info"
  shows "m f = Some info \<or> (length f = 20 \<or> length f = 32) \<and> FingerprintFromHexString (bi_Fingerprint info) = Inr f"
  using assms
proof (induction ls m rule: load_lines.induct)
  case (2 l ls m)
  obtain i g where *: "FingerprintFromHexString (bi_Fingerprint i) = Inr g" "load_lines ls (m(g \<mapsto> i)) = Inr m'"
    "\<not> MaxScanTokenSize \<le> length l" "json_DecodeStrict BridgeInfo_fields (drop_cr l) empty_BridgeInfo = Inr i"
    using "2.prems"(1) by (auto split: if_splits sum.splits)
  have "length g = 20 \<or> length g = 32"
    using *(1) by (auto simp: FingerprintFromHexString_def FingerprintFromBytes_def Let_def split: sum.splits if_splits)
  with "2.IH" [OF *(3,4,1,2) "2.prems"(2)] * show ?case by (auto split: if_splits)
qed simp

section \<open>Properties\<close>


text \<open>
  The comment of the file says that the file is invalid if there is an invalid record.  The
  decoder reads one value per line and ignores what follows it, so a line that is not JSON can
  be accepted.
\<close>

lemma trailing_text_ignored:
  assumes "printable 10000 v" "delim t"
  shows "json_DecodeStrict fs (json_print v @ t) r = decode_struct True fs (json_valid v) r"
proof -
  obtain c x where "json_print v = c # x" "\<forall>t. skip_ws (c # t) = c # t"
    using json_print_start [OF assms(1)] by blast
  then have "skip_ws (json_print v @ t) \<noteq> []" by simp
  with parse_print [OF assms] show ?thesis by (simp add: json_DecodeStrict_def)
qed

end
