(* ===== verification/Messages.thy ===== *)
theory Messages
  imports Session_Description Bridge_List
begin

text \<open>
  The messages between proxies, clients and the broker (\<open>src/common/messages\<close>): the proxy's poll
  and answer, the client's poll, and the replies to them, each with its encoder and decoder.  JSON
  is the model of \<open>Json\<close>; \<open>json.Marshal\<close> cannot fail on structs of strings and integers.
\<close>

section \<open>Model\<close>

definition NATUnknown :: string where "NATUnknown = ''unknown''"
definition NATRestricted :: string where "NATRestricted = ''restricted''"
definition NATUnrestricted :: string where "NATUnrestricted = ''unrestricted''"

definition version :: string where "version = ''1.3''"
definition ProxyUnknown :: string where "ProxyUnknown = ''unknown''"

definition KnownProxyTypes :: "string list" where
  "KnownProxyTypes = [''standalone'', ''webext'', ''badge'', ''iptproxy'', ''bloco'']"

text \<open>\<open>json.Marshal\<close> of a struct with the given members.\<close>

definition json_Marshal :: "(string \<times> json) list \<Rightarrow> err + string" where
  "json_Marshal ms = Inr (json_print (JObj ms))"

text \<open>\<open>strings.Split(v, ".")[0]\<close>.\<close>

definition majorVersion :: "string \<Rightarrow> string" where
  "majorVersion v = takeWhile (\<lambda>c. c \<noteq> CHR ''.'') v"

subsection \<open>Proxy polls\<close>

record ProxyPollRequest =
  Sid :: string
  Version :: string
  Type :: string
  NAT :: string
  Clients :: u64
  AcceptedRelayPattern :: "string option"

text \<open>The members that \<open>json.Marshal\<close> writes, in the order of the struct.\<close>

definition marshal_ProxyPollRequest :: "ProxyPollRequest \<Rightarrow> err + string" where
  "marshal_ProxyPollRequest req =
     json_Marshal
       [(''Sid'', JStr (Sid req)), (''Version'', JStr (Version req)), (''Type'', JStr (Type req)),
        (''NAT'', JStr (NAT req)), (''Clients'', JNum (dec (unat (Clients req)))),
        (''AcceptedRelayPattern'',
           case AcceptedRelayPattern req of None \<Rightarrow> JNull | Some p \<Rightarrow> JStr p)]"

definition EncodeProxyPollRequestWithRelayPrefix ::
  "string \<Rightarrow> string \<Rightarrow> string \<Rightarrow> u64 \<Rightarrow> string \<Rightarrow> err + string" where
  "EncodeProxyPollRequestWithRelayPrefix sid proxyType natType n relayPattern =
     marshal_ProxyPollRequest
       \<lparr>Sid = sid, Version = version, Type = proxyType, NAT = natType, Clients = n,
        AcceptedRelayPattern = Some relayPattern\<rparr>"

definition EncodeProxyPollRequest :: "string \<Rightarrow> string \<Rightarrow> string \<Rightarrow> u64 \<Rightarrow> err + string" where
  "EncodeProxyPollRequest sid proxyType natType n =
     EncodeProxyPollRequestWithRelayPrefix sid proxyType natType n []"

text \<open>\<open>(*ProxyPollRequest).Encode\<close> also stores the version in its receiver.\<close>

definition ProxyPollRequest_Encode :: "ProxyPollRequest \<Rightarrow> (err + string) \<times> ProxyPollRequest" where
  "ProxyPollRequest_Encode req =
     (let req' = req\<lparr>Version := version\<rparr> in (marshal_ProxyPollRequest req', req'))"

text \<open>\<open>auxProxyPollRequest\<close> of the decoder: the same struct with a signed count.\<close>

record auxProxyPollRequest =
  aux_Sid :: string
  aux_Version :: string
  aux_Type :: string
  aux_NAT :: string
  aux_Clients :: int
  aux_AcceptedRelayPattern :: "string option"

definition aux_fields :: "auxProxyPollRequest fields" where
  "aux_fields =
     [(''Sid'', set_string (\<lambda>s r. r\<lparr>aux_Sid := s\<rparr>)),
      (''Version'', set_string (\<lambda>s r. r\<lparr>aux_Version := s\<rparr>)),
      (''Type'', set_string (\<lambda>s r. r\<lparr>aux_Type := s\<rparr>)),
      (''NAT'', set_string (\<lambda>s r. r\<lparr>aux_NAT := s\<rparr>)),
      (''Clients'', set_int64 (\<lambda>n r. r\<lparr>aux_Clients := n\<rparr>)),
      (''AcceptedRelayPattern'', set_string_ptr (\<lambda>p r. r\<lparr>aux_AcceptedRelayPattern := p\<rparr>))]"

text \<open>The \<open>switch message.NAT\<close> of both poll decoders.\<close>

definition check_NAT :: "string \<Rightarrow> string option" where
  "check_NAT s =
     (if s = [] then Some NATUnknown
      else if s = NATUnknown \<or> s = NATRestricted \<or> s = NATUnrestricted then Some s
      else None)"

definition DecodeProxyPollRequest :: "string \<Rightarrow> err + ProxyPollRequest" where
  "DecodeProxyPollRequest data =
     (case json_Unmarshal aux_fields data
             \<lparr>aux_Sid = [], aux_Version = [], aux_Type = [], aux_NAT = [], aux_Clients = 0,
              aux_AcceptedRelayPattern = None\<rparr> of
        Inl e \<Rightarrow> Inl e
      | Inr aux \<Rightarrow>
          (let message =
             \<lparr>Sid = aux_Sid aux, Version = aux_Version aux, Type = aux_Type aux, NAT = aux_NAT aux,
              Clients = word_of_int (max (aux_Clients aux) 0),
              AcceptedRelayPattern = aux_AcceptedRelayPattern aux\<rparr> in
           if majorVersion (Version message) \<noteq> ''1'' then Inl (Err ''using unknown version'')
           else if Sid message = [] then Inl (Err ''no supplied session id'')
           else
             (case check_NAT (NAT message) of
                None \<Rightarrow> Inl (Err ''invalid NAT type'')
              | Some n \<Rightarrow>
                  (let message = message\<lparr>NAT := n\<rparr> in
                   Inr (if Type message \<in> set KnownProxyTypes then message
                        else message\<lparr>Type := ProxyUnknown\<rparr>)))))"

text \<open>The \<open>int(message.Clients)\<close> of the flat form is the signed reading of the word.\<close>

definition DecodeProxyPollRequestWithRelayPrefix ::
  "string \<Rightarrow> err + string \<times> string \<times> string \<times> int \<times> string \<times> bool" where
  "DecodeProxyPollRequestWithRelayPrefix data =
     (case DecodeProxyPollRequest data of
        Inl e \<Rightarrow> Inl e
      | Inr message \<Rightarrow>
          Inr (Sid message, Type message, NAT message, sint (Clients message),
               case AcceptedRelayPattern message of None \<Rightarrow> [] | Some p \<Rightarrow> p,
               AcceptedRelayPattern message \<noteq> None))"

subsection \<open>Replies to proxy polls\<close>

definition ProxyClientMatch :: string where "ProxyClientMatch = ''client match''"
definition ProxyClientNoMatch :: string where "ProxyClientNoMatch = ''no match''"

definition ErrBadRequest :: err where "ErrBadRequest = Err ''bad request''"
definition ErrInternal :: err where "ErrInternal = Err ''internal error''"
definition ErrExtraInfo :: err where "ErrExtraInfo = Err ''client sent extra info''"
definition StrTimedOut :: string where "StrTimedOut = ''timed out waiting for answer!''"
definition StrNoProxies :: string where "StrNoProxies = ''no snowflake proxies currently available''"

record ProxyPollResponse =
  Status :: string
  Offer :: string
  resp_NAT :: string
  NextPoll :: int
  RelayURL :: string

text \<open>\<open>strconv.AppendInt\<close>.\<close>

definition dec_int64 :: "int \<Rightarrow> string" where
  "dec_int64 n = (if n < 0 then CHR ''-'' # dec (nat (- n)) else dec (nat n))"

definition ProxyPollResponse_Encode :: "ProxyPollResponse \<Rightarrow> err + string" where
  "ProxyPollResponse_Encode resp =
     json_Marshal
       [(''Status'', JStr (Status resp)), (''Offer'', JStr (Offer resp)), (''NAT'', JStr (resp_NAT resp)),
        (''NextPoll'', JNum (dec_int64 (NextPoll resp))), (''RelayURL'', JStr (RelayURL resp))]"

definition EncodePollResponseWithRelayURL ::
  "string \<Rightarrow> bool \<Rightarrow> string \<Rightarrow> string \<Rightarrow> string \<Rightarrow> err + string" where
  "EncodePollResponseWithRelayURL offer success natType relayURL failReason =
     (if success then
        ProxyPollResponse_Encode
          \<lparr>Status = ''client match'', Offer = offer, resp_NAT = natType, NextPoll = 0, RelayURL = relayURL\<rparr>
      else
        ProxyPollResponse_Encode
          \<lparr>Status = failReason, Offer = [], resp_NAT = [], NextPoll = 0, RelayURL = []\<rparr>)"

definition EncodePollResponse :: "string \<Rightarrow> bool \<Rightarrow> string \<Rightarrow> err + string" where
  "EncodePollResponse offer success natType =
     EncodePollResponseWithRelayURL offer success natType [] ''no match''"

definition ProxyPollResponse_fields :: "ProxyPollResponse fields" where
  "ProxyPollResponse_fields =
     [(''Status'', set_string (\<lambda>s r. r\<lparr>Status := s\<rparr>)),
      (''Offer'', set_string (\<lambda>s r. r\<lparr>Offer := s\<rparr>)),
      (''NAT'', set_string (\<lambda>s r. r\<lparr>resp_NAT := s\<rparr>)),
      (''NextPoll'', set_int64 (\<lambda>n r. r\<lparr>NextPoll := n\<rparr>)),
      (''RelayURL'', set_string (\<lambda>s r. r\<lparr>RelayURL := s\<rparr>))]"

text \<open>A reply can come with an error: a status other than the two known ones is an error and a message.\<close>

definition DecodeProxyPollResponse :: "string \<Rightarrow> ProxyPollResponse option \<times> err option" where
  "DecodeProxyPollResponse data =
     (case json_Unmarshal ProxyPollResponse_fields data
             \<lparr>Status = [], Offer = [], resp_NAT = [], NextPoll = 0, RelayURL = []\<rparr> of
        Inl e \<Rightarrow> (None, Some e)
      | Inr message \<Rightarrow>
          if Status message = [] then (None, Some (Err ''received invalid data''))
          else if Status message = ProxyClientMatch \<and> Offer message = [] then
            (None, Some (Err ''no supplied offer''))
          else
            (let (message, e) =
               (if Status message = ProxyClientMatch then (message, None)
                else
                  (message\<lparr>Offer := []\<rparr>,
                   if Status message \<noteq> ProxyClientNoMatch then Some (Err (Status message)) else None)) in
             (Some (if resp_NAT message = [] then message\<lparr>resp_NAT := ''unknown''\<rparr> else message), e)))"

definition DecodePollResponseWithRelayURL ::
  "string \<Rightarrow> string \<times> string \<times> string \<times> err option" where
  "DecodePollResponseWithRelayURL data =
     (case DecodeProxyPollResponse data of
        (_, Some e) \<Rightarrow> ([], [], [], Some e)
      | (Some message, None) \<Rightarrow> (Offer message, resp_NAT message, RelayURL message, None)
      | (None, None) \<Rightarrow> ([], [], [], None))"

definition DecodePollResponse :: "string \<Rightarrow> string \<times> string \<times> err option" where
  "DecodePollResponse data =
     (case DecodePollResponseWithRelayURL data of
        (offer, natType, relayURL, e) \<Rightarrow>
          if relayURL \<noteq> [] then ([], [], Some ErrExtraInfo) else (offer, natType, e))"

subsection \<open>Proxy answers\<close>

record ProxyAnswerRequest =
  ans_Version :: string
  ans_Sid :: string
  Answer :: string

definition marshal_ProxyAnswerRequest :: "ProxyAnswerRequest \<Rightarrow> err + string" where
  "marshal_ProxyAnswerRequest req =
     json_Marshal
       [(''Version'', JStr (ans_Version req)), (''Sid'', JStr (ans_Sid req)), (''Answer'', JStr (Answer req))]"

definition EncodeAnswerRequest :: "string \<Rightarrow> string \<Rightarrow> err + string" where
  "EncodeAnswerRequest answer sid =
     marshal_ProxyAnswerRequest \<lparr>ans_Version = version, ans_Sid = sid, Answer = answer\<rparr>"

definition ProxyAnswerRequest_Encode :: "ProxyAnswerRequest \<Rightarrow> (err + string) \<times> ProxyAnswerRequest" where
  "ProxyAnswerRequest_Encode req =
     (let req' = req\<lparr>ans_Version := version\<rparr> in (marshal_ProxyAnswerRequest req', req'))"

definition ProxyAnswerRequest_fields :: "ProxyAnswerRequest fields" where
  "ProxyAnswerRequest_fields =
     [(''Version'', set_string (\<lambda>s r. r\<lparr>ans_Version := s\<rparr>)),
      (''Sid'', set_string (\<lambda>s r. r\<lparr>ans_Sid := s\<rparr>)),
      (''Answer'', set_string (\<lambda>s r. r\<lparr>Answer := s\<rparr>))]"

definition DecodeProxyAnswerRequest :: "string \<Rightarrow> err + ProxyAnswerRequest" where
  "DecodeProxyAnswerRequest data =
     (case json_Unmarshal ProxyAnswerRequest_fields data \<lparr>ans_Version = [], ans_Sid = [], Answer = []\<rparr> of
        Inl e \<Rightarrow> Inl e
      | Inr message \<Rightarrow>
          if majorVersion (ans_Version message) \<noteq> ''1'' then Inl (Err ''using unknown version'')
          else if ans_Sid message = [] \<or> Answer message = [] then Inl (Err ''no supplied sid or answer'')
          else
            (case DeserializeSessionDescription (Answer message) of
               Inl e \<Rightarrow> Inl (Errorf ''malformed session description: '' e)
             | Inr _ \<Rightarrow> Inr message))"

definition DecodeAnswerRequest :: "string \<Rightarrow> err + string \<times> string" where
  "DecodeAnswerRequest data =
     (case DecodeProxyAnswerRequest data of
        Inl e \<Rightarrow> Inl e
      | Inr message \<Rightarrow> Inr (Answer message, ans_Sid message))"

record ProxyAnswerResponse =
  ans_Status :: string

definition ProxyAnswerResponse_Encode :: "ProxyAnswerResponse \<Rightarrow> err + string" where
  "ProxyAnswerResponse_Encode resp = json_Marshal [(''Status'', JStr (ans_Status resp))]"

definition EncodeAnswerResponse :: "bool \<Rightarrow> err + string" where
  "EncodeAnswerResponse success =
     (if success then ProxyAnswerResponse_Encode \<lparr>ans_Status = ''success''\<rparr>
      else ProxyAnswerResponse_Encode \<lparr>ans_Status = ''client gone''\<rparr>)"

definition ProxyAnswerResponse_fields :: "ProxyAnswerResponse fields" where
  "ProxyAnswerResponse_fields = [(''Status'', set_string (\<lambda>s r. r\<lparr>ans_Status := s\<rparr>))]"

definition DecodeProxyAnswerResponse :: "string \<Rightarrow> err + ProxyAnswerResponse" where
  "DecodeProxyAnswerResponse data =
     (case json_Unmarshal ProxyAnswerResponse_fields data \<lparr>ans_Status = []\<rparr> of
        Inl e \<Rightarrow> Inl e
      | Inr message \<Rightarrow> Inr message)"

definition DecodeAnswerResponse :: "string \<Rightarrow> err + bool" where
  "DecodeAnswerResponse data =
     (case DecodeProxyAnswerResponse data of
        Inl e \<Rightarrow> Inl e
      | Inr message \<Rightarrow>
          if ans_Status message = [] then Inl (Err ''received invalid data'')
          else Inr (ans_Status message = ''success''))"

subsection \<open>Client polls\<close>

definition ClientVersion :: string where "ClientVersion = ''1.0''"

definition defaultBridgeFingerprint :: string where
  "defaultBridgeFingerprint = ''2B280B23E1107BB62ABFC40DDCC8824814F80A72''"

record ClientPollRequest =
  poll_Offer :: string
  poll_NAT :: string
  poll_Fingerprint :: string

text \<open>The encoder stores the default fingerprint in its receiver when there is none.\<close>

definition EncodeClientPollRequest :: "ClientPollRequest \<Rightarrow> (err + string) \<times> ClientPollRequest" where
  "EncodeClientPollRequest req =
     (let req = (if poll_Fingerprint req = [] then req\<lparr>poll_Fingerprint := defaultBridgeFingerprint\<rparr> else req) in
      (case json_Marshal
              [(''offer'', JStr (poll_Offer req)), (''nat'', JStr (poll_NAT req)),
               (''fingerprint'', JStr (poll_Fingerprint req))] of
         Inl e \<Rightarrow> Inl e
       | Inr body \<Rightarrow> Inr ((ClientVersion @ [ch 10]) @ body), req))"

definition ClientPollRequest_fields :: "ClientPollRequest fields" where
  "ClientPollRequest_fields =
     [(''offer'', set_string (\<lambda>s r. r\<lparr>poll_Offer := s\<rparr>)),
      (''nat'', set_string (\<lambda>s r. r\<lparr>poll_NAT := s\<rparr>)),
      (''fingerprint'', set_string (\<lambda>s r. r\<lparr>poll_Fingerprint := s\<rparr>))]"

text \<open>\<open>bytes.SplitN(data, "\n", 2)\<close>: the parts before and after the first newline, or one part.\<close>

definition split_newline :: "string \<Rightarrow> string list" where
  "split_newline s =
     (case dropWhile (\<lambda>c. code c \<noteq> 10) s of
        [] \<Rightarrow> [s]
      | _ # r \<Rightarrow> [takeWhile (\<lambda>c. code c \<noteq> 10) s, r])"

definition DecodeClientPollRequest :: "string \<Rightarrow> err + ClientPollRequest" where
  "DecodeClientPollRequest data =
     (let parts = split_newline data in
      if length parts < 2 then Inl (Err ''unsupported message version'')
      else if parts ! 0 \<noteq> ClientVersion then Inl (Err ''unsupported message version'')
      else
        (case json_Unmarshal ClientPollRequest_fields (parts ! 1)
                \<lparr>poll_Offer = [], poll_NAT = [], poll_Fingerprint = []\<rparr> of
           Inl e \<Rightarrow> Inl e
         | Inr message \<Rightarrow>
             if poll_Offer message = [] then Inl (Err ''no supplied offer'')
             else
               (case DeserializeSessionDescription (poll_Offer message) of
                  Inl e \<Rightarrow> Inl (Errorf ''malformed session description: '' e)
                | Inr _ \<Rightarrow>
                    (let message =
                       (if poll_Fingerprint message = []
                        then message\<lparr>poll_Fingerprint := defaultBridgeFingerprint\<rparr> else message) in
                     case FingerprintFromHexString (poll_Fingerprint message) of
                       Inl _ \<Rightarrow> Inl (Err ''cannot decode fingerprint'')
                     | Inr _ \<Rightarrow>
                         (case check_NAT (poll_NAT message) of
                            None \<Rightarrow> Inl (Err ''invalid NAT type'')
                          | Some n \<Rightarrow> Inr (message\<lparr>poll_NAT := n\<rparr>))))))"

record ClientPollResponse =
  poll_Answer :: string
  poll_Error :: string

text \<open>Both members are \<open>omitempty\<close>.\<close>

definition ClientPollResponse_EncodePollResponse :: "ClientPollResponse \<Rightarrow> err + string" where
  "ClientPollResponse_EncodePollResponse resp =
     json_Marshal
       ((if poll_Answer resp = [] then [] else [(''answer'', JStr (poll_Answer resp))]) @
        (if poll_Error resp = [] then [] else [(''error'', JStr (poll_Error resp))]))"

definition ClientPollResponse_fields :: "ClientPollResponse fields" where
  "ClientPollResponse_fields =
     [(''answer'', set_string (\<lambda>s r. r\<lparr>poll_Answer := s\<rparr>)),
      (''error'', set_string (\<lambda>s r. r\<lparr>poll_Error := s\<rparr>))]"

definition DecodeClientPollResponse :: "string \<Rightarrow> err + ClientPollResponse" where
  "DecodeClientPollResponse data =
     (case json_Unmarshal ClientPollResponse_fields data \<lparr>poll_Answer = [], poll_Error = []\<rparr> of
        Inl e \<Rightarrow> Inl e
      | Inr message \<Rightarrow>
          if poll_Error message = [] \<and> poll_Answer message = [] then
            Inl (Err ''received empty broker response'')
          else Inr message)"

type_synonym RendezvousMethod = string

definition RendezvousHttp :: RendezvousMethod where "RendezvousHttp = ''http''"
definition RendezvousAmpCache :: RendezvousMethod where "RendezvousAmpCache = ''ampcache''"
definition RendezvousSqs :: RendezvousMethod where "RendezvousSqs = ''sqs''"

text \<open>The argument of an IPC call; \<open>Context\<close> is the time at which the request is cancelled.\<close>

record Arg =
  Body :: string
  RemoteAddr :: string
  Rendezvous :: RendezvousMethod
  Context :: "nat option"

section \<open>Lemmas\<close>

lemma Unmarshal_Marshal:
  assumes "list_all (\<lambda>(k, v). printable 9999 v) ms"
  shows "json_Unmarshal fs (json_print (JObj ms)) r = decode_struct False fs (json_valid (JObj ms)) r"
  using assms json_parse_print [of "JObj ms"] by (simp add: json_Unmarshal_def)

lemma u64_of_unat: "word_of_int (max (int (unat n)) 0) = (n :: u64)"
  by (simp add: max_def)

lemmas decode_simps =
  decode_struct_def find_field_def set_string_def set_string_ptr_def set_int64_def to_valid_ascii ascii_def

lemma check_NAT_valid: "check_NAT n = Some m \<Longrightarrow> to_valid n = n"
  by (auto simp: check_NAT_def NATUnknown_def NATRestricted_def NATUnrestricted_def to_valid_ascii ascii_def
      split: if_splits)

lemma hex_ascii: "hex_DecodeString h = Inr s \<Longrightarrow> ascii h"
proof (induction h arbitrary: s rule: hex_DecodeString.induct)
  case (3 a b cs)
  have "hex_val c = Some x \<Longrightarrow> code c < 128" for c x by (auto simp: hex_val_def Let_def split: if_splits)
  with 3 show ?case by (auto simp: ascii_def split: option.splits sum.splits)
qed (auto simp: ascii_def split: if_splits)

lemma Fingerprint_ascii: "FingerprintFromHexString h = Inr f \<Longrightarrow> to_valid h = h"
  using hex_ascii by (auto simp: FingerprintFromHexString_def split: sum.splits)

lemma Fingerprint_length: "FingerprintFromHexString h = Inr f \<Longrightarrow> length f = 20 \<or> length f = 32"
  by (auto simp: FingerprintFromHexString_def FingerprintFromBytes_def Let_def split: sum.splits if_splits)

lemma default_fingerprint: "\<exists>f. FingerprintFromHexString defaultBridgeFingerprint = Inr f"
  by (simp add: FingerprintFromHexString_def FingerprintFromBytes_def defaultBridgeFingerprint_def hex_val_def Let_def)

lemma Deserialize_nonempty: "DeserializeSessionDescription d = Inr desc \<Longrightarrow> d \<noteq> []"
  by (auto simp: DeserializeSessionDescription_def json_Unmarshal_map_def json_parse_def
      parse_value.simps [of _ "[]"] skip_ws_def)

lemma split_newline_version:
  "split_newline (ClientVersion @ ch 10 # body) = [ClientVersion, body]"
  by (simp add: split_newline_def ClientVersion_def)

lemma Decode_EncodeClientPollRequest:
  assumes "valid_utf8 (poll_Offer req)" "DeserializeSessionDescription (poll_Offer req) = Inr desc"
    and "check_NAT (poll_NAT req) = Some nat'"
    and "poll_Fingerprint req = [] \<or> FingerprintFromHexString (poll_Fingerprint req) = Inr f"
  shows "(case fst (EncodeClientPollRequest req) of
            Inl e \<Rightarrow> Inl e | Inr data \<Rightarrow> DecodeClientPollRequest data) =
         Inr \<lparr>poll_Offer = poll_Offer req, poll_NAT = nat',
              poll_Fingerprint = if poll_Fingerprint req = [] then defaultBridgeFingerprint
                                 else poll_Fingerprint req\<rparr>"
proof -
  let ?fp = "if poll_Fingerprint req = [] then defaultBridgeFingerprint else poll_Fingerprint req"
  let ?ms = "[(''offer'', JStr (poll_Offer req)), (''nat'', JStr (poll_NAT req)), (''fingerprint'', JStr ?fp)]"
  obtain f' where f: "FingerprintFromHexString ?fp = Inr f'"
    using assms(4) default_fingerprint by (cases "poll_Fingerprint req = []") auto
  have fp: "?fp \<noteq> []" by (simp add: defaultBridgeFingerprint_def)
  have "json_Unmarshal ClientPollRequest_fields (json_print (JObj ?ms))
          \<lparr>poll_Offer = [], poll_NAT = [], poll_Fingerprint = []\<rparr> =
        Inr \<lparr>poll_Offer = poll_Offer req, poll_NAT = poll_NAT req, poll_Fingerprint = ?fp\<rparr>"
    using assms(1) check_NAT_valid [OF assms(3)] Fingerprint_ascii [OF f]
    by (simp add: Unmarshal_Marshal ClientPollRequest_fields_def decode_simps valid_utf8_def del: json_print.simps)
  moreover have "fst (EncodeClientPollRequest req) = Inr (ClientVersion @ ch 10 # json_print (JObj ?ms))"
    by (simp add: EncodeClientPollRequest_def json_Marshal_def Let_def del: json_print.simps)
  ultimately show ?thesis
    using assms(2,3) f fp Deserialize_nonempty [OF assms(2)]
    by (simp add: DecodeClientPollRequest_def split_newline_version Let_def del: json_print.simps)
qed

definition example_offer :: SessionDescription where
  "example_offer = \<lparr>sd_Type = SDPTypeOffer, sd_SDP = ''v=0''\<rparr>"

lemma example_offer_ascii: "ascii (json_print (pion_json example_offer))"
  by (simp add: pion_json_def example_offer_def json_quote_plain plain_def ascii_def)

lemma example_offer_ok: "DeserializeSessionDescription (json_print (pion_json example_offer)) = Inr example_offer"
  by (rule Deserialize_pion) (simp add: example_offer_def valid_utf8_def ascii_def)

lemma example_offer_poll: "\<exists>data m. DecodeClientPollRequest data = Inr m"
  using Decode_EncodeClientPollRequest
    [of "\<lparr>poll_Offer = json_print (pion_json example_offer), poll_NAT = NATUnknown, poll_Fingerprint = []\<rparr>"
      example_offer NATUnknown "[]"] example_offer_ok example_offer_ascii
  by (auto simp: valid_utf8_def check_NAT_def NATUnknown_def split: sum.splits)

lemma Decode_EncodeProxyPollRequest:
  assumes "sid \<noteq> []" "valid_utf8 sid" "valid_utf8 proxyType" "valid_utf8 relayPattern"
    and "check_NAT natType = Some nat'"
  shows "(case EncodeProxyPollRequestWithRelayPrefix sid proxyType natType n relayPattern of
            Inl e \<Rightarrow> Inl e | Inr data \<Rightarrow> DecodeProxyPollRequest data) =
         (if unat n < 2 ^ 63 then
            Inr \<lparr>Sid = sid, Version = ''1.3'',
                 Type = if proxyType \<in> set KnownProxyTypes then proxyType else ProxyUnknown,
                 NAT = nat', Clients = n, AcceptedRelayPattern = Some relayPattern\<rparr>
          else Inl json_TypeError)"
  using assms check_NAT_valid [OF assms(5)]
  by (simp add: scan_num_dec EncodeProxyPollRequestWithRelayPrefix_def marshal_ProxyPollRequest_def json_Marshal_def
        Unmarshal_Marshal DecodeProxyPollRequest_def version_def aux_fields_def decode_simps valid_utf8_def
        ParseInt64_dec u64_of_unat majorVersion_def
      del: json_print.simps)


section \<open>Properties\<close>

text \<open> C26. What a proxy sends in a poll is what the broker reads: the decoder returns the encoded session,
  NAT type, relay pattern and count of clients, with an unknown proxy type replaced; a count of
  \<open>2 ^ 63\<close> or more is refused.\<close>

theorem ProxyPollRequest_roundtrip:
  assumes "sid \<noteq> []" "valid_utf8 sid" "valid_utf8 proxyType" "valid_utf8 relayPattern"
    and "check_NAT natType = Some nat'"
  shows "(case EncodeProxyPollRequestWithRelayPrefix sid proxyType natType n relayPattern of
            Inl e \<Rightarrow> Inl e | Inr data \<Rightarrow> DecodeProxyPollRequest data) =
         (if unat n < 2 ^ 63 then
            Inr \<lparr>Sid = sid, Version = ''1.3'',
                 Type = if proxyType \<in> set KnownProxyTypes then proxyType else ProxyUnknown,
                 NAT = nat', Clients = n, AcceptedRelayPattern = Some relayPattern\<rparr>
          else Inl json_TypeError)"
  using assms by (rule Decode_EncodeProxyPollRequest)

theorem ProxyPollRequest_roundtrip_witness:
  "(case EncodeProxyPollRequestWithRelayPrefix ''sid'' ''mobile'' [] 8 ''^snowflake.torproject.net$'' of
      Inl e \<Rightarrow> Inl e | Inr data \<Rightarrow> DecodeProxyPollRequest data) =
   Inr \<lparr>Sid = ''sid'', Version = ''1.3'', Type = ''unknown'', NAT = ''unknown'', Clients = 8,
        AcceptedRelayPattern = Some ''^snowflake.torproject.net$''\<rparr>"
  using ProxyPollRequest_roundtrip [of "''sid''" "''mobile''" "''^snowflake.torproject.net$''" "[]" "''unknown''" 8]
  by (simp add: valid_utf8_def ascii_def check_NAT_def NATUnknown_def KnownProxyTypes_def ProxyUnknown_def)

text \<open> C27. What a client sends in a poll is what the broker reads: an offer that is a session description,
  the NAT type and the fingerprint, with the defaults for those left empty.\<close>

theorem ClientPollRequest_roundtrip:
  assumes "valid_utf8 (poll_Offer req)" "DeserializeSessionDescription (poll_Offer req) = Inr desc"
    and "check_NAT (poll_NAT req) = Some nat'"
    and "poll_Fingerprint req = [] \<or> FingerprintFromHexString (poll_Fingerprint req) = Inr f"
  shows "(case fst (EncodeClientPollRequest req) of
            Inl e \<Rightarrow> Inl e | Inr data \<Rightarrow> DecodeClientPollRequest data) =
         Inr \<lparr>poll_Offer = poll_Offer req, poll_NAT = nat',
              poll_Fingerprint = if poll_Fingerprint req = [] then defaultBridgeFingerprint
                                 else poll_Fingerprint req\<rparr>"
  using assms by (rule Decode_EncodeClientPollRequest)

theorem ClientPollRequest_roundtrip_witness:
  "(case fst (EncodeClientPollRequest
        \<lparr>poll_Offer = json_print (pion_json example_offer), poll_NAT = ''restricted'', poll_Fingerprint = []\<rparr>) of
      Inl e \<Rightarrow> Inl e | Inr data \<Rightarrow> DecodeClientPollRequest data) =
   Inr \<lparr>poll_Offer = json_print (pion_json example_offer), poll_NAT = ''restricted'',
        poll_Fingerprint = ''2B280B23E1107BB62ABFC40DDCC8824814F80A72''\<rparr>"
  using ClientPollRequest_roundtrip
    [of "\<lparr>poll_Offer = json_print (pion_json example_offer), poll_NAT = ''restricted'', poll_Fingerprint = []\<rparr>"
      example_offer "''restricted''" "[]"] example_offer_ok example_offer_ascii
  by (simp add: valid_utf8_def check_NAT_def NATRestricted_def NATUnknown_def defaultBridgeFingerprint_def)

text \<open> C25. Whatever bytes arrive, a client poll that the broker accepts holds an offer that is a session
  description, the fingerprint of 20 or 32 bytes in hexadecimal, and one of the three NAT types.\<close>

theorem DecodeClientPollRequest_valid:
  assumes "DecodeClientPollRequest data = Inr m"
  shows "(\<exists>desc. DeserializeSessionDescription (poll_Offer m) = Inr desc) \<and>
         (\<exists>f. FingerprintFromHexString (poll_Fingerprint m) = Inr f \<and> length f \<in> {20, 32}) \<and>
         poll_NAT m \<in> {NATUnknown, NATRestricted, NATUnrestricted}"
proof -
  have nat: "check_NAT n = Some n' \<Longrightarrow> n' \<in> {NATUnknown, NATRestricted, NATUnrestricted}" for n n'
    by (auto simp: check_NAT_def split: if_splits)
  show ?thesis
    using assms unfolding DecodeClientPollRequest_def Let_def
    by (auto split: if_splits sum.splits option.splits dest: nat Fingerprint_length)
qed

theorem DecodeClientPollRequest_valid_witness:
  "\<exists>data m. DecodeClientPollRequest data = Inr m \<and>
     (\<exists>f. FingerprintFromHexString (poll_Fingerprint m) = Inr f \<and> length f \<in> {20, 32})"
proof -
  obtain data m where "DecodeClientPollRequest data = Inr m"
    using example_offer_poll by blast
  then show ?thesis using DecodeClientPollRequest_valid [of data m] by blast
qed

text \<open> C28. What the broker answers to a proxy's poll is what the proxy reads: the offer, the client's NAT type
  and the relay of a match, nothing when there is no client, and any other reason as an error.\<close>

theorem PollResponse_roundtrip:
  assumes "valid_utf8 offer" "offer \<noteq> []" "valid_utf8 natType" "valid_utf8 relayURL"
    and "valid_utf8 failReason" "failReason \<noteq> []" "failReason \<noteq> ''client match''"
  shows "(case EncodePollResponseWithRelayURL offer success natType relayURL failReason of
            Inl e \<Rightarrow> ([], [], [], Some e) | Inr data \<Rightarrow> DecodePollResponseWithRelayURL data) =
         (if success then (offer, if natType = [] then ''unknown'' else natType, relayURL, None)
          else if failReason = ''no match'' then ([], ''unknown'', [], None)
          else ([], [], [], Some (Err failReason)))"
proof -
  have z: "dec_int64 0 = dec 0" by (simp add: dec_int64_def)
  show ?thesis
    using assms
    by (cases success)
      (simp_all add: EncodePollResponseWithRelayURL_def ProxyPollResponse_Encode_def json_Marshal_def
        Unmarshal_Marshal DecodePollResponseWithRelayURL_def DecodeProxyPollResponse_def
        ProxyPollResponse_fields_def decode_simps valid_utf8_def scan_num_dec ParseInt64_dec z
        ProxyClientMatch_def ProxyClientNoMatch_def Let_def del: json_print.simps)
qed

theorem PollResponse_roundtrip_witness:
  "(case EncodePollResponseWithRelayURL ''offer'' True ''restricted'' ''wss://relay/'' ''no match'' of
      Inl e \<Rightarrow> ([], [], [], Some e) | Inr data \<Rightarrow> DecodePollResponseWithRelayURL data) =
   (''offer'', ''restricted'', ''wss://relay/'', None)"
  using PollResponse_roundtrip [of "''offer''" "''restricted''" "''wss://relay/''" "''no match''" True]
  by (simp add: valid_utf8_def ascii_def)

end
