(* ===== verification/Ip_Set_Sink.thy ===== *)
theory Ip_Set_Sink
  imports Bridge_List "HOL-Library.AList"
begin

text \<open>
  The journal of distinct proxy addresses (\<open>src/common/ipsetsink\<close> and its package \<open>sinkcluster\<close>): a
  sketch of the masked addresses per category, written out and reset at intervals, and the counter
  that merges the chunks of a period.  The sketch is the library \<open>hyperloglog\<close> and the mask the HMAC of
  \<open>crypto\<close>: both are arguments.  Times are in nanoseconds.
\<close>

section \<open>Model\<close>

subsection \<open>One set\<close>

text \<open>The operations of \<open>hyperloglog.HyperLogLogPlus\<close> with precision 18.\<close>

record 'h hll =
  NewPlus :: 'h
  hll_Add :: "u64 \<Rightarrow> 'h \<Rightarrow> 'h"
  GobEncode :: "'h \<Rightarrow> err + bytes"
  GobDecode :: "bytes \<Rightarrow> err + 'h"
  hll_Clear :: "'h \<Rightarrow> 'h"
  hll_Merge :: "'h \<Rightarrow> 'h \<Rightarrow> err + 'h"
  hll_Count :: "'h \<Rightarrow> u64"

record 'h IPSetSink =
  ipMaskingKey :: bytes
  countDistinct :: 'h

definition NewIPSetSink :: "'h hll \<Rightarrow> bytes \<Rightarrow> 'h IPSetSink" where
  "NewIPSetSink H maskingKey = \<lparr>ipMaskingKey = maskingKey, countDistinct = NewPlus H\<rparr>"

text \<open>\<open>binary.Read\<close> of a big-endian \<open>uint64\<close>; too few bytes are an error and give 0.\<close>

definition Sum64 :: "bytes \<Rightarrow> u64" where
  "Sum64 c = (if length c < 8 then 0 else foldl (\<lambda>a b. a * 256 + ucast b) 0 (take 8 c))"

text \<open>\<open>hmac key msg\<close> is the HMAC with SHA3-256.\<close>

definition maskIPAddress :: "(bytes \<Rightarrow> bytes \<Rightarrow> bytes) \<Rightarrow> 'h IPSetSink \<Rightarrow> bytes \<Rightarrow> bytes" where
  "maskIPAddress hmac s ipAddress = hmac (ipMaskingKey s) ipAddress"

definition sink_AddIPToSet :: "'h hll \<Rightarrow> (bytes \<Rightarrow> bytes \<Rightarrow> bytes) \<Rightarrow> 'h IPSetSink \<Rightarrow> bytes \<Rightarrow> 'h IPSetSink" where
  "sink_AddIPToSet H hmac s ipAddress =
     s\<lparr>countDistinct := hll_Add H (Sum64 (maskIPAddress hmac s ipAddress)) (countDistinct s)\<rparr>"

definition Dump :: "'h hll \<Rightarrow> 'h IPSetSink \<Rightarrow> err + bytes" where
  "Dump H s = GobEncode H (countDistinct s)"

definition Reset :: "'h hll \<Rightarrow> 'h IPSetSink \<Rightarrow> 'h IPSetSink" where
  "Reset H s = s\<lparr>countDistinct := hll_Clear H (countDistinct s)\<rparr>"

subsection \<open>The cluster of sets\<close>

record SinkEntry =
  RecordingStart :: int
  RecordingEnd :: int
  Recorded :: bytes

record 'h sink =
  sink_writer :: writer
  current :: "'h IPSetSink"

text \<open>The map of sinks is a list in the order in which \<open>range\<close> visits it.\<close>

record 'h ClusterWriter =
  sinks :: "(string \<times> 'h sink) list"
  lastWriteTime :: int
  writeInterval :: int

definition NewClusterWriter ::
  "'h hll \<Rightarrow> (string \<times> writer) list \<Rightarrow> bytes \<Rightarrow> int \<Rightarrow> int \<Rightarrow> 'h ClusterWriter" where
  "NewClusterWriter H writers key interval now =
     \<lparr>sinks = map (\<lambda>(name, w). (name, \<lparr>sink_writer = w, current = NewIPSetSink H key\<rparr>)) writers,
      lastWriteTime = now, writeInterval = interval\<rparr>"

text \<open>
  One iteration of \<open>WriteIPSetToDisk\<close>; the result says whether the loop goes on.  A failing \<open>Sync\<close>
  is only logged.  \<open>marshal\<close> is the JSON of an entry.
\<close>

definition write_sink ::
  "'h hll \<Rightarrow> (SinkEntry \<Rightarrow> err + bytes) \<Rightarrow> int \<Rightarrow> int \<Rightarrow> 'h sink \<Rightarrow> bool \<times> 'h sink" where
  "write_sink H marshal start currentTime s =
     (case Dump H (current s) of
        Inl _ \<Rightarrow> (False, s)
      | Inr data \<Rightarrow>
          (case marshal \<lparr>RecordingStart = start, RecordingEnd = currentTime, Recorded = data\<rparr> of
             Inl _ \<Rightarrow> (False, s)
           | Inr jsonData \<Rightarrow>
               (case Write (sink_writer s) (jsonData @ [10]) of
                  ((_, Some _), w) \<Rightarrow> (False, s\<lparr>sink_writer := w\<rparr>)
                | ((_, None), w) \<Rightarrow> (True, s\<lparr>sink_writer := w, current := Reset H (current s)\<rparr>))))"

fun write_sinks ::
  "'h hll \<Rightarrow> (SinkEntry \<Rightarrow> err + bytes) \<Rightarrow> int \<Rightarrow> int \<Rightarrow> (string \<times> 'h sink) list \<Rightarrow> bool \<times> (string \<times> 'h sink) list" where
  "write_sinks H marshal start currentTime [] = (True, [])"
| "write_sinks H marshal start currentTime ((name, s) # ss) =
     (case write_sink H marshal start currentTime s of
        (False, s') \<Rightarrow> (False, (name, s') # ss)
      | (True, s') \<Rightarrow> apsnd (Cons (name, s')) (write_sinks H marshal start currentTime ss))"

definition WriteIPSetToDisk ::
  "'h hll \<Rightarrow> (SinkEntry \<Rightarrow> err + bytes) \<Rightarrow> int \<Rightarrow> 'h ClusterWriter \<Rightarrow> 'h ClusterWriter" where
  "WriteIPSetToDisk H marshal currentTime c =
     (case write_sinks H marshal (lastWriteTime c) currentTime (sinks c) of
        (False, ss) \<Rightarrow> c\<lparr>sinks := ss\<rparr>
      | (True, ss) \<Rightarrow> c\<lparr>sinks := ss, lastWriteTime := currentTime\<rparr>)"

text \<open>
  \<open>AddIPToSet\<close> at time \<open>now\<close>; the clock is read again, as \<open>now'\<close>, when the sets are written.  A name
  without a sink is a nil dereference: the result \<^const>\<open>None\<close>.
\<close>

definition cluster_AddIPToSet ::
  "'h hll \<Rightarrow> (bytes \<Rightarrow> bytes \<Rightarrow> bytes) \<Rightarrow> (SinkEntry \<Rightarrow> err + bytes) \<Rightarrow> int \<Rightarrow> int \<Rightarrow>
   'h ClusterWriter \<Rightarrow> string \<Rightarrow> bytes \<Rightarrow> 'h ClusterWriter option" where
  "cluster_AddIPToSet H hmac marshal now now' c name ipAddress =
     (let c = (if lastWriteTime c + writeInterval c < now then WriteIPSetToDisk H marshal now' c else c) in
      case map_of (sinks c) name of
        None \<Rightarrow> None
      | Some s \<Rightarrow>
          Some (c\<lparr>sinks := AList.update name (s\<lparr>current := sink_AddIPToSet H hmac (current s) ipAddress\<rparr>) (sinks c)\<rparr>))"

subsection \<open>Counting\<close>

record ClusterCounter =
  cc_from :: int
  cc_to :: int

definition NewClusterCounter :: "int \<Rightarrow> int \<Rightarrow> ClusterCounter" where
  "NewClusterCounter a b = \<lparr>cc_from = a, cc_to = b\<rparr>"

record ClusterCountResult =
  Sum :: u64
  ChunkIncluded :: int

text \<open>The loop over the lines; \<open>unmarshal\<close> reads the JSON of an entry.\<close>

fun count_lines ::
  "'h hll \<Rightarrow> (string \<Rightarrow> err + SinkEntry) \<Rightarrow> ClusterCounter \<Rightarrow> string list \<Rightarrow> 'h \<Rightarrow> int \<Rightarrow> err + 'h \<times> int" where
  "count_lines H unmarshal c [] counter n = Inr (counter, n)"
| "count_lines H unmarshal c (l # ls) counter n =
     (if MaxScanTokenSize \<le> length l then Inl bufio_ErrTooLong
      else
        (case unmarshal (drop_cr l) of
           Inl e \<Rightarrow> Inl e
         | Inr info \<Rightarrow>
             if (RecordingStart info < cc_from c \<and> RecordingStart info \<noteq> cc_from c) \<or> cc_to c < RecordingEnd info
             then count_lines H unmarshal c ls counter n
             else
               (case GobDecode H (Recorded info) of
                  Inl e \<Rightarrow> Inl e
                | Inr restored \<Rightarrow>
                    (case hll_Merge H counter restored of
                       Inl e \<Rightarrow> Inl e
                     | Inr counter' \<Rightarrow> count_lines H unmarshal c ls counter' (n + 1)))))"

definition cluster_Count ::
  "'h hll \<Rightarrow> (string \<Rightarrow> err + SinkEntry) \<Rightarrow> ClusterCounter \<Rightarrow> string \<Rightarrow> err + ClusterCountResult" where
  "cluster_Count H unmarshal c reader =
     (case count_lines H unmarshal c (split_lines [] reader) (NewPlus H) 0 of
        Inl e \<Rightarrow> Inl e
      | Inr (counter, n) \<Rightarrow> Inr \<lparr>Sum = hll_Count H counter, ChunkIncluded = n\<rparr>)"

section \<open>Specification\<close>

text \<open>A sequence of calls, each with its two clock readings, the name and the address.\<close>

type_synonym add_call = "int \<times> int \<times> string \<times> bytes"

fun add_calls ::
  "'h hll \<Rightarrow> (bytes \<Rightarrow> bytes \<Rightarrow> bytes) \<Rightarrow> (SinkEntry \<Rightarrow> err + bytes) \<Rightarrow> add_call list \<Rightarrow>
   'h ClusterWriter \<Rightarrow> 'h ClusterWriter option" where
  "add_calls H hmac marshal [] c = Some c"
| "add_calls H hmac marshal ((now, now', name, ip) # cs) c =
     Option.bind (cluster_AddIPToSet H hmac marshal now now' c name ip) (add_calls H hmac marshal cs)"

definition addresses :: "string \<Rightarrow> add_call list \<Rightarrow> bytes list" where
  "addresses name cs = map (snd \<circ> snd \<circ> snd) (filter (\<lambda>(_, _, n, _). n = name) cs)"

text \<open>The sketch of a list of addresses, and the line of the journal for a chunk of them.\<close>

definition sketch :: "'h hll \<Rightarrow> (bytes \<Rightarrow> bytes \<Rightarrow> bytes) \<Rightarrow> bytes \<Rightarrow> bytes list \<Rightarrow> 'h" where
  "sketch H hmac key ips = fold (\<lambda>ip. hll_Add H (Sum64 (hmac key ip))) ips (NewPlus H)"

definition journal_line ::
  "(SinkEntry \<Rightarrow> bytes) \<Rightarrow> ('h \<Rightarrow> bytes) \<Rightarrow> (bytes list \<Rightarrow> 'h) \<Rightarrow> (int \<times> int) \<times> bytes list \<Rightarrow> bytes" where
  "journal_line enc gob sk = (\<lambda>((a, b), ips).
     enc \<lparr>RecordingStart = a, RecordingEnd = b, Recorded = gob (sk ips)\<rparr> @ [10])"

definition journal ::
  "(SinkEntry \<Rightarrow> bytes) \<Rightarrow> ('h \<Rightarrow> bytes) \<Rightarrow> (bytes list \<Rightarrow> 'h) \<Rightarrow> int list \<Rightarrow> bytes list list \<Rightarrow> bytes" where
  "journal enc gob sk ts chunks = concat (map (journal_line enc gob sk) (zip (zip ts (tl ts)) chunks))"

text \<open>
  The state of one sink after the addresses \<open>ips\<close>: they are cut into the chunks of the journal, between
  consecutive times \<open>ts\<close>, and a last piece that is in the sketch.
\<close>

definition sink_state ::
  "(SinkEntry \<Rightarrow> bytes) \<Rightarrow> ('h \<Rightarrow> bytes) \<Rightarrow> (bytes list \<Rightarrow> 'h) \<Rightarrow> int list \<Rightarrow> bytes list \<Rightarrow> 'h sink \<Rightarrow> bool" where
  "sink_state enc gob sk ts ips s \<longleftrightarrow>
     (\<exists>chunks cur. concat chunks @ cur = ips \<and> length ts = length chunks + 1 \<and>
        wout (sink_writer s) = journal enc gob sk ts chunks \<and> countDistinct (current s) = sk cur)"

section \<open>Lemmas\<close>

lemma journal_snoc:
  "length ts = length chunks + 1 \<Longrightarrow>
   journal enc gob sk (ts @ [t]) (chunks @ [cur]) =
     journal enc gob sk ts chunks @ journal_line enc gob sk ((last ts, t), cur)"
proof (induction ts arbitrary: chunks)
  case (Cons a ts)
  show ?case
  proof (cases chunks)
    case Nil
    with Cons.prems show ?thesis by (simp add: journal_def)
  next
    case (Cons ch chs)
    with Cons.prems obtain b ts' where "ts = b # ts'" by (cases ts) auto
    with Cons Cons.prems Cons.IH [of chs] show ?thesis by (simp add: journal_def)
  qed
qed simp

lemma journal_0 [simp]: "journal enc gob sk [t] [] = []"
  by (simp add: journal_def)

lemma write_sink_state:
  assumes "sink_state enc gob sk ts ips s" "wroom (sink_writer s) = None" "\<And>h. hll_Clear H h = sk []"
    and "\<And>h. GobEncode H h = Inr (gob h)" "\<And>e. marshal e = Inr (enc e)"
  shows "\<exists>s'. write_sink H marshal (last ts) t s = (True, s') \<and> sink_state enc gob sk (ts @ [t]) ips s' \<and>
    wroom (sink_writer s') = None \<and> ipMaskingKey (current s') = ipMaskingKey (current s)"
proof -
  obtain chunks cur where c: "concat chunks @ cur = ips" "length ts = length chunks + 1"
      "wout (sink_writer s) = journal enc gob sk ts chunks" "countDistinct (current s) = sk cur"
    using assms(1) by (auto simp: sink_state_def)
  let ?w = "(sink_writer s)\<lparr>wout := wout (sink_writer s) @ journal_line enc gob sk ((last ts, t), cur)\<rparr>"
  let ?s = "s\<lparr>sink_writer := ?w, current := Reset H (current s)\<rparr>"
  have "write_sink H marshal (last ts) t s = (True, ?s)"
    using assms c by (simp add: write_sink_def Dump_def Write_def journal_line_def)
  moreover have "sink_state enc gob sk (ts @ [t]) ips ?s"
    unfolding sink_state_def
    by (intro exI [of _ "chunks @ [cur]"] exI [of _ "[]"]) (simp add: c journal_snoc Reset_def assms(3))
  ultimately show ?thesis using assms(2) by (auto simp: Reset_def)
qed

text \<open>All sinks of a cluster, each with its own addresses.\<close>

definition cluster_state ::
  "(SinkEntry \<Rightarrow> bytes) \<Rightarrow> ('h \<Rightarrow> bytes) \<Rightarrow> (bytes list \<Rightarrow> 'h) \<Rightarrow> bytes \<Rightarrow> int list \<Rightarrow> (string \<Rightarrow> bytes list) \<Rightarrow>
   (string \<times> 'h sink) list \<Rightarrow> bool" where
  "cluster_state enc gob sk key ts ips ss \<longleftrightarrow>
     (\<forall>(name, s) \<in> set ss. sink_state enc gob sk ts (ips name) s \<and> wroom (sink_writer s) = None \<and>
        ipMaskingKey (current s) = key)"

lemma write_sinks_state:
  assumes "cluster_state enc gob sk key ts ips ss" "\<And>h. hll_Clear H h = sk []"
    and "\<And>h. GobEncode H h = Inr (gob h)" "\<And>e. marshal e = Inr (enc e)"
  shows "\<exists>ss'. write_sinks H marshal (last ts) t ss = (True, ss') \<and>
    cluster_state enc gob sk key (ts @ [t]) ips ss' \<and> map fst ss' = map fst ss"
  using assms(1)
proof (induction ss)
  case Nil
  then show ?case by (simp add: cluster_state_def)
next
  case (Cons a ss)
  obtain name s where a: "a = (name, s)" by (cases a)
  have "sink_state enc gob sk ts (ips name) s" "wroom (sink_writer s) = None" and key: "ipMaskingKey (current s) = key"
    using Cons.prems by (auto simp: a cluster_state_def)
  from write_sink_state [OF this(1,2) assms(2-4), of t]
  obtain s' where s': "write_sink H marshal (last ts) t s = (True, s')" "sink_state enc gob sk (ts @ [t]) (ips name) s'"
      "wroom (sink_writer s') = None" "ipMaskingKey (current s') = ipMaskingKey (current s)"
    by auto
  obtain ss' where "write_sinks H marshal (last ts) t ss = (True, ss')"
      "cluster_state enc gob sk key (ts @ [t]) ips ss'" "map fst ss' = map fst ss"
    using Cons.IH Cons.prems by (auto simp: cluster_state_def)
  with s' key show ?case by (auto simp: a cluster_state_def)
qed

lemma sink_state_add:
  assumes "sink_state enc gob (sketch H hmac key) ts ips s" "ipMaskingKey (current s) = key"
  shows "sink_state enc gob (sketch H hmac key) ts (ips @ [ip])
    (s\<lparr>current := sink_AddIPToSet H hmac (current s) ip\<rparr>)"
proof -
  obtain chunks cur where c: "concat chunks @ cur = ips" "length ts = length chunks + 1"
      "wout (sink_writer s) = journal enc gob (sketch H hmac key) ts chunks"
      "countDistinct (current s) = sketch H hmac key cur"
    using assms(1) by (auto simp: sink_state_def)
  then show ?thesis
    unfolding sink_state_def
    by (intro exI [of _ chunks] exI [of _ "cur @ [ip]"])
      (simp add: sink_AddIPToSet_def maskIPAddress_def sketch_def assms(2))
qed

lemma cluster_add_state:
  assumes "cluster_state enc gob (sketch H hmac key) key ts ips ss" "map_of ss name = Some s" "distinct (map fst ss)"
  shows "cluster_state enc gob (sketch H hmac key) key ts (ips(name := ips name @ [ip]))
     (AList.update name (s\<lparr>current := sink_AddIPToSet H hmac (current s) ip\<rparr>) ss)"
  unfolding cluster_state_def
proof (clarify, goal_cases)
  case (1 n s')
  let ?s = "s\<lparr>current := sink_AddIPToSet H hmac (current s) ip\<rparr>"
  have "distinct (map fst (AList.update name ?s ss))" using assms(3) by (rule distinct_update)
  then have "map_of (AList.update name ?s ss) n = Some s'" using 1 by simp
  then have *: "(if n = name then Some ?s else map_of ss n) = Some s'" by (simp add: update_conv)
  have "(name, s) \<in> set ss" using assms(2) by (rule map_of_SomeD)
  then have s: "sink_state enc gob (sketch H hmac key) ts (ips name) s" "wroom (sink_writer s) = None"
      "ipMaskingKey (current s) = key"
    using assms(1) by (auto simp: cluster_state_def)
  show ?case
  proof (cases "n = name")
    case True
    then show ?thesis using * s sink_state_add [OF s(1,3)] by (auto simp: sink_AddIPToSet_def)
  next
    case False
    then have "(n, s') \<in> set ss" using * by (simp add: map_of_SomeD)
    with False show ?thesis using assms(1) by (auto simp: cluster_state_def)
  qed
qed

lemma AddIPToSet_state:
  assumes "cluster_state enc gob (sketch H hmac key) key ts ips (sinks c)" "lastWriteTime c = last ts" "ts \<noteq> []"
    and "distinct (map fst (sinks c))" "name \<in> fst ` set (sinks c)"
    and "\<And>h. hll_Clear H h = NewPlus H" "\<And>h. GobEncode H h = Inr (gob h)" "\<And>e. marshal e = Inr (enc e)"
  shows "\<exists>c' ts'. cluster_AddIPToSet H hmac marshal now now' c name ip = Some c' \<and>
    cluster_state enc gob (sketch H hmac key) key ts' (ips(name := ips name @ [ip])) (sinks c') \<and>
    lastWriteTime c' = last ts' \<and> ts' \<noteq> [] \<and> hd ts' = hd ts \<and> distinct (map fst (sinks c')) \<and>
    fst ` set (sinks c') = fst ` set (sinks c)"
proof -
  let ?sk = "sketch H hmac key"
  let ?c = "if lastWriteTime c + writeInterval c < now then WriteIPSetToDisk H marshal now' c else c"
  have "\<And>h. hll_Clear H h = ?sk []" by (simp add: sketch_def assms(6))
  from write_sinks_state [OF assms(1) this assms(7,8), of now']
  obtain ss' where ss': "write_sinks H marshal (last ts) now' (sinks c) = (True, ss')"
      "cluster_state enc gob ?sk key (ts @ [now']) ips ss'" "map fst ss' = map fst (sinks c)"
    by auto
  obtain ts' where c: "cluster_state enc gob ?sk key ts' ips (sinks ?c)" "lastWriteTime ?c = last ts'" "ts' \<noteq> []"
      "hd ts' = hd ts" and fst: "map fst (sinks ?c) = map fst (sinks c)"
  proof (cases "lastWriteTime c + writeInterval c < now")
    case True
    then show thesis using that [of "ts @ [now']"] ss' assms(2,3) by (simp add: WriteIPSetToDisk_def)
  next
    case False
    then show thesis using that [of ts] assms(1-3) by simp
  qed
  have set: "fst ` set (sinks ?c) = fst ` set (sinks c)" by (metis fst list.set_map)
  obtain s where s: "map_of (sinks ?c) name = Some s"
    using assms(5) set by (metis (no_types) map_of_eq_None_iff not_None_eq)
  have d: "distinct (map fst (sinks ?c))" using assms(4) fst by simp
  define c' where "c' = ?c\<lparr>sinks := AList.update name (s\<lparr>current := sink_AddIPToSet H hmac (current s) ip\<rparr>) (sinks ?c)\<rparr>"
  have "cluster_AddIPToSet H hmac marshal now now' c name ip = Some c'"
    unfolding cluster_AddIPToSet_def Let_def s c'_def by simp
  moreover have "cluster_state enc gob ?sk key ts' (ips(name := ips name @ [ip])) (sinks c')"
    using cluster_add_state [OF c(1) s d, of ip] by (simp add: c'_def)
  moreover have "lastWriteTime c' = last ts'" using c(2) by (simp add: c'_def)
  moreover have "distinct (map fst (sinks c'))" using distinct_update [OF d] by (simp add: c'_def)
  moreover have "fst ` set (sinks c') = fst ` set (sinks c)"
    using set assms(5) by (simp add: c'_def dom_update insert_absorb)
  ultimately show ?thesis using c(3,4) by blast
qed

lemma addresses_Cons:
  "addresses n ((now, now', name, ip) # cs) = (if n = name then ip # addresses n cs else addresses n cs)"
  by (simp add: addresses_def)

lemma add_calls_state:
  assumes "cluster_state enc gob (sketch H hmac key) key ts ips (sinks c)" "lastWriteTime c = last ts" "ts \<noteq> []"
    and "distinct (map fst (sinks c))" "\<forall>(_, _, name, _) \<in> set cs. name \<in> fst ` set (sinks c)"
    and "\<And>h. hll_Clear H h = NewPlus H" "\<And>h. GobEncode H h = Inr (gob h)" "\<And>e. marshal e = Inr (enc e)"
  shows "\<exists>c' ts'. add_calls H hmac marshal cs c = Some c' \<and> hd ts' = hd ts \<and>
    cluster_state enc gob (sketch H hmac key) key ts' (\<lambda>n. ips n @ addresses n cs) (sinks c')"
  using assms(1-5)
proof (induction cs arbitrary: c ts ips)
  case Nil
  then show ?case by (auto simp: addresses_def)
next
  case (Cons a cs)
  obtain now now' name ip where a: "a = (now, now', name, ip)" by (cases a)
  have "name \<in> fst ` set (sinks c)" using Cons.prems(5) by (simp add: a)
  from AddIPToSet_state [OF Cons.prems(1-4) this assms(6-8), of now now' ip]
  obtain c1 ts1 where c1: "cluster_AddIPToSet H hmac marshal now now' c name ip = Some c1"
      "cluster_state enc gob (sketch H hmac key) key ts1 (ips(name := ips name @ [ip])) (sinks c1)"
      "lastWriteTime c1 = last ts1" "ts1 \<noteq> []" "hd ts1 = hd ts" "distinct (map fst (sinks c1))"
      "fst ` set (sinks c1) = fst ` set (sinks c)"
    by blast
  have "\<forall>(_, _, name, _) \<in> set cs. name \<in> fst ` set (sinks c1)" using Cons.prems(5) by (simp add: a c1(7))
  from Cons.IH [OF c1(2-4,6) this] obtain c' ts' where "add_calls H hmac marshal cs c1 = Some c'" "hd ts' = hd ts1"
      "cluster_state enc gob (sketch H hmac key) key ts' (\<lambda>n. (ips(name := ips name @ [ip])) n @ addresses n cs) (sinks c')"
    by blast
  moreover have "(\<lambda>n. (ips(name := ips name @ [ip])) n @ addresses n cs) = (\<lambda>n. ips n @ addresses n (a # cs))"
    by (auto simp: a addresses_Cons)
  ultimately show ?case using c1(1,5) by (auto simp: a)
qed

text \<open>A sketch that keeps everything, for concrete runs.\<close>

definition list_hll :: "u64 list hll" where
  "list_hll =
     \<lparr>NewPlus = [], hll_Add = Cons, GobEncode = (\<lambda>h. Inr (map ucast h)), GobDecode = (\<lambda>b. Inr (map ucast b)),
      hll_Clear = (\<lambda>_. []), hll_Merge = (\<lambda>a b. Inr (a @ b)), hll_Count = (\<lambda>h. word_of_nat (length (remdups h)))\<rparr>"

section \<open>Properties\<close>

text \<open> C35. No address is lost or counted twice: for any calls of \<open>AddIPToSet\<close> on a new cluster whose files can be
  written, the addresses of a category are, in their order, those of the chunks of its file followed by
  those of the current sketch; and the chunks cover consecutive intervals that start with the cluster.\<close>

theorem ClusterWriter_journal:
  assumes "\<And>h. hll_Clear H h = NewPlus H" "\<And>h. GobEncode H h = Inr (gob h)" "\<And>e. marshal e = Inr (enc e)"
    and "distinct (map fst writers)" "\<forall>(_, w) \<in> set writers. wout w = [] \<and> wroom w = None"
    and "\<forall>(_, _, name, _) \<in> set calls. name \<in> fst ` set writers"
  shows "\<exists>c ts. add_calls H hmac marshal calls (NewClusterWriter H writers key interval now) = Some c \<and> hd ts = now \<and>
    (\<forall>(name, s) \<in> set (sinks c). sink_state enc gob (sketch H hmac key) ts (addresses name calls) s)"
proof -
  let ?c = "NewClusterWriter H writers key interval now"
  have "cluster_state enc gob (sketch H hmac key) key [now] (\<lambda>_. []) (sinks ?c)"
    using assms(5) by (fastforce simp: cluster_state_def sink_state_def NewClusterWriter_def NewIPSetSink_def sketch_def)
  moreover have "lastWriteTime ?c = last [now]" "[now] \<noteq> []" "map fst (sinks ?c) = map fst writers"
    by (simp_all add: NewClusterWriter_def comp_def case_prod_unfold)
  moreover from this(3) have "fst ` set (sinks ?c) = fst ` set writers" by (metis list.set_map)
  ultimately show ?thesis
    using add_calls_state [of enc gob H hmac key "[now]" "\<lambda>_. []" ?c calls marshal] assms
    by (simp add: cluster_state_def) blast
qed

theorem ClusterWriter_journal_witness:
  "\<exists>c ts. add_calls list_hll (\<lambda>k m. k @ m) (\<lambda>e. Inr (Recorded e)) [(5, 6, ''browser'', [1, 2]), (9, 9, ''mobile'', [3])]
       (NewClusterWriter list_hll [(''browser'', bytes_Buffer []), (''mobile'', bytes_Buffer [])] [7] 3 1) = Some c \<and>
     hd ts = 1 \<and>
     (\<forall>(name, s) \<in> set (sinks c).
        sink_state Recorded (map ucast) (sketch list_hll (\<lambda>k m. k @ m) [7]) ts
          (addresses name [(5, 6, ''browser'', [1, 2]), (9, 9, ''mobile'', [3])]) s)"
  by (rule ClusterWriter_journal) (simp_all add: list_hll_def bytes_Buffer_def)

end
