(* ===== verification/Metrics.thy ===== *)
theory Metrics
  imports Messages Ip_Set_Sink
begin

text \<open>
  The broker's usage statistics, \<open>src/broker/metrics.go\<close>: counters of polls, of unique proxy addresses
  and of countries, the daily report that formats and clears them, and the journal of distinct
  addresses.  The GeoIP database and the Prometheus client are libraries: the first is an argument,
  the second receives a sequence of increments.
\<close>

section \<open>Model\<close>

text \<open>\<open>fmt\<close> of an unsigned number.\<close>

definition fmt_u64 :: "u64 \<Rightarrow> string" where
  "fmt_u64 n = dec (unat n)"

text \<open>A \<open>sync.Map\<close> of counters is a list in the order in which \<open>Range\<close> visits it.\<close>

type_synonym counters = "(string \<times> u64) list"

text \<open>An \<open>Inc\<close> or \<open>Dec\<close> of a Prometheus metric: its name, its labels and the change.\<close>

type_synonym prom_event = "string \<times> (string \<times> string) list \<times> int"

record 'h Metrics =
  geoipdb :: "(IP option \<Rightarrow> string option) option"
  seen_ips :: "string set"
  counters :: counters
  distinctIPWriter :: "'h ClusterWriter option"
  proxies :: counters
  clientHTTPPolls :: counters
  clientAMPPolls :: counters
  clientSQSPolls :: counters
  promMetrics :: "prom_event list"

definition NewMetrics :: "'h Metrics" where
  "NewMetrics =
     \<lparr>geoipdb = None, seen_ips = {}, counters = [], distinctIPWriter = None, proxies = [],
      clientHTTPPolls = [], clientAMPPolls = [], clientSQSPolls = [], promMetrics = []\<rparr>"

definition prom_Inc :: "string \<Rightarrow> (string \<times> string) list \<Rightarrow> 'h Metrics \<Rightarrow> 'h Metrics" where
  "prom_Inc name labels m = m\<lparr>promMetrics := (name, labels, 1) # promMetrics m\<rparr>"

definition prom_Dec :: "string \<Rightarrow> (string \<times> string) list \<Rightarrow> 'h Metrics \<Rightarrow> 'h Metrics" where
  "prom_Dec name labels m = m\<lparr>promMetrics := (name, labels, -1) # promMetrics m\<rparr>"

definition incrementMapCounter :: "counters \<Rightarrow> string \<Rightarrow> counters" where
  "incrementMapCounter cs key =
     (case map_of cs key of
        None \<Rightarrow> AList.update key 1 cs
      | Some v \<Rightarrow> AList.update key (v + 1) cs)"

definition IncrementCounter :: "string \<Rightarrow> 'h Metrics \<Rightarrow> 'h Metrics" where
  "IncrementCounter key m = m\<lparr>counters := incrementMapCounter (counters m) key\<rparr>"

text \<open>\<open>m.ips.LoadOrStore(key, true)\<close>: whether the key was there, and the new set.\<close>

definition ips_LoadOrStore :: "string \<Rightarrow> 'h Metrics \<Rightarrow> bool \<times> 'h Metrics" where
  "ips_LoadOrStore key m = (key \<in> seen_ips m, m\<lparr>seen_ips := insert key (seen_ips m)\<rparr>)"

definition UpdateProxyStats :: "string \<Rightarrow> string \<Rightarrow> string \<Rightarrow> 'h Metrics \<Rightarrow> 'h Metrics" where
  "UpdateProxyStats addr ptype natt m =
     (let ip = ParseIP addr in
      case geoipdb m of
        None \<Rightarrow> m
      | Some GetCountryByAddr \<Rightarrow>
          (let country = (case GetCountryByAddr ip of Some c \<Rightarrow> c | None \<Rightarrow> ''??'');
               (loaded, m) = ips_LoadOrStore addr m;
               m = (if \<not> loaded then
                      (let m = IncrementCounter ''proxy-total'' m;
                           m = m\<lparr>proxies := incrementMapCounter (proxies m) country\<rparr> in
                       prom_Inc ''proxy_total'' [(''nat'', natt), (''type'', ptype), (''cc'', country)] m)
                    else m);
               (loaded, m) = ips_LoadOrStore (addr @ ''-'' @ natt) m;
               m = (if \<not> loaded then
                      if natt = NATRestricted then IncrementCounter ''proxy-nat-restricted'' m
                      else if natt = NATUnrestricted then IncrementCounter ''proxy-nat-unrestricted'' m
                      else IncrementCounter ''proxy-nat-unknown'' m
                    else m);
               (loaded, m) = ips_LoadOrStore (addr @ ''-'' @ ptype) m in
           if \<not> loaded \<and> ptype \<noteq> ProxyUnknown then IncrementCounter (''proxy-'' @ ptype) m else m))"

definition UpdateClientStats ::
  "string \<Rightarrow> RendezvousMethod \<Rightarrow> string \<Rightarrow> string \<Rightarrow> 'h Metrics \<Rightarrow> 'h Metrics" where
  "UpdateClientStats addr rendezvousMethod natt status m =
     (let ip = ParseIP addr;
          country = (case geoipdb m of
                       None \<Rightarrow> ''??''
                     | Some db \<Rightarrow> (case db ip of Some c \<Rightarrow> c | None \<Rightarrow> ''??''));
          m = (if status = ''denied'' then
                 (let m = IncrementCounter ''client-denied'' m in
                  if natt = NATUnrestricted then IncrementCounter ''client-unrestricted-denied'' m
                  else IncrementCounter ''client-restricted-denied'' m)
               else if status = ''matched'' then IncrementCounter ''client-match'' m
               else if status = ''timeout'' then IncrementCounter ''client-timeout'' m
               else m);
          m = (if rendezvousMethod = RendezvousHttp then
                 (let m = IncrementCounter ''client-http'' m in
                  m\<lparr>clientHTTPPolls := incrementMapCounter (clientHTTPPolls m) country\<rparr>)
               else if rendezvousMethod = RendezvousAmpCache then
                 (let m = IncrementCounter ''client-amp'' m in
                  m\<lparr>clientAMPPolls := incrementMapCounter (clientAMPPolls m) country\<rparr>)
               else if rendezvousMethod = RendezvousSqs then
                 (let m = IncrementCounter ''client-sqs'' m in
                  m\<lparr>clientSQSPolls := incrementMapCounter (clientSQSPolls m) country\<rparr>)
               else m) in
      prom_Inc ''rounded_client_poll_total''
        [(''nat'', natt), (''status'', status), (''rendezvous_method'', rendezvousMethod),
         (''cc'', country)] m)"

subsection \<open>The report\<close>

text \<open>Go compares strings by their bytes.\<close>

fun str_less :: "string \<Rightarrow> string \<Rightarrow> bool" where
  "str_less _ [] \<longleftrightarrow> False"
| "str_less [] (_ # _) \<longleftrightarrow> True"
| "str_less (a # as) (b # bs) \<longleftrightarrow> code a < code b \<or> (a = b \<and> str_less as bs)"

type_synonym stat_record = "string \<times> u64"

definition records_Less :: "stat_record \<Rightarrow> stat_record \<Rightarrow> bool" where
  "records_Less r s \<longleftrightarrow> snd s < snd r \<or> (snd r = snd s \<and> str_less (fst r) (fst s))"

text \<open>
  \<open>sort.Sort\<close>.  The records of a map have different country codes, so the order is total on them and
  every sorting algorithm gives the same result: this one is insertion.
\<close>

fun insert_record :: "stat_record \<Rightarrow> stat_record list \<Rightarrow> stat_record list" where
  "insert_record r [] = [r]"
| "insert_record r (s # ss) = (if records_Less s r then s # insert_record r ss else r # s # ss)"

definition sort_records :: "stat_record list \<Rightarrow> stat_record list" where
  "sort_records rs = foldr insert_record rs []"

definition binCount :: "u64 \<Rightarrow> u64" where
  "binCount n = (n + 7) div 8 * 8"

fun join_comma :: "string list \<Rightarrow> string" where
  "join_comma [] = []"
| "join_comma [x] = x"
| "join_comma (x # xs) = x @ '','' @ join_comma xs"

text \<open>The formatted string and the map, from which every entry has been deleted.\<close>

definition formatAndClearCountryStats :: "counters \<Rightarrow> bool \<Rightarrow> string \<times> counters" where
  "formatAndClearCountryStats cs binned =
     (let rs = map (\<lambda>(cc, n). (cc, if binned then binCount n else n)) cs in
      (join_comma (map (\<lambda>(cc, n). cc @ ''='' @ fmt_u64 n) (sort_records rs)), []))"

definition loadAndZero :: "string \<Rightarrow> 'h Metrics \<Rightarrow> u64 \<times> 'h Metrics" where
  "loadAndZero key m =
     (case map_of (counters m) key of
        None \<Rightarrow> (0, m)
      | Some v \<Rightarrow> (v, m\<lparr>counters := AList.delete key (counters m)\<rparr>))"

text \<open>The lines of the report that take a counter: a label, its key and whether it is binned.\<close>

definition count_line :: "string \<Rightarrow> string \<Rightarrow> bool \<Rightarrow> string list \<times> 'h Metrics \<Rightarrow> string list \<times> 'h Metrics" where
  "count_line label key binned = (\<lambda>(out, m).
     case loadAndZero key m of
       (n, m) \<Rightarrow> (out @ [label @ '' '' @ fmt_u64 (if binned then binCount n else n)], m))"

definition country_line ::
  "string \<Rightarrow> ('h Metrics \<Rightarrow> counters) \<Rightarrow> (counters \<Rightarrow> 'h Metrics \<Rightarrow> 'h Metrics) \<Rightarrow> bool \<Rightarrow>
   string list \<times> 'h Metrics \<Rightarrow> string list \<times> 'h Metrics" where
  "country_line label get put binned = (\<lambda>(out, m).
     case formatAndClearCountryStats (get m) binned of
       (str, cs) \<Rightarrow> (out @ [label @ '' '' @ str], put cs m))"

text \<open>
  \<open>printMetrics\<close>: the lines that the logger prints.  \<open>now\<close> is the formatted time and \<open>types\<close> the known
  proxy types in the order in which \<open>range\<close> visits them.
\<close>

definition printMetrics :: "string \<Rightarrow> string list \<Rightarrow> 'h Metrics \<Rightarrow> string list \<times> 'h Metrics" where
  "printMetrics now types m =
     (let s = ([''snowflake-stats-end '' @ now @ '' (86400 s)''], m);
          s = country_line ''snowflake-ips'' proxies (\<lambda>c m. m\<lparr>proxies := c\<rparr>) False s;
          s = fold (\<lambda>t. count_line (''snowflake-ips-'' @ t) (''proxy-'' @ t) False) types s;
          s = count_line ''snowflake-ips-total'' ''proxy-total'' False s;
          s = count_line ''snowflake-idle-count'' ''proxy-idle'' True s;
          s = count_line ''snowflake-proxy-poll-with-relay-url-count'' ''proxy-poll-with-relay-url'' True s;
          s = count_line ''snowflake-proxy-poll-without-relay-url-count'' ''proxy-poll-without-relay-url'' True s;
          s = count_line ''snowflake-proxy-rejected-for-relay-url-count'' ''proxy-poll-rejected-relay-url'' True s;
          s = count_line ''client-denied-count'' ''client-denied'' True s;
          s = count_line ''client-restricted-denied-count'' ''client-restricted-denied'' True s;
          s = count_line ''client-unrestricted-denied-count'' ''client-unrestricted-denied'' True s;
          s = count_line ''client-snowflake-match-count'' ''client-match'' True s;
          s = count_line ''client-snowflake-timeout-count'' ''client-timeout'' True s;
          s = count_line ''client-http-count'' ''client-http'' True s;
          s = country_line ''client-http-ips'' clientHTTPPolls (\<lambda>c m. m\<lparr>clientHTTPPolls := c\<rparr>) True s;
          s = count_line ''client-ampcache-count'' ''client-amp'' True s;
          s = country_line ''client-ampcache-ips'' clientAMPPolls (\<lambda>c m. m\<lparr>clientAMPPolls := c\<rparr>) True s;
          s = count_line ''client-sqs-count'' ''client-sqs'' True s;
          s = country_line ''client-sqs-ips'' clientSQSPolls (\<lambda>c m. m\<lparr>clientSQSPolls := c\<rparr>) True s;
          s = count_line ''snowflake-ips-nat-restricted'' ''proxy-nat-restricted'' False s;
          s = count_line ''snowflake-ips-nat-unrestricted'' ''proxy-nat-unrestricted'' False s;
          s = count_line ''snowflake-ips-nat-unknown'' ''proxy-nat-unknown'' False s in
      (fst s, (snd s)\<lparr>seen_ips := {}\<rparr>))"

text \<open>\<open>LoadGeoipDatabases\<close>; \<open>geoip_New\<close> is the library's constructor.\<close>

definition LoadGeoipDatabases ::
  "(string \<Rightarrow> string \<Rightarrow> (IP option \<Rightarrow> string option) option \<times> err option) \<Rightarrow> string \<Rightarrow> string \<Rightarrow>
   'h Metrics \<Rightarrow> err option \<times> 'h Metrics" where
  "LoadGeoipDatabases geoip_New geoipDB geoip6DB m =
     (case geoip_New geoipDB geoip6DB of (db, e) \<Rightarrow> (e, m\<lparr>geoipdb := db\<rparr>))"

text \<open>
  \<open>RecordIPAddress\<close> makes two calls of \<open>AddIPToSet\<close>, the function \<open>add\<close> here (with the clock and the
  library applied); \<^const>\<open>None\<close> is a panic in one of them.
\<close>

definition record_set :: "string \<Rightarrow> string" where
  "record_set ptype =
     (if ptype = ''standalone'' then ''standalone''
      else if ptype = ''badge'' \<or> ptype = ''webext'' then ''browser''
      else if ptype = ''iptproxy'' then ''mobile''
      else ''unknown'')"

definition RecordIPAddress ::
  "('h ClusterWriter \<Rightarrow> string \<Rightarrow> string \<Rightarrow> 'h ClusterWriter option) \<Rightarrow> string \<Rightarrow> bool \<Rightarrow> string \<Rightarrow>
   'h Metrics \<Rightarrow> 'h Metrics option" where
  "RecordIPAddress add ip restricted ptype m =
     (case distinctIPWriter m of
        None \<Rightarrow> Some m
      | Some w \<Rightarrow>
          (case add w (if restricted then ''restricted'' else ''unrestricted'') ip of
             None \<Rightarrow> None
           | Some w \<Rightarrow>
               (case add w (record_set ptype) ip of
                  None \<Rightarrow> None
                | Some w \<Rightarrow> Some (m\<lparr>distinctIPWriter := Some w\<rparr>))))"

section \<open>Lemmas\<close>

lemma str_less_irrefl [simp]: "\<not> str_less a a"
  by (induction a) auto

lemma str_less_trans: "str_less a b \<Longrightarrow> str_less b c \<Longrightarrow> str_less a c"
proof (induction a b arbitrary: c rule: str_less.induct)
  case (3 x xs y ys)
  then show ?case by (cases c) auto
qed (use str_less.elims in \<open>auto elim: str_less.elims\<close>)

lemma str_less_total: "a \<noteq> b \<Longrightarrow> str_less a b \<or> str_less b a"
proof (induction a b rule: str_less.induct)
  case (1 a)
  then show ?case by (cases a) auto
next
  case (3 x xs y ys)
  show ?case
  proof (cases "x = y")
    case False
    then have "code x \<noteq> code y" by (metis ch_code)
    then have "code x < code y \<or> code y < code x" by (rule neq_iff [THEN iffD1])
    then show ?thesis by auto
  qed (use 3 in auto)
qed simp

lemma str_less_asym: "str_less a b \<Longrightarrow> \<not> str_less b a"
  using str_less_trans [of a b a] by auto

lemma records_Less_asym: "records_Less a b \<Longrightarrow> \<not> records_Less b a"
  by (auto simp: records_Less_def dest: str_less_asym)

lemma records_Less_trans: "records_Less a b \<Longrightarrow> records_Less b c \<Longrightarrow> records_Less a c"
  by (auto simp: records_Less_def dest: str_less_trans)

lemma records_Less_total: "fst a \<noteq> fst b \<Longrightarrow> records_Less a b \<or> records_Less b a"
  using str_less_total [of "fst a" "fst b"] by (auto simp: records_Less_def)

lemma set_insert_record: "set (insert_record r rs) = insert r (set rs)"
  by (induction rs) auto

lemma mset_insert_record: "mset (insert_record r rs) = add_mset r (mset rs)"
  by (induction rs) auto

lemma mset_sort_records: "mset (sort_records rs) = mset rs"
  by (induction rs) (simp_all add: sort_records_def mset_insert_record)

lemma sorted_insert_record:
  "sorted_wrt records_Less rs \<Longrightarrow> fst r \<notin> fst ` set rs \<Longrightarrow> sorted_wrt records_Less (insert_record r rs)"
proof (induction rs)
  case (Cons s rs)
  show ?case
  proof (cases "records_Less s r")
    case True
    with Cons show ?thesis by (auto simp: set_insert_record)
  next
    case False
    then have "records_Less r s" using records_Less_total [of r s] Cons.prems(2) by auto
    with Cons.prems(1) False show ?thesis by (auto intro: records_Less_trans)
  qed
qed simp

lemma sorted_sort_records: "distinct (map fst rs) \<Longrightarrow> sorted_wrt records_Less (sort_records rs)"
proof (induction rs)
  case (Cons r rs)
  have "set (sort_records rs) = set rs" using mset_sort_records by (metis set_mset_mset)
  with Cons show ?case by (simp add: sort_records_def sorted_insert_record)
qed (simp add: sort_records_def)

lemma sorted_records_unique:
  "sorted_wrt records_Less xs \<Longrightarrow> sorted_wrt records_Less ys \<Longrightarrow> set xs = set ys \<Longrightarrow> xs = ys"
proof (induction xs arbitrary: ys)
  case Nil
  then show ?case by simp
next
  case (Cons x xs)
  then obtain y ys' where ys: "ys = y # ys'" by (cases ys) auto
  have irr: "\<not> records_Less a a" for a using records_Less_asym by blast
  have "x = y"
  proof (rule ccontr)
    assume "x \<noteq> y"
    with Cons.prems ys have "y \<in> set xs" "x \<in> set ys'" by auto
    with Cons.prems(1,2) ys have "records_Less x y" "records_Less y x" by auto
    then show False using records_Less_asym by blast
  qed
  moreover have "\<forall>z \<in> set xs. records_Less x z" "\<forall>z \<in> set ys'. records_Less y z" using Cons.prems(1,2) by (simp_all add: ys)
  then have "x \<notin> set xs" "y \<notin> set ys'" using irr by blast+
  then have "set xs = set ys'" using Cons.prems(3) by (simp add: ys \<open>x = y\<close> insert_ident)
  ultimately show ?case using Cons ys by simp
qed

section \<open>Properties\<close>

text \<open> C39. \<open>binCount\<close> is the least multiple of 8 that is not below the count, and 0 exactly when that does not
  fit 64 bits (or the count is 0).\<close>

theorem binCount_exact:
  "unat (binCount n) = (if unat n \<le> 2 ^ 64 - 8 then (unat n + 7) div 8 * 8 else 0)"
proof -
  have n: "unat n < 2 ^ 64" using unsigned_less [of n] by simp
  show ?thesis
  proof (cases "unat n \<le> 2 ^ 64 - 8")
    case True
    then have "unat (n + 7) = unat n + 7" by (subst unat_add_lem [THEN iffD1]) simp_all
    moreover have "(unat n + 7) div 8 * 8 < 2 ^ 64" using True by simp
    ultimately show ?thesis using True by (simp add: binCount_def unat_mult_lem [THEN iffD1] unat_div)
  next
    case False
    then have "(unat n + 7) mod 2 ^ 64 = unat n + 7 - 2 ^ 64" using n by (subst le_mod_geq) simp_all
    then have "unat (n + 7) = unat n + 7 - 2 ^ 64" by (simp add: unat_word_ariths)
    with False n have "unat (n + 7) div 8 = 0" by simp
    then show ?thesis using False by (simp add: binCount_def unat_word_ariths unat_div)
  qed
qed

text \<open> The country statistics do not depend on the order in which the map is visited: every visiting order
  gives one list of all entries, sorted by falling count and then by country code, and empties the map.\<close>

theorem CountryStats_deterministic:
  assumes "distinct (map fst cs)"
  shows "\<exists>rs. mset rs = mset (map (\<lambda>(cc, n). (cc, if binned then binCount n else n)) cs) \<and>
    sorted_wrt records_Less rs \<and>
    (\<forall>cs'. mset cs' = mset cs \<longrightarrow>
       formatAndClearCountryStats cs' binned = (join_comma (map (\<lambda>(cc, n). cc @ ''='' @ fmt_u64 n) rs), []))"
proof (intro exI conjI allI impI)
  let ?bin = "map (\<lambda>(cc, n). (cc, if binned then binCount n else n))"
  have fst: "map fst (?bin xs) = map fst xs" for xs by (induction xs) auto
  show "mset (sort_records (?bin cs)) = mset (?bin cs)" by (rule mset_sort_records)
  show sorted: "sorted_wrt records_Less (sort_records (?bin cs))"
    by (rule sorted_sort_records) (simp only: fst assms)
  fix cs' assume perm: "mset cs' = mset cs"
  then have "mset (map fst cs') = mset (map fst cs)" by simp
  then have "distinct (map fst cs')" using assms mset_eq_imp_distinct_iff by blast
  then have sorted': "sorted_wrt records_Less (sort_records (?bin cs'))"
    by (intro sorted_sort_records) (simp only: fst)
  have "mset (?bin cs') = mset (?bin cs)" using perm by simp
  then have "set (sort_records (?bin cs')) = set (sort_records (?bin cs))"
    by (intro mset_eq_setD) (simp only: mset_sort_records)
  then have "sort_records (?bin cs') = sort_records (?bin cs)"
    by (rule sorted_records_unique [OF sorted' sorted])
  then show "formatAndClearCountryStats cs' binned =
      (join_comma (map (\<lambda>(cc, n). cc @ ''='' @ fmt_u64 n) (sort_records (?bin cs))), [])"
    by (simp only: formatAndClearCountryStats_def Let_def)
qed

theorem CountryStats_deterministic_witness:
  "\<exists>rs. mset rs = mset (map (\<lambda>(cc, n). (cc, if True then binCount n else n)) [(''DE'', 3), (''AT'', 8)]) \<and>
    sorted_wrt records_Less rs \<and>
    (\<forall>cs'. mset cs' = mset [(''DE'', 3), (''AT'', 8)] \<longrightarrow>
       formatAndClearCountryStats cs' True = (join_comma (map (\<lambda>(cc, n). cc @ ''='' @ fmt_u64 n) rs), []))"
  by (rule CountryStats_deterministic) simp

text \<open>
  The set of seen addresses is shared by three kinds of keys.  A proxy of unknown type leaves the key that
  also stands for its address with an unknown NAT, so that its first poll with an unknown NAT is not counted.
\<close>

lemma nat_unknown_not_counted:
  "map_of (counters
      (UpdateProxyStats ''192.0.2.1'' ProxyUnknown NATUnknown
        (UpdateProxyStats ''192.0.2.1'' ProxyUnknown NATRestricted (NewMetrics\<lparr>geoipdb := Some (\<lambda>_. None)\<rparr>))))
    ''proxy-nat-unknown'' = None"
  by (simp add: UpdateProxyStats_def NewMetrics_def ips_LoadOrStore_def IncrementCounter_def incrementMapCounter_def
      prom_Inc_def NATRestricted_def NATUnrestricted_def NATUnknown_def ProxyUnknown_def Let_def)

end
