(* ===== verification/Broker.thy ===== *)
theory Broker
  imports Snowflake_Heap Name_Matcher Metrics
begin

text \<open>
  The broker: its context and matching goroutine (\<open>src/broker/broker.go\<close>) and the operations that the
  front ends call (\<open>src/broker/ipc.go\<close>).  The goroutines run concurrently and meet on unbuffered
  channels, so the broker is a transition system: every blocking point of an operation is a state of
  its goroutine, the code between two of them is a function, and every atomic action (one critical
  section, one rendezvous, one timer that fires) is a step.
\<close>

section \<open>Data\<close>

definition ClientTimeout :: int where "ClientTimeout = 5"
definition ProxyTimeout :: int where "ProxyTimeout = 10"

text \<open>Durations are in nanoseconds; \<open>Milliseconds\<close> truncates towards zero.\<close>

definition MaxPollInterval :: int where "MaxPollInterval = 3600 * 1000000000"

definition Milliseconds :: "int \<Rightarrow> int" where
  "Milliseconds d = (if d < 0 then - ((- d) div 1000000) else d div 1000000)"

record ProxyPoll =
  pp_id :: string
  pp_proxyType :: string
  pp_natType :: string
  pp_clients :: u64

record ClientOffer =
  co_natType :: string
  co_sdp :: string
  co_fingerprint :: string

text \<open>What an operation returns to its caller: the error and the response.\<close>

type_synonym reply = "err option \<times> string"

text \<open>The states of the goroutines.  A poll is known by its number, which stands for its channel.\<close>

datatype poll_pc =
    PP_send ProxyPollRequest ProxyPoll      \<comment> \<open>\<open>ctx.proxyPolls <- poll\<close>\<close>
  | PP_wait ProxyPollRequest ProxyPoll      \<comment> \<open>\<open><-poll.offerChannel\<close>\<close>
  | PP_done reply

datatype broker_pc =
    B_recv                                  \<comment> \<open>\<open>range ctx.proxyPolls\<close>\<close>
  | B_push nat ProxyPoll sref
  | B_register nat sref

datatype waiter_pc =
    W_select                                \<comment> \<open>the \<open>select\<close> of the goroutine of a request\<close>
  | W_deliver ClientOffer                   \<comment> \<open>\<open>request.offerChannel <- offer\<close>\<close>
  | W_remove
  | W_delete
  | W_close
  | W_end

datatype client_pc =
    C_match Arg ClientOffer                 \<comment> \<open>before the first \<open>Pop\<close> of \<open>matchSnowflake\<close>\<close>
  | C_match2 Arg ClientOffer                \<comment> \<open>before the second\<close>
  | C_send Arg ClientOffer sref             \<comment> \<open>\<open>snowflake.offerChannel <- offer\<close>\<close>
  | C_wait Arg ClientOffer sref             \<comment> \<open>the \<open>select\<close> for the answer\<close>
  | C_delete reply ClientOffer sref
  | C_done reply

datatype answer_pc =
    A_send sref string reply                \<comment> \<open>\<open>snowflake.answerChannel <- req.Answer\<close>\<close>
  | A_done reply

text \<open>\<open>crashed\<close> says that some goroutine has panicked.\<close>

record 'h BrokerContext =
  unrestrictedPool :: SnowflakePool
  restrictedPool :: SnowflakePool
  idToSnowflake :: "(string \<times> sref) list"
  metrics :: "'h Metrics"
  bridgeList :: bridgeListHolder
  allowedRelayPattern :: string
  store :: sstore
  next_ref :: sref
  broker_go :: broker_pc
  waiters :: "sref \<rightharpoonup> nat \<times> waiter_pc"
  polls :: "nat \<rightharpoonup> poll_pc"
  offers :: "nat \<rightharpoonup> client_pc"
  answers :: "nat \<rightharpoonup> answer_pc"
  recorders :: "(string \<times> bool \<times> string) list"
  crashed :: bool

definition DefaultBridges :: string where
  "DefaultBridges =
     ''{'' @ json_quote ''displayName'' @ '':'' @ json_quote ''default'' @ '', '' @
     json_quote ''webSocketAddress'' @ '':'' @ json_quote ''wss://snowflake.torproject.net/'' @ '', '' @
     json_quote ''fingerprint'' @ '':'' @ json_quote ''2B280B23E1107BB62ABFC40DDCC8824814F80A72'' @ ''}'' @ [ch 10]"

definition NewBrokerContext :: "string \<Rightarrow> 'h BrokerContext" where
  "NewBrokerContext pattern =
     \<lparr>unrestrictedPool = NewSnowflakePool, restrictedPool = NewSnowflakePool, idToSnowflake = [],
      metrics = NewMetrics, bridgeList = snd (LoadBridgeInfo NewBridgeListHolder DefaultBridges),
      allowedRelayPattern = pattern, store = (\<lambda>_. NewSnowflake [] [] [] 0), next_ref = 0,
      broker_go = B_recv, waiters = Map.empty, polls = Map.empty, offers = Map.empty,
      answers = Map.empty, recorders = [], crashed = False\<rparr>"

text \<open>\<open>GetPool\<close> returns a pointer: it selects a pool, and the caller's change is put back.\<close>

definition GetPool :: "string \<Rightarrow> 'h BrokerContext \<Rightarrow> SnowflakePool" where
  "GetPool natt ctx = (if natt = NATUnrestricted then unrestrictedPool ctx else restrictedPool ctx)"

definition put_pool :: "string \<Rightarrow> SnowflakePool \<Rightarrow> 'h BrokerContext \<Rightarrow> 'h BrokerContext" where
  "put_pool natt p ctx =
     (if natt = NATUnrestricted then ctx\<lparr>unrestrictedPool := p\<rparr> else ctx\<lparr>restrictedPool := p\<rparr>)"

definition ctx_GetBridgeInfo :: "'h BrokerContext \<Rightarrow> Fingerprint \<Rightarrow> err + BridgeInfo" where
  "ctx_GetBridgeInfo ctx fingerprint = GetBridgeInfo (bridgeList ctx) fingerprint"

definition InstallBridgeListProfile :: "string \<Rightarrow> 'h BrokerContext \<Rightarrow> err option \<times> 'h BrokerContext" where
  "InstallBridgeListProfile reader ctx =
     (case LoadBridgeInfo (bridgeList ctx) reader of
        (Some e, b) \<Rightarrow> (Some e, ctx\<lparr>bridgeList := b\<rparr>)
      | (None, b) \<Rightarrow> (None, ctx\<lparr>bridgeList := b\<rparr>))"

record pollIntervalConfig =
  UnrestrictedPollInterval :: int
  RestrictedPollInterval :: int

definition pollIntervalConfig_fields :: "pollIntervalConfig fields" where
  "pollIntervalConfig_fields =
     [(''unrestricted_poll_interval'', set_int64 (\<lambda>n r. r\<lparr>UnrestrictedPollInterval := n\<rparr>)),
      (''restricted_poll_interval'', set_int64 (\<lambda>n r. r\<lparr>RestrictedPollInterval := n\<rparr>))]"

text \<open>A product of durations wraps to 64 bits.\<close>

definition int64 :: "int \<Rightarrow> int" where
  "int64 n = sint (word_of_int n :: u64)"

definition LoadPollIntervalFromFile :: "(err + string) \<Rightarrow> 'h BrokerContext \<Rightarrow> err option \<times> 'h BrokerContext" where
  "LoadPollIntervalFromFile file ctx =
     (case file of
        Inl e \<Rightarrow> (Some e, ctx)
      | Inr str \<Rightarrow>
          (case json_Unmarshal pollIntervalConfig_fields str \<lparr>UnrestrictedPollInterval = 0, RestrictedPollInterval = 0\<rparr> of
             Inl e \<Rightarrow> (Some e, ctx)
           | Inr config \<Rightarrow>
               (None, ctx\<lparr>unrestrictedPool := SetPollInterval (unrestrictedPool ctx) (int64 (UnrestrictedPollInterval config * 1000000)),
                          restrictedPool := SetPollInterval (restrictedPool ctx) (int64 (RestrictedPollInterval config * 1000000))\<rparr>)))"

section \<open>Operations\<close>

definition upd_metrics :: "('h Metrics \<Rightarrow> 'h Metrics) \<Rightarrow> 'h BrokerContext \<Rightarrow> 'h BrokerContext" where
  "upd_metrics f ctx = ctx\<lparr>metrics := f (metrics ctx)\<rparr>"

subsection \<open>Proxy polls\<close>

definition nat_type_labels :: "ProxyPollRequest \<Rightarrow> (string \<times> string) list" where
  "nat_type_labels req = [(''nat'', NAT req), (''type'', Type req)]"

definition reply_of :: "err + string \<Rightarrow> reply" where
  "reply_of r = (case r of Inl _ \<Rightarrow> (Some ErrInternal, []) | Inr b \<Rightarrow> (None, b))"

text \<open>\<open>ProxyPolls\<close> up to \<open>RequestOffer\<close>: the reply of an early return, or the request and the poll.\<close>

definition ProxyPolls_begin ::
  "Arg \<Rightarrow> 'h BrokerContext \<Rightarrow> (reply + ProxyPollRequest \<times> ProxyPoll) \<times> 'h BrokerContext" where
  "ProxyPolls_begin arg ctx =
     (case DecodeProxyPollRequest (Body arg) of
        Inl _ \<Rightarrow> (Inl (Some ErrBadRequest, []), ctx)
      | Inr req \<Rightarrow>
          (let ctx = (if AcceptedRelayPattern req = None then
                        upd_metrics (prom_Inc ''rounded_proxy_poll_without_relay_url_extension_total'' (nat_type_labels req)
                          \<circ> IncrementCounter ''proxy-poll-without-relay-url'') ctx
                      else
                        upd_metrics (prom_Inc ''rounded_proxy_poll_with_relay_url_extension_total'' (nat_type_labels req)
                          \<circ> IncrementCounter ''proxy-poll-with-relay-url'') ctx) in
           if \<not> CheckProxyRelayPattern (allowedRelayPattern ctx) (AcceptedRelayPattern req) then
             (Inl (reply_of (ProxyPollResponse_Encode
                \<lparr>Status = ''incorrect relay pattern'', Offer = [], resp_NAT = [],
                 NextPoll = Milliseconds MaxPollInterval, RelayURL = []\<rparr>)),
              upd_metrics (prom_Inc ''rounded_proxy_poll_rejected_relay_url_extension_total'' (nat_type_labels req)
                \<circ> IncrementCounter ''proxy-poll-rejected-relay-url'') ctx)
           else
             (let ctx = upd_metrics (UpdateProxyStats (RemoteAddr arg) (Type req) (NAT req)) ctx;
                  ctx = ctx\<lparr>recorders := (RemoteAddr arg, NAT req = NATUnrestricted, Type req) # recorders ctx\<rparr>;
                  ctx = upd_metrics (prom_Inc ''available_proxies'' (nat_type_labels req)) ctx in
              (Inr (req, \<lparr>pp_id = Sid req, pp_proxyType = Type req, pp_natType = NAT req, pp_clients = Clients req\<rparr>),
               ctx))))"

text \<open>The rest of \<open>ProxyPolls\<close>, with the deferred decrement of the gauge.\<close>

definition ProxyPolls_reply ::
  "ProxyPollRequest \<Rightarrow> ProxyPoll \<Rightarrow> ClientOffer option \<Rightarrow> 'h BrokerContext \<Rightarrow> reply \<times> 'h BrokerContext" where
  "ProxyPolls_reply req poll offer ctx =
     apsnd (upd_metrics (prom_Dec ''available_proxies'' (nat_type_labels req)))
       (let interval = Milliseconds (GetPollInterval (GetPool (pp_natType poll) ctx)) in
        case offer of
          None \<Rightarrow>
            (reply_of (ProxyPollResponse_Encode
               \<lparr>Status = ProxyClientNoMatch, Offer = [], resp_NAT = [], NextPoll = interval, RelayURL = []\<rparr>),
             upd_metrics (prom_Inc ''rounded_proxy_poll_total'' (nat_type_labels req @ [(''status'', ''idle'')])
               \<circ> IncrementCounter ''proxy-idle'') ctx)
        | Some off \<Rightarrow>
            (case FingerprintFromBytes (co_fingerprint off) of
               Inl _ \<Rightarrow> (Some ErrBadRequest, [])
             | Inr bridgeFingerprint \<Rightarrow>
                 (case GetBridgeInfo (bridgeList ctx) bridgeFingerprint of
                    Inl e \<Rightarrow> (Some e, [])
                  | Inr info \<Rightarrow>
                      reply_of (ProxyPollResponse_Encode
                        \<lparr>Status = ProxyClientMatch, Offer = co_sdp off, resp_NAT = co_natType off,
                         NextPoll = interval, RelayURL = WebSocketAddress info\<rparr>)),
             upd_metrics (prom_Inc ''rounded_proxy_poll_total'' (nat_type_labels req @ [(''status'', ''matched'')])) ctx))"

text \<open>The body of the loop of \<open>Broker\<close>: a new snowflake, the push, the registration and the goroutine.\<close>

definition Broker_new :: "nat \<Rightarrow> ProxyPoll \<Rightarrow> 'h BrokerContext \<Rightarrow> 'h BrokerContext" where
  "Broker_new p poll ctx =
     (let s = next_ref ctx in
      ctx\<lparr>store := (store ctx)(s := NewSnowflake (pp_id poll) (pp_proxyType poll) (pp_natType poll) (pp_clients poll)),
          next_ref := s + 1, broker_go := B_push p poll s\<rparr>)"

definition Broker_push :: "nat \<Rightarrow> ProxyPoll \<Rightarrow> sref \<Rightarrow> 'h BrokerContext \<Rightarrow> 'h BrokerContext" where
  "Broker_push p poll s ctx =
     (case pool_Push (store ctx) (GetPool (pp_natType poll) ctx) s of
        (st, pool) \<Rightarrow> put_pool (pp_natType poll) pool (ctx\<lparr>store := st, broker_go := B_register p s\<rparr>))"

definition Broker_register :: "nat \<Rightarrow> sref \<Rightarrow> 'h BrokerContext \<Rightarrow> 'h BrokerContext" where
  "Broker_register p s ctx =
     ctx\<lparr>idToSnowflake := AList.update (sf_id (store ctx s)) s (idToSnowflake ctx),
         waiters := (waiters ctx)(s \<mapsto> (p, W_select)), broker_go := B_recv\<rparr>"

text \<open>The timeout branch of the goroutine of a request: \<open>pool.Remove\<close> and the deletion from the map.\<close>

definition waiter_remove :: "nat \<Rightarrow> sref \<Rightarrow> 'h BrokerContext \<Rightarrow> 'h BrokerContext" where
  "waiter_remove p s ctx =
     (let natt = natType (store ctx s) in
      case pool_Remove (store ctx) (GetPool natt ctx) s of
        None \<Rightarrow> ctx\<lparr>crashed := True\<rparr>
      | Some (st, pool) \<Rightarrow>
          put_pool natt pool (ctx\<lparr>store := st, waiters := (waiters ctx)(s \<mapsto> (p, W_delete))\<rparr>))"

definition delete_id :: "sref \<Rightarrow> 'h BrokerContext \<Rightarrow> 'h BrokerContext" where
  "delete_id s ctx = ctx\<lparr>idToSnowflake := AList.delete (sf_id (store ctx s)) (idToSnowflake ctx)\<rparr>"

subsection \<open>Client offers\<close>

definition sendClientResponse :: "ClientPollResponse \<Rightarrow> reply" where
  "sendClientResponse resp =
     (case ClientPollResponse_EncodePollResponse resp of
        Inl _ \<Rightarrow> (Some ErrInternal, [])
      | Inr data \<Rightarrow> (None, data))"

definition client_error :: "string \<Rightarrow> reply" where
  "client_error msg = sendClientResponse \<lparr>poll_Answer = [], poll_Error = msg\<rparr>"

text \<open>\<open>ClientOffers\<close> up to \<open>matchSnowflake\<close>; \<open>Error\<close> gives the message of an error.\<close>

definition ClientOffers_begin ::
  "(err \<Rightarrow> string) \<Rightarrow> Arg \<Rightarrow> 'h BrokerContext \<Rightarrow> reply + ClientOffer" where
  "ClientOffers_begin Error arg ctx =
     (case DecodeClientPollRequest (Body arg) of
        Inl e \<Rightarrow> Inl (client_error (Error e))
      | Inr req \<Rightarrow>
          (case hex_DecodeString (poll_Fingerprint req) of
             Inl e \<Rightarrow> Inl (client_error (Error e))
           | Inr fingerprint \<Rightarrow>
               (case FingerprintFromBytes fingerprint of
                  Inl e \<Rightarrow> Inl (client_error (Error e))
                | Inr bf \<Rightarrow>
                    (case ctx_GetBridgeInfo ctx bf of
                       Inl e \<Rightarrow> Inl (client_error (Error e))
                     | Inr _ \<Rightarrow>
                         Inr \<lparr>co_natType = poll_NAT req, co_sdp = poll_Offer req, co_fingerprint = ToBytes bf\<rparr>))))"

text \<open>The two halves of \<open>matchSnowflake\<close>, each one critical section of a pool.\<close>

definition matchSnowflake1 :: "string \<Rightarrow> 'h BrokerContext \<Rightarrow> sref option \<times> 'h BrokerContext" where
  "matchSnowflake1 natt ctx =
     (if natt = NATUnrestricted then
        (case pool_Pop (store ctx) (restrictedPool ctx) of
           (s, st, pool) \<Rightarrow> (s, ctx\<lparr>store := st, restrictedPool := pool\<rparr>))
      else (None, ctx))"

definition matchSnowflake2 :: "'h BrokerContext \<Rightarrow> sref option \<times> 'h BrokerContext" where
  "matchSnowflake2 ctx =
     (case pool_Pop (store ctx) (unrestrictedPool ctx) of
        (s, st, pool) \<Rightarrow> (s, ctx\<lparr>store := st, unrestrictedPool := pool\<rparr>))"

definition client_stats :: "Arg \<Rightarrow> ClientOffer \<Rightarrow> string \<Rightarrow> 'h BrokerContext \<Rightarrow> 'h BrokerContext" where
  "client_stats arg off status =
     upd_metrics (UpdateClientStats (RemoteAddr arg) (Rendezvous arg) (co_natType off) status)"

subsection \<open>Proxy answers\<close>

text \<open>\<open>ProxyAnswers\<close> up to the send: the reply, and the snowflake and answer to send when there is one.\<close>

definition ProxyAnswers_begin ::
  "Arg \<Rightarrow> 'h BrokerContext \<Rightarrow> (reply \<times> (sref \<times> string) option) \<times> 'h BrokerContext" where
  "ProxyAnswers_begin arg ctx =
     (case DecodeProxyAnswerRequest (Body arg) of
        Inl _ \<Rightarrow> (((Some ErrBadRequest, []), None), ctx)
      | Inr req \<Rightarrow>
          if Answer req = [] then (((Some ErrBadRequest, []), None), ctx)
          else
            (let sn = map_of (idToSnowflake ctx) (ans_Sid req); success = (sn \<noteq> None);
                 ctx = (if success then ctx
                        else upd_metrics (prom_Inc ''rounded_proxy_answer_total'' [(''type'', []), (''status'', ''timeout'')]) ctx) in
             case EncodeAnswerResponse success of
               Inl _ \<Rightarrow> (((Some ErrInternal, []), None), ctx)
             | Inr b \<Rightarrow>
                 (case sn of
                    None \<Rightarrow> (((None, b), None), ctx)
                  | Some s \<Rightarrow>
                      (((None, b), Some (s, Answer req)),
                       upd_metrics (prom_Inc ''rounded_proxy_answer_total''
                         [(''type'', proxyType (store ctx s)), (''status'', ''success'')]) ctx))))"

subsection \<open>Debug\<close>

text \<open>
  \<open>Debug\<close> counts the registered snowflakes; \<open>order\<close> is the order in which \<open>range\<close> visits the map of
  counts by proxy type, which has an entry for every known type that occurs.
\<close>

definition Debug :: "string list \<Rightarrow> 'h BrokerContext \<Rightarrow> string" where
  "Debug order ctx =
     (let sfs = map (store ctx \<circ> snd) (idToSnowflake ctx);
          num = (\<lambda>P. dec (length (filter P sfs)));
          known = (\<lambda>s. proxyType s \<in> set KnownProxyTypes) in
      ''current snowflakes available: '' @ dec (length (idToSnowflake ctx)) @ [ch 10] @
      concat (map (\<lambda>t. if \<exists>s \<in> set sfs. known s \<and> proxyType s = t
                       then [ch 9] @ t @ '' proxies: '' @ num (\<lambda>s. proxyType s = t) @ [ch 10] else []) order) @
      [ch 9] @ ''unknown proxies: '' @ num (\<lambda>s. \<not> known s) @ [ch 10] @ ''NAT Types available:'' @
      [ch 10, ch 9] @ ''restricted: '' @ num (\<lambda>s. natType s = NATRestricted) @
      [ch 10, ch 9] @ ''unrestricted: '' @ num (\<lambda>s. natType s = NATUnrestricted) @
      [ch 10, ch 9] @ ''unknown: '' @ num (\<lambda>s. natType s \<noteq> NATRestricted \<and> natType s \<noteq> NATUnrestricted))"

section \<open>The transition system\<close>

text \<open>
  \<open>Error\<close> gives error messages and \<open>add\<close> is the journal's \<open>AddIPToSet\<close>.  Timers fire at any time: the
  system has every behaviour that some timing of the goroutines gives.
\<close>

inductive step ::
  "(err \<Rightarrow> string) \<Rightarrow> ('h ClusterWriter \<Rightarrow> string \<Rightarrow> string \<Rightarrow> 'h ClusterWriter option) \<Rightarrow>
   'h BrokerContext \<Rightarrow> 'h BrokerContext \<Rightarrow> bool"
  for Error add where
  poll_early:
  "\<lbrakk>p \<notin> dom (polls ctx); ProxyPolls_begin arg ctx = (Inl r, ctx')\<rbrakk> \<Longrightarrow>
   step Error add ctx (ctx'\<lparr>polls := (polls ctx')(p \<mapsto> PP_done r)\<rparr>)"
| poll_start:
  "\<lbrakk>p \<notin> dom (polls ctx); ProxyPolls_begin arg ctx = (Inr (req, poll), ctx')\<rbrakk> \<Longrightarrow>
   step Error add ctx (ctx'\<lparr>polls := (polls ctx')(p \<mapsto> PP_send req poll)\<rparr>)"
| broker_receive:
  "\<lbrakk>broker_go ctx = B_recv; polls ctx p = Some (PP_send req poll)\<rbrakk> \<Longrightarrow>
   step Error add ctx (Broker_new p poll (ctx\<lparr>polls := (polls ctx)(p \<mapsto> PP_wait req poll)\<rparr>))"
| broker_push:
  "broker_go ctx = B_push p poll s \<Longrightarrow> step Error add ctx (Broker_push p poll s ctx)"
| broker_register:
  "broker_go ctx = B_register p s \<Longrightarrow> step Error add ctx (Broker_register p s ctx)"
| waiter_timeout:
  "waiters ctx s = Some (p, W_select) \<Longrightarrow>
   step Error add ctx (ctx\<lparr>waiters := (waiters ctx)(s \<mapsto> (p, W_remove))\<rparr>)"
| waiter_removes:
  "waiters ctx s = Some (p, W_remove) \<Longrightarrow> step Error add ctx (waiter_remove p s ctx)"
| waiter_deletes:
  "waiters ctx s = Some (p, W_delete) \<Longrightarrow>
   step Error add ctx ((delete_id s ctx)\<lparr>waiters := (waiters ctx)(s \<mapsto> (p, W_close))\<rparr>)"
| waiter_closes:
  "\<lbrakk>waiters ctx s = Some (p, W_close); polls ctx p = Some (PP_wait req poll);
    ProxyPolls_reply req poll None ctx = (r, ctx')\<rbrakk> \<Longrightarrow>
   step Error add ctx (ctx'\<lparr>waiters := (waiters ctx')(s \<mapsto> (p, W_end)), polls := (polls ctx')(p \<mapsto> PP_done r)\<rparr>)"
| waiter_delivers:
  "\<lbrakk>waiters ctx s = Some (p, W_deliver off); polls ctx p = Some (PP_wait req poll);
    ProxyPolls_reply req poll (Some off) ctx = (r, ctx')\<rbrakk> \<Longrightarrow>
   step Error add ctx (ctx'\<lparr>waiters := (waiters ctx')(s \<mapsto> (p, W_end)), polls := (polls ctx')(p \<mapsto> PP_done r)\<rparr>)"
| client_early:
  "\<lbrakk>c \<notin> dom (offers ctx); ClientOffers_begin Error arg ctx = Inl r\<rbrakk> \<Longrightarrow>
   step Error add ctx (ctx\<lparr>offers := (offers ctx)(c \<mapsto> C_done r)\<rparr>)"
| client_start:
  "\<lbrakk>c \<notin> dom (offers ctx); ClientOffers_begin Error arg ctx = Inr off\<rbrakk> \<Longrightarrow>
   step Error add ctx (ctx\<lparr>offers := (offers ctx)(c \<mapsto> C_match arg off)\<rparr>)"
| client_match:
  "\<lbrakk>offers ctx c = Some (C_match arg off); matchSnowflake1 (co_natType off) ctx = (r, ctx')\<rbrakk> \<Longrightarrow>
   step Error add ctx (ctx'\<lparr>offers := (offers ctx')(c \<mapsto>
     (case r of Some s \<Rightarrow> C_send arg off s | None \<Rightarrow> C_match2 arg off))\<rparr>)"
| client_match2:
  "\<lbrakk>offers ctx c = Some (C_match2 arg off); matchSnowflake2 ctx = (Some s, ctx')\<rbrakk> \<Longrightarrow>
   step Error add ctx (ctx'\<lparr>offers := (offers ctx')(c \<mapsto> C_send arg off s)\<rparr>)"
| client_denied:
  "\<lbrakk>offers ctx c = Some (C_match2 arg off); matchSnowflake2 ctx = (None, ctx')\<rbrakk> \<Longrightarrow>
   step Error add ctx ((client_stats arg off ''denied'' ctx')\<lparr>offers :=
     (offers ctx')(c \<mapsto> C_done (client_error StrNoProxies))\<rparr>)"
| client_sends:
  "\<lbrakk>offers ctx c = Some (C_send arg off s); waiters ctx s = Some (p, W_select)\<rbrakk> \<Longrightarrow>
   step Error add ctx (ctx\<lparr>offers := (offers ctx)(c \<mapsto> C_wait arg off s),
     waiters := (waiters ctx)(s \<mapsto> (p, W_deliver off))\<rparr>)"
| client_answered:
  "\<lbrakk>offers ctx c = Some (C_wait arg off s); answers ctx a = Some (A_send s answer r)\<rbrakk> \<Longrightarrow>
   step Error add ctx ((client_stats arg off ''matched'' ctx)\<lparr>
     offers := (offers ctx)(c \<mapsto> C_delete (sendClientResponse \<lparr>poll_Answer = answer, poll_Error = []\<rparr>) off s),
     answers := (answers ctx)(a \<mapsto> A_done r)\<rparr>)"
| client_timeout:
  "offers ctx c = Some (C_wait arg off s) \<Longrightarrow>
   step Error add ctx ((client_stats arg off ''timeout'' ctx)\<lparr>
     offers := (offers ctx)(c \<mapsto> C_delete (client_error StrTimedOut) off s)\<rparr>)"
| client_deletes:
  "offers ctx c = Some (C_delete r off s) \<Longrightarrow>
   step Error add ctx ((delete_id s ctx)\<lparr>offers := (offers ctx)(c \<mapsto> C_done r)\<rparr>)"
| answer_early:
  "\<lbrakk>a \<notin> dom (answers ctx); ProxyAnswers_begin arg ctx = ((r, None), ctx')\<rbrakk> \<Longrightarrow>
   step Error add ctx (ctx'\<lparr>answers := (answers ctx')(a \<mapsto> A_done r)\<rparr>)"
| answer_start:
  "\<lbrakk>a \<notin> dom (answers ctx); ProxyAnswers_begin arg ctx = ((r, Some (s, answer)), ctx')\<rbrakk> \<Longrightarrow>
   step Error add ctx (ctx'\<lparr>answers := (answers ctx')(a \<mapsto> A_send s answer r)\<rparr>)"
| record_ip:
  "\<lbrakk>recorders ctx = xs @ (ip, restricted, ptype) # ys;
    RecordIPAddress add ip restricted ptype (metrics ctx) = Some m\<rbrakk> \<Longrightarrow>
   step Error add ctx (ctx\<lparr>recorders := xs @ ys, metrics := m\<rparr>)"
| install_bridges:
  "InstallBridgeListProfile reader ctx = (e, ctx') \<Longrightarrow> step Error add ctx ctx'"
| load_intervals:
  "LoadPollIntervalFromFile file ctx = (e, ctx') \<Longrightarrow> step Error add ctx ctx'"

inductive reachable ::
  "(err \<Rightarrow> string) \<Rightarrow> ('h ClusterWriter \<Rightarrow> string \<Rightarrow> string \<Rightarrow> 'h ClusterWriter option) \<Rightarrow> string \<Rightarrow>
   'h BrokerContext \<Rightarrow> bool"
  for Error add pattern where
  start: "reachable Error add pattern (NewBrokerContext pattern)"
| move: "reachable Error add pattern ctx \<Longrightarrow> step Error add ctx ctx' \<Longrightarrow> reachable Error add pattern ctx'"

section \<open>Invariant\<close>

text \<open>The snowflake that a client has been given, and its offer.\<close>

fun holds :: "client_pc \<Rightarrow> (sref \<times> ClientOffer) option" where
  "holds (C_send arg off s) = Some (s, off)"
| "holds (C_wait arg off s) = Some (s, off)"
| "holds (C_delete r off s) = Some (s, off)"
| "holds _ = None"

definition held :: "'h BrokerContext \<Rightarrow> nat \<Rightarrow> (sref \<times> ClientOffer) option" where
  "held ctx c = Option.bind (offers ctx c) holds"

definition own_pool :: "'h BrokerContext \<Rightarrow> sref \<Rightarrow> sref set" where
  "own_pool ctx s = set (pool_h (GetPool (natType (store ctx s)) ctx))"

text \<open>
  The pools are well formed and hold only snowflakes of their NAT type; a snowflake that has been given to
  a client has left its pool, belongs to that client alone, and is open to it; a waiting goroutine finds
  its snowflake in its pool, or taken out of it; the broker's own snowflake is still its own.
\<close>

definition broker_inv :: "'h BrokerContext \<Rightarrow> bool" where
  "broker_inv ctx \<longleftrightarrow>
     pool_wf (store ctx) (unrestrictedPool ctx) \<and> pool_wf (store ctx) (restrictedPool ctx) \<and>
     (\<forall>s \<in> set (pool_h (unrestrictedPool ctx)). s < next_ref ctx \<and> natType (store ctx s) = NATUnrestricted) \<and>
     (\<forall>s \<in> set (pool_h (restrictedPool ctx)). s < next_ref ctx \<and> natType (store ctx s) \<noteq> NATUnrestricted) \<and>
     (\<forall>c s off. held ctx c = Some (s, off) \<longrightarrow>
        s < next_ref ctx \<and> s \<notin> own_pool ctx s \<and> index (store ctx s) = -1 \<and>
        (co_natType off \<noteq> NATUnrestricted \<longrightarrow> natType (store ctx s) = NATUnrestricted)) \<and>
     (\<forall>c c' s off off'. held ctx c = Some (s, off) \<longrightarrow> held ctx c' = Some (s, off') \<longrightarrow> c = c') \<and>
     (\<forall>s p pc. waiters ctx s = Some (p, pc) \<longrightarrow> s < next_ref ctx \<and> (s \<in> own_pool ctx s \<or> index (store ctx s) = -1)) \<and>
     (case broker_go ctx of
        B_recv \<Rightarrow> True
      | B_push p poll s \<Rightarrow>
          s < next_ref ctx \<and> s \<notin> own_pool ctx s \<and> waiters ctx s = None \<and> (\<forall>c off. held ctx c \<noteq> Some (s, off)) \<and>
          natType (store ctx s) = pp_natType poll
      | B_register p s \<Rightarrow>
          s < next_ref ctx \<and> waiters ctx s = None \<and> (s \<in> own_pool ctx s \<or> index (store ctx s) = -1)) \<and>
     \<not> crashed ctx"

section \<open>Lemmas\<close>

subsection \<open>What the invariant looks at\<close>

definition core :: "'h BrokerContext \<Rightarrow> _" where
  "core ctx = (pool_h (unrestrictedPool ctx), pool_h (restrictedPool ctx), store ctx, next_ref ctx, broker_go ctx,
     waiters ctx, held ctx, crashed ctx)"

lemma pool_wf_h: "pool_h a = pool_h b \<Longrightarrow> pool_wf st a = pool_wf st b"
  by (simp add: pool_wf_def)

lemma broker_inv_core:
  assumes "core ctx' = core ctx" "broker_inv ctx"
  shows "broker_inv ctx'"
proof -
  have e: "pool_h (unrestrictedPool ctx') = pool_h (unrestrictedPool ctx)"
      "pool_h (restrictedPool ctx') = pool_h (restrictedPool ctx)" "store ctx' = store ctx" "next_ref ctx' = next_ref ctx"
      "broker_go ctx' = broker_go ctx" "waiters ctx' = waiters ctx" "held ctx' = held ctx" "crashed ctx' = crashed ctx"
    using assms(1) by (simp_all add: core_def)
  have o: "own_pool ctx' = own_pool ctx" by (rule ext) (simp add: own_pool_def GetPool_def e)
  have "broker_inv ctx' = broker_inv ctx"
    unfolding broker_inv_def by (simp only: e pool_wf_h [OF e(1)] pool_wf_h [OF e(2)] o)
  then show ?thesis using assms(2) by (rule iffD2)
qed

lemma held_upd [simp]:
  "held (ctx\<lparr>offers := (offers ctx)(c \<mapsto> pc)\<rparr>) = (held ctx)(c := holds pc)"
  "held (ctx\<lparr>polls := x\<rparr>) = held ctx" "held (ctx\<lparr>waiters := w\<rparr>) = held ctx"
  "held (ctx\<lparr>metrics := m\<rparr>) = held ctx" "held (ctx\<lparr>answers := y\<rparr>) = held ctx"
  "held (ctx\<lparr>recorders := z\<rparr>) = held ctx" "held (ctx\<lparr>idToSnowflake := v\<rparr>) = held ctx"
  "held (ctx\<lparr>bridgeList := b\<rparr>) = held ctx" "held (ctx\<lparr>unrestrictedPool := q\<rparr>) = held ctx"
  "held (ctx\<lparr>restrictedPool := q\<rparr>) = held ctx" "held (ctx\<lparr>store := t\<rparr>) = held ctx"
  "held (ctx\<lparr>next_ref := n\<rparr>) = held ctx" "held (ctx\<lparr>broker_go := g\<rparr>) = held ctx"
  by (auto simp: held_def)

lemma own_pool_upd [simp]:
  "own_pool (ctx\<lparr>offers := x\<rparr>) = own_pool ctx" "own_pool (ctx\<lparr>waiters := w\<rparr>) = own_pool ctx"
  "own_pool (ctx\<lparr>broker_go := g\<rparr>) = own_pool ctx"
  by (simp_all add: own_pool_def GetPool_def fun_eq_iff)

lemma upd_metrics_core: "core (upd_metrics f ctx) = core ctx" "polls (upd_metrics f ctx) = polls ctx"
  "offers (upd_metrics f ctx) = offers ctx" "waiters (upd_metrics f ctx) = waiters ctx"
  "answers (upd_metrics f ctx) = answers ctx"
  by (simp_all add: upd_metrics_def core_def)

lemma core_upd_other [simp]:
  "core (ctx\<lparr>polls := x\<rparr>) = core ctx" "core (ctx\<lparr>answers := y\<rparr>) = core ctx" "core (ctx\<lparr>recorders := z\<rparr>) = core ctx"
  "core (ctx\<lparr>metrics := m\<rparr>) = core ctx" "core (ctx\<lparr>idToSnowflake := v\<rparr>) = core ctx" "core (ctx\<lparr>bridgeList := b\<rparr>) = core ctx"
  by (simp_all add: core_def)

lemma ProxyPolls_begin_core: "ProxyPolls_begin arg ctx = (r, ctx') \<Longrightarrow> core ctx' = core ctx"
  by (auto simp: ProxyPolls_begin_def Let_def upd_metrics_core split: sum.splits if_splits)

lemma ProxyPolls_reply_core:
  "ProxyPolls_reply req poll off ctx = (r, ctx') \<Longrightarrow> core ctx' = core ctx \<and> waiters ctx' = waiters ctx"
  by (auto simp: ProxyPolls_reply_def Let_def upd_metrics_core split: option.splits)

lemma ProxyAnswers_begin_core: "ProxyAnswers_begin arg ctx = (r, ctx') \<Longrightarrow> core ctx' = core ctx"
  by (auto simp: ProxyAnswers_begin_def Let_def upd_metrics_core split: sum.splits if_splits option.splits)

lemma InstallBridges_core: "InstallBridgeListProfile reader ctx = (e, ctx') \<Longrightarrow> core ctx' = core ctx"
  by (auto simp: InstallBridgeListProfile_def split: prod.splits option.splits)

lemma LoadPollInterval_core: "LoadPollIntervalFromFile file ctx = (e, ctx') \<Longrightarrow> core ctx' = core ctx"
  by (auto simp: LoadPollIntervalFromFile_def core_def SetPollInterval_def split: sum.splits)

lemma core_cong_waiters: "core a = core b \<Longrightarrow> core (a\<lparr>waiters := w\<rparr>) = core (b\<lparr>waiters := w\<rparr>)"
  by (simp add: core_def)

subsection \<open>The parts of the invariant\<close>

lemma inv_pools:
  assumes "broker_inv ctx"
  shows "pool_wf (store ctx) (unrestrictedPool ctx)" "pool_wf (store ctx) (restrictedPool ctx)"
    "s \<in> set (pool_h (unrestrictedPool ctx)) \<Longrightarrow> s < next_ref ctx \<and> natType (store ctx s) = NATUnrestricted"
    "s \<in> set (pool_h (restrictedPool ctx)) \<Longrightarrow> s < next_ref ctx \<and> natType (store ctx s) \<noteq> NATUnrestricted"
  using assms by (simp_all add: broker_inv_def)

lemma inv_held:
  assumes "broker_inv ctx" "held ctx c = Some (s, off)"
  shows "s < next_ref ctx" "s \<notin> own_pool ctx s" "index (store ctx s) = -1"
    "co_natType off \<noteq> NATUnrestricted \<Longrightarrow> natType (store ctx s) = NATUnrestricted"
    "held ctx c' = Some (s, off') \<Longrightarrow> c' = c"
  using assms unfolding broker_inv_def by blast+

lemma inv_waiter:
  assumes "broker_inv ctx" "waiters ctx s = Some (p, pc)"
  shows "s < next_ref ctx" "s \<in> own_pool ctx s \<or> index (store ctx s) = -1"
  using assms unfolding broker_inv_def by blast+

lemma inv_push:
  assumes "broker_inv ctx" "broker_go ctx = B_push p poll s"
  shows "s < next_ref ctx" "s \<notin> own_pool ctx s" "waiters ctx s = None" "held ctx c \<noteq> Some (s, off)"
    "natType (store ctx s) = pp_natType poll"
  using assms unfolding broker_inv_def by auto

lemma inv_register:
  assumes "broker_inv ctx" "broker_go ctx = B_register p s"
  shows "s < next_ref ctx" "waiters ctx s = None" "s \<in> own_pool ctx s \<or> index (store ctx s) = -1"
  using assms unfolding broker_inv_def by auto

lemma inv_alive: "broker_inv ctx \<Longrightarrow> \<not> crashed ctx"
  by (simp add: broker_inv_def)

text \<open>A snowflake in some pool is in its own.\<close>

lemma in_pool_own:
  assumes "broker_inv ctx" "s \<in> set (pool_h (unrestrictedPool ctx)) \<union> set (pool_h (restrictedPool ctx))"
  shows "s \<in> own_pool ctx s"
  using assms inv_pools(3,4) [OF assms(1)] by (auto simp: own_pool_def GetPool_def)

lemma broker_invI:
  assumes "pool_wf (store ctx) (unrestrictedPool ctx)" "pool_wf (store ctx) (restrictedPool ctx)"
    and "\<And>s. s \<in> set (pool_h (unrestrictedPool ctx)) \<Longrightarrow> s < next_ref ctx \<and> natType (store ctx s) = NATUnrestricted"
    and "\<And>s. s \<in> set (pool_h (restrictedPool ctx)) \<Longrightarrow> s < next_ref ctx \<and> natType (store ctx s) \<noteq> NATUnrestricted"
    and "\<And>c s off. held ctx c = Some (s, off) \<Longrightarrow> s < next_ref ctx \<and> s \<notin> own_pool ctx s \<and> index (store ctx s) = -1 \<and>
        (co_natType off \<noteq> NATUnrestricted \<longrightarrow> natType (store ctx s) = NATUnrestricted)"
    and "\<And>c c' s off off'. held ctx c = Some (s, off) \<Longrightarrow> held ctx c' = Some (s, off') \<Longrightarrow> c = c'"
    and "\<And>s p pc. waiters ctx s = Some (p, pc) \<Longrightarrow> s < next_ref ctx \<and> (s \<in> own_pool ctx s \<or> index (store ctx s) = -1)"
    and "\<And>p poll s. broker_go ctx = B_push p poll s \<Longrightarrow>
          s < next_ref ctx \<and> s \<notin> own_pool ctx s \<and> waiters ctx s = None \<and> (\<forall>c off. held ctx c \<noteq> Some (s, off)) \<and>
          natType (store ctx s) = pp_natType poll"
    and "\<And>p s. broker_go ctx = B_register p s \<Longrightarrow>
          s < next_ref ctx \<and> waiters ctx s = None \<and> (s \<in> own_pool ctx s \<or> index (store ctx s) = -1)"
    and "\<not> crashed ctx"
  shows "broker_inv ctx"
  unfolding broker_inv_def
  using assms(8,9)
  by (intro conjI allI impI ballI assms) (auto split: broker_pc.splits)

text \<open>Changes of the waiting goroutines and of the clients alone.\<close>

lemma inv_upd_waiters:
  assumes inv: "broker_inv ctx" and w: "waiters ctx s = Some (p, pc)"
  shows "broker_inv (ctx\<lparr>waiters := (waiters ctx)(s \<mapsto> (p', pc'))\<rparr>)" (is "broker_inv ?c")
proof -
  show ?thesis
  proof (rule broker_invI, goal_cases)
    case (7 t q qc)
    then show ?case using inv_waiter [OF inv, of t] w inv_waiter [OF inv w] by (auto split: if_splits)
  next
    case (8 q poll t)
    with inv_push [OF inv, of q poll t] w show ?case by auto
  next
    case (9 q t)
    with inv_register [OF inv, of q t] w show ?case by auto
  qed (use inv_pools [OF inv] inv_held [OF inv] inv_alive [OF inv] in simp_all)
qed

lemma inv_upd_held:
  assumes inv: "broker_inv ctx" and pc: "\<And>s off. holds pc = Some (s, off) \<Longrightarrow> held ctx c = Some (s, off)"
  shows "broker_inv (ctx\<lparr>offers := (offers ctx)(c \<mapsto> pc)\<rparr>)" (is "broker_inv ?c")
proof -
  have h: "held ctx c' = Some (s, off)" if "held ?c c' = Some (s, off)" for c' s off
    using pc that by (cases "c' = c") auto
  show ?thesis
  proof (rule broker_invI, goal_cases)
    case (5 c1 s off)
    from inv_held(1-4) [OF inv h [OF 5]] show ?case by simp
  next
    case (6 c1 c2 s off off')
    show ?case using inv_held(5) [OF inv h [OF 6(2)] h [OF 6(1)]] .
  next
    case (8 q poll t)
    then have b: "broker_go ctx = B_push q poll t" by simp
    have "held ?c c' \<noteq> Some (t, off)" for c' off using h inv_push(4) [OF inv b] by blast
    with inv_push [OF inv b] show ?case by (simp del: held_upd)
  qed (use inv_pools [OF inv] inv_waiter [OF inv] inv_register [OF inv] inv_alive [OF inv] in simp_all)
qed

lemma inv_idle: "broker_inv ctx \<Longrightarrow> broker_inv (ctx\<lparr>broker_go := B_recv\<rparr>)"
proof (rule broker_invI, goal_cases)
  case (5 c s off)
  then show ?case using inv_held(1-4) [of ctx c s off] by simp
next
  case (7 s p pc)
  then show ?case using inv_waiter [of ctx s p pc] by simp
qed (auto dest: inv_pools inv_held(5) inv_alive)

lemma inv_set_register:
  assumes inv: "broker_inv ctx" and s: "s < next_ref ctx" "waiters ctx s = None" "s \<in> own_pool ctx s"
  shows "broker_inv (ctx\<lparr>broker_go := B_register p s\<rparr>)"
proof (rule broker_invI, goal_cases)
  case (5 c s off)
  then show ?case using inv_held(1-4) [OF inv, of c s off] by simp
next
  case (7 s p pc)
  then show ?case using inv_waiter [OF inv, of s p pc] by simp
next
  case (9 q t)
  then show ?case using s by simp
qed (use inv in \<open>auto dest: inv_pools inv_held(5) inv_alive\<close>)

subsection \<open>Operations on a pool\<close>

lemma same_but_index_fields:
  assumes "same_but_index P st st'"
  shows "natType (st' x) = natType (st x)" "sf_id (st' x) = sf_id (st x)"
proof -
  obtain k where "st' x = (st x)\<lparr>index := k\<rparr>" using assms by (auto simp: same_but_index_def)
  then show "natType (st' x) = natType (st x)" "sf_id (st' x) = sf_id (st x)" by simp_all
qed

definition of_kind :: "'h BrokerContext \<Rightarrow> string \<Rightarrow> sref set" where
  "of_kind ctx natt = {s. s < next_ref ctx \<and> (natType (store ctx s) = NATUnrestricted \<longleftrightarrow> natt = NATUnrestricted)}"

lemma pool_of_kind: "broker_inv ctx \<Longrightarrow> set (pool_h (GetPool natt ctx)) \<subseteq> of_kind ctx natt"
  by (auto simp: GetPool_def of_kind_def dest: inv_pools(3,4))

text \<open>
  A change of one pool that touches only the snowflakes \<open>P\<close>, none of which a client holds or the broker
  is about to push, and after which each of them is in the pool or out with index \<open>-1\<close>.
\<close>

lemma inv_pool_change:
  assumes inv: "broker_inv ctx" and P: "P \<subseteq> of_kind ctx natt" "set (pool_h (GetPool natt ctx)) \<subseteq> P"
    and new: "pool_wf st sp" "set (pool_h sp) \<subseteq> P" "same_but_index P (store ctx) st"
    and out: "\<And>x. x \<in> P \<Longrightarrow> x \<in> set (pool_h sp) \<or> index (st x) = -1"
    and free: "\<And>c s off. held ctx c = Some (s, off) \<Longrightarrow> s \<notin> P" "\<And>p poll s. broker_go ctx = B_push p poll s \<Longrightarrow> s \<notin> P"
  shows "broker_inv (put_pool natt sp (ctx\<lparr>store := st\<rparr>))" (is "broker_inv ?c")
proof -
  have nat: "natType (st x) = natType (store ctx x)" for x
    using same_but_index_fields [OF new(3)] by simp
  have same: "st x = store ctx x" if "x \<notin> P" for x using new(3) that by (simp add: same_but_index_def)
  let ?u = "unrestrictedPool ?c" and ?r = "restrictedPool ?c"
  have f: "store ?c = st" "next_ref ?c = next_ref ctx" "waiters ?c = waiters ctx" "held ?c = held ctx"
      "broker_go ?c = broker_go ctx" "crashed ?c = crashed ctx"
    by (simp_all add: put_pool_def)
  have kind: "x \<in> P \<Longrightarrow> x < next_ref ctx \<and> (natType (store ctx x) = NATUnrestricted \<longleftrightarrow> natt = NATUnrestricted)" for x
    using P(1) by (auto simp: of_kind_def)
  have own: "own_pool ?c x = (if natType (store ctx x) = NATUnrestricted \<longleftrightarrow> natt = NATUnrestricted
      then set (pool_h sp) else own_pool ctx x)" for x
    by (simp add: own_pool_def GetPool_def put_pool_def nat)
  have own': "x \<in> own_pool ?c x \<Longrightarrow> x \<notin> P \<Longrightarrow> x \<in> own_pool ctx x" for x using own [of x] new(2) by (auto split: if_splits)
  have keep: "x \<in> own_pool ctx x \<Longrightarrow> x \<notin> P \<Longrightarrow> x \<in> own_pool ?c x" for x
    using own [of x] P(2) by (auto simp: own_pool_def GetPool_def split: if_splits)
  have in_own: "x \<in> P \<Longrightarrow> x \<in> own_pool ?c x \<or> index (st x) = -1" for x using own [of x] kind [of x] out [of x] by auto
  have other: "pool_wf st q" if "pool_wf (store ctx) q" "\<And>x. x \<in> set (pool_h q) \<Longrightarrow> x \<notin> P" for q
    by (rule pool_wf_cong [OF that(1)]) (rule same [OF that(2)])
  have wait: "x < next_ref ctx \<and> (x \<in> own_pool ?c x \<or> index (st x) = -1)"
    if "x < next_ref ctx" "x \<in> own_pool ctx x \<or> index (store ctx x) = -1" for x
    using that keep [of x] in_own [of x] same [of x] by (cases "x \<in> P") auto
  have u: "pool_wf st (unrestrictedPool ?c)"
  proof (cases "natt = NATUnrestricted")
    case True
    then show ?thesis using new(1) by (simp add: put_pool_def)
  next
    case False
    have "x \<notin> P" if "x \<in> set (pool_h (unrestrictedPool ctx))" for x
      using inv_pools(3) [OF inv that] kind [of x] False by blast
    from other [OF inv_pools(1) [OF inv] this] False show ?thesis by (simp add: put_pool_def)
  qed
  have r: "pool_wf st (restrictedPool ?c)"
  proof (cases "natt = NATUnrestricted")
    case False
    then show ?thesis using new(1) by (simp add: put_pool_def)
  next
    case True
    have "x \<notin> P" if "x \<in> set (pool_h (restrictedPool ctx))" for x
      using inv_pools(4) [OF inv that] kind [of x] True by blast
    from other [OF inv_pools(2) [OF inv] this] True show ?thesis by (simp add: put_pool_def)
  qed
  show ?thesis
  proof (rule broker_invI, goal_cases)
    case 1
    show ?case using u by (simp only: f)
  next
    case 2
    show ?case using r by (simp only: f)
  next
    case (3 x)
    then show ?case using inv_pools(3) [OF inv, of x] new(2) kind [of x]
      by (cases "natt = NATUnrestricted") (auto simp: put_pool_def nat)
  next
    case (4 x)
    then show ?case using inv_pools(4) [OF inv, of x] new(2) kind [of x]
      by (cases "natt = NATUnrestricted") (auto simp: put_pool_def nat)
  next
    case (5 c x off)
    then have h: "held ctx c = Some (x, off)" by (simp add: f)
    show ?case using inv_held(1-4) [OF inv h] free(1) [OF h] same [of x] own' [of x] by (auto simp: f nat)
  next
    case (6 c c' x off off')
    then show ?case using inv_held(5) [OF inv] by (simp add: f)
  next
    case (7 x p pc)
    then show ?case using inv_waiter [OF inv, of x p pc] wait [of x] by (simp add: f)
  next
    case (8 p poll x)
    then have b: "broker_go ctx = B_push p poll x" by (simp add: f)
    show ?case using inv_push [OF inv b] free(2) [OF b] own' [of x] by (auto simp: f nat)
  next
    case (9 p x)
    then show ?case using inv_register [OF inv, of p x] wait [of x] by (simp add: f)
  next
    case 10
    then show ?case using inv_alive [OF inv] by (simp add: f)
  qed
qed

lemma put_pool_fields [simp]:
  "store (put_pool natt q ctx) = store ctx" "next_ref (put_pool natt q ctx) = next_ref ctx"
  "waiters (put_pool natt q ctx) = waiters ctx" "held (put_pool natt q ctx) = held ctx"
  "broker_go (put_pool natt q ctx) = broker_go ctx" "crashed (put_pool natt q ctx) = crashed ctx"
  "offers (put_pool natt q ctx) = offers ctx" "polls (put_pool natt q ctx) = polls ctx"
  "bridgeList (put_pool natt q ctx) = bridgeList ctx"
  by (simp_all add: put_pool_def)

lemma held_not_in_pool:
  assumes "broker_inv ctx" "held ctx c = Some (s, off)"
  shows "s \<notin> set (pool_h (GetPool natt ctx))"
  using in_pool_own [OF assms(1), of s] inv_held(2) [OF assms] by (auto simp: GetPool_def)

lemma push_not_in_pool:
  assumes "broker_inv ctx" "broker_go ctx = B_push p poll s"
  shows "s \<notin> set (pool_h (GetPool natt ctx))"
  using in_pool_own [OF assms(1), of s] inv_push(2) [OF assms] by (auto simp: GetPool_def)

lemma inv_broker_push:
  assumes inv: "broker_inv ctx" and b: "broker_go ctx = B_push p poll s"
  shows "broker_inv (Broker_push p poll s ctx)"
proof -
  let ?n = "pp_natType poll" and ?P = "insert s (set (pool_h (GetPool (pp_natType poll) ctx)))"
  obtain st sp where push: "pool_Push (store ctx) (GetPool ?n ctx) s = (st, sp)" by force
  have wf: "pool_wf (store ctx) (GetPool ?n ctx)" using inv_pools(1,2) [OF inv] by (simp add: GetPool_def)
  note spec = pool_Push_spec [OF wf push_not_in_pool [OF inv b] push]
  have set: "set (pool_h sp) = ?P" using spec(2) by (metis set_mset_add_mset_insert set_mset_mset)
  let ?c = "put_pool ?n sp ((ctx\<lparr>broker_go := B_recv\<rparr>)\<lparr>store := st\<rparr>)"
  have "broker_inv ?c"
  proof (rule inv_pool_change [where P = ?P])
    show "broker_inv (ctx\<lparr>broker_go := B_recv\<rparr>)" using inv by (rule inv_idle)
    show "?P \<subseteq> of_kind (ctx\<lparr>broker_go := B_recv\<rparr>) ?n"
      using pool_of_kind [OF inv, of ?n] inv_push [OF inv b] by (auto simp: of_kind_def)
    show "held (ctx\<lparr>broker_go := B_recv\<rparr>) c = Some (t, off) \<Longrightarrow> t \<notin> ?P" for c t off
      using held_not_in_pool [OF inv] inv_push(4) [OF inv b] by auto
  qed (use spec set in \<open>auto simp: GetPool_def\<close>)
  moreover have "s \<in> own_pool ?c s"
    using set inv_push(5) [OF inv b] same_but_index_fields(1) [OF spec(3)]
    by (simp add: own_pool_def GetPool_def put_pool_def)
  moreover have "s < next_ref ?c" "waiters ?c s = None" using inv_push(1,3) [OF inv b] by (simp_all add: put_pool_def)
  ultimately have "broker_inv (?c\<lparr>broker_go := B_register p s\<rparr>)" by (intro inv_set_register)
  moreover have "core (Broker_push p poll s ctx) = core (?c\<lparr>broker_go := B_register p s\<rparr>)"
    by (simp add: Broker_push_def push put_pool_def core_def)
  ultimately show ?thesis by (rule broker_inv_core [rotated])
qed

lemma inv_pool_takeout:
  assumes inv: "broker_inv ctx"
    and new: "pool_wf st sp" "mset (pool_h (GetPool natt ctx)) = add_mset s (mset (pool_h sp))"
      "same_but_index (set (pool_h (GetPool natt ctx))) (store ctx) st" "index (st s) = -1"
  shows "broker_inv (put_pool natt sp (ctx\<lparr>store := st\<rparr>))" "s < next_ref ctx"
    "s \<notin> own_pool (put_pool natt sp (ctx\<lparr>store := st\<rparr>)) s"
    "natType (st s) = NATUnrestricted \<longleftrightarrow> natt = NATUnrestricted"
    "held ctx c \<noteq> Some (s, off)"
proof -
  let ?P = "set (pool_h (GetPool natt ctx))"
  have set: "?P = insert s (set (pool_h sp))" using new(2) by (metis set_mset_add_mset_insert set_mset_mset)
  have s: "s \<in> ?P" using set by blast
  have "distinct (pool_h (GetPool natt ctx))" using inv_pools(1,2) [OF inv] by (simp add: GetPool_def pool_wf_def)
  then have "distinct (s # pool_h sp)"
    using mset_eq_imp_distinct_iff [of "pool_h (GetPool natt ctx)" "s # pool_h sp"] new(2) by simp
  then have out: "s \<notin> set (pool_h sp)" by simp
  show "broker_inv (put_pool natt sp (ctx\<lparr>store := st\<rparr>))"
  proof (rule inv_pool_change [OF inv, where P = ?P])
    show "x \<in> set (pool_h sp) \<or> index (st x) = -1" if "x \<in> ?P" for x using that set new(4) by auto
    show "held ctx c = Some (t, off) \<Longrightarrow> t \<notin> ?P" for c t off by (rule held_not_in_pool [OF inv])
    show "broker_go ctx = B_push p poll t \<Longrightarrow> t \<notin> ?P" for p poll t by (rule push_not_in_pool [OF inv])
  qed (use pool_of_kind [OF inv] new(1,3) set in auto)
  show kind: "natType (st s) = NATUnrestricted \<longleftrightarrow> natt = NATUnrestricted" and "s < next_ref ctx"
    using pool_of_kind [OF inv, of natt] s same_but_index_fields(1) [OF new(3)] by (auto simp: of_kind_def)
  show "s \<notin> own_pool (put_pool natt sp (ctx\<lparr>store := st\<rparr>)) s"
    using out kind by (simp add: own_pool_def GetPool_def put_pool_def)
  show "held ctx c \<noteq> Some (s, off)" using held_not_in_pool [OF inv] s by blast
qed

lemma inv_give:
  assumes inv: "broker_inv ctx" and s: "s < next_ref ctx" "s \<notin> own_pool ctx s" "index (store ctx s) = -1"
    and ok: "co_natType off \<noteq> NATUnrestricted \<Longrightarrow> natType (store ctx s) = NATUnrestricted"
    and free: "\<And>c off. held ctx c \<noteq> Some (s, off)" "\<And>p poll. broker_go ctx \<noteq> B_push p poll s"
  shows "broker_inv (ctx\<lparr>offers := (offers ctx)(c \<mapsto> C_send arg off s)\<rparr>)"
proof (rule broker_invI, goal_cases)
  case (5 c' t off')
  then show ?case using inv_held(1-4) [OF inv, of c' t off'] s ok by (cases "c' = c") auto
next
  case (6 c1 c2 t off1 off2)
  then show ?case using inv_held(5) [OF inv] free(1) by (auto split: if_splits)
next
  case (8 p poll t)
  then have b: "broker_go ctx = B_push p poll t" by simp
  then have "t \<noteq> s" using free(2) by blast
  then show ?case using inv_push [OF inv b] by (auto split: if_splits)
qed (use inv_pools [OF inv] inv_waiter [OF inv] inv_register [OF inv] inv_alive [OF inv] in simp_all)

lemma inv_waiter_remove:
  assumes inv: "broker_inv ctx" and w: "waiters ctx s = Some (p, W_remove)"
  shows "broker_inv (waiter_remove p s ctx)"
proof -
  let ?n = "natType (store ctx s)"
  let ?pool = "GetPool ?n ctx"
  obtain st sp where rem: "pool_Remove (store ctx) ?pool s = Some (st, sp)"
    and inv': "broker_inv (put_pool ?n sp (ctx\<lparr>store := st\<rparr>))"
  proof (cases "s \<in> own_pool ctx s")
    case True
    have wf: "pool_wf (store ctx) ?pool" using inv_pools(1,2) [OF inv] by (simp add: GetPool_def)
    obtain st sp where "pool_Remove (store ctx) ?pool s = Some (st, sp)" "pool_wf st sp"
        "mset (pool_h ?pool) = add_mset s (mset (pool_h sp))" "same_but_index (set (pool_h ?pool)) (store ctx) st"
        "index (st s) = -1"
      using pool_Remove_spec [OF wf] True by (metis own_pool_def)
    then show thesis using that inv_pool_takeout(1) [OF inv] by blast
  next
    case False
    then have "pool_Remove (store ctx) ?pool s = Some (store ctx, ?pool)"
      using inv_waiter(2) [OF inv w] by (simp add: pool_Remove_absent)
    moreover have "core (put_pool ?n ?pool (ctx\<lparr>store := store ctx\<rparr>)) = core ctx"
      by (simp add: core_def put_pool_def GetPool_def)
    ultimately show thesis using that broker_inv_core [OF _ inv] by blast
  qed
  let ?c = "put_pool ?n sp (ctx\<lparr>store := st\<rparr>)"
  have ws: "waiters ?c = waiters ctx" by (simp add: put_pool_def)
  have "broker_inv (?c\<lparr>waiters := (waiters ?c)(s \<mapsto> (p, W_delete))\<rparr>)"
    by (rule inv_upd_waiters [OF inv']) (simp add: ws w)
  moreover have "core (waiter_remove p s ctx) = core (?c\<lparr>waiters := (waiters ?c)(s \<mapsto> (p, W_delete))\<rparr>)"
    by (simp add: waiter_remove_def rem Let_def put_pool_def core_def)
  ultimately show ?thesis by (rule broker_inv_core [rotated])
qed

lemma inv_pop_give:
  assumes inv: "broker_inv ctx" and pop: "pool_Pop (store ctx) (GetPool natt ctx) = (Some s, st, sp)"
    and ok: "co_natType off \<noteq> NATUnrestricted \<Longrightarrow> natt = NATUnrestricted"
  shows "broker_inv ((put_pool natt sp (ctx\<lparr>store := st\<rparr>))\<lparr>offers := (offers ctx)(c \<mapsto> C_send arg off s)\<rparr>)"
proof -
  let ?pool = "GetPool natt ctx" and ?c = "put_pool natt sp (ctx\<lparr>store := st\<rparr>)"
  have wf: "pool_wf (store ctx) ?pool" using inv_pools(1,2) [OF inv] by (simp add: GetPool_def)
  have ne: "pool_h ?pool \<noteq> []" using pop pool_Pop_empty [of ?pool "store ctx"] by auto
  have spec: "pool_wf st sp" "mset (pool_h ?pool) = add_mset s (mset (pool_h sp))"
      "same_but_index (set (pool_h ?pool)) (store ctx) st" "index (st s) = -1"
    using pool_Pop_spec [OF wf ne] pop by (metis prod.inject option.inject)+
  note t = inv_pool_takeout [OF inv spec]
  have f: "offers ?c = offers ctx" "next_ref ?c = next_ref ctx" "store ?c = st" "held ?c = held ctx"
      "broker_go ?c = broker_go ctx"
    by (simp_all add: put_pool_def)
  have "set (pool_h ?pool) = insert s (set (pool_h sp))" using spec(2) by (metis set_mset_add_mset_insert set_mset_mset)
  then have "broker_go ctx \<noteq> B_push p poll s" for p poll
    using push_not_in_pool [OF inv] by blast
  then have "broker_inv (?c\<lparr>offers := (offers ?c)(c \<mapsto> C_send arg off s)\<rparr>)"
    by (intro inv_give) (use t ok spec(4) in \<open>auto simp: f\<close>)
  then show ?thesis by (simp only: f)
qed

lemma inv_broker_new:
  assumes inv: "broker_inv ctx" and b: "broker_go ctx = B_recv"
  shows "broker_inv (Broker_new p poll ctx)" (is "broker_inv ?c")
proof -
  let ?s = "next_ref ctx"
  have old: "s \<noteq> ?s" if "s < ?s" for s using that by simp
  have f: "store ?c s = store ctx s" if "s < ?s" for s using that by (simp add: Broker_new_def Let_def)
  have g: "next_ref ?c = ?s + 1" "held ?c = held ctx" "waiters ?c = waiters ctx" "unrestrictedPool ?c = unrestrictedPool ctx"
      "restrictedPool ?c = restrictedPool ctx" "broker_go ?c = B_push p poll ?s" "crashed ?c = crashed ctx"
      "natType (store ?c ?s) = pp_natType poll"
    by (simp_all add: Broker_new_def Let_def NewSnowflake_def)
  have own: "own_pool ?c s = own_pool ctx s" if "s < ?s" for s
    using f [OF that] by (simp add: own_pool_def GetPool_def g)
  have sub: "s < ?s" if "s \<in> own_pool ?c t" for s t
    using that inv_pools(3,4) [OF inv] by (auto simp: own_pool_def GetPool_def g split: if_splits)
  show ?thesis
  proof (rule broker_invI, goal_cases)
    case 1
    show ?case unfolding g using inv_pools(1,3) [OF inv] f by (intro pool_wf_cong [OF inv_pools(1) [OF inv]]) blast
  next
    case 2
    show ?case unfolding g using inv_pools(2,4) [OF inv] f by (intro pool_wf_cong [OF inv_pools(2) [OF inv]]) blast
  next
    case (3 s)
    then show ?case using inv_pools(3) [OF inv, of s] f [of s] by (simp add: g)
  next
    case (4 s)
    then show ?case using inv_pools(4) [OF inv, of s] f [of s] by (simp add: g)
  next
    case (5 c s off)
    then have h: "held ctx c = Some (s, off)" by (simp add: g)
    show ?case using inv_held(1-4) [OF inv h] f [of s] own [of s] by (simp add: g)
  next
    case (6 c c' s off off')
    then show ?case using inv_held(5) [OF inv] by (simp add: g)
  next
    case (7 s q pc)
    then have w: "waiters ctx s = Some (q, pc)" by (simp add: g)
    show ?case using inv_waiter [OF inv w] f [of s] own [of s] by (simp add: g)
  next
    case (8 q poll' s)
    then have "s = ?s" "poll' = poll" by (simp_all add: g)
    moreover have "waiters ctx ?s = None" using inv_waiter(1) [OF inv, of ?s] by (cases "waiters ctx ?s") auto
    moreover have "held ctx c \<noteq> Some (?s, off)" for c off using inv_held(1) [OF inv, of c ?s off] by auto
    ultimately show ?case using sub [of ?s ?s] by (auto simp: g)
  qed (use inv_alive [OF inv] in \<open>simp_all add: g\<close>)
qed

lemma inv_broker_register:
  assumes inv: "broker_inv ctx" and b: "broker_go ctx = B_register p s"
  shows "broker_inv (Broker_register p s ctx)" (is "broker_inv ?c")
proof -
  have f: "next_ref ?c = next_ref ctx" "held ?c = held ctx" "store ?c = store ctx" "unrestrictedPool ?c = unrestrictedPool ctx"
      "restrictedPool ?c = restrictedPool ctx" "broker_go ?c = B_recv" "crashed ?c = crashed ctx"
      "waiters ?c = (waiters ctx)(s \<mapsto> (p, W_select))"
    by (simp_all add: Broker_register_def)
  have o: "own_pool ?c = own_pool ctx" by (simp add: own_pool_def GetPool_def f fun_eq_iff)
  show ?thesis
  proof (rule broker_invI, goal_cases)
    case (5 c t off)
    then show ?case using inv_held(1-4) [OF inv, of c t off] by (simp add: f o)
  next
    case (6 c c' t off off')
    then show ?case using inv_held(5) [OF inv] by (simp add: f)
  next
    case (7 t q pc)
    then have "t = s \<or> waiters ctx t = Some (q, pc)" by (auto simp: f split: if_splits)
    then show ?case
      using inv_waiter [OF inv, of t q pc] inv_register [OF inv b] unfolding f o by blast
  qed (use inv_pools [OF inv] inv_alive [OF inv] in \<open>simp_all add: f\<close>)
qed

lemma matchSnowflake_core:
  "matchSnowflake1 natt ctx = (None, ctx') \<Longrightarrow> core ctx' = core ctx \<and> offers ctx' = offers ctx"
  "matchSnowflake2 ctx = (None, ctx') \<Longrightarrow> core ctx' = core ctx \<and> offers ctx' = offers ctx"
  by (auto simp: matchSnowflake1_def matchSnowflake2_def pool_Pop_def core_def split: prod.splits if_splits)

lemma inv_match1:
  assumes "broker_inv ctx" "matchSnowflake1 (co_natType off) ctx = (Some s, ctx')"
  shows "broker_inv (ctx'\<lparr>offers := (offers ctx')(c \<mapsto> C_send arg off s)\<rparr>)"
proof -
  obtain st sp where pop: "co_natType off = NATUnrestricted" "pool_Pop (store ctx) (restrictedPool ctx) = (Some s, st, sp)"
      "ctx' = ctx\<lparr>store := st, restrictedPool := sp\<rparr>"
    using assms(2) by (auto simp: matchSnowflake1_def split: prod.splits if_splits)
  have r: "GetPool NATRestricted ctx = restrictedPool ctx" "put_pool NATRestricted sp = restrictedPool_update (\<lambda>_. sp)"
    by (auto simp: GetPool_def put_pool_def NATRestricted_def NATUnrestricted_def)
  show ?thesis using inv_pop_give [OF assms(1), of NATRestricted s st sp off c arg] pop by (simp add: r)
qed

lemma inv_match2:
  assumes "broker_inv ctx" "matchSnowflake2 ctx = (Some s, ctx')"
  shows "broker_inv (ctx'\<lparr>offers := (offers ctx')(c \<mapsto> C_send arg off s)\<rparr>)"
proof -
  obtain st sp where pop: "pool_Pop (store ctx) (unrestrictedPool ctx) = (Some s, st, sp)"
      "ctx' = ctx\<lparr>store := st, unrestrictedPool := sp\<rparr>"
    using assms(2) by (auto simp: matchSnowflake2_def split: prod.splits)
  have r: "GetPool NATUnrestricted ctx = unrestrictedPool ctx" "put_pool NATUnrestricted sp = unrestrictedPool_update (\<lambda>_. sp)"
    by (auto simp: GetPool_def put_pool_def)
  show ?thesis using inv_pop_give [OF assms(1), of NATUnrestricted s st sp off c arg] pop by (simp add: r)
qed

text \<open>A state whose clients change in addition to parts that the invariant does not look at.\<close>

lemma inv_client_step:
  assumes "broker_inv ctx" "core ctx' = core ctx" "\<And>s off. holds pc = Some (s, off) \<Longrightarrow> held ctx c = Some (s, off)"
    and "offers ctx' = offers ctx"
  shows "broker_inv (ctx'\<lparr>offers := (offers ctx)(c \<mapsto> pc)\<rparr>)"
proof -
  have "held ctx' = held ctx" using assms(2) by (simp add: core_def)
  then have "broker_inv (ctx'\<lparr>offers := (offers ctx')(c \<mapsto> pc)\<rparr>)"
    using assms(3) by (intro inv_upd_held broker_inv_core [OF assms(2,1)]) simp
  then show ?thesis by (simp only: assms(4))
qed

lemma step_inv:
  assumes "step Error add ctx ctx'" "broker_inv ctx"
  shows "broker_inv ctx'"
  using assms
proof (induction rule: step.induct)
  case (poll_early p ctx arg r ctx')
  show ?case by (rule broker_inv_core [OF _ poll_early(3)]) (simp add: ProxyPolls_begin_core [OF poll_early(2)])
next
  case (poll_start p ctx arg req poll ctx')
  show ?case by (rule broker_inv_core [OF _ poll_start(3)]) (simp add: ProxyPolls_begin_core [OF poll_start(2)])
next
  case (broker_receive ctx p req poll)
  have "broker_inv (ctx\<lparr>polls := (polls ctx)(p \<mapsto> PP_wait req poll)\<rparr>)"
    by (rule broker_inv_core [OF _ broker_receive(3)]) simp
  then show ?case by (rule inv_broker_new) (simp add: broker_receive)
next
  case (waiter_deletes ctx s p)
  have "broker_inv (ctx\<lparr>waiters := (waiters ctx)(s \<mapsto> (p, W_close))\<rparr>)" using waiter_deletes(2,1) by (rule inv_upd_waiters)
  then show ?case by (rule broker_inv_core [rotated]) (simp add: delete_id_def core_def)
next
  case (waiter_closes ctx s p req poll r ctx')
  note c = ProxyPolls_reply_core [OF waiter_closes(3)]
  have "broker_inv ctx'" using c waiter_closes(4) by (blast intro: broker_inv_core)
  then have "broker_inv (ctx'\<lparr>waiters := (waiters ctx')(s \<mapsto> (p, W_end))\<rparr>)"
    by (rule inv_upd_waiters) (simp add: c waiter_closes(1))
  then show ?case by (rule broker_inv_core [rotated]) (simp add: core_def)
next
  case (waiter_delivers ctx s p off req poll r ctx')
  note c = ProxyPolls_reply_core [OF waiter_delivers(3)]
  have "broker_inv ctx'" using c waiter_delivers(4) by (blast intro: broker_inv_core)
  then have "broker_inv (ctx'\<lparr>waiters := (waiters ctx')(s \<mapsto> (p, W_end))\<rparr>)"
    by (rule inv_upd_waiters) (simp add: c waiter_delivers(1))
  then show ?case by (rule broker_inv_core [rotated]) (simp add: core_def)
next
  case (client_match ctx c arg off r ctx')
  show ?case
  proof (cases r)
    case None
    with client_match matchSnowflake_core(1) have "core ctx' = core ctx" "offers ctx' = offers ctx" by blast+
    with inv_client_step [OF client_match(3) this(1), of "C_match2 arg off" c] None show ?thesis by simp
  next
    case (Some s)
    with client_match inv_match1 [OF client_match(3), of off s ctx' c arg] show ?thesis by simp
  qed
next
  case (client_denied ctx c arg off ctx')
  note m = matchSnowflake_core(2) [OF client_denied(2)]
  have "core (client_stats arg off ''denied'' ctx') = core ctx" "offers (client_stats arg off ''denied'' ctx') = offers ctx"
    using m by (simp_all add: client_stats_def upd_metrics_core)
  from inv_client_step [OF client_denied(3) this(1) _ this(2), of "C_done (client_error StrNoProxies)" c] m
  show ?case by simp
next
  case (client_sends ctx c arg off s p)
  have "broker_inv (ctx\<lparr>offers := (offers ctx)(c \<mapsto> C_wait arg off s)\<rparr>)"
    by (rule inv_upd_held [OF client_sends(3)]) (simp add: held_def client_sends(1))
  from inv_upd_waiters [OF this, of s p W_select p "W_deliver off"] client_sends(2) show ?case by simp
next
  case (client_answered ctx c arg off s a answer r)
  have "broker_inv ((client_stats arg off ''matched'' ctx)\<lparr>offers := (offers ctx)(c \<mapsto>
      C_delete (sendClientResponse \<lparr>poll_Answer = answer, poll_Error = []\<rparr>) off s)\<rparr>)"
    by (rule inv_client_step [OF client_answered(3)])
      (simp_all add: client_stats_def upd_metrics_core held_def client_answered(1))
  then show ?case by (rule broker_inv_core [rotated]) (simp add: core_def held_def)
next
  case (client_timeout ctx c arg off s)
  show ?case
    by (rule inv_client_step [OF client_timeout(2)])
      (simp_all add: client_stats_def upd_metrics_core held_def client_timeout(1))
next
  case (client_deletes ctx c r off s)
  show ?case by (rule inv_client_step [OF client_deletes(2)]) (simp_all add: delete_id_def)
next
  case (answer_early a ctx arg r ctx')
  show ?case by (rule broker_inv_core [OF _ answer_early(3)]) (simp add: ProxyAnswers_begin_core [OF answer_early(2)])
next
  case (answer_start a ctx arg r s answer ctx')
  show ?case by (rule broker_inv_core [OF _ answer_start(3)]) (simp add: ProxyAnswers_begin_core [OF answer_start(2)])
next
  case (record_ip ctx xs ip restricted ptype ys m)
  show ?case by (rule broker_inv_core [OF _ record_ip(3)]) simp
next
  case (install_bridges reader ctx e ctx')
  then show ?case using broker_inv_core InstallBridges_core by blast
next
  case (load_intervals f ctx e ctx')
  then show ?case using broker_inv_core LoadPollInterval_core by blast
qed (auto intro: inv_broker_push inv_broker_register inv_upd_waiters inv_waiter_remove inv_match2 inv_upd_held)

lemma NewBrokerContext_inv: "broker_inv (NewBrokerContext pattern)"
  by (rule broker_invI) (simp_all add: NewBrokerContext_def NewSnowflakePool_wf held_def, simp_all add: NewSnowflakePool_def)

lemma reachable_inv: "reachable Error add pattern ctx \<Longrightarrow> broker_inv ctx"
  by (induction rule: reachable.induct) (auto intro: NewBrokerContext_inv step_inv)

section \<open>Properties\<close>

text \<open> C2. In every reachable state of the broker, under every interleaving of polls, offers, answers and
  timeouts: no goroutine has panicked, both pools are priority queues of proxies of their NAT type, no
  two clients have been given the same proxy, and a client whose NAT is not unrestricted has been given
  a proxy with an unrestricted NAT.\<close>

theorem broker_safe:
  assumes "reachable Error add pattern ctx"
  shows "\<not> crashed ctx \<and> pool_wf (store ctx) (unrestrictedPool ctx) \<and> pool_wf (store ctx) (restrictedPool ctx) \<and>
    (\<forall>s \<in> set (pool_h (unrestrictedPool ctx)). natType (store ctx s) = NATUnrestricted) \<and>
    (\<forall>s \<in> set (pool_h (restrictedPool ctx)). natType (store ctx s) \<noteq> NATUnrestricted) \<and>
    (\<forall>c c' s off off'. held ctx c = Some (s, off) \<longrightarrow> held ctx c' = Some (s, off') \<longrightarrow> c = c') \<and>
    (\<forall>c s off. held ctx c = Some (s, off) \<longrightarrow> co_natType off \<noteq> NATUnrestricted \<longrightarrow>
       natType (store ctx s) = NATUnrestricted)"
  using reachable_inv [OF assms] unfolding broker_inv_def by blast

end
