(* ===== verification/Broker_Runs.thy ===== *)
theory Broker_Runs
  imports Broker
begin

text \<open>
  Runs of the broker: the default bridge list that every broker starts with, a run in which a client is
  given a proxy, and the race between a client and the timeout of the proxy it was given.
\<close>

section \<open>The default bridge\<close>

lemma parse_members_string:
  assumes "sp = [] \<or> sp = '' ''"
  shows "parse_members d (sp @ json_quote k @ CHR '':'' # json_quote v @ CHR '','' # t) =
      map_option (apfst (Cons (to_valid k, JStr (to_valid v)))) (parse_members d t)"
    "parse_members d (sp @ json_quote k @ CHR '':'' # json_quote v @ CHR ''}'' # t) =
      Some ([(to_valid k, JStr (to_valid v))], t)"
proof -
  have sp: "skip_ws (sp @ ch 34 # x) = ch 34 # x" for x using assms by (auto simp: skip_ws_def)
  have q: "json_quote k @ x = ch 34 # quote_body k @ ch 34 # x" for x by (simp add: json_quote_def)
  show "parse_members d (sp @ json_quote k @ CHR '':'' # json_quote v @ CHR '','' # t) =
      map_option (apfst (Cons (to_valid k, JStr (to_valid v)))) (parse_members d t)"
    by (subst parse_members.simps, unfold q) (simp add: sp unquote_quote skip_ws_solid parse_quoted)
  show "parse_members d (sp @ json_quote k @ CHR '':'' # json_quote v @ CHR ''}'' # t) =
      Some ([(to_valid k, JStr (to_valid v))], t)"
    by (subst parse_members.simps, unfold q) (simp add: sp unquote_quote skip_ws_solid parse_quoted)
qed

lemma split_lines_one: "\<forall>c \<in> set s. code c \<noteq> 10 \<Longrightarrow> split_lines acc (s @ [ch 10]) = [rev acc @ s]"
  by (induction s arbitrary: acc) auto

definition default_line :: string where
  "default_line =
     ''{'' @ json_quote ''displayName'' @ '':'' @ json_quote ''default'' @ '', '' @
     json_quote ''webSocketAddress'' @ '':'' @ json_quote ''wss://snowflake.torproject.net/'' @ '', '' @
     json_quote ''fingerprint'' @ '':'' @ json_quote ''2B280B23E1107BB62ABFC40DDCC8824814F80A72'' @ ''}''"

definition default_info :: BridgeInfo where
  "default_info = \<lparr>DisplayName = ''default'', WebSocketAddress = ''wss://snowflake.torproject.net/'',
     bi_Fingerprint = ''2B280B23E1107BB62ABFC40DDCC8824814F80A72''\<rparr>"

definition default_list :: bridgeListHolder where
  "default_list = snd (LoadBridgeInfo NewBridgeListHolder DefaultBridges)"

lemma parse_default_line:
  "parse_value 10000 default_line =
     Some (JObj [(''displayName'', JStr ''default''), (''webSocketAddress'', JStr ''wss://snowflake.torproject.net/''),
       (''fingerprint'', JStr ''2B280B23E1107BB62ABFC40DDCC8824814F80A72'')], [])"
proof -
  let ?members = "json_quote ''displayName'' @ CHR '':'' # json_quote ''default'' @ CHR '','' #
     ('' '' @ json_quote ''webSocketAddress'' @ CHR '':'' # json_quote ''wss://snowflake.torproject.net/'' @ CHR '','' #
     ('' '' @ json_quote ''fingerprint'' @ CHR '':'' # json_quote ''2B280B23E1107BB62ABFC40DDCC8824814F80A72'' @ CHR ''}'' # []))"
  have line: "default_line = CHR ''{'' # ?members" by (simp add: default_line_def)
  have "parse_members 9999 ?members = Some ([(''displayName'', JStr ''default''),
      (''webSocketAddress'', JStr ''wss://snowflake.torproject.net/''),
      (''fingerprint'', JStr ''2B280B23E1107BB62ABFC40DDCC8824814F80A72'')], [])"
    using parse_members_string(1) [of "[]" 9999 "''displayName''" "''default''"]
      parse_members_string(1) [of "'' ''" 9999 "''webSocketAddress''" "''wss://snowflake.torproject.net/''"]
      parse_members_string(2) [of "'' ''" 9999 "''fingerprint''" "''2B280B23E1107BB62ABFC40DDCC8824814F80A72''"]
    by (simp add: ascii_def)
  moreover have "skip_ws (CHR ''{'' # x) = CHR ''{'' # x" for x by (simp add: skip_ws_solid)
  moreover have "\<exists>x. skip_ws ?members = ch 34 # x" by (simp add: json_quote_def skip_ws_solid)
  ultimately show ?thesis
    unfolding line by (subst parse_value.simps) (auto simp: ch_eq_iff)
qed

lemma default_bridge:
  assumes "FingerprintFromHexString defaultBridgeFingerprint = Inr f"
  shows "default_list f = Some default_info"
proof -
  have nl: "\<forall>c \<in> set default_line. code c \<noteq> 10" and "length default_line < MaxScanTokenSize"
    "drop_cr default_line = default_line" "skip_ws default_line \<noteq> []"
    by (simp_all add: default_line_def json_quote_plain plain_def ascii_def MaxScanTokenSize_def drop_cr_def
        TrimSuffix_def HasSuffix_def skip_ws_solid ch_eq_iff)
  moreover have "DefaultBridges = default_line @ [ch 10]" by (simp add: DefaultBridges_def default_line_def)
  then have "split_lines [] DefaultBridges = [default_line]" using split_lines_one [OF nl, of "[]"] by (simp only: rev.simps append_Nil)
  moreover have "json_DecodeStrict BridgeInfo_fields default_line empty_BridgeInfo = Inr default_info"
    using \<open>skip_ws default_line \<noteq> []\<close>
    by (simp add: json_DecodeStrict_def parse_default_line BridgeInfo_fields_def empty_BridgeInfo_def default_info_def
        decode_simps)
  ultimately show ?thesis
    using assms
    by (simp add: default_list_def LoadBridgeInfo_def split_lines_one default_info_def defaultBridgeFingerprint_def)
qed

section \<open>A client and a proxy\<close>

definition run_poll :: ProxyPollRequest where
  "run_poll = \<lparr>Sid = ''sid'', Version = ''1.3'', Type = ''standalone'', NAT = NATUnrestricted, Clients = 0,
     AcceptedRelayPattern = Some []\<rparr>"

definition run_offer :: ClientPollRequest where
  "run_offer = \<lparr>poll_Offer = json_print (pion_json example_offer), poll_NAT = NATUnknown,
     poll_Fingerprint = defaultBridgeFingerprint\<rparr>"

lemma run_poll_body: "\<exists>body. DecodeProxyPollRequest body = Inr run_poll"
  using Decode_EncodeProxyPollRequest [of "''sid''" "''standalone''" "[]" NATUnrestricted NATUnrestricted 0]
  by (auto simp: valid_utf8_def ascii_def check_NAT_def NATUnrestricted_def KnownProxyTypes_def run_poll_def
      split: sum.splits)

lemma run_offer_body: "\<exists>body. DecodeClientPollRequest body = Inr run_offer"
  using Decode_EncodeClientPollRequest
    [of "\<lparr>poll_Offer = json_print (pion_json example_offer), poll_NAT = NATUnknown, poll_Fingerprint = []\<rparr>"
      example_offer NATUnknown "[]"] example_offer_ok example_offer_ascii
  by (auto simp: valid_utf8_def check_NAT_def NATUnknown_def run_offer_def split: sum.splits)

text \<open>Nothing else than the named parts matters for a run: the fields that it looks at.\<close>

definition at_start :: "'h BrokerContext \<Rightarrow> bool" where
  "at_start ctx \<longleftrightarrow> broker_go ctx = B_recv \<and> next_ref ctx = 0 \<and> waiters ctx = Map.empty \<and> offers ctx = Map.empty \<and>
     bridgeList ctx = default_list \<and> allowedRelayPattern ctx = [] \<and> polls ctx = Map.empty \<and>
     pool_h (unrestrictedPool ctx) = [] \<and> broker_inv ctx"

lemma poll_registered:
  assumes "at_start ctx" "reachable Error add [] ctx"
  obtains ctx' req poll where "reachable Error add [] ctx'" "broker_go ctx' = B_recv" "waiters ctx' = [0 \<mapsto> (0, W_select)]"
    "offers ctx' = Map.empty" "bridgeList ctx' = default_list"
    "pool_h (unrestrictedPool ctx') = [0]" "polls ctx' 0 = Some (PP_wait req poll)"
proof -
  obtain body where body: "DecodeProxyPollRequest body = Inr run_poll" using run_poll_body by blast
  let ?arg = "\<lparr>Body = body, RemoteAddr = [], Rendezvous = RendezvousHttp, Context = None\<rparr>"
  let ?poll = "\<lparr>pp_id = Sid run_poll, pp_proxyType = Type run_poll, pp_natType = NAT run_poll, pp_clients = Clients run_poll\<rparr>"
  obtain a where a: "ProxyPolls_begin ?arg ctx = (Inr (run_poll, ?poll), a)" "bridgeList a = bridgeList ctx" "polls a = polls ctx"
      "offers a = offers ctx"
    using assms(1) body
    by (auto simp: ProxyPolls_begin_def Let_def at_start_def run_poll_def upd_metrics_def CheckProxyRelayPattern_def
        IsSupersetOf_def NewNameMatcher_def)
  note core = ProxyPolls_begin_core [OF a(1)]
  let ?c1 = "a\<lparr>polls := (polls a)(0 \<mapsto> PP_send run_poll ?poll)\<rparr>"
  have r1: "reachable Error add [] ?c1"
    by (rule move [OF assms(2)], rule poll_start [OF _ a(1)]) (use assms(1) in \<open>simp add: at_start_def\<close>)
  have g1: "broker_go a = B_recv" "next_ref a = 0" "waiters a = Map.empty" "pool_h (unrestrictedPool a) = []"
    using core assms(1) by (simp_all add: core_def at_start_def)
  let ?c2 = "Broker_new 0 ?poll (?c1\<lparr>polls := (polls ?c1)(0 \<mapsto> PP_wait run_poll ?poll)\<rparr>)"
  have r2: "reachable Error add [] ?c2"
    by (rule move [OF r1], rule broker_receive) (simp_all add: g1)
  have g2: "broker_go ?c2 = B_push 0 ?poll 0" by (simp add: Broker_new_def Let_def g1)
  define c3 where "c3 = Broker_push 0 ?poll 0 ?c2"
  have r3: "reachable Error add [] c3" unfolding c3_def by (rule move [OF r2], rule broker_push) (rule g2)
  obtain st sp where push: "pool_Push (store ?c2) (unrestrictedPool ?c2) 0 = (st, sp)" by force
  have "pool_wf (store ?c2) (unrestrictedPool ?c2)" using reachable_inv [OF r2] by (rule inv_pools)
  from pool_Push_spec(2) [OF this _ push] have sp: "pool_h sp = [0]" by (simp add: Broker_new_def Let_def g1)
  have c3: "c3 = put_pool NATUnrestricted sp (?c2\<lparr>store := st, broker_go := B_register 0 0\<rparr>)"
    using push by (simp add: c3_def Broker_push_def GetPool_def run_poll_def)
  have g3: "broker_go c3 = B_register 0 0" "pool_h (unrestrictedPool c3) = [0]"
    "offers c3 = Map.empty" "bridgeList c3 = default_list" "waiters c3 = Map.empty" "polls c3 0 = Some (PP_wait run_poll ?poll)"
    using assms(1) unfolding c3 by (simp_all add: put_pool_def sp Broker_new_def Let_def a g1 at_start_def)
  have r4: "reachable Error add [] (Broker_register 0 0 c3)" by (rule move [OF r3 broker_register [OF g3(1)]])
  show thesis by (rule that [OF r4]) (simp_all add: Broker_register_def g3)
qed

lemma run_offer_begin:
  assumes "bridgeList ctx = default_list"
  shows "\<exists>arg off. ClientOffers_begin Error arg ctx = Inr off \<and> co_natType off = NATUnknown"
proof -
  obtain body where body: "DecodeClientPollRequest body = Inr run_offer" using run_offer_body by blast
  obtain f where f: "FingerprintFromHexString defaultBridgeFingerprint = Inr f" using default_fingerprint by blast
  obtain d where d: "hex_DecodeString defaultBridgeFingerprint = Inr d" "FingerprintFromBytes d = Inr f"
    using f by (auto simp: FingerprintFromHexString_def split: sum.splits)
  show ?thesis
    by (rule exI [of _ "\<lparr>Body = body, RemoteAddr = [], Rendezvous = RendezvousHttp, Context = None\<rparr>"])
      (simp add: ClientOffers_begin_def body run_offer_def d ctx_GetBridgeInfo_def GetBridgeInfo_def assms default_bridge [OF f])
qed

lemma client_matched:
  assumes "reachable Error add [] ctx" "broker_go ctx = B_recv" "waiters ctx = [0 \<mapsto> (0, W_select)]" "offers ctx = Map.empty"
    and "bridgeList ctx = default_list" "pool_h (unrestrictedPool ctx) = [0]" "polls ctx 0 = Some (PP_wait req poll)"
  obtains ctx' arg off where "reachable Error add [] ctx'" "offers ctx' 0 = Some (C_send arg off 0)"
    "waiters ctx' 0 = Some (0, W_select)" "polls ctx' 0 = Some (PP_wait req poll)"
proof -
  obtain arg off where off: "ClientOffers_begin Error arg ctx = Inr off" "co_natType off = NATUnknown"
    using run_offer_begin [OF assms(5)] by blast
  let ?c1 = "ctx\<lparr>offers := (offers ctx)(0 \<mapsto> C_match arg off)\<rparr>"
  have r1: "reachable Error add [] ?c1"
    by (rule move [OF assms(1)], rule client_start [OF _ off(1)]) (simp add: assms(4))
  have m: "matchSnowflake1 (co_natType off) ?c1 = (None, ?c1)"
    by (simp add: matchSnowflake1_def off NATUnknown_def NATUnrestricted_def)
  let ?c2 = "?c1\<lparr>offers := (offers ?c1)(0 \<mapsto> C_match2 arg off)\<rparr>"
  have r2: "reachable Error add [] ?c2"
    using move [OF r1 client_match [OF _ m, of 0 arg]] by simp
  have "pool_wf (store ?c2) (unrestrictedPool ?c2)" using reachable_inv [OF r2] by (rule inv_pools)
  then obtain s st sp where pop: "pool_Pop (store ?c2) (unrestrictedPool ?c2) = (Some s, st, sp)"
      "mset (pool_h (unrestrictedPool ?c2)) = add_mset s (mset (pool_h sp))"
    by (rule pool_Pop_spec) (auto simp: assms(6))
  then have "s = 0" using assms(6) by simp
  let ?c3 = "?c2\<lparr>store := st, unrestrictedPool := sp\<rparr>"
  have m2: "matchSnowflake2 ?c2 = (Some 0, ?c3)" using pop \<open>s = 0\<close> by (simp add: matchSnowflake2_def)
  have "reachable Error add [] (?c3\<lparr>offers := (offers ?c3)(0 \<mapsto> C_send arg off 0)\<rparr>)"
    by (rule move [OF r2], rule client_match2 [OF _ m2]) simp
  then show thesis by (rule that) (simp_all add: assms)
qed

lemma client_given_proxy:
  obtains ctx arg off req poll where "reachable Error add [] ctx" "offers ctx 0 = Some (C_send arg off 0)"
    "waiters ctx 0 = Some (0, W_select)" "polls ctx 0 = Some (PP_wait req poll)"
proof -
  have "at_start (NewBrokerContext [])"
    by (simp add: at_start_def NewBrokerContext_inv)
      (simp add: NewBrokerContext_def default_list_def NewSnowflakePool_def)
  from poll_registered [OF this start, of Error add]
  obtain ctx req poll where 1: "reachable Error add [] ctx" "broker_go ctx = B_recv" "waiters ctx = [0 \<mapsto> (0, W_select)]"
      "offers ctx = Map.empty" "bridgeList ctx = default_list" "pool_h (unrestrictedPool ctx) = [0]"
      "polls ctx 0 = Some (PP_wait req poll)"
    by metis
  from client_matched [OF this] obtain ctx1 arg off where 2: "reachable Error add [] ctx1"
      "offers ctx1 0 = Some (C_send arg off 0)" "waiters ctx1 0 = Some (0, W_select)" "polls ctx1 0 = Some (PP_wait req poll)"
    by metis
  then show thesis by (rule that)
qed

section \<open>A client that waits for ever\<close>

lemma offers_frame:
  "ProxyPolls_begin arg ctx = (x, ctx') \<Longrightarrow> offers ctx' = offers ctx \<and> waiters ctx' = waiters ctx"
  "ProxyPolls_reply req poll off ctx = (r, ctx') \<Longrightarrow> offers ctx' = offers ctx \<and> waiters ctx' = waiters ctx"
  "ProxyAnswers_begin arg ctx = (y, ctx') \<Longrightarrow> offers ctx' = offers ctx \<and> waiters ctx' = waiters ctx"
  "InstallBridgeListProfile reader ctx = (e, ctx') \<Longrightarrow> offers ctx' = offers ctx \<and> waiters ctx' = waiters ctx"
  "LoadPollIntervalFromFile f ctx = (e, ctx') \<Longrightarrow> offers ctx' = offers ctx \<and> waiters ctx' = waiters ctx"
  "matchSnowflake1 natt ctx = (z, ctx') \<Longrightarrow> offers ctx' = offers ctx \<and> waiters ctx' = waiters ctx"
  "matchSnowflake2 ctx = (z, ctx') \<Longrightarrow> offers ctx' = offers ctx \<and> waiters ctx' = waiters ctx"
  by (auto simp: ProxyPolls_begin_def ProxyPolls_reply_def ProxyAnswers_begin_def InstallBridgeListProfile_def
      LoadPollIntervalFromFile_def matchSnowflake1_def matchSnowflake2_def Let_def upd_metrics_def
      split: sum.splits if_splits option.splits prod.splits)

lemma blocked_step:
  assumes "step Error add ctx ctx'" "broker_inv ctx" "offers ctx c = Some (C_send arg off s)" "waiters ctx s = Some (p, W_end)"
  shows "offers ctx' c = Some (C_send arg off s) \<and> waiters ctx' s = Some (p, W_end)"
  using assms
proof (induction rule: step.induct)
  case (broker_push ctx q poll t)
  then show ?case by (auto simp: Broker_push_def split: prod.splits)
next
  case (broker_register ctx q t)
  then have "t \<noteq> s" using inv_register(2) by fastforce
  with broker_register show ?case by (auto simp: Broker_register_def)
next
  case (waiter_removes ctx t q)
  then show ?case by (auto simp: waiter_remove_def Let_def split: option.splits prod.splits)
qed (auto dest!: offers_frame simp: Broker_new_def Let_def delete_id_def client_stats_def upd_metrics_def)

lemma blocked_forever:
  assumes "(step Error add)\<^sup>*\<^sup>* ctx ctx'" "reachable Error add pattern ctx" "offers ctx c = Some (C_send arg off s)"
    and "waiters ctx s = Some (p, W_end)"
  shows "offers ctx' c = Some (C_send arg off s)"
proof -
  have "reachable Error add pattern ctx' \<and> offers ctx' c = Some (C_send arg off s) \<and> waiters ctx' s = Some (p, W_end)"
    using assms
  proof (induction rule: rtranclp_induct)
    case (step y z)
    then show ?case using blocked_step [OF step.hyps(2)] reachable_inv by (blast intro: move)
  qed simp
  then show ?thesis by simp
qed

lemma proxy_times_out:
  assumes "reachable Error add pattern ctx" "offers ctx c = Some (C_send arg off s)" "waiters ctx s = Some (p, W_select)"
    and "polls ctx p = Some (PP_wait req poll)"
  obtains ctx' where "reachable Error add pattern ctx'" "offers ctx' c = Some (C_send arg off s)"
    "waiters ctx' s = Some (p, W_end)"
proof -
  let ?c1 = "ctx\<lparr>waiters := (waiters ctx)(s \<mapsto> (p, W_remove))\<rparr>"
  have r1: "reachable Error add pattern ?c1" by (rule move [OF assms(1) waiter_timeout [OF assms(3)]])
  have "held ctx c = Some (s, off)" using assms(2) by (simp add: held_def)
  then have "index (store ctx s) = -1" using inv_held(3) [OF reachable_inv [OF assms(1)]] by blast
  then have rem: "pool_Remove (store ctx) q s = Some (store ctx, q)" for q by (rule pool_Remove_absent)
  define c2 where "c2 = waiter_remove p s ?c1"
  have r2: "reachable Error add pattern c2" unfolding c2_def by (rule move [OF r1], rule waiter_removes) simp
  have g2: "waiters c2 s = Some (p, W_delete)" "offers c2 = offers ctx" "polls c2 = polls ctx"
    by (simp_all add: c2_def waiter_remove_def Let_def rem)
  define c3 where "c3 = (delete_id s c2)\<lparr>waiters := (waiters c2)(s \<mapsto> (p, W_close))\<rparr>"
  have r3: "reachable Error add pattern c3" unfolding c3_def by (rule move [OF r2 waiter_deletes [OF g2(1)]])
  have g3: "waiters c3 s = Some (p, W_close)" "polls c3 p = Some (PP_wait req poll)" "offers c3 = offers ctx"
    by (simp_all add: c3_def delete_id_def g2 assms(4))
  obtain r c4 where c4: "ProxyPolls_reply req poll None c3 = (r, c4)"
    by (cases "ProxyPolls_reply req poll None c3") blast
  have "reachable Error add pattern (c4\<lparr>waiters := (waiters c4)(s \<mapsto> (p, W_end)), polls := (polls c4)(p \<mapsto> PP_done r)\<rparr>)"
    by (rule move [OF r3 waiter_closes [OF g3(1,2) c4]])
  then show thesis by (rule that) (use offers_frame(2) [OF c4] g3 assms(2) in auto)
qed

section \<open>Properties\<close>

text \<open> C13. A client can wait for ever: there is a run of the broker in which a client is given a proxy whose
  poll then times out, and after which the client stays at its send on the proxy's offer channel in
  every continuation, without a reply and without a timeout.\<close>

theorem client_can_wait_forever:
  "\<exists>ctx c arg off s. reachable Error add [] ctx \<and>
     (\<forall>ctx'. (step Error add)\<^sup>*\<^sup>* ctx ctx' \<longrightarrow> offers ctx' c = Some (C_send arg off s))"
proof -
  from client_given_proxy [of Error add] obtain ctx1 arg off req poll where "reachable Error add [] ctx1"
      "offers ctx1 0 = Some (C_send arg off 0)" "waiters ctx1 0 = Some (0, W_select)" "polls ctx1 0 = Some (PP_wait req poll)"
    by metis
  from proxy_times_out [OF this] obtain ctx2 where "reachable Error add [] ctx2"
      "offers ctx2 0 = Some (C_send arg off 0)" "waiters ctx2 0 = Some (0, W_end)"
    by metis
  then show ?thesis using blocked_forever by blast
qed

theorem client_can_wait_forever_witness:
  "\<exists>(ctx :: unit BrokerContext) c arg off s.
     reachable (\<lambda>_. []) (\<lambda>w _ _. Some w) [] ctx \<and> offers ctx c = Some (C_send arg off s)"
  using client_can_wait_forever [of "\<lambda>_. []" "\<lambda>(w :: unit ClusterWriter) _ _. Some w"] by blast

text \<open>A state that the safety property speaks about: a client holds a proxy.\<close>

theorem broker_safe_witness:
  "\<exists>ctx :: unit BrokerContext. (\<exists>c s off. held ctx c = Some (s, off)) \<and> \<not> crashed ctx \<and>
     (\<forall>c s off. held ctx c = Some (s, off) \<longrightarrow> co_natType off \<noteq> NATUnrestricted \<longrightarrow>
        natType (store ctx s) = NATUnrestricted)"
proof -
  obtain ctx :: "unit BrokerContext" and arg off req poll
    where ctx: "reachable (\<lambda>_. []) (\<lambda>w _ _. Some w) [] ctx" "offers ctx 0 = Some (C_send arg off 0)"
    by (rule client_given_proxy [of "\<lambda>_. []" "\<lambda>w _ _. Some w"])
  then have "held ctx 0 = Some (0, off)" by (simp add: held_def)
  with broker_safe [OF ctx(1)] show ?thesis by blast
qed

end
