(* ===== verification/Client_Map.thy ===== *)
theory Client_Map
  imports Go_Heap "HOL-Library.AList"
begin

text \<open>
  The map of live clients of the turbotunnel layer, \<open>src/common/turbotunnel/clientmap.go\<close>:
  records in a heap ordered by the time they were last seen, and an index from addresses to heap
  positions that \<open>Swap\<close>, \<open>Push\<close> and \<open>Pop\<close> keep in step.  Times are nanoseconds.  A send queue is
  a reference into a store of channels, because expiry closes it while others may hold it.  The
  panics of the code are the result \<^term>\<open>None\<close>.
\<close>

section \<open>Definitions\<close>

text \<open>A buffered channel of packets.\<close>

record chan =
  ch_cap :: nat
  ch_buf :: "bytes list"
  ch_closed :: bool

definition queueSize :: nat where "queueSize = 512"

record 'a clientRecord =
  Addr :: 'a
  LastSeen :: int
  SendQueue :: nat

record 'a clientMapInner =
  byAge :: "'a clientRecord list"
  byAddr :: "('a \<times> nat) list"
  chans :: "nat \<Rightarrow> chan"
  nchans :: nat

text \<open>\<open>time.Time.Sub\<close> saturates at the range of a \<open>time.Duration\<close>, 64 bits.\<close>

definition time_Sub :: "int \<Rightarrow> int \<Rightarrow> int" where
  "time_Sub t u = max (- (2 ^ 63)) (min (2 ^ 63 - 1) (t - u))"

subsection \<open>heap.Interface for clientMapInner\<close>

definition cm_consistent :: "'a clientMapInner \<Rightarrow> bool" where
  "cm_consistent m \<longleftrightarrow> length (byAge m) = length (byAddr m)"

definition cm_Len :: "'a clientMapInner \<Rightarrow> nat" where
  "cm_Len m = length (byAge m)"

definition cm_Less :: "'a clientMapInner \<Rightarrow> nat \<Rightarrow> nat \<Rightarrow> bool" where
  "cm_Less m i j \<longleftrightarrow> LastSeen (byAge m ! i) < LastSeen (byAge m ! j)"

definition cm_Swap :: "'a clientMapInner \<Rightarrow> nat \<Rightarrow> nat \<Rightarrow> 'a clientMapInner" where
  "cm_Swap m i j =
     (let a = lswap (byAge m) i j in
      m\<lparr>byAge := a, byAddr := AList.update (Addr (a ! j)) j (AList.update (Addr (a ! i)) i (byAddr m))\<rparr>)"

definition cm_Push :: "'a clientMapInner \<Rightarrow> 'a clientRecord \<Rightarrow> 'a clientMapInner" where
  "cm_Push m r =
     m\<lparr>byAddr := AList.update (Addr r) (length (byAge m)) (byAddr m), byAge := byAge m @ [r]\<rparr>"

definition close_chan :: "(nat \<Rightarrow> chan) \<Rightarrow> nat \<Rightarrow> (nat \<Rightarrow> chan)" where
  "close_chan cs q = cs(q := (cs q)\<lparr>ch_closed := True\<rparr>)"

definition cm_Pop :: "'a clientMapInner \<Rightarrow> 'a clientRecord \<times> 'a clientMapInner" where
  "cm_Pop m =
     (let n = length (byAddr m); r = byAge m ! (n - 1)
      in (r, m\<lparr>byAge := take (n - 1) (byAge m), byAddr := AList.delete (Addr r) (byAddr m),
               chans := close_chan (chans m) (SendQueue r)\<rparr>))"

subsection \<open>Operations\<close>

definition NewClientMap :: "'a clientMapInner" where
  "NewClientMap = \<lparr>byAge = [], byAddr = [], chans = (\<lambda>_. \<lparr>ch_cap = 0, ch_buf = [], ch_closed = True\<rparr>), nchans = 0\<rparr>"

text \<open>
  The loop of \<open>removeExpired\<close>.  \<open>heap.Pop\<close> calls \<open>Len\<close>, which panics on an inconsistent map.
\<close>

partial_function (option) removeExpired ::
  "int \<Rightarrow> int \<Rightarrow> 'a clientMapInner \<Rightarrow> 'a clientMapInner option" where
  "removeExpired now timeout m =
     (if byAge m \<noteq> [] \<and> time_Sub now (LastSeen (byAge m ! 0)) \<ge> timeout then
        if cm_consistent m then removeExpired now timeout (snd (heap_Pop cm_Len cm_Less cm_Swap cm_Pop m))
        else None
      else Some m)"

definition make_queue :: "'a clientMapInner \<Rightarrow> 'a clientMapInner" where
  "make_queue m =
     m\<lparr>chans := (chans m)(nchans m := \<lparr>ch_cap = queueSize, ch_buf = [], ch_closed = False\<rparr>),
       nchans := nchans m + 1\<rparr>"

text \<open>\<open>clientMapInner.SendQueue\<close>: the queue of an address, created if necessary.\<close>

definition cm_SendQueue :: "'a \<Rightarrow> int \<Rightarrow> 'a clientMapInner \<Rightarrow> (nat \<times> 'a clientMapInner) option" where
  "cm_SendQueue addr now m =
     (case map_of (byAddr m) addr of
        Some i \<Rightarrow>
          if length (byAge m) \<le> i then None
          else
            (let r = (byAge m ! i)\<lparr>LastSeen := now\<rparr>;
                 m1 = m\<lparr>byAge := (byAge m)[i := r]\<rparr>
             in if cm_consistent m1
                then Some (SendQueue r, heap_Fix cm_Len cm_Less cm_Swap m1 i)
                else None)
      | None \<Rightarrow>
          (let r = \<lparr>Addr = addr, LastSeen = now, SendQueue = nchans m\<rparr>;
               m1 = make_queue m
           in if map_of (byAddr m1) addr = None \<and> cm_consistent (cm_Push m1 r)
              then Some (SendQueue r, heap_Push cm_Len cm_Less cm_Swap cm_Push m1 r)
              else None))"

subsection \<open>Invariant\<close>

definition older :: "'a clientRecord \<Rightarrow> 'a clientRecord \<Rightarrow> bool" where
  "older r s \<longleftrightarrow> LastSeen r < LastSeen s"

text \<open>The index and the heap describe each other; no address occurs twice.\<close>

definition index_wf :: "'a clientMapInner \<Rightarrow> bool" where
  "index_wf m \<longleftrightarrow>
     distinct (map Addr (byAge m)) \<and> distinct (map fst (byAddr m)) \<and>
     fst ` set (byAddr m) = Addr ` set (byAge m) \<and>
     (\<forall>i < length (byAge m). map_of (byAddr m) (Addr (byAge m ! i)) = Some i)"

text \<open>Every record has a queue of its own, which is open.\<close>

definition queues_wf :: "'a clientMapInner \<Rightarrow> bool" where
  "queues_wf m \<longleftrightarrow>
     distinct (map SendQueue (byAge m)) \<and>
     (\<forall>r \<in> set (byAge m). SendQueue r < nchans m \<and> \<not> ch_closed (chans m (SendQueue r)))"

definition cm_wf :: "'a clientMapInner \<Rightarrow> bool" where
  "cm_wf m \<longleftrightarrow> index_wf m \<and> queues_wf m \<and> is_heap older (byAge m)"

section \<open>The heap interface\<close>

lemma index_wf_consistent: "index_wf m \<Longrightarrow> cm_consistent m"
proof -
  assume m: "index_wf m"
  then have "length (byAge m) = card (Addr ` set (byAge m))"
    by (metis index_wf_def distinct_card length_map set_map)
  also have "\<dots> = card (fst ` set (byAddr m))" using m by (simp add: index_wf_def)
  also have "\<dots> = length (byAddr m)"
    using m by (metis index_wf_def distinct_card length_map set_map)
  finally show ?thesis by (simp add: cm_consistent_def)
qed

lemma keys_delete: "fst ` set (AList.delete k al) = fst ` set al - {k}"
  using arg_cong [OF delete_keys, of set k al] by simp

interpretation cm: heap_interface older cm_Len cm_Less cm_Swap cm_Push cm_Pop byAge index_wf
  "\<lambda>m r. map_of (byAddr m) (Addr r) = None" "\<lambda>m r. r" "\<lambda>r. r"
proof unfold_locales
  fix m :: "'a clientMapInner" and i j
  assume wf: "index_wf m" and ij: "i < length (byAge m)" "j < length (byAge m)"
  let ?a = "lswap (byAge m) i j"
  have n: "?a ! k = (if k = i then byAge m ! j else if k = j then byAge m ! i else byAge m ! k)" for k
    using ij by (rule nth_lswap)
  have inj: "Addr (byAge m ! k) = Addr (byAge m ! l) \<longleftrightarrow> k = l" if "k < length (byAge m)" "l < length (byAge m)" for k l
    using wf that by (auto simp: index_wf_def distinct_conv_nth)
  have "map_of (byAddr (cm_Swap m i j)) (Addr (?a ! k)) = Some k" if "k < length (byAge m)" for k
    using wf ij that inj by (auto simp: cm_Swap_def Let_def update_conv' n index_wf_def)
  moreover have "distinct (map Addr ?a)" "Addr ` set ?a = Addr ` set (byAge m)"
    using wf ij by (simp_all add: index_wf_def map_lswap)
  moreover have "fst ` set (byAddr (cm_Swap m i j)) = fst ` set (byAddr m)"
    using wf ij nth_mem by (auto simp: cm_Swap_def Let_def dom_update n index_wf_def)
  ultimately show "index_wf (cm_Swap m i j) \<and> byAge (cm_Swap m i j) = ?a"
    using wf ij by (auto simp: index_wf_def cm_Swap_def Let_def distinct_update)
next
  fix m :: "'a clientMapInner" and r :: "'a clientRecord"
  assume "index_wf m" "map_of (byAddr m) (Addr r) = None"
  then show "index_wf (cm_Push m r) \<and> byAge (cm_Push m r) = byAge m @ [r]"
    by (auto simp: index_wf_def cm_Push_def distinct_update dom_update update_conv' map_of_eq_None_iff
        nth_append less_Suc_eq) (metis image_eqI nth_mem)
next
  fix m :: "'a clientMapInner"
  assume wf: "index_wf m" "byAge m \<noteq> []"
  have l: "length (byAddr m) = length (byAge m)"
    using index_wf_consistent [OF wf(1)] by (simp add: cm_consistent_def)
  obtain xs r where xs: "byAge m = xs @ [r]" using wf(2) by (metis append_butlast_last_id)
  have eq: "cm_Pop m = (r, m\<lparr>byAge := xs, byAddr := AList.delete (Addr r) (byAddr m),
      chans := close_chan (chans m) (SendQueue r)\<rparr>)"
    using l xs by (simp add: cm_Pop_def)
  have r: "Addr r \<notin> Addr ` set xs" using wf(1) by (simp add: index_wf_def xs)
  have "map_of (AList.delete (Addr r) (byAddr m)) (Addr (xs ! i)) = Some i" if "i < length xs" for i
  proof -
    have "Addr (xs ! i) \<noteq> Addr r" using r that by (metis image_eqI nth_mem)
    moreover have "map_of (byAddr m) (Addr (byAge m ! i)) = Some i"
      using wf(1) that xs by (simp only: index_wf_def) simp
    ultimately show ?thesis using that by (simp add: xs nth_append)
  qed
  moreover have "fst ` set (byAddr m) - {Addr r} = Addr ` set xs"
    using wf(1) r by (auto simp: index_wf_def xs)
  ultimately have "index_wf (snd (cm_Pop m))"
    using wf(1) unfolding eq by (simp add: index_wf_def keys_delete distinct_delete xs)
  then show "fst (cm_Pop m) = last (byAge m) \<and> index_wf (snd (cm_Pop m)) \<and>
      byAge (snd (cm_Pop m)) = butlast (byAge m)"
    by (simp add: eq xs)
qed (auto simp: older_def cm_Len_def cm_Less_def)

text \<open>The sift loops leave the channels alone.\<close>

lemma cm_Swap_chans [simp]: "chans (cm_Swap m i j) = chans m" "nchans (cm_Swap m i j) = nchans m"
  by (simp_all add: cm_Swap_def Let_def)

lemma cm_up_chans [simp]:
  "chans (heap_up L cm_Swap m j) = chans m" "nchans (heap_up L cm_Swap m j) = nchans m"
  by (rule heap_up_preserves [of "\<lambda>h. chans h = chans m"]; simp)
    (rule heap_up_preserves [of "\<lambda>h. nchans h = nchans m"]; simp)

lemma cm_down_chans [simp]:
  "chans (fst (heap_down L cm_Swap m j n)) = chans m" "nchans (fst (heap_down L cm_Swap m j n)) = nchans m"
  by (rule heap_down_preserves [of "\<lambda>h. chans h = chans m"]; simp)
    (rule heap_down_preserves [of "\<lambda>h. nchans h = nchans m"]; simp)

lemma cm_sift_chans [simp]:
  "chans (sift L cm_Swap m j n) = chans m" "nchans (sift L cm_Swap m j n) = nchans m"
  by (rule sift_preserves [of "\<lambda>h. chans h = chans m"]; simp)
    (rule sift_preserves [of "\<lambda>h. nchans h = nchans m"]; simp)

section \<open>The abstract map\<close>

text \<open>What the client map stands for: the time and the queue of each live address.\<close>

definition cm_view :: "'a clientMapInner \<Rightarrow> ('a \<rightharpoonup> int \<times> nat)" where
  "cm_view m = map_of (map (\<lambda>r. (Addr r, LastSeen r, SendQueue r)) (byAge m))"

lemma distinct_addr_mset: "mset xs = mset ys \<Longrightarrow> distinct (map f xs) = distinct (map f ys)"
  by (metis mset_eq_imp_distinct_iff mset_map)

lemma view_mset:
  fixes xs ys :: "'a clientRecord list"
  assumes "mset xs = mset ys" "distinct (map Addr xs)"
  shows "map_of (map (\<lambda>r. (Addr r, LastSeen r, SendQueue r)) xs) =
    map_of (map (\<lambda>r. (Addr r, LastSeen r, SendQueue r)) ys)"
proof -
  have "distinct (map Addr ys)" using assms distinct_addr_mset by blast
  moreover have "set xs = set ys" using assms(1) by (rule mset_eq_setD)
  ultimately show ?thesis
    using assms(2) by (subst map_of_inject_set) (simp_all add: comp_def)
qed

lemma queues_wf_mset:
  "mset (byAge m) = mset (byAge m') \<Longrightarrow> chans m = chans m' \<Longrightarrow> nchans m = nchans m' \<Longrightarrow>
    queues_wf m = queues_wf m'"
  using mset_eq_setD [of "byAge m" "byAge m'"] distinct_addr_mset [of "byAge m" "byAge m'" SendQueue]
  by (simp add: queues_wf_def)

lemma view_update:
  assumes "index_wf m" "i < length (byAge m)" "Addr r = Addr (byAge m ! i)"
  shows "map_of (map (\<lambda>r. (Addr r, LastSeen r, SendQueue r)) ((byAge m)[i := r])) =
    (cm_view m)(Addr r \<mapsto> (LastSeen r, SendQueue r))"
proof -
  let ?f = "\<lambda>r. (Addr r, LastSeen r, SendQueue r)"
  have d: "distinct (map Addr (byAge m))" using assms(1) by (simp add: index_wf_def)
  have split: "byAge m = take i (byAge m) @ byAge m ! i # drop (Suc i) (byAge m)"
    using assms(2) by (rule id_take_nth_drop)
  have "Addr (byAge m ! i) \<notin> Addr ` set (take i (byAge m))"
    using d by (subst (asm) split) auto
  then have n: "map_of (map ?f (take i (byAge m))) (Addr r) = None"
    using assms(3) by (auto simp: map_of_eq_None_iff image_image)
  have "map_of (map ?f ((byAge m)[i := r])) =
      (map_of (map ?f (drop (Suc i) (byAge m))))(Addr r \<mapsto> (LastSeen r, SendQueue r)) ++
        map_of (map ?f (take i (byAge m)))"
    using assms(2) by (simp add: upd_conv_take_nth_drop)
  moreover have "cm_view m = (map_of (map ?f (drop (Suc i) (byAge m))))(Addr r \<mapsto> (LastSeen (byAge m ! i), SendQueue (byAge m ! i)))
      ++ map_of (map ?f (take i (byAge m)))"
    unfolding cm_view_def by (subst split) (simp add: assms(3))
  ultimately show ?thesis
    using n by (simp add: map_add_upd_left domIff)
qed

section \<open>The operations\<close>

lemma cm_view_Addr:
  assumes "index_wf m"
  shows "map_of (byAddr m) a = None \<longleftrightarrow> cm_view m a = None"
    and "map_of (byAddr m) a = Some i \<Longrightarrow> i < length (byAge m) \<and> Addr (byAge m ! i) = a"
    and "i < length (byAge m) \<Longrightarrow>
      cm_view m (Addr (byAge m ! i)) = Some (LastSeen (byAge m ! i), SendQueue (byAge m ! i))"
proof -
  have keys: "fst ` set (byAddr m) = Addr ` set (byAge m)"
    and ix: "\<And>i. i < length (byAge m) \<Longrightarrow> map_of (byAddr m) (Addr (byAge m ! i)) = Some i"
    using assms by (simp_all add: index_wf_def)
  show "map_of (byAddr m) a = None \<longleftrightarrow> cm_view m a = None"
    unfolding map_of_eq_None_iff cm_view_def by (simp add: keys image_image)
  show "i < length (byAge m) \<and> Addr (byAge m ! i) = a" if "map_of (byAddr m) a = Some i"
  proof -
    have "a \<in> fst ` set (byAddr m)" using imageI [OF map_of_SomeD [OF that], of fst] by simp
    then have "a \<in> Addr ` set (byAge m)" by (simp only: keys)
    then obtain k where "k < length (byAge m)" "Addr (byAge m ! k) = a" by (auto simp: in_set_conv_nth)
    with ix [of k] that show ?thesis by simp
  qed
  show "cm_view m (Addr (byAge m ! i)) = Some (LastSeen (byAge m ! i), SendQueue (byAge m ! i))"
    if "i < length (byAge m)"
    unfolding cm_view_def
    by (rule map_of_is_SomeI) (use assms that in \<open>auto simp: index_wf_def comp_def\<close>)
qed

lemma index_wf_alt:
  "index_wf m \<longleftrightarrow>
     (let as = map Addr (byAge m) in
      distinct as \<and> distinct (map fst (byAddr m)) \<and> fst ` set (byAddr m) = set as \<and>
      (\<forall>i < length as. map_of (byAddr m) (as ! i) = Some i))"
  by (auto simp: index_wf_def Let_def)

lemma queues_wf_alt:
  "queues_wf m \<longleftrightarrow>
     (let qs = map SendQueue (byAge m) in
      distinct qs \<and> (\<forall>q \<in> set qs. q < nchans m \<and> \<not> ch_closed (chans m q)))"
  by (auto simp: queues_wf_def Let_def)

lemma index_wf_cong:
  "map Addr (byAge m') = map Addr (byAge m) \<Longrightarrow> byAddr m' = byAddr m \<Longrightarrow> index_wf m' = index_wf m"
  by (simp only: index_wf_alt)

lemma queues_wf_cong:
  "map SendQueue (byAge m') = map SendQueue (byAge m) \<Longrightarrow> chans m' = chans m \<Longrightarrow> nchans m' = nchans m \<Longrightarrow>
    queues_wf m' = queues_wf m"
  by (simp only: queues_wf_alt)

lemma SendQueue_found:
  fixes m :: "'a clientMapInner" and now :: int
  assumes "cm_wf m" "map_of (byAddr m) addr = Some i"
  defines "r \<equiv> (byAge m ! i)\<lparr>LastSeen := now\<rparr>"
  obtains m' where "cm_SendQueue addr now m = Some (SendQueue r, m')" "cm_wf m'"
    "cm_view m' = (cm_view m)(addr \<mapsto> (now, SendQueue r))" "chans m' = chans m" "nchans m' = nchans m"
proof -
  have wf: "index_wf m" "queues_wf m" "is_heap older (byAge m)" using assms(1) by (simp_all add: cm_wf_def)
  have i: "i < length (byAge m)" "Addr (byAge m ! i) = addr" using cm_view_Addr(2) [OF wf(1) assms(2)] by simp_all
  define m1 where "m1 = m\<lparr>byAge := (byAge m)[i := r]\<rparr>"
  define m' where "m' = heap_Fix cm_Len cm_Less cm_Swap m1 i"
  have addr: "map Addr (byAge m1) = map Addr (byAge m)" "map SendQueue (byAge m1) = map SendQueue (byAge m)"
    using i by (simp_all add: m1_def r_def map_update list_update_same_conv)
  have w1: "index_wf m1"
    using wf(1) index_wf_cong [OF addr(1)] by (simp add: m1_def)
  have q1: "queues_wf m1"
    using wf(2) queues_wf_cong [OF addr(2)] by (simp add: m1_def)
  have "down_inv older (byAge m1) (length (byAge m1)) i (i = 0)"
    using cm.down_inv_update [OF wf(3) i(1) order.refl, of "byAge m1"] by (simp add: m1_def)
  note F = cm.Fix_spec [OF w1 _ this, folded m'_def]
  have F: "index_wf m'" "is_heap older (byAge m')" "mset (byAge m') = mset (byAge m1)"
    using F i by (simp_all add: m1_def)
  have c: "chans m' = chans m" "nchans m' = nchans m" by (simp_all add: m'_def heap_Fix_def m1_def)
  have "queues_wf m'" using queues_wf_mset [OF F(3)] q1 c by (simp add: m1_def)
  moreover have "cm_view m' = (cm_view m)(addr \<mapsto> (now, SendQueue r))"
  proof -
    have "cm_view m' = cm_view m1"
      unfolding cm_view_def using F(1,3) by (intro view_mset) (simp_all add: index_wf_def)
    also have "\<dots> = (cm_view m)(Addr r \<mapsto> (LastSeen r, SendQueue r))"
      using view_update [OF wf(1) i(1), of r] by (simp add: cm_view_def m1_def r_def)
    finally show ?thesis using i(2) by (simp add: r_def)
  qed
  moreover have "cm_SendQueue addr now m = Some (SendQueue r, m')"
    using assms(2) i index_wf_consistent [OF w1] by (simp add: cm_SendQueue_def r_def m1_def m'_def Let_def)
  ultimately show thesis using F c by (intro that [of m']) (simp_all add: cm_wf_def)
qed

lemma SendQueue_new:
  fixes m :: "'a clientMapInner" and now :: int
  assumes "cm_wf m" "map_of (byAddr m) addr = None"
  obtains m' where "cm_SendQueue addr now m = Some (nchans m, m')" "cm_wf m'"
    "cm_view m' = (cm_view m)(addr \<mapsto> (now, nchans m))"
    "chans m' = (chans m)(nchans m := \<lparr>ch_cap = queueSize, ch_buf = [], ch_closed = False\<rparr>)"
    "nchans m' = nchans m + 1"
proof -
  have wf: "index_wf m" "queues_wf m" "is_heap older (byAge m)" using assms(1) by (simp_all add: cm_wf_def)
  define r where "r = \<lparr>Addr = addr, LastSeen = now, SendQueue = nchans m\<rparr>"
  define m1 where "m1 = make_queue m"
  define m' where "m' = heap_Push cm_Len cm_Less cm_Swap cm_Push m1 r"
  have m1: "byAge m1 = byAge m" "byAddr m1 = byAddr m" by (simp_all add: m1_def make_queue_def)
  have w1: "index_wf m1" "is_heap older (byAge m1)" using wf m1 by (simp_all add: index_wf_def)
  have pre: "map_of (byAddr m1) (Addr r) = None" using assms(2) m1 by (simp add: r_def)
  note P = cm.Push_spec [OF w1 pre, folded m'_def]
  have c: "chans m' = chans m1" "nchans m' = nchans m1" by (simp_all add: m'_def heap_Push_def Let_def cm_Push_def)
  have "nchans m \<notin> SendQueue ` set (byAge m)" using wf(2) by (auto simp: queues_wf_def)
  moreover have "distinct (map SendQueue (byAge m')) \<longleftrightarrow> distinct (map SendQueue (r # byAge m))"
    using P(3) m1 by (intro distinct_addr_mset) simp
  moreover have s: "set (byAge m') = insert r (set (byAge m))"
    using arg_cong [OF P(3), of set_mset] m1 by simp
  ultimately have "queues_wf m'"
    using wf(2) by (auto simp: queues_wf_def c m1_def make_queue_def r_def)
  moreover have "cm_view m' = (cm_view m)(addr \<mapsto> (now, nchans m))"
  proof -
    have "cm_view m' = map_of (map (\<lambda>r. (Addr r, LastSeen r, SendQueue r)) (r # byAge m))"
      unfolding cm_view_def using P(1,3) m1 by (intro view_mset) (simp_all add: index_wf_def)
    then show ?thesis by (simp add: r_def cm_view_def)
  qed
  moreover have "cm_SendQueue addr now m = Some (nchans m, m')"
    using assms(2) m1 index_wf_consistent [of "cm_Push m1 r"] cm.PushI [OF w1(1) pre]
    by (simp add: cm_SendQueue_def Let_def r_def m1_def m'_def)
  ultimately show thesis
    using P(1,2) c by (intro that [of m']) (simp_all add: cm_wf_def m1_def make_queue_def)
qed

lemma Pop_oldest:
  fixes m :: "'a clientMapInner"
  assumes "cm_wf m" "byAge m \<noteq> []"
  defines "r \<equiv> byAge m ! 0" and "m' \<equiv> snd (heap_Pop cm_Len cm_Less cm_Swap cm_Pop m)"
  shows "cm_wf m'" "cm_view m' = (cm_view m)(Addr r := None)"
    "chans m' = close_chan (chans m) (SendQueue r)" "length (byAge m') < length (byAge m)"
proof -
  have wf: "index_wf m" "queues_wf m" "is_heap older (byAge m)" using assms(1) by (simp_all add: cm_wf_def)
  obtain x where P: "heap_Pop cm_Len cm_Less cm_Swap cm_Pop m = (x, m')" "x = r" "index_wf m'"
    "is_heap older (byAge m')" "mset (byAge m) = add_mset r (mset (byAge m'))"
    using cm.Pop_spec [OF wf(1,3) assms(2)] unfolding m'_def r_def by (metis snd_conv)
  have c: "chans m' = close_chan (chans m) (SendQueue r)" "nchans m' = nchans m"
    using P(1,2) by (auto simp: heap_Pop_def cm_Pop_def Let_def)
  have d: "distinct (map SendQueue (r # byAge m'))" "distinct (map Addr (r # byAge m'))"
    using distinct_addr_mset [of "byAge m" "r # byAge m'"] P(5) wf(1,2)
    by (auto simp: queues_wf_def index_wf_def)
  have s: "set (byAge m) = insert r (set (byAge m'))" using arg_cong [OF P(5), of set_mset] by simp
  have "SendQueue q \<noteq> SendQueue r" if "q \<in> set (byAge m')" for q
    using d(1) that by (metis distinct.simps(2) image_eqI list.simps(9) set_map)
  then have "queues_wf m'"
    using wf(2) d(1) s unfolding queues_wf_def c by (simp add: close_chan_def)
  with P show "cm_wf m'" by (simp add: cm_wf_def)
  let ?f = "\<lambda>r. (Addr r, LastSeen r, SendQueue r)"
  have "cm_view m = map_of (map ?f (r # byAge m'))"
    unfolding cm_view_def using P(5) wf(1) by (intro view_mset) (simp_all add: index_wf_def)
  moreover have "map_of (map ?f (byAge m')) (Addr r) = None"
    using d(2) by (auto simp: map_of_eq_None_iff image_image)
  ultimately show "cm_view m' = (cm_view m)(Addr r := None)"
    by (simp add: cm_view_def fun_upd_idem)
  show "chans m' = close_chan (chans m) (SendQueue r)" by (rule c)
  show "length (byAge m') < length (byAge m)" using arg_cong [OF P(5), of size] by simp
qed

definition expired :: "int \<Rightarrow> int \<Rightarrow> int \<times> nat \<Rightarrow> bool" where
  "expired now timeout e \<longleftrightarrow> timeout \<le> time_Sub now (fst e)"

definition live_view :: "int \<Rightarrow> int \<Rightarrow> ('a \<rightharpoonup> int \<times> nat) \<Rightarrow> ('a \<rightharpoonup> int \<times> nat)" where
  "live_view now timeout v =
     (\<lambda>a. case v a of None \<Rightarrow> None | Some e \<Rightarrow> if expired now timeout e then None else Some e)"

lemma time_Sub_mono: "t \<le> u \<Longrightarrow> time_Sub now u \<le> time_Sub now t"
  by (simp add: time_Sub_def)

lemma view_in_byAge:
  assumes "index_wf m" "cm_view m a = Some e"
  obtains i where "i < length (byAge m)" "a = Addr (byAge m ! i)"
    "e = (LastSeen (byAge m ! i), SendQueue (byAge m ! i))"
  using map_of_SomeD [OF assms(2) [unfolded cm_view_def]] that by (auto simp: in_set_conv_nth)

lemma none_expired:
  assumes "cm_wf m" "byAge m = [] \<or> \<not> timeout \<le> time_Sub now (LastSeen (byAge m ! 0))"
    and "cm_view m a = Some e"
  shows "\<not> expired now timeout e"
proof -
  obtain i where i: "i < length (byAge m)" "e = (LastSeen (byAge m ! i), SendQueue (byAge m ! i))"
    using view_in_byAge [of m a e] assms(1,3) by (auto simp: cm_wf_def)
  then have "\<not> older (byAge m ! i) (byAge m ! 0)"
    using assms(1) by (intro cm.heap_root) (simp_all add: cm_wf_def)
  then have "time_Sub now (LastSeen (byAge m ! i)) \<le> time_Sub now (LastSeen (byAge m ! 0))"
    by (intro time_Sub_mono) (simp add: older_def)
  moreover have "\<not> timeout \<le> time_Sub now (LastSeen (byAge m ! 0))" using assms(2) i(1) by auto
  ultimately show ?thesis using i by (simp add: expired_def)
qed

definition dead_queue :: "int \<Rightarrow> int \<Rightarrow> ('a \<rightharpoonup> int \<times> nat) \<Rightarrow> nat \<Rightarrow> bool" where
  "dead_queue now timeout v q \<longleftrightarrow> (\<exists>a t. v a = Some (t, q) \<and> expired now timeout (t, q))"

lemma removeExpired_spec:
  fixes m :: "'a clientMapInner"
  assumes "cm_wf m"
  shows "\<exists>m'. removeExpired now timeout m = Some m' \<and> cm_wf m' \<and>
    cm_view m' = live_view now timeout (cm_view m) \<and>
    (\<forall>q. chans m' q = (if dead_queue now timeout (cm_view m) q
       then (chans m q)\<lparr>ch_closed := True\<rparr> else chans m q))"
  using assms
proof (induction "length (byAge m)" arbitrary: m rule: less_induct)
  case less
  show ?case
  proof (cases "byAge m \<noteq> [] \<and> timeout \<le> time_Sub now (LastSeen (byAge m ! 0))")
    case False
    then have ne: "\<And>a e. cm_view m a = Some e \<Longrightarrow> \<not> expired now timeout e"
      using none_expired [OF less.prems] by blast
    then have "live_view now timeout (cm_view m) = cm_view m"
      by (auto simp: live_view_def fun_eq_iff split: option.split)
    moreover have "removeExpired now timeout m = Some m"
      by (subst removeExpired.simps) (use False in auto)
    moreover have "\<not> dead_queue now timeout (cm_view m) q" for q using ne by (auto simp: dead_queue_def)
    ultimately show ?thesis using less.prems by auto
  next
    case True
    let ?r = "byAge m ! 0" and ?m = "snd (heap_Pop cm_Len cm_Less cm_Swap cm_Pop m)"
    have ix: "index_wf m" using less.prems by (simp add: cm_wf_def)
    note P = Pop_oldest [OF less.prems conjunct1 [OF True]]
    have step: "removeExpired now timeout m = removeExpired now timeout ?m"
      using True index_wf_consistent [OF ix] by (simp add: removeExpired.simps [of now timeout m])
    have v: "cm_view m (Addr ?r) = Some (LastSeen ?r, SendQueue ?r)"
      using cm_view_Addr(3) [OF ix, of 0] True by simp
    have e: "expired now timeout (LastSeen ?r, SendQueue ?r)" using True by (simp add: expired_def)
    obtain m' where m': "removeExpired now timeout ?m = Some m'" "cm_wf m'"
      "cm_view m' = live_view now timeout (cm_view ?m)"
      "\<And>q. chans m' q = (if dead_queue now timeout (cm_view ?m) q
         then (chans ?m q)\<lparr>ch_closed := True\<rparr> else chans ?m q)"
      using less.hyps [OF P(4,1)] by blast
    have "live_view now timeout (cm_view ?m) = live_view now timeout (cm_view m)"
      using v e by (auto simp: live_view_def P(2) fun_eq_iff)
    moreover have "chans m' q = (if dead_queue now timeout (cm_view m) q
         then (chans m q)\<lparr>ch_closed := True\<rparr> else chans m q)" for q
    proof (cases "q = SendQueue ?r")
      case True
      with v e have "dead_queue now timeout (cm_view m) q" by (auto simp: dead_queue_def)
      with True show ?thesis unfolding m'(4) P(3) by (simp add: close_chan_def)
    next
      case False
      then have "dead_queue now timeout (cm_view ?m) q = dead_queue now timeout (cm_view m) q"
        unfolding P(2) dead_queue_def using v by (metis fun_upd_apply option.inject option.distinct(1) prod.inject)
      with False show ?thesis unfolding m'(4) P(3) by (simp add: close_chan_def)
    qed
    ultimately show ?thesis using m' step by auto
  qed
qed

lemma cm_SendQueue_spec:
  assumes "cm_wf m"
  shows "\<exists>q m'. cm_SendQueue addr now m = Some (q, m') \<and> cm_wf m' \<and>
    cm_view m' = (cm_view m)(addr \<mapsto> (now, q)) \<and> \<not> ch_closed (chans m' q) \<and>
    (case cm_view m addr of
       Some (_, q') \<Rightarrow> q = q' \<and> chans m' = chans m
     | None \<Rightarrow> (\<forall>a t. cm_view m a \<noteq> Some (t, q)) \<and> ch_buf (chans m' q) = [] \<and>
         ch_cap (chans m' q) = 512 \<and> (\<forall>q'. q' \<noteq> q \<longrightarrow> chans m' q' = chans m q'))"
proof -
  have ix: "index_wf m" "queues_wf m" using assms by (simp_all add: cm_wf_def)
  have open_q: "SendQueue (byAge m ! i) < nchans m \<and> \<not> ch_closed (chans m (SendQueue (byAge m ! i)))"
    if "i < length (byAge m)" for i
    using ix(2) that by (simp add: queues_wf_def)
  show ?thesis
  proof (cases "map_of (byAddr m) addr")
    case None
    have "cm_view m a \<noteq> Some (t, nchans m)" for a t
    proof
      assume "cm_view m a = Some (t, nchans m)"
      then obtain i where "i < length (byAge m)" "SendQueue (byAge m ! i) = nchans m"
        by (rule view_in_byAge [OF ix(1)]) simp
      with open_q [of i] show False by simp
    qed
    moreover have "cm_view m addr = None" using None cm_view_Addr(1) [OF ix(1)] by blast
    ultimately show ?thesis
      by (rule_tac SendQueue_new [OF assms None, of now]) (auto simp: queueSize_def)
  next
    case (Some i)
    have i: "i < length (byAge m)" "Addr (byAge m ! i) = addr"
      using cm_view_Addr(2) [OF ix(1) Some] by simp_all
    have "cm_view m addr = Some (LastSeen (byAge m ! i), SendQueue (byAge m ! i))"
      using cm_view_Addr(3) [OF ix(1) i(1)] i(2) by simp
    with open_q [OF i(1)] show ?thesis
      by (rule_tac SendQueue_found [OF assms Some, of now]) auto
  qed
qed

section \<open>Properties\<close>

text \<open>
  C9. On a well-formed client map, \<open>SendQueue\<close> does not panic and keeps the map well formed.  It
  updates exactly one entry: a known address keeps its queue and gets the new time, a new address
  gets a fresh, open, empty queue of 512 packets and the other queues stay as they are; and the queue returned
  is open in both cases.
\<close>

theorem SendQueue_refines:
  assumes "cm_wf m"
  shows "\<exists>q m'. cm_SendQueue addr now m = Some (q, m') \<and> cm_wf m' \<and>
    cm_view m' = (cm_view m)(addr \<mapsto> (now, q)) \<and> \<not> ch_closed (chans m' q) \<and>
    (case cm_view m addr of
       Some (_, q') \<Rightarrow> q = q' \<and> chans m' = chans m
     | None \<Rightarrow> (\<forall>a t. cm_view m a \<noteq> Some (t, q)) \<and> ch_buf (chans m' q) = [] \<and>
         ch_cap (chans m' q) = 512 \<and> (\<forall>q'. q' \<noteq> q \<longrightarrow> chans m' q' = chans m q'))"
  using assms by (rule cm_SendQueue_spec)

theorem SendQueue_refines_witness:
  "\<exists>q m'. cm_SendQueue (7::nat) 100 NewClientMap = Some (q, m') \<and> cm_wf m' \<and>
    cm_view m' 7 = Some (100, q) \<and> ch_cap (chans m' q) = 512"
proof -
  have "cm_wf (NewClientMap :: nat clientMapInner)"
    by (simp add: cm_wf_def index_wf_def queues_wf_def heapn_def NewClientMap_def)
  from SendQueue_refines [OF this, of 7 100] show ?thesis
    by (auto simp: cm_view_def NewClientMap_def)
qed


definition one_client :: "nat clientMapInner" where
  "one_client = \<lparr>byAge = [\<lparr>Addr = 7, LastSeen = 100, SendQueue = 0\<rparr>], byAddr = [(7, 0)],
     chans = (\<lambda>_. \<lparr>ch_cap = 512, ch_buf = [], ch_closed = False\<rparr>), nchans = 1\<rparr>"


end
