(* ===== verification/Client_ID_Map.thy ===== *)
theory Client_ID_Map
  imports Prelude
begin

text \<open>
  The server's bounded memory of client addresses, \<open>src/server/lib/turbotunnel.go\<close>: a circular
  buffer of (ClientID, address) pairs with an index to the most recent entry of each ClientID.
  It is shown to be the simplest thing it could be: the last \<open>capacity\<close> calls of \<open>Set\<close>, looked
  up from the newest.
\<close>

section \<open>Definitions\<close>

text \<open>A ClientID is an array of eight bytes; an address may be Go's \<open>nil\<close>.\<close>

type_synonym ClientID = bytes

definition zeroClientID :: ClientID where
  "zeroClientID = replicate 8 0"

record 'a clientIDMap =
  entries :: "(ClientID \<times> 'a option) list"
  oldest :: nat
  current :: "ClientID \<rightharpoonup> nat"

definition newClientIDMap :: "nat \<Rightarrow> 'a clientIDMap" where
  "newClientIDMap capacity =
     \<lparr>entries = replicate capacity (zeroClientID, None), oldest = 0, current = Map.empty\<rparr>"

definition cid_Set :: "'a clientIDMap \<Rightarrow> ClientID \<Rightarrow> 'a option \<Rightarrow> 'a clientIDMap" where
  "cid_Set m clientID addr =
     (if length (entries m) = 0 then m
      else
        (let old = fst (entries m ! oldest m);
             c1 = (case current m old of
                     Some i \<Rightarrow> if i = oldest m then (current m)(old := None) else current m
                   | None \<Rightarrow> current m)
         in \<lparr>entries = (entries m)[oldest m := (clientID, addr)],
             oldest = (oldest m + 1) mod length (entries m),
             current = c1(clientID \<mapsto> oldest m)\<rparr>))"

definition cid_Get :: "'a clientIDMap \<Rightarrow> ClientID \<Rightarrow> 'a option \<times> bool" where
  "cid_Get m clientID =
     (case current m clientID of
        Some i \<Rightarrow> (snd (entries m ! i), True)
      | None \<Rightarrow> (None, False))"

text \<open>The specification: look a ClientID up in the last \<open>capacity\<close> calls of \<open>Set\<close>, newest first.\<close>

definition cid_spec :: "nat \<Rightarrow> (ClientID \<times> 'a option) list \<Rightarrow> ClientID \<Rightarrow> 'a option \<times> bool" where
  "cid_spec capacity sets clientID =
     (case map_of (take capacity (rev sets)) clientID of
        Some addr \<Rightarrow> (addr, True)
      | None \<Rightarrow> (None, False))"

fun cid_sets :: "'a clientIDMap \<Rightarrow> (ClientID \<times> 'a option) list \<Rightarrow> 'a clientIDMap" where
  "cid_sets m [] = m"
| "cid_sets m ((c, a) # s) = cid_sets (cid_Set m c a) s"

section \<open>The ring buffer and its history\<close>

text \<open>The \<open>t\<close>-th call is the latest one for its ClientID and still in the buffer after \<open>n\<close> calls.\<close>

definition latest :: "(ClientID \<times> 'a option) list \<Rightarrow> nat \<Rightarrow> ClientID \<Rightarrow> nat \<Rightarrow> bool" where
  "latest sets cap k t \<longleftrightarrow>
     t < length sets \<and> length sets \<le> t + cap \<and> fst (sets ! t) = k \<and>
     (\<forall>u. t < u \<and> u < length sets \<longrightarrow> fst (sets ! u) \<noteq> k)"

definition cid_inv :: "nat \<Rightarrow> (ClientID \<times> 'a option) list \<Rightarrow> 'a clientIDMap \<Rightarrow> bool" where
  "cid_inv cap sets m \<longleftrightarrow>
     length (entries m) = cap \<and> oldest m = length sets mod cap \<and>
     (\<forall>t. t < length sets \<and> length sets \<le> t + cap \<longrightarrow> entries m ! (t mod cap) = sets ! t) \<and>
     (\<forall>k i. current m k = Some i \<longleftrightarrow> (\<exists>t. latest sets cap k t \<and> i = t mod cap))"

lemma latest_unique: "latest sets cap k t \<Longrightarrow> latest sets cap k u \<Longrightarrow> t = u"
  unfolding latest_def by (metis linorder_neqE_nat)

lemma latest_snoc:
  "0 < cap \<Longrightarrow> latest (sets @ [(c, a)]) cap k t \<longleftrightarrow>
    (if k = c then t = length sets else latest sets cap k t \<and> length sets < t + cap)"
proof -
  assume cap: "0 < cap"
  let ?s = "sets @ [(c, a)]" and ?n = "length sets"
  consider "t < ?n" | "t = ?n" | "?n < t" by linarith
  then show ?thesis
  proof cases
    case 1
    have "(\<forall>u. t < u \<and> u < Suc ?n \<longrightarrow> fst (?s ! u) \<noteq> k) \<longleftrightarrow>
        c \<noteq> k \<and> (\<forall>u. t < u \<and> u < ?n \<longrightarrow> fst (sets ! u) \<noteq> k)" (is "?L \<longleftrightarrow> ?R")
    proof
      assume L: ?L
      have "fst (sets ! u) \<noteq> k" if "t < u" "u < ?n" for u using L [rule_format, of u] that by (simp add: nth_append)
      with L [rule_format, of ?n] 1 show ?R by simp
    next
      assume ?R
      then show ?L by (auto simp: less_Suc_eq nth_append)
    qed
    with 1 show ?thesis by (auto simp: latest_def nth_append)
  next
    case 2
    with cap show ?thesis by (auto simp: latest_def)
  next
    case 3
    then show ?thesis by (simp add: latest_def)
  qed
qed

lemma mod_window:
  "t < n \<Longrightarrow> n < t + cap \<Longrightarrow> t mod cap \<noteq> n mod (cap::nat)"
proof
  assume a: "t < n" "n < t + cap" "t mod cap = n mod cap"
  then have "cap dvd n - t" using mod_eq_dvd_iff_nat [of t n cap] by simp
  moreover have "0 < n - t" "n - t < cap" using a by linarith+
  ultimately show False using nat_dvd_not_less by blast
qed

lemma current_after_drop:
  assumes inv: "cid_inv cap sets m" and cap: "0 < cap"
    and old: "old = fst (entries m ! oldest m)"
    and c1: "c1 = (case current m old of
        Some i \<Rightarrow> if i = oldest m then (current m)(old := None) else current m | None \<Rightarrow> current m)"
  shows "c1 k = Some i \<longleftrightarrow> (\<exists>t. latest sets cap k t \<and> length sets < t + cap \<and> i = t mod cap)"
proof -
  let ?n = "length sets"
  have cur: "current m k = Some i \<longleftrightarrow> (\<exists>t. latest sets cap k t \<and> i = t mod cap)" for k i
    using inv by (simp add: cid_inv_def)
  have o: "oldest m = ?n mod cap" using inv by (simp add: cid_inv_def)
  show ?thesis
  proof (cases "current m old = Some (oldest m)")
    case True
    then obtain s where s: "latest sets cap old s" "?n mod cap = s mod cap"
      using cur [of old "oldest m"] o by metis
    then have "\<not> ?n < s + cap" using mod_window [of s ?n cap] by (auto simp: latest_def)
    then have n: "?n = s + cap" using s(1) by (simp add: latest_def)
    have c: "c1 = (current m)(old := None)" using True by (simp add: c1)
    show ?thesis
    proof (cases "k = old")
      case True
      then have "\<not> ?n < t + cap" if "latest sets cap k t" for t
        using latest_unique [OF s(1), of t] that n by simp
      then show ?thesis by (auto simp: c True)
    next
      case False
      then have "?n < t + cap" if "latest sets cap k t" for t
        using that s(1) n by (cases "t = s") (simp_all add: latest_def)
      then show ?thesis using cur [of k i] False by (auto simp: c)
    qed
  next
    case False
    have "?n < t + cap" if "latest sets cap k t" for t
    proof (rule ccontr)
      assume "\<not> ?n < t + cap"
      with that have t: "?n = t + cap" "fst (sets ! t) = k" "t < ?n" by (auto simp: latest_def)
      then have p: "t mod cap = oldest m" by (simp add: o)
      have "entries m ! (t mod cap) = sets ! t" using inv t by (simp add: cid_inv_def)
      then have "k = old" using t(2) old p by simp
      moreover have "current m k = Some (oldest m)" using cur [of k "oldest m"] that p by metis
      ultimately show False using False by simp
    qed
    moreover have "c1 = current m" using False by (auto simp: c1 split: option.split)
    ultimately show ?thesis using cur [of k i] by auto
  qed
qed

lemma cid_Set_inv:
  assumes inv: "cid_inv cap sets m" and cap: "0 < cap"
  shows "cid_inv cap (sets @ [(c, a)]) (cid_Set m c a)"
proof -
  let ?n = "length sets"
  define old where "old = fst (entries m ! oldest m)"
  define c1 where "c1 = (case current m old of
      Some i \<Rightarrow> if i = oldest m then (current m)(old := None) else current m | None \<Rightarrow> current m)"
  have o: "oldest m = ?n mod cap" and l: "length (entries m) = cap"
    using inv by (simp_all add: cid_inv_def)
  have S: "cid_Set m c a = \<lparr>entries = (entries m)[oldest m := (c, a)],
      oldest = (oldest m + 1) mod cap, current = c1(c \<mapsto> oldest m)\<rparr>"
    unfolding cid_Set_def Let_def c1_def old_def using cap l by simp
  have "(entries m)[oldest m := (c, a)] ! (t mod cap) = (sets @ [(c, a)]) ! t"
    if "t < Suc ?n" "Suc ?n \<le> t + cap" for t
  proof (cases "t = ?n")
    case True
    then show ?thesis using l cap by (simp add: o)
  next
    case False
    then have t: "t < ?n" "?n < t + cap" using that by simp_all
    then have "t mod cap \<noteq> oldest m" unfolding o by (rule mod_window)
    then show ?thesis using inv t by (simp add: cid_inv_def nth_append)
  qed
  moreover have "(c1(c \<mapsto> oldest m)) k = Some i \<longleftrightarrow>
      (\<exists>t. latest (sets @ [(c, a)]) cap k t \<and> i = t mod cap)" for k i
    using current_after_drop [OF inv cap old_def c1_def, of k i]
    by (auto simp: latest_snoc [OF cap] o)
  ultimately show ?thesis
    unfolding S using l by (simp add: cid_inv_def o mod_Suc_eq)
qed

lemma cid_sets_inv:
  "cid_inv cap sets m \<Longrightarrow> 0 < cap \<Longrightarrow> cid_inv cap (sets @ new) (cid_sets m new)"
proof (induction m new arbitrary: sets rule: cid_sets.induct)
  case (2 m c a s)
  from "2.IH" [OF cid_Set_inv [OF "2.prems", of c a]] "2.prems" show ?case by simp
qed simp

lemma newClientIDMap_inv: "cid_inv cap [] (newClientIDMap cap)"
  by (simp add: cid_inv_def newClientIDMap_def latest_def)

lemma map_of_window:
  "map_of (take cap (rev sets)) k = Some a \<longleftrightarrow> (\<exists>t. latest sets cap k t \<and> snd (sets ! t) = a)"
proof (induction sets arbitrary: cap rule: rev_induct)
  case Nil
  then show ?case by (simp add: latest_def)
next
  case (snoc x xs)
  obtain c b where x: "x = (c, b)" by force
  show ?case
  proof (cases cap)
    case 0
    then show ?thesis by (auto simp: latest_def)
  next
    case (Suc cap')
    have "latest (xs @ [x]) cap k t \<longleftrightarrow> (if k = c then t = length xs else latest xs cap' k t)" for t
      using latest_snoc [of cap xs c b k t] by (auto simp: Suc x latest_def)
    then show ?thesis using snoc.IH [of cap'] by (auto simp: Suc x latest_def nth_append)
  qed
qed

lemma cid_Get_spec:
  assumes inv: "cid_inv cap sets m"
  shows "cid_Get m k = cid_spec cap sets k"
proof (cases "\<exists>t. latest sets cap k t")
  case True
  then obtain t where t: "latest sets cap k t" by blast
  have "current m k = Some (t mod cap)" using inv t by (auto simp: cid_inv_def)
  moreover have "entries m ! (t mod cap) = sets ! t" using inv t by (auto simp: cid_inv_def latest_def)
  moreover have "map_of (take cap (rev sets)) k = Some (snd (sets ! t))"
    using t by (auto simp: map_of_window)
  ultimately show ?thesis by (simp add: cid_Get_def cid_spec_def)
next
  case False
  then have "current m k = None" using inv by (metis cid_inv_def not_Some_eq)
  moreover have "map_of (take cap (rev sets)) k = None"
    using False map_of_window [of cap sets k] by (metis not_Some_eq)
  ultimately show ?thesis by (simp add: cid_Get_def cid_spec_def)
qed

lemma cid_capacity_0: "length (entries m) = 0 \<Longrightarrow> cid_sets m s = m"
  by (induction m s rule: cid_sets.induct) (auto simp: cid_Set_def)

section \<open>Properties\<close>

text \<open>
  C7. A \<open>clientIDMap\<close> of any capacity (zero included) answers every \<open>Get\<close> from the last
  \<open>capacity\<close> calls of \<open>Set\<close>, the newest call for the ClientID winning: it never returns a stale
  address, forgets nothing younger than \<open>capacity\<close> calls, and never indexes out of range.
\<close>

theorem clientIDMap_refines:
  "cid_Get (cid_sets (newClientIDMap capacity) sets) clientID = cid_spec capacity sets clientID"
proof (cases "capacity = 0")
  case True
  then have "length (entries (newClientIDMap capacity :: 'a clientIDMap)) = 0"
    by (simp add: newClientIDMap_def)
  from cid_capacity_0 [OF this, of sets] True show ?thesis
    by (simp add: cid_Get_def cid_spec_def newClientIDMap_def)
next
  case False
  then have "cid_inv capacity ([] @ sets) (cid_sets (newClientIDMap capacity) sets)"
    by (intro cid_sets_inv newClientIDMap_inv) simp
  then show ?thesis by (simp add: cid_Get_spec)
qed

end
