(* ===== verification/Base64.thy ===== *)
theory Base64
  imports Json_String
begin

text \<open>
  Go's \<open>encoding/base64\<close> as the sources use it: the standard alphabet with padding and the URL alphabet
  without.  The decoder skips line ends and does not look at the unused bits of the last character.
\<close>

section \<open>Model\<close>

text \<open>\<open>url\<close> selects the alphabet (and no padding).\<close>

definition b64_char :: "bool \<Rightarrow> nat \<Rightarrow> char" where
  "b64_char url n =
     (if n < 26 then ch (65 + n)
      else if n < 52 then ch (71 + n)
      else if n < 62 then ch (n - 4)
      else if n = 62 then (if url then CHR ''-'' else CHR ''+'')
      else (if url then CHR ''_'' else CHR ''/''))"

definition b64_val :: "bool \<Rightarrow> char \<Rightarrow> nat option" where
  "b64_val url c =
     (let b = code c in
      if 65 \<le> b \<and> b \<le> 90 then Some (b - 65)
      else if 97 \<le> b \<and> b \<le> 122 then Some (b - 71)
      else if 48 \<le> b \<and> b \<le> 57 then Some (b + 4)
      else if c = (if url then CHR ''-'' else CHR ''+'') then Some 62
      else if c = (if url then CHR ''_'' else CHR ''/'') then Some 63
      else None)"

fun b64_encode :: "bool \<Rightarrow> string \<Rightarrow> string" where
  "b64_encode url [] = []"
| "b64_encode url [x] =
     (let n = code x * 65536 in
      [b64_char url (n div 262144), b64_char url (n div 4096 mod 64)] @ (if url then [] else ''==''))"
| "b64_encode url [x, y] =
     (let n = (code x * 256 + code y) * 256 in
      [b64_char url (n div 262144), b64_char url (n div 4096 mod 64), b64_char url (n div 64 mod 64)] @
      (if url then [] else ''=''))"
| "b64_encode url (x # y # z # s) =
     (let n = (code x * 256 + code y) * 256 + code z in
      b64_char url (n div 262144) # b64_char url (n div 4096 mod 64) # b64_char url (n div 64 mod 64) #
      b64_char url (n mod 64) # b64_encode url s)"

text \<open>The value of a group of up to four characters, and its bytes.\<close>

fun b64_value :: "bool \<Rightarrow> string \<Rightarrow> nat option" where
  "b64_value url [] = Some 0"
| "b64_value url (c # s) =
     (case b64_val url c of
        None \<Rightarrow> None
      | Some v \<Rightarrow> map_option (\<lambda>w. v * 64 ^ length s + w) (b64_value url s))"

definition b64_bytes :: "nat \<Rightarrow> nat \<Rightarrow> string" where
  "b64_bytes k n = take k [ch (n div 65536), ch (n div 256 mod 256), ch (n mod 256)]"

text \<open>The quanta of the decoder, on an input without line ends.\<close>

fun b64_quanta :: "bool \<Rightarrow> string \<Rightarrow> string option" where
  "b64_quanta url [] = Some []"
| "b64_quanta url [a] = None"
| "b64_quanta url [a, b] =
     (if url then map_option (\<lambda>n. b64_bytes 1 (n * 4096)) (b64_value url [a, b]) else None)"
| "b64_quanta url [a, b, c] =
     (if url then map_option (\<lambda>n. b64_bytes 2 (n * 64)) (b64_value url [a, b, c]) else None)"
| "b64_quanta url (a # b # c # d # s) =
     (if \<not> url \<and> s = [] \<and> d = CHR ''='' \<and> c = CHR ''='' then
        map_option (\<lambda>n. b64_bytes 1 (n * 4096)) (b64_value url [a, b])
      else if \<not> url \<and> s = [] \<and> d = CHR ''='' then
        map_option (\<lambda>n. b64_bytes 2 (n * 64)) (b64_value url [a, b, c])
      else
        (case b64_value url [a, b, c, d] of
           None \<Rightarrow> None
         | Some n \<Rightarrow> map_option ((@) (b64_bytes 3 n)) (b64_quanta url s)))"

definition b64_decode :: "bool \<Rightarrow> string \<Rightarrow> err + string" where
  "b64_decode url s =
     (case b64_quanta url (filter (\<lambda>c. code c \<noteq> 10 \<and> code c \<noteq> 13) s) of
        None \<Rightarrow> Inl (Err ''illegal base64 data'')
      | Some d \<Rightarrow> Inr d)"

section \<open>Lemmas\<close>

lemma b64_val_char [simp]: "n < 64 \<Longrightarrow> b64_val url (b64_char url n) = Some n"
  by (auto simp: b64_val_def b64_char_def Let_def)

lemma b64_char_plain: "n < 64 \<Longrightarrow> 43 \<le> code (b64_char url n) \<and> code (b64_char url n) < 123 \<and>
    b64_char url n \<noteq> CHR ''='' \<and> b64_char url n \<noteq> CHR ''<'' \<and> (url \<longrightarrow> b64_char url n \<noteq> CHR ''/'')"
  by (auto simp: b64_char_def ch_eq_iff)

lemma b64_regroup:
  fixes n :: nat
  shows "((n div 262144 * 64 + n div 4096 mod 64) * 64 + n div 64 mod 64) * 64 + n mod 64 = n"
    "(n div 262144 * 64 + n div 4096 mod 64) * 64 + n div 64 mod 64 = n div 64"
    "n div 262144 * 64 + n div 4096 mod 64 = n div 4096"
proof -
  have 1: "n div 262144 = n div 4096 div 64" "n div 4096 = n div 64 div 64"
    by (simp_all add: div_mult2_eq [symmetric])
  show a: "n div 262144 * 64 + n div 4096 mod 64 = n div 4096" unfolding 1(1) by (rule div_mult_mod_eq)
  show b: "(n div 262144 * 64 + n div 4096 mod 64) * 64 + n div 64 mod 64 = n div 64"
    unfolding a unfolding 1(2) by (rule div_mult_mod_eq)
  show "((n div 262144 * 64 + n div 4096 mod 64) * 64 + n div 64 mod 64) * 64 + n mod 64 = n"
    unfolding b by (rule div_mult_mod_eq)
qed

lemma b64_bytes_group:
  fixes x y z :: nat
  assumes "y < 256" "z < 256"
  shows "((x * 256 + y) * 256 + z) div 65536 = x" "((x * 256 + y) * 256 + z) div 256 mod 256 = y"
    "((x * 256 + y) * 256 + z) mod 256 = z"
proof -
  have 1: "((x * 256 + y) * 256 + z) div 256 = x * 256 + y" using assms(2) by simp
  have "((x * 256 + y) * 256 + z) div 65536 = ((x * 256 + y) * 256 + z) div 256 div 256"
    by (simp add: div_mult2_eq [symmetric])
  also have "\<dots> = x" unfolding 1 using assms(1) by simp
  finally show "((x * 256 + y) * 256 + z) div 65536 = x" .
  show "((x * 256 + y) * 256 + z) div 256 mod 256 = y" unfolding 1 using assms(1) by simp
  have "((x * 256 + y) * 256 + z) mod 256 = z mod 256" by (rule mod_mult_self3)
  then show "((x * 256 + y) * 256 + z) mod 256 = z" using assms(2) by (simp only: mod_less)
qed

lemma b64_digit_lt:
  fixes n :: nat
  shows "n < 16777216 \<Longrightarrow> n div 262144 < 64" "n mod 64 < 64"
  by (simp_all add: less_mult_imp_div_less)

lemma b64_group_lt: "(code x * 256 + code y) * 256 + code z < 16777216"
proof -
  have "a < 256 \<Longrightarrow> b < 256 \<Longrightarrow> c < 256 \<Longrightarrow> (a * 256 + b) * 256 + c < 16777216" for a b c :: nat
    by (simp add: distrib_right)
  from this [OF code_lt code_lt code_lt] show ?thesis .
qed

lemma b64_value_group:
  assumes "n < 16777216"
  shows "b64_value url [b64_char url (n div 262144), b64_char url (n div 4096 mod 64), b64_char url (n div 64 mod 64),
      b64_char url (n mod 64)] = Some n"
    "b64_value url [b64_char url (n div 262144), b64_char url (n div 4096 mod 64), b64_char url (n div 64 mod 64)] =
      Some (n div 64)"
    "b64_value url [b64_char url (n div 262144), b64_char url (n div 4096 mod 64)] = Some (n div 4096)"
proof -
  have d: "n div 262144 < 64" using assms by (rule b64_digit_lt)
  show "b64_value url [b64_char url (n div 262144), b64_char url (n div 4096 mod 64), b64_char url (n div 64 mod 64),
      b64_char url (n mod 64)] = Some n"
    using b64_regroup(1) [of n] by (simp add: d distrib_right)
  show "b64_value url [b64_char url (n div 262144), b64_char url (n div 4096 mod 64), b64_char url (n div 64 mod 64)] =
      Some (n div 64)"
    using b64_regroup(2) [of n] by (simp add: d distrib_right)
  show "b64_value url [b64_char url (n div 262144), b64_char url (n div 4096 mod 64)] = Some (n div 4096)"
    using b64_regroup(3) [of n] by (simp add: d)
qed

lemma b64_bytes_code:
  "b64_bytes 3 ((code x * 256 + code y) * 256 + code z) = [x, y, z]"
  "b64_bytes 2 ((code x * 256 + code y) * 256) = [x, y]"
  "b64_bytes 1 (code x * 65536) = [x]"
proof -
  show "b64_bytes 3 ((code x * 256 + code y) * 256 + code z) = [x, y, z]"
    unfolding b64_bytes_def b64_bytes_group [OF code_lt code_lt] by simp
  have "b64_bytes 3 ((code x * 256 + code y) * 256 + code (ch 0)) = [x, y, ch 0]" for x y
    unfolding b64_bytes_def b64_bytes_group [OF code_lt code_lt] by simp
  then have "b64_bytes 3 ((code x * 256 + code y) * 256) = [x, y, ch 0]" for x y by simp
  moreover have "b64_bytes 2 n = take 2 (b64_bytes 3 n)" for n by (simp add: b64_bytes_def)
  ultimately have "b64_bytes 2 ((code x * 256 + code y) * 256) = take 2 [x, y, ch 0]" by (simp only:)
  then show "b64_bytes 2 ((code x * 256 + code y) * 256) = [x, y]" by simp
  show "b64_bytes 1 (code x * 65536) = [x]" by (simp add: b64_bytes_def)
qed

lemma b64_quanta_encode: "b64_quanta url (b64_encode url s) = Some s"
proof (induction url s rule: b64_encode.induct)
  case (2 url x)
  define n where "n = code x * 65536"
  have lt: "n < 16777216" using b64_group_lt [of x "ch 0" "ch 0"] by (simp add: n_def)
  have "n div 4096 * 4096 = n" by (simp add: n_def)
  moreover have "b64_bytes 1 n = [x]" unfolding n_def by (rule b64_bytes_code)
  moreover have "b64_encode url [x] =
      [b64_char url (n div 262144), b64_char url (n div 4096 mod 64)] @ (if url then [] else ''=='')"
    by (simp only: b64_encode.simps Let_def n_def)
  ultimately show ?case
    using b64_value_group(3) [OF lt, of url] by (cases url) (simp_all del: b64_value.simps)
next
  case (3 url x y)
  define n where "n = (code x * 256 + code y) * 256"
  have lt: "n < 16777216" using b64_group_lt [of x y "ch 0"] by (simp add: n_def)
  have e: "n div 64 * 64 = n" by (simp add: n_def)
  have "b64_char url (n div 64 mod 64) \<noteq> CHR ''=''" using b64_char_plain [of "n div 64 mod 64" url] by simp
  moreover have "b64_bytes 2 n = [x, y]" unfolding n_def by (rule b64_bytes_code)
  moreover have "b64_encode url [x, y] = [b64_char url (n div 262144), b64_char url (n div 4096 mod 64),
      b64_char url (n div 64 mod 64)] @ (if url then [] else ''='')"
    by (simp only: b64_encode.simps Let_def n_def)
  ultimately show ?case
    using b64_value_group(2) [OF lt, of url] e by (cases url) (simp_all del: b64_value.simps)
next
  case (4 url x y z s)
  define n where "n = (code x * 256 + code y) * 256 + code z"
  have v: "n < 16777216" unfolding n_def by (rule b64_group_lt)
  have "b64_char url (n mod 64) \<noteq> CHR ''=''" using b64_char_plain [of "n mod 64" url] by simp
  moreover have "b64_bytes 3 n = [x, y, z]" unfolding n_def by (rule b64_bytes_code)
  moreover have "b64_encode url (x # y # z # s) = b64_char url (n div 262144) # b64_char url (n div 4096 mod 64) #
      b64_char url (n div 64 mod 64) # b64_char url (n mod 64) # b64_encode url s"
    by (simp only: b64_encode.simps Let_def n_def)
  moreover have "b64_quanta url (b64_encode url s) = Some s" using 4 by (simp only:)
  ultimately show ?case using b64_value_group(1) [OF v, of url] by (simp del: b64_value.simps b64_encode.simps)
qed simp

text \<open>The characters of the alphabet for URLs.\<close>

definition url_char :: "char \<Rightarrow> bool" where
  "url_char c \<longleftrightarrow> 48 \<le> code c \<and> code c \<le> 57 \<or> 65 \<le> code c \<and> code c \<le> 90 \<or> 97 \<le> code c \<and> code c \<le> 122 \<or> c \<in> set ''-_''"

definition b64_ok :: "bool \<Rightarrow> char \<Rightarrow> bool" where
  "b64_ok url c \<longleftrightarrow> 43 \<le> code c \<and> code c < 123 \<and> c \<noteq> CHR ''<'' \<and> (url \<longrightarrow> c \<noteq> CHR ''/'' \<and> url_char c)"

lemma b64_url_char: "n < 64 \<Longrightarrow> url_char (b64_char True n)"
  by (auto simp: b64_char_def url_char_def)

lemma b64_ok_char: "n < 64 \<Longrightarrow> b64_ok url (b64_char url n)"
  using b64_char_plain [of n url] b64_url_char [of n] by (cases url) (simp_all add: b64_ok_def)

lemma b64_ok_pad: "list_all (b64_ok url) (if url then [] else ''='')" "list_all (b64_ok url) (if url then [] else ''=='')"
  by (simp_all add: b64_ok_def)

lemma b64_alphabet: "list_all (b64_ok url) (b64_encode url s)"
proof (induction url s rule: b64_encode.induct)
  case (2 url x)
  have "code x * 65536 < 16777216" using b64_group_lt [of x "ch 0" "ch 0"] by simp
  then show ?case
    unfolding b64_encode.simps Let_def list_all_append list.pred_inject
    by (intro conjI b64_ok_char b64_ok_pad b64_digit_lt) simp_all
next
  case (3 url x y)
  have "(code x * 256 + code y) * 256 < 16777216" using b64_group_lt [of x y "ch 0"] by simp
  then show ?case
    unfolding b64_encode.simps Let_def list_all_append list.pred_inject
    by (intro conjI b64_ok_char b64_ok_pad b64_digit_lt) simp_all
next
  case (4 url x y z s)
  have "list_all (b64_ok url) (b64_encode url s)" using 4 by (simp only:)
  then show ?case
    unfolding b64_encode.simps Let_def list_all_append list.pred_inject
    by (intro conjI b64_ok_char b64_digit_lt b64_group_lt)
qed simp

lemma b64_encode_Nil: "b64_encode url s = [] \<longleftrightarrow> s = []"
  by (induction url s rule: b64_encode.induct) (simp_all add: Let_def)

lemma b64_ok_encode: "c \<in> set (b64_encode url s) \<Longrightarrow> b64_ok url c"
  using b64_alphabet [of url s] by (simp only: list_all_iff)

lemma b64_ok_line: "b64_ok url c \<Longrightarrow> code c \<noteq> 10 \<and> code c \<noteq> 13"
  unfolding b64_ok_def by linarith

lemma b64_decode_encode: "b64_decode url (b64_encode url s) = Inr s"
proof -
  have "filter (\<lambda>c. code c \<noteq> 10 \<and> code c \<noteq> 13) (b64_encode url s) = b64_encode url s"
    by (rule filter_True, rule ballI, rule b64_ok_line, rule b64_ok_encode)
  then show ?thesis unfolding b64_decode_def by (simp only: b64_quanta_encode option.case)
qed

end
