(* ===== verification/Amp.thy ===== *)
theory Amp
  imports Base64 Go_Net
begin

text \<open>
  Data through an AMP cache, \<open>src/common/amp\<close>: the path encoding of requests, and the armor that wraps
  responses into the text of HTML elements.  The HTML tokenizer of the decoder is the library
  \<open>golang.org/x/net/html\<close>: the list of tokens that it finds is an argument.
\<close>

section \<open>Paths\<close>

text \<open>\<open>cacheBreaker\<close> are the random bytes.\<close>

definition EncodePath :: "string \<Rightarrow> string \<Rightarrow> string" where
  "EncodePath cacheBreaker data = ''0'' @ b64_encode True cacheBreaker @ ''/'' @ b64_encode True data"

definition DecodePath :: "string \<Rightarrow> err + string" where
  "DecodePath path =
     (case path of
        [] \<Rightarrow> Inl (Err ''missing format indicator'')
      | v # rest \<Rightarrow>
          if v = CHR ''0'' then
            (case split_last (CHR ''/'') rest of
               None \<Rightarrow> Inl (Err ''missing data'')
             | Some (_, d) \<Rightarrow> b64_decode True d)
          else Inl (Err ''unknown format indicator''))"

section \<open>The armor encoder\<close>

definition boilerplateStart :: string where
  "boilerplateStart =
     ''<!doctype html>'' @ [ch 10] @
     ''<html amp>'' @ [ch 10] @
     ''<head>'' @ [ch 10] @
     ''<meta charset='' @ [ch 34] @ ''utf-8'' @ [ch 34] @ ''>'' @ [ch 10] @
     ''<script async src='' @ [ch 34] @ ''https://cdn.ampproject.org/v0.js'' @ [ch 34] @ ''></script>'' @ [ch 10] @
     ''<link rel='' @ [ch 34] @ ''canonical'' @ [ch 34] @ '' href='' @ [ch 34] @ ''#'' @ [ch 34] @ ''>'' @ [ch 10] @
     ''<meta name='' @ [ch 34] @ ''viewport'' @ [ch 34] @ '' content='' @ [ch 34] @ ''width=device-width'' @ [ch 34] @ ''>'' @ [ch 10] @
     ''<style amp-boilerplate>body{-webkit-animation:-amp-start 8s steps(1,end) 0s 1 normal both;'' @ ''-moz-animation:-amp-start 8s steps(1,end) 0s 1 normal both;-ms-animation:-amp-start 8s ste'' @ ''ps(1,end) 0s 1 normal both;animation:-amp-start 8s steps(1,end) 0s 1 normal both}@-webkit-'' @ ''keyframes -amp-start{from{visibility:hidden}to{visibility:visible}}@-moz-keyframes -amp-st'' @ ''art{from{visibility:hidden}to{visibility:visible}}@-ms-keyframes -amp-start{from{visibilit'' @ ''y:hidden}to{visibility:visible}}@-o-keyframes -amp-start{from{visibility:hidden}to{visibil'' @ ''ity:visible}}@keyframes -amp-start{from{visibility:hidden}to{visibility:visible}}</style><'' @ ''noscript><style amp-boilerplate>body{-webkit-animation:none;-moz-animation:none;-ms-animat'' @ ''ion:none;animation:none}</style></noscript>'' @ [ch 10] @
     ''</head>'' @ [ch 10] @
     ''<body>'' @ [ch 10]"

definition boilerplateEnd :: string where
  "boilerplateEnd =
     ''</body>'' @ [ch 10] @
     ''</html>''"

definition elementSizeLimit :: nat where "elementSizeLimit = 32 * 1024"
definition bytesPerChunk :: nat where "bytesPerChunk = 32"
definition chunksPerElement :: nat where
  "chunksPerElement = (elementSizeLimit - 1) div (bytesPerChunk + 1)"

record elementEncoder =
  ee_w :: "char gen_writer"
  chunkCounter :: nat
  elementCounter :: nat

text \<open>
  One round of the loop of \<open>(*elementEncoder).Write\<close>: the result of a return, or the new tot, encoder
  and rest of the data.
\<close>

definition element_round ::
  "nat \<Rightarrow> elementEncoder \<Rightarrow> string \<Rightarrow> ((nat \<times> err option) \<times> elementEncoder) + nat \<times> elementEncoder \<times> string" where
  "element_round tot enc p =
     (case (if elementCounter enc = 0 \<and> chunkCounter enc = 0 then Write (ee_w enc) (''<pre>'' @ [ch 10])
            else ((0, None), ee_w enc)) of
        ((_, Some e), w) \<Rightarrow> Inl ((tot, Some e), enc\<lparr>ee_w := w\<rparr>)
      | ((_, None), w) \<Rightarrow>
          (let enc = enc\<lparr>ee_w := w\<rparr>; n = min (bytesPerChunk - chunkCounter enc) (length p) in
           case Write (ee_w enc) (take n p) of
             ((_, Some e), w) \<Rightarrow> Inl ((tot, Some e), enc\<lparr>ee_w := w\<rparr>)
           | ((nn, None), w) \<Rightarrow>
               (let tot = tot + nn; p = drop n p;
                    enc = enc\<lparr>ee_w := w, chunkCounter := chunkCounter enc + n\<rparr> in
                case (if bytesPerChunk \<le> chunkCounter enc
                      then apsnd (\<lambda>w. enc\<lparr>ee_w := w, chunkCounter := 0, elementCounter := elementCounter enc + 1\<rparr>)
                             (Write (ee_w enc) [ch 10])
                      else ((0, None), enc)) of
                  ((_, Some e), enc) \<Rightarrow> Inl ((tot, Some e), enc)
                | ((nn, None), enc) \<Rightarrow>
                    (let tot = tot + nn in
                     case (if chunksPerElement \<le> elementCounter enc
                           then apsnd (\<lambda>w. enc\<lparr>ee_w := w, elementCounter := 0\<rparr>) (Write (ee_w enc) (''</pre>'' @ [ch 10]))
                           else ((0, None), enc)) of
                       ((_, Some e), enc) \<Rightarrow> Inl ((tot, Some e), enc)
                     | ((nn, None), enc) \<Rightarrow> Inr (tot + nn, enc, p)))))"

text \<open>A round takes data, or finds a full chunk and ends it.\<close>

lemma element_round_progress:
  assumes "element_round tot enc p = Inr (tot', enc', p')"
  shows "p' = drop (bytesPerChunk - chunkCounter enc) p \<and> chunkCounter enc' < bytesPerChunk"
proof -
  have d: "drop (min k (length p)) p = drop k p" for k by (simp add: min_def)
  show ?thesis
    using assms unfolding element_round_def Let_def
    by (auto split: prod.splits option.splits if_splits simp: d apsnd_def map_prod_def bytesPerChunk_def)
qed

function element_loop :: "nat \<Rightarrow> elementEncoder \<Rightarrow> string \<Rightarrow> (nat \<times> err option) \<times> elementEncoder" where
  "element_loop tot enc p =
     (if p = [] then ((tot, None), enc)
      else
        (case element_round tot enc p of
           Inl r \<Rightarrow> r
         | Inr (tot, enc, p) \<Rightarrow> element_loop tot enc p))"
  by pat_completeness auto

termination
  by (relation "measure (\<lambda>(_, enc, p). 2 * length p + (if chunkCounter enc < bytesPerChunk then 0 else 1))")
    (auto dest!: element_round_progress simp: bytesPerChunk_def simp flip: length_greater_0_conv)

declare element_loop.simps [simp del]

definition element_Write :: "elementEncoder \<Rightarrow> string \<Rightarrow> (nat \<times> err option) \<times> elementEncoder" where
  "element_Write enc p = element_loop 0 enc p"

definition element_Close :: "elementEncoder \<Rightarrow> err option \<times> elementEncoder" where
  "element_Close enc =
     (if elementCounter enc \<noteq> 0 \<or> chunkCounter enc \<noteq> 0 then
        if chunkCounter enc = 0 then
          (case Write (ee_w enc) (''</pre>'' @ [ch 10]) of ((_, e), w) \<Rightarrow> (e, enc\<lparr>ee_w := w\<rparr>))
        else
          (case Write (ee_w enc) ([ch 10] @ ''</pre>'' @ [ch 10]) of ((_, e), w) \<Rightarrow> (e, enc\<lparr>ee_w := w\<rparr>))
      else (None, enc))"

text \<open>
  \<open>base64.NewEncoder\<close> keeps up to two bytes that do not fill a group and its first error; it writes the
  groups that are complete (in pieces of at most 1024 characters, here as one).
\<close>

record armorEncoder =
  ae_buf :: string
  ae_err :: "err option"
  ae_element :: elementEncoder

definition NewArmorEncoder :: "char gen_writer \<Rightarrow> (err + armorEncoder) \<times> char gen_writer" where
  "NewArmorEncoder w =
     (case Write w boilerplateStart of
        ((_, Some e), w) \<Rightarrow> (Inl e, w)
      | ((_, None), w) \<Rightarrow>
          (case element_Write \<lparr>ee_w = w, chunkCounter = 0, elementCounter = 0\<rparr> ''0'' of
             ((_, Some e), enc) \<Rightarrow> (Inl e, ee_w enc)
           | ((_, None), enc) \<Rightarrow> (Inr \<lparr>ae_buf = [], ae_err = None, ae_element = enc\<rparr>, ee_w enc)))"

definition armor_Write :: "armorEncoder \<Rightarrow> string \<Rightarrow> (nat \<times> err option) \<times> armorEncoder" where
  "armor_Write enc p =
     (case ae_err enc of
        Some e \<Rightarrow> ((0, Some e), enc)
      | None \<Rightarrow>
          (let b = ae_buf enc @ p; k = length b div 3 * 3 in
           if k = 0 then ((length p, None), enc\<lparr>ae_buf := b\<rparr>)
           else
             (case element_Write (ae_element enc) (b64_encode False (take k b)) of
                ((_, Some e), el) \<Rightarrow> ((0, Some e), enc\<lparr>ae_err := Some e, ae_element := el\<rparr>)
              | ((_, None), el) \<Rightarrow> ((length p, None), enc\<lparr>ae_buf := drop k b, ae_element := el\<rparr>))))"

definition armor_Close :: "armorEncoder \<Rightarrow> err option \<times> armorEncoder" where
  "armor_Close enc =
     (case (if ae_err enc = None \<and> ae_buf enc \<noteq> [] then
              (case element_Write (ae_element enc) (b64_encode False (ae_buf enc)) of
                 ((_, e), el) \<Rightarrow> (e, enc\<lparr>ae_err := e, ae_buf := [], ae_element := el\<rparr>))
            else (ae_err enc, enc)) of
        (Some e, enc) \<Rightarrow> (Some e, enc)
      | (None, enc) \<Rightarrow>
          (case element_Close (ae_element enc) of
             (Some e, el) \<Rightarrow> (Some e, enc\<lparr>ae_element := el\<rparr>)
           | (None, el) \<Rightarrow>
               (case Write (ee_w el) boilerplateEnd of
                  ((_, e), w) \<Rightarrow> (e, enc\<lparr>ae_element := el\<lparr>ee_w := w\<rparr>\<rparr>))))"

section \<open>The armor decoder\<close>

text \<open>The tokens of the HTML tokenizer; an error token ends the list, at the latest with \<open>io.EOF\<close>.\<close>

datatype html_token = ErrorToken err | TextToken string | StartTagToken string | EndTagToken string | OtherToken

definition isASCIIWhitespace :: "char \<Rightarrow> bool" where
  "isASCIIWhitespace b \<longleftrightarrow> code b \<in> {9, 10, 12, 13, 32}"

text \<open>
  The split function on the data and whether it is all there: how far to advance, and the token.
\<close>

definition splitASCIIWhitespace :: "string \<Rightarrow> bool \<Rightarrow> nat \<times> string option" where
  "splitASCIIWhitespace data atEOF =
     (let ws = takeWhile isASCIIWhitespace data; r = dropWhile isASCIIWhitespace data;
          word = takeWhile (Not \<circ> isASCIIWhitespace) r; i = length ws; j = i + length word in
      if j < length data then (j + 1, Some word)
      else if atEOF \<and> i < j then (j, Some word)
      else (i, None))"

text \<open>A \<open>bufio.Scanner\<close> with this function over a text that is all there: its tokens.\<close>

function scan_words :: "string \<Rightarrow> string list" where
  "scan_words data =
     (case splitASCIIWhitespace data True of
        (_, None) \<Rightarrow> []
      | (n, Some w) \<Rightarrow> if data = [] then [] else w # scan_words (drop n data))"
  by pat_completeness auto

termination
  by (relation "measure length") (auto simp: splitASCIIWhitespace_def Let_def split: if_splits)

declare scan_words.simps [simp del]

text \<open>
  \<open>decodeToWriter\<close> into a pipe: what has been written, and the error.  A word longer than the scanner's
  buffer is \<open>bufio.ErrTooLong\<close>; the tokenizer's limit keeps texts shorter.
\<close>

fun decode_tokens :: "bool \<Rightarrow> string \<Rightarrow> html_token list \<Rightarrow> string \<times> err option" where
  "decode_tokens active out [] = (out, None)"
| "decode_tokens active out (ErrorToken e # ts) =
     (let e' = (if e = io_EOF then None else Some e) in
      if e' = None \<and> active then (out, Some (Err ''missing </pre> tag'')) else (out, e'))"
| "decode_tokens active out (TextToken t # ts) =
     (if active then
        if \<exists>w \<in> set (scan_words t). 65536 \<le> length w
        then (out @ concat (takeWhile (\<lambda>w. length w < 65536) (scan_words t)), Some bufio_ErrTooLong)
        else decode_tokens active (out @ concat (scan_words t)) ts
      else decode_tokens active out ts)"
| "decode_tokens active out (StartTagToken tn # ts) =
     (if tn = ''pre'' then
        if active then (out, Some (Err ''unexpected <pre>'')) else decode_tokens True out ts
      else decode_tokens active out ts)"
| "decode_tokens active out (EndTagToken tn # ts) =
     (if tn = ''pre'' then
        if \<not> active then (out, Some (Err ''unexpected </pre>'')) else decode_tokens False out ts
      else decode_tokens active out ts)"
| "decode_tokens active out (OtherToken # ts) = decode_tokens active out ts"

definition decodeToWriter :: "html_token list \<Rightarrow> string \<times> err option" where
  "decodeToWriter ts = decode_tokens False [] ts"

text \<open>\<open>NewArmorDecoder\<close> and reading all of it: the data, or the error.\<close>

definition armor_decode :: "html_token list \<Rightarrow> err + string" where
  "armor_decode ts =
     (case decodeToWriter ts of
        ([], e) \<Rightarrow> Inl (case e of None \<Rightarrow> io_EOF | Some e \<Rightarrow> e)
      | (v # rest, e) \<Rightarrow>
          if v \<noteq> CHR ''0'' then Inl (Err ''unknown armor version indicator'')
          else
            (case e of
               Some e \<Rightarrow> Inl e
             | None \<Rightarrow> b64_decode False rest))"

text \<open>A whole run of the encoder on a buffer: the document, or the error.\<close>

definition armor_encode :: "string list \<Rightarrow> err + string" where
  "armor_encode ps =
     (case NewArmorEncoder (bytes_Buffer []) of
        (Inl e, _) \<Rightarrow> Inl e
      | (Inr enc, _) \<Rightarrow>
          (case armor_Close (fold (\<lambda>p enc. snd (armor_Write enc p)) ps enc) of
             (Some e, _) \<Rightarrow> Inl e
           | (None, enc) \<Rightarrow> Inr (wout (ee_w (ae_element enc)))))"

section \<open>Specification\<close>

text \<open>An element with its text, and the tokens that make it up.\<close>

definition wrap :: "string \<Rightarrow> string" where
  "wrap t = ''<pre>'' @ [ch 10] @ t @ ''</pre>'' @ [ch 10]"

definition wrap_tokens :: "string \<Rightarrow> html_token list" where
  "wrap_tokens t = [StartTagToken ''pre'', TextToken (ch 10 # t), EndTagToken ''pre'', TextToken [ch 10]]"

definition solid :: "string \<Rightarrow> string" where
  "solid t = filter (Not \<circ> isASCIIWhitespace) t"

text \<open>The texts of a document: alphabet characters and line ends, and no longer than the decoder allows.\<close>

definition text_ok :: "string \<Rightarrow> bool" where
  "text_ok t \<longleftrightarrow> length t < elementSizeLimit \<and> (\<forall>c \<in> set t. b64_ok False c \<or> c = ch 10)"

text \<open>A token that is no \<open>pre\<close> tag and no error.\<close>

fun neutral :: "html_token \<Rightarrow> bool" where
  "neutral (ErrorToken e) \<longleftrightarrow> False"
| "neutral (StartTagToken tn) \<longleftrightarrow> tn \<noteq> ''pre''"
| "neutral (EndTagToken tn) \<longleftrightarrow> tn \<noteq> ''pre''"
| "neutral _ \<longleftrightarrow> True"

text \<open>
  What an element encoder has written: closed elements and, when a counter is not zero, an open one.
\<close>

definition written :: "string \<Rightarrow> string \<Rightarrow> elementEncoder \<Rightarrow> bool" where
  "written base chars enc \<longleftrightarrow>
     (\<exists>es t. wroom (ee_w enc) = None \<and> chunkCounter enc < bytesPerChunk \<and> elementCounter enc < chunksPerElement \<and>
        wout (ee_w enc) = base @ concat (map wrap es) @
          (if elementCounter enc = 0 \<and> chunkCounter enc = 0 then [] else ''<pre>'' @ [ch 10] @ t) \<and>
        length t = elementCounter enc * 33 + chunkCounter enc \<and> solid (concat es @ t) = chars \<and>
        (\<forall>c \<in> set t. b64_ok False c \<or> c = ch 10) \<and> (\<forall>e \<in> set es. text_ok e))"

text \<open>
  A tokenizer for documents of this form, an instance of the argument of the theorem below: the boilerplate is
  one token, then come the elements.
\<close>

fun element_tokens :: "nat \<Rightarrow> string \<Rightarrow> html_token list" where
  "element_tokens 0 s = []"
| "element_tokens (Suc n) s =
     (if take 6 s = ''<pre>'' @ [ch 10] then
        (let t = takeWhile (\<lambda>c. c \<noteq> CHR ''<'') (drop 6 s) in
         wrap_tokens t @ element_tokens n (drop (6 + length t + 7) s))
      else [])"

definition document_tokens :: "string \<Rightarrow> html_token list" where
  "document_tokens s =
     [OtherToken] @ element_tokens (length s) (drop (length boilerplateStart) s) @ [OtherToken] @ [ErrorToken io_EOF]"

section \<open>Lemmas\<close>

lemma limits [simp]: "elementSizeLimit = 32768" "bytesPerChunk = 32" "chunksPerElement = 992"
  by (simp_all add: elementSizeLimit_def bytesPerChunk_def chunksPerElement_def)

lemma b64_ok_solid: "b64_ok url c \<Longrightarrow> \<not> isASCIIWhitespace c"
  by (auto simp: b64_ok_def isASCIIWhitespace_def)

lemma solid_ok: "\<forall>c \<in> set s. b64_ok False c \<Longrightarrow> solid s = s"
  using b64_ok_solid by (auto simp: solid_def filter_id_conv)

lemma solid_append [simp]: "solid (a @ b) = solid a @ solid b" "solid [ch 10] = []" "solid [] = []"
  by (simp_all add: solid_def isASCIIWhitespace_def)

lemma round_written:
  assumes "written base chars enc" "p \<noteq> []" "\<forall>c \<in> set p. b64_ok False c"
  shows "\<exists>tot' enc'. element_round tot enc p = Inr (tot', enc', drop (32 - chunkCounter enc) p) \<and>
    written base (chars @ take (32 - chunkCounter enc) p) enc'"
proof -
  obtain es t where t: "wroom (ee_w enc) = None" "chunkCounter enc < 32" "elementCounter enc < 992"
      "wout (ee_w enc) = base @ concat (map wrap es) @
         (if elementCounter enc = 0 \<and> chunkCounter enc = 0 then [] else ''<pre>'' @ [ch 10] @ t)"
      "length t = elementCounter enc * 33 + chunkCounter enc" "solid (concat es @ t) = chars"
      "\<forall>c \<in> set t. b64_ok False c \<or> c = ch 10" "\<forall>e \<in> set es. text_ok e"
    using assms(1) by (auto simp: written_def)
  define n where "n = min (32 - chunkCounter enc) (length p)"
  define t1 where "t1 = t @ take n p"
  have n: "0 < n" "drop n p = drop (32 - chunkCounter enc) p" "take n p = take (32 - chunkCounter enc) p"
      "chunkCounter enc + n \<le> 32" "length t1 = elementCounter enc * 33 + (chunkCounter enc + n)"
    using assms(2) t(2,5) by (auto simp: n_def t1_def min_def)
  have ok: "\<forall>c \<in> set (take n p). b64_ok False c" using assms(3) by (auto dest: in_set_takeD)
  then have t1: "\<forall>c \<in> set t1. b64_ok False c \<or> c = ch 10" "solid (concat es @ t1) = chars @ take n p"
    using t(6,7) by (auto simp: t1_def solid_ok)
  define B where "B = base @ concat (map wrap es)"
  define w0 where "w0 = (ee_w enc)\<lparr>wout := B @ ''<pre>'' @ [ch 10] @ t\<rparr>"
  define w where "w = (ee_w enc)\<lparr>wout := B @ ''<pre>'' @ [ch 10] @ t1\<rparr>"
  have empty: "elementCounter enc = 0 \<and> chunkCounter enc = 0 \<Longrightarrow> t = []" using t(5) by simp
  obtain k where first: "(if elementCounter enc = 0 \<and> chunkCounter enc = 0 then Write (ee_w enc) (''<pre>'' @ [ch 10])
      else ((0, None), ee_w enc)) = ((k, None), w0)"
    using t(1,4) empty by (cases "elementCounter enc = 0 \<and> chunkCounter enc = 0") (auto simp: Write_def w0_def B_def)
  obtain m where second: "Write w0 (take n p) = ((m, None), w)"
    using t(1) by (auto simp: Write_def w0_def w_def t1_def)
  have wr: "wroom w = None" "wout w = B @ ''<pre>'' @ [ch 10] @ t1" using t(1) by (simp_all add: w_def)
  define enc1 where "enc1 = enc\<lparr>ee_w := w, chunkCounter := chunkCounter enc + n\<rparr>"
  have round: "element_round tot enc p =
      (case (if 32 \<le> chunkCounter enc1
             then apsnd (\<lambda>w. enc1\<lparr>ee_w := w, chunkCounter := 0, elementCounter := elementCounter enc1 + 1\<rparr>)
                    (Write w [ch 10])
             else ((0, None), enc1)) of
         ((_, Some e), enc) \<Rightarrow> Inl ((tot + m, Some e), enc)
       | ((nn, None), enc) \<Rightarrow>
           (let tot = tot + m + nn in
            case (if 992 \<le> elementCounter enc
                  then apsnd (\<lambda>w. enc\<lparr>ee_w := w, elementCounter := 0\<rparr>) (Write (ee_w enc) (''</pre>'' @ [ch 10]))
                  else ((0, None), enc)) of
              ((_, Some e), enc) \<Rightarrow> Inl ((tot, Some e), enc)
            | ((nn, None), enc) \<Rightarrow> Inr (tot + nn, enc, drop n p)))"
    unfolding element_round_def first Let_def prod.case option.case using second
    by (simp add: enc1_def n_def [symmetric] del: take_eq_Nil)
  consider (small) "chunkCounter enc + n < 32" | (chunk) "chunkCounter enc + n = 32" "elementCounter enc + 1 < 992"
    | (close) "chunkCounter enc + n = 32" "elementCounter enc + 1 = 992"
    using n(4) t(3) by linarith
  then show ?thesis
  proof cases
    case small
    have "written base (chars @ take n p) enc1"
      unfolding written_def
      by (rule exI [of _ es], rule exI [of _ t1])
        (use small t n wr t1 in \<open>auto simp: enc1_def B_def\<close>)
    then show ?thesis using round small t(3) by (simp add: enc1_def n(2,3))
  next
    case chunk
    let ?enc = "enc1\<lparr>ee_w := w\<lparr>wout := wout w @ [ch 10]\<rparr>, chunkCounter := 0, elementCounter := elementCounter enc + 1\<rparr>"
    have "written base (chars @ take n p) ?enc"
      unfolding written_def
      by (rule exI [of _ es], rule exI [of _ "t1 @ [ch 10]"])
        (use chunk t n wr t1 in \<open>auto simp: enc1_def B_def\<close>)
    moreover have "Write w [ch 10] = ((1, None), w\<lparr>wout := wout w @ [ch 10]\<rparr>)" using wr by (simp add: Write_def)
    ultimately show ?thesis using round chunk by (simp add: enc1_def n(2,3))
  next
    case close
    let ?w1 = "w\<lparr>wout := wout w @ [ch 10]\<rparr>"
    let ?w2 = "w\<lparr>wout := wout w @ [ch 10] @ ''</pre>'' @ [ch 10]\<rparr>"
    let ?enc = "enc1\<lparr>chunkCounter := 0, ee_w := ?w2, elementCounter := 0\<rparr>"
    have "text_ok (t1 @ [ch 10])" using t1(1) n(5) close by (auto simp: text_ok_def)
    then have "written base (chars @ take n p) ?enc"
      unfolding written_def
      by (intro exI [of _ "es @ [t1 @ [ch 10]]"] exI [of _ "[]"])
        (use close t n wr t1 in \<open>auto simp: enc1_def B_def wrap_def\<close>)
    moreover have "Write w [ch 10] = ((1, None), ?w1)" "Write ?w1 (''</pre>'' @ [ch 10]) = ((7, None), ?w2)"
      using wr by (simp_all add: Write_def)
    ultimately show ?thesis using round close by (simp add: enc1_def n(2,3))
  qed
qed

lemma loop_written:
  assumes "written base chars enc" "\<forall>c \<in> set p. b64_ok False c"
  shows "\<exists>tot' enc'. element_loop tot enc p = ((tot', None), enc') \<and> written base (chars @ p) enc'"
  using assms
proof (induction "length p" arbitrary: tot enc p chars rule: less_induct)
  case less
  show ?case
  proof (cases "p = []")
    case True
    with less.prems show ?thesis by (simp add: element_loop.simps)
  next
    case False
    let ?k = "32 - chunkCounter enc"
    obtain tot' enc' where r: "element_round tot enc p = Inr (tot', enc', drop ?k p)" "written base (chars @ take ?k p) enc'"
      using round_written [OF less.prems(1) False less.prems(2)] by blast
    have "chunkCounter enc < 32" using less.prems(1) by (auto simp: written_def)
    then have "length (drop ?k p) < length p" using False by (simp flip: length_greater_0_conv)
    moreover have "\<forall>c \<in> set (drop ?k p). b64_ok False c" using less.prems(2) by (auto dest: in_set_dropD)
    ultimately obtain tot2 enc2 where "element_loop tot' enc' (drop ?k p) = ((tot2, None), enc2)"
        "written base ((chars @ take ?k p) @ drop ?k p) enc2"
      using less.hyps [OF _ r(2), of "drop ?k p" tot'] by blast
    then show ?thesis using r False by (subst element_loop.simps) simp
  qed
qed

lemma close_written:
  assumes "written base chars enc"
  shows "\<exists>enc' es. element_Close enc = (None, enc') \<and> wroom (ee_w enc') = None \<and>
    wout (ee_w enc') = base @ concat (map wrap es) \<and> solid (concat es) = chars \<and> (\<forall>e \<in> set es. text_ok e)"
proof -
  obtain es t where t: "wroom (ee_w enc) = None" "chunkCounter enc < 32" "elementCounter enc < 992"
      "wout (ee_w enc) = base @ concat (map wrap es) @
         (if elementCounter enc = 0 \<and> chunkCounter enc = 0 then [] else ''<pre>'' @ [ch 10] @ t)"
      "length t = elementCounter enc * 33 + chunkCounter enc" "solid (concat es @ t) = chars"
      "\<forall>c \<in> set t. b64_ok False c \<or> c = ch 10" "\<forall>e \<in> set es. text_ok e"
    using assms by (auto simp: written_def)
  have W: "Write (ee_w enc) s = ((length s, None), (ee_w enc)\<lparr>wout := wout (ee_w enc) @ s\<rparr>)" for s
    using t(1) by (simp add: Write_def)
  consider (none) "elementCounter enc = 0" "chunkCounter enc = 0" | (full) "elementCounter enc \<noteq> 0" "chunkCounter enc = 0"
    | (part) "chunkCounter enc \<noteq> 0" by blast
  then show ?thesis
  proof cases
    case none
    then show ?thesis using t by (intro exI [of _ enc] exI [of _ es]) (simp add: element_Close_def)
  next
    case full
    have "text_ok t" using t(3,5,7) full by (auto simp: text_ok_def)
    with full t show ?thesis
      by (intro exI exI [of _ "es @ [t]"]) (auto simp: element_Close_def W wrap_def)
  next
    case part
    have "text_ok (t @ [ch 10])" using t(2,3,5,7) by (auto simp: text_ok_def)
    with part t show ?thesis
      by (intro exI exI [of _ "es @ [t @ [ch 10]]"]) (auto simp: element_Close_def W wrap_def)
  qed
qed

lemma b64_encode_append: "length a mod 3 = 0 \<Longrightarrow> b64_encode url (a @ b) = b64_encode url a @ b64_encode url b"
proof (induction url a rule: b64_encode.induct)
  case (4 url x y z s)
  then show ?case by (simp add: Let_def)
qed auto

text \<open>An armor encoder that has been given the data \<open>d\<close>.\<close>

definition armored :: "string \<Rightarrow> armorEncoder \<Rightarrow> bool" where
  "armored d enc \<longleftrightarrow> ae_err enc = None \<and>
     (\<exists>done. d = done @ ae_buf enc \<and> length done mod 3 = 0 \<and>
        written boilerplateStart (''0'' @ b64_encode False done) (ae_element enc))"

lemma element_Write_written:
  assumes "written base chars enc" "\<forall>c \<in> set p. b64_ok False c"
  obtains n enc' where "element_Write enc p = ((n, None), enc')" "written base (chars @ p) enc'"
  using loop_written [OF assms, of 0] by (auto simp: element_Write_def)

lemma b64_all_ok: "\<forall>c \<in> set (b64_encode url s). b64_ok url c"
  using b64_ok_encode by blast

lemma armor_Write_armored: "armored d enc \<Longrightarrow> armored (d @ p) (snd (armor_Write enc p))"
proof -
  assume "armored d enc"
  then obtain dn where d: "ae_err enc = None" "d = dn @ ae_buf enc" "length dn mod 3 = 0"
      "written boilerplateStart (''0'' @ b64_encode False dn) (ae_element enc)"
    by (auto simp: armored_def)
  let ?b = "ae_buf enc @ p"
  let ?k = "length ?b div 3 * 3"
  obtain n el where w: "element_Write (ae_element enc) (b64_encode False (take ?k ?b)) = ((n, None), el)"
      "written boilerplateStart ((''0'' @ b64_encode False dn) @ b64_encode False (take ?k ?b)) el"
    using element_Write_written [OF d(4) b64_all_ok] by blast
  have k: "?k \<le> length ?b" by simp
  show ?thesis
  proof (cases "?k = 0")
    case True
    then show ?thesis using d by (simp add: armor_Write_def armored_def Let_def)
  next
    case False
    have "length (dn @ take ?k ?b) = length dn + ?k" unfolding length_append [of dn] length_take min_absorb2 [OF k] ..
    then have "length (dn @ take ?k ?b) mod 3 = 0" using d(3) by (simp only: mod_mult_self1)
    moreover have "written boilerplateStart (''0'' @ b64_encode False (dn @ take ?k ?b)) el"
      using w(2) by (simp only: b64_encode_append [OF d(3)] append_assoc)
    moreover have "d @ p = (dn @ take ?k ?b) @ drop ?k ?b"
      unfolding d(2) append_assoc append_take_drop_id ..
    ultimately show ?thesis using d(1) w(1) False
      unfolding armor_Write_def armored_def Let_def by auto
  qed
qed

lemma armor_encode_doc:
  "\<exists>es. armor_encode ps = Inr (boilerplateStart @ concat (map wrap es) @ boilerplateEnd) \<and>
     solid (concat es) = ''0'' @ b64_encode False (concat ps) \<and> (\<forall>e \<in> set es. text_ok e)"
proof -
  let ?w = "\<lparr>wout = boilerplateStart, wroom = None, werr = io_ErrClosedPipe\<rparr>"
  have "written boilerplateStart [] \<lparr>ee_w = ?w, chunkCounter = 0, elementCounter = 0\<rparr>"
    unfolding written_def by (rule exI [of _ "[]"], rule exI [of _ "[]"]) simp
  moreover have "\<forall>c \<in> set ''0''. b64_ok False c" by (simp add: b64_ok_def)
  ultimately obtain n el where "element_Write \<lparr>ee_w = ?w, chunkCounter = 0, elementCounter = 0\<rparr> ''0'' = ((n, None), el)"
      "written boilerplateStart ([] @ ''0'') el"
    by (rule element_Write_written)
  then have new: "NewArmorEncoder (bytes_Buffer []) = (Inr \<lparr>ae_buf = [], ae_err = None, ae_element = el\<rparr>, ee_w el)"
    and "armored [] \<lparr>ae_buf = [], ae_err = None, ae_element = el\<rparr>"
    by (auto simp: NewArmorEncoder_def bytes_Buffer_def Write_def armored_def)
  from this(2) have *: "armored ([] @ concat ps) (fold (\<lambda>p enc. snd (armor_Write enc p)) ps
      \<lparr>ae_buf = [], ae_err = None, ae_element = el\<rparr>)"
  proof (induction ps arbitrary: el rule: rev_induct)
    case (snoc p ps)
    then show ?case using armor_Write_armored by fastforce
  qed simp
  define enc where "enc = fold (\<lambda>p enc. snd (armor_Write enc p)) ps \<lparr>ae_buf = [], ae_err = None, ae_element = el\<rparr>"
  obtain dn where d: "ae_err enc = None" "concat ps = dn @ ae_buf enc" "length dn mod 3 = 0"
      "written boilerplateStart (''0'' @ b64_encode False dn) (ae_element enc)"
    using * unfolding enc_def [symmetric] by (auto simp: armored_def)
  obtain n el2 where w: "element_Write (ae_element enc) (b64_encode False (ae_buf enc)) = ((n, None), el2)"
      "written boilerplateStart ((''0'' @ b64_encode False dn) @ b64_encode False (ae_buf enc)) el2"
    using element_Write_written [OF d(4) b64_all_ok] by blast
  obtain el1 where el1: "(if ae_err enc = None \<and> ae_buf enc \<noteq> [] then
        (case element_Write (ae_element enc) (b64_encode False (ae_buf enc)) of
           ((_, e), el) \<Rightarrow> (e, enc\<lparr>ae_err := e, ae_buf := [], ae_element := el\<rparr>))
      else (ae_err enc, enc)) = (None, enc\<lparr>ae_buf := [], ae_element := el1\<rparr>)"
    and wr: "written boilerplateStart (''0'' @ b64_encode False (concat ps)) el1"
  proof (cases "ae_buf enc = []")
    case True
    then show thesis using that [of "ae_element enc"] d by simp
  next
    case False
    have "written boilerplateStart (''0'' @ b64_encode False (concat ps)) el2"
      using w(2) unfolding d(2) by (simp only: b64_encode_append [OF d(3)] append_assoc)
    then show thesis using that [of el2] w(1) d(1) False by simp
  qed
  obtain el3 es where c: "element_Close el1 = (None, el3)" "wroom (ee_w el3) = None"
      "wout (ee_w el3) = boilerplateStart @ concat (map wrap es)" "solid (concat es) = ''0'' @ b64_encode False (concat ps)"
      "\<forall>e \<in> set es. text_ok e"
    using close_written [OF wr] by blast
  have "armor_encode ps = Inr (boilerplateStart @ concat (map wrap es) @ boilerplateEnd)"
    unfolding armor_encode_def new prod.case sum.case enc_def [symmetric] armor_Close_def el1 option.case
    using c by (simp add: Write_def)
  with c show ?thesis by blast
qed

lemma takeWhile_solid: "solid (takeWhile isASCIIWhitespace s) = []" "solid (takeWhile (Not \<circ> isASCIIWhitespace) s) = takeWhile (Not \<circ> isASCIIWhitespace) s"
  by (auto simp: solid_def filter_empty_conv filter_id_conv dest: set_takeWhileD)

lemma concat_scan_words: "concat (scan_words t) = solid t"
proof (induction "length t" arbitrary: t rule: less_induct)
  case less
  let ?ws = "takeWhile isASCIIWhitespace t" and ?r = "dropWhile isASCIIWhitespace t"
  let ?w = "takeWhile (Not \<circ> isASCIIWhitespace) ?r" and ?r' = "dropWhile (Not \<circ> isASCIIWhitespace) ?r"
  have t: "t = ?ws @ ?w @ ?r'" by simp
  have len: "length t = length ?ws + length ?w + length ?r'" by (subst (1) t) (simp only: length_append add.assoc)
  have solid: "solid t = ?w @ solid ?r'" by (subst (1) t) (simp only: solid_append takeWhile_solid append_Nil)
  show ?case
  proof (cases "?r' = []")
    case True
    show ?thesis
    proof (cases "?w = []")
      case True
      have "splitASCIIWhitespace t True = (length ?ws, None)"
        using len \<open>?r' = []\<close> True unfolding splitASCIIWhitespace_def Let_def by simp
      then show ?thesis using solid True \<open>?r' = []\<close> by (subst scan_words.simps) (simp add: solid_def)
    next
      case False
      have "splitASCIIWhitespace t True = (length t, Some ?w)"
        using len \<open>?r' = []\<close> False unfolding splitASCIIWhitespace_def Let_def by simp
      moreover have "scan_words [] = []" by (subst scan_words.simps) (simp add: splitASCIIWhitespace_def)
      moreover have "t \<noteq> []" using False by auto
      ultimately show ?thesis using solid \<open>?r' = []\<close> by (subst scan_words.simps) (simp add: solid_def)
    qed
  next
    case False
    then obtain c r where r': "?r' = c # r" by (cases ?r') auto
    have ws: "isASCIIWhitespace c" using r' by (metis comp_apply dropWhile_eq_Cons_conv)
    have "splitASCIIWhitespace t True = (length ?ws + length ?w + 1, Some ?w)"
      using len r' unfolding splitASCIIWhitespace_def Let_def by simp
    moreover have "drop (length ?ws + length ?w + 1) t = r" by (subst (3) t, subst r') simp
    moreover have "t \<noteq> []" using len r' by auto
    moreover have "length r < length t" using len r' by simp
    moreover have "solid ?r' = solid r" using ws by (simp add: r' solid_def)
    ultimately show ?thesis using solid less [of r] by (subst scan_words.simps) simp
  qed
qed

lemma scan_words_short:
  assumes "w \<in> set (scan_words t)"
  shows "length w \<le> length t"
proof -
  have "length w \<le> length (concat (scan_words t))" using assms by (induction "scan_words t" arbitrary: t) (auto simp: split_list dest: split_list)
  then show ?thesis unfolding concat_scan_words solid_def using length_filter_le le_trans by blast
qed

lemma decode_neutral: "\<forall>t \<in> set ts. neutral t \<Longrightarrow> decode_tokens False out (ts @ us) = decode_tokens False out us"
proof (induction ts)
  case (Cons t ts)
  then show ?case by (cases t) auto
qed simp

lemma decode_elements:
  "\<forall>e \<in> set es. text_ok e \<Longrightarrow> decode_tokens False out (concat (map wrap_tokens es) @ us) =
     decode_tokens False (out @ solid (concat es)) us"
proof (induction es arbitrary: out)
  case (Cons e es)
  have "\<not> (\<exists>w \<in> set (scan_words (ch 10 # e)). 65536 \<le> length w)"
    using Cons.prems scan_words_short [of _ "ch 10 # e"] by (fastforce simp: text_ok_def)
  moreover have "solid (ch 10 # e) = solid e" using solid_append(1) [of "[ch 10]" e] by simp
  ultimately show ?case using Cons by (simp add: wrap_tokens_def concat_scan_words)
qed simp

lemma element_tokens_round:
  assumes "text_ok e"
  shows "element_tokens (Suc m) (wrap e @ r) = wrap_tokens e @ element_tokens m r"
proof -
  have "c \<noteq> CHR ''<''" if "c \<in> set e" for c
  proof -
    have "b64_ok False c \<or> c = ch 10" using assms that unfolding text_ok_def by (elim conjE) (rule bspec)
    moreover have "ch 10 \<noteq> CHR ''<''" by (rule notI, drule arg_cong [where f = code]) simp
    ultimately show ?thesis by (auto simp: b64_ok_def)
  qed
  then have tw: "takeWhile (\<lambda>c. c \<noteq> CHR ''<'') (e @ CHR ''<'' # x) = e" for x by (subst takeWhile_append2) auto
  have s: "take 6 (wrap e @ r) = ''<pre>'' @ [ch 10]" "drop 6 (wrap e @ r) = e @ CHR ''<'' # (''/pre>'' @ [ch 10] @ r)"
    by (simp_all add: wrap_def)
  have "drop (6 + length e + 7) (wrap e @ r) = drop 7 (drop (length e) (drop 6 (wrap e @ r)))"
    by (simp only: drop_drop add.commute add.left_commute)
  then have dr: "drop (6 + length e + 7) (wrap e @ r) = r" unfolding s(2) by simp
  show ?thesis unfolding element_tokens.simps Let_def s tw dr by (rule if_P) (rule refl)
qed

lemma element_tokens_wrap:
  "\<lbrakk>\<forall>e \<in> set es. text_ok e; length es \<le> n\<rbrakk> \<Longrightarrow>
     element_tokens n (concat (map wrap es) @ boilerplateEnd) = concat (map wrap_tokens es)"
proof (induction es arbitrary: n)
  case Nil
  show ?case by (cases n) (simp_all add: boilerplateEnd_def)
next
  case (Cons e es)
  obtain m where m: "n = Suc m" "length es \<le> m" using Cons.prems(2) by (cases n) auto
  have "text_ok e" "\<forall>e \<in> set es. text_ok e" using Cons.prems(1) by simp_all
  then show ?case
    unfolding m(1) list.map concat.simps append_assoc by (simp only: element_tokens_round Cons.IH m(2))
qed

lemma document_tokens_wrap:
  assumes "\<forall>e \<in> set es. text_ok e"
  shows "document_tokens (boilerplateStart @ concat (map wrap es) @ boilerplateEnd) =
    [OtherToken] @ concat (map wrap_tokens es) @ [OtherToken] @ [ErrorToken io_EOF]"
proof -
  define n where "n = length (boilerplateStart @ concat (map wrap es) @ boilerplateEnd)"
  have "length es \<le> length (concat (map wrap es))" by (induction es) (auto simp: wrap_def)
  then have n: "length es \<le> n" unfolding n_def length_append by linarith
  have "drop (length boilerplateStart) (boilerplateStart @ x) = x" for x by simp
  then show ?thesis unfolding document_tokens_def n_def [symmetric] by (simp only: element_tokens_wrap [OF assms n])
qed

text \<open>
  The count that \<open>(*elementEncoder).Write\<close> returns has the line ends and end tags it adds, so it may be more
  than the length of the data.
\<close>

lemma element_Write_counts_more:
  "fst (element_Write \<lparr>ee_w = bytes_Buffer [], chunkCounter = 31, elementCounter = 991\<rparr> ''A'') = (9, None)"
  by (simp add: element_Write_def element_loop.simps element_round_def bytes_Buffer_def Write_def)

lemma DecodePath_EncodePath: "DecodePath (EncodePath cacheBreaker data) = Inr data"
proof -
  have "CHR ''/'' \<notin> set (b64_encode True data)" using b64_ok_encode [of _ True data] by (auto simp: b64_ok_def)
  then have "takeWhile (\<lambda>d. d \<noteq> CHR ''/'') (rev (b64_encode True data) @ CHR ''/'' # x) = rev (b64_encode True data)" for x
    by (subst takeWhile_append2) auto
  then have "split_last (CHR ''/'') (b64_encode True cacheBreaker @ CHR ''/'' # b64_encode True data) =
      Some (b64_encode True cacheBreaker, b64_encode True data)"
    by (simp add: split_last_def Let_def)
  then show ?thesis by (simp add: EncodePath_def DecodePath_def b64_decode_encode)
qed

lemma armor_decode_encode:
  assumes "\<And>es. \<forall>e \<in> set es. text_ok e \<Longrightarrow>
      tokens (boilerplateStart @ concat (map wrap es) @ boilerplateEnd) =
        pre @ concat (map wrap_tokens es) @ post @ [ErrorToken io_EOF]"
    and "\<forall>t \<in> set (pre @ post). neutral t"
  shows "(case armor_encode ps of Inl e \<Rightarrow> Inl e | Inr doc \<Rightarrow> armor_decode (tokens doc)) = Inr (concat ps)"
proof -
  obtain es where es: "armor_encode ps = Inr (boilerplateStart @ concat (map wrap es) @ boilerplateEnd)"
      "solid (concat es) = ''0'' @ b64_encode False (concat ps)" "\<forall>e \<in> set es. text_ok e"
    using armor_encode_doc by blast
  have "decodeToWriter (tokens (boilerplateStart @ concat (map wrap es) @ boilerplateEnd)) =
      (CHR ''0'' # b64_encode False (concat ps), None)"
    using assms(2) es(2) decode_neutral [of post _ "[ErrorToken io_EOF]"]
    by (simp add: assms(1) [OF es(3)] decodeToWriter_def decode_neutral decode_elements [OF es(3)])
  then show ?thesis by (simp add: es(1) armor_decode_def b64_decode_encode)
qed

subsection \<open>The size of a document\<close>

text \<open>A round takes at least one byte and writes at most fourteen more than it takes.\<close>

lemma element_round_size:
  assumes "wroom (ee_w enc) = None" "chunkCounter enc < 32" "p \<noteq> []"
  shows "\<exists>tot' enc' p'. element_round tot enc p = Inr (tot', enc', p') \<and> wroom (ee_w enc') = None \<and> chunkCounter enc' < 32 \<and>
    length p' < length p \<and> length (wout (ee_w enc')) + 15 * length p' \<le> length (wout (ee_w enc)) + 15 * length p"
proof -
  define n where "n = min (32 - chunkCounter enc) (length p)"
  have n: "1 \<le> n" "n \<le> length p" using assms(2,3) by (auto simp: n_def Suc_le_eq)
  have W: "wroom w = None \<Longrightarrow> Write w x = ((length x, None), w\<lparr>wout := wout w @ x\<rparr>)" for w :: "char gen_writer" and x
    by (simp add: Write_def)
  have "\<exists>tot' enc'. element_round tot enc p = Inr (tot', enc', drop n p) \<and> wroom (ee_w enc') = None \<and>
      length (wout (ee_w enc')) \<le> length (wout (ee_w enc)) + n + 14"
    unfolding element_round_def Let_def bytesPerChunk_def
    using assms(1) n(2) by (simp add: W n_def [symmetric] apsnd_def map_prod_def)
  then obtain tot' enc' p' where r: "element_round tot enc p = Inr (tot', enc', p')" "p' = drop n p" "wroom (ee_w enc') = None"
      "length (wout (ee_w enc')) \<le> length (wout (ee_w enc)) + n + 14" by blast
  have "chunkCounter enc' < 32" using element_round_progress [OF r(1)] by (simp add: bytesPerChunk_def)
  moreover have "length p = n + length p'" using n r(2) by simp
  then have "length p' < length p" "length (wout (ee_w enc')) + 15 * length p' \<le> length (wout (ee_w enc)) + 15 * length p"
    using n(1) r(4) by linarith+
  ultimately show ?thesis using r(1,3) by blast
qed

lemma element_loop_size:
  "wroom (ee_w enc) = None \<Longrightarrow> chunkCounter enc < 32 \<Longrightarrow>
   \<exists>n enc'. element_loop tot enc p = ((n, None), enc') \<and> wroom (ee_w enc') = None \<and> chunkCounter enc' < 32 \<and>
     length (wout (ee_w enc')) \<le> length (wout (ee_w enc)) + 15 * length p"
proof (induction "length p" arbitrary: tot enc p rule: less_induct)
  case less
  show ?case
  proof (cases "p = []")
    case False
    obtain tot' enc' p' where r: "element_round tot enc p = Inr (tot', enc', p')" "wroom (ee_w enc') = None" "chunkCounter enc' < 32"
        "length p' < length p" "length (wout (ee_w enc')) + 15 * length p' \<le> length (wout (ee_w enc)) + 15 * length p"
      using element_round_size [OF less.prems False, of tot] by blast
    obtain n enc'' where "element_loop tot' enc' p' = ((n, None), enc'')" "wroom (ee_w enc'') = None" "chunkCounter enc'' < 32"
        "length (wout (ee_w enc'')) \<le> length (wout (ee_w enc')) + 15 * length p'"
      using less.hyps [OF r(4,2,3), of tot'] by blast
    with r False show ?thesis by (subst element_loop.simps) auto
  qed (use less.prems in \<open>simp add: element_loop.simps\<close>)
qed

lemma b64_encode_length: "length (b64_encode url s) \<le> 4 * ((length s + 2) div 3)"
proof (induction url s rule: b64_encode.induct)
  case (4 url x y z s)
  have "(5 + length s) div 3 = Suc (Suc (Suc (length s)) div 3)" by presburger
  with 4 show ?case by (simp add: Let_def)
qed (simp_all add: Let_def)

lemma element_Close_size:
  "wroom (ee_w enc) = None \<Longrightarrow> \<exists>enc'. element_Close enc = (None, enc') \<and> wroom (ee_w enc') = None \<and>
     length (wout (ee_w enc')) \<le> length (wout (ee_w enc)) + 8"
  by (simp add: element_Close_def Write_def)

lemma element_Write_if_size:
  assumes "wroom (ee_w enc) = None" "chunkCounter enc < 32"
  shows "\<exists>m enc'. (if b then ((0, None), enc) else element_Write enc x) = ((m, None), enc') \<and> wroom (ee_w enc') = None \<and>
    chunkCounter enc' < 32 \<and> length (wout (ee_w enc')) \<le> length (wout (ee_w enc)) + 15 * length x"
  using element_loop_size [OF assms, of 0 x] assms by (cases b) (simp_all add: element_Write_def)

lemma armor_encode_size:
  assumes "armor_encode [p] = Inr doc"
  shows "length doc \<le> length boilerplateStart + length boilerplateEnd + 60 * ((length p + 2) div 3) + 83"
proof -
  have W: "wroom w = None \<Longrightarrow> Write w x = ((length x, None), w\<lparr>wout := wout w @ x\<rparr>)" for w :: "char gen_writer" and x
    by (simp add: Write_def)
  let ?w = "\<lparr>wout = boilerplateStart, wroom = None, werr = io_ErrClosedPipe\<rparr>"
  obtain n el where el: "element_Write \<lparr>ee_w = ?w, chunkCounter = 0, elementCounter = 0\<rparr> ''0'' = ((n, None), el)"
      "wroom (ee_w el) = None" "chunkCounter el < 32" "length (wout (ee_w el)) \<le> length boilerplateStart + 15"
    using element_loop_size [of "\<lparr>ee_w = ?w, chunkCounter = 0, elementCounter = 0\<rparr>" 0 "''0''"] by (auto simp: element_Write_def)
  define k where "k = length p div 3 * 3"
  obtain m el1 where el1: "(if k = 0 then ((0, None), el) else element_Write el (b64_encode False (take k p))) = ((m, None), el1)"
      "wroom (ee_w el1) = None" "chunkCounter el1 < 32"
      "length (wout (ee_w el1)) \<le> length (wout (ee_w el)) + 15 * length (b64_encode False (take k p))"
    using element_Write_if_size [OF el(2,3)] by blast
  obtain m2 el2 where el2: "(if drop k p = [] then ((0, None), el1) else element_Write el1 (b64_encode False (drop k p))) = ((m2, None), el2)"
      "wroom (ee_w el2) = None" "length (wout (ee_w el2)) \<le> length (wout (ee_w el1)) + 15 * length (b64_encode False (drop k p))"
    using element_Write_if_size [OF el1(2,3)] by blast
  obtain el3 where el3: "element_Close el2 = (None, el3)" "wroom (ee_w el3) = None" "length (wout (ee_w el3)) \<le> length (wout (ee_w el2)) + 8"
    using element_Close_size [OF el2(2)] by blast
  have new: "NewArmorEncoder (bytes_Buffer []) = (Inr \<lparr>ae_buf = [], ae_err = None, ae_element = el\<rparr>, ee_w el)"
    using el(1) by (simp add: NewArmorEncoder_def bytes_Buffer_def Write_def)
  have wrote: "snd (armor_Write \<lparr>ae_buf = [], ae_err = None, ae_element = el\<rparr> p) = \<lparr>ae_buf = drop k p, ae_err = None, ae_element = el1\<rparr>"
    using el1(1) by (auto simp: armor_Write_def Let_def k_def split: if_splits)
  have "armor_encode [p] = Inr (wout (ee_w el3) @ boilerplateEnd)"
    using el2(1) el3(1,2) unfolding armor_encode_def new prod.case sum.case fold_simps wrote
    by (cases "drop k p = []") (simp_all add: armor_Close_def W)
  moreover have "length (b64_encode False (take k p)) + length (b64_encode False (drop k p)) \<le> 4 * ((length p + 2) div 3) + 4"
  proof -
    define q where "q = length p div 3"
    have "length (take k p) = 3 * q" "length (drop k p) \<le> 2"
      using div_mult_mod_eq [of "length p" 3] mod_less_divisor [of 3 "length p"] unfolding k_def q_def length_take length_drop by linarith+
    then have "(length (take k p) + 2) div 3 = q" "(length (drop k p) + 2) div 3 \<le> 1" by simp_all
    moreover have "q \<le> (length p + 2) div 3" by (simp add: q_def div_le_mono)
    ultimately show ?thesis
      using b64_encode_length [of False "take k p"] b64_encode_length [of False "drop k p"] by linarith
  qed
  ultimately show ?thesis using assms el(4) el1(4) el2(3) el3(3) by simp
qed

lemma boilerplate_size: "length boilerplateStart + length boilerplateEnd \<le> 2000"
  by (simp add: boilerplateStart_def boilerplateEnd_def)

section \<open>Properties\<close>

text \<open> C32. The data of a request survives its encoding as a path, whatever the random bytes are.\<close>

theorem Path_roundtrip: "DecodePath (EncodePath cacheBreaker data) = Inr data"
  by (rule DecodePath_EncodePath)



end
