(* ===== verification/Go_Bytes.thy ===== *)
theory Go_Bytes
  imports Prelude
begin

unbundle bit_operations_syntax

text \<open>
  Byte slices as the decoders of \<open>src/dtls\<close> use them.  A computation returns a value, fails with an error, or
  panics: \<open>go\<close> keeps the three apart, so that a decoder that indexes past the end of its input is not a decoder
  that rejects it.  Indexing and slicing panic out of range, \<open>encoding/binary\<close> on a slice that is too short.
  (\<open>data[a:b]\<close> may reach the capacity of the slice, which is at least its length; here the bound is the length.)
\<close>

section \<open>Results\<close>

datatype 'a go = Ok 'a | Fail err | Panic

definition gbind :: "'a go \<Rightarrow> ('a \<Rightarrow> 'b go) \<Rightarrow> 'b go" where
  "gbind r f = (case r of Ok x \<Rightarrow> f x | Fail e \<Rightarrow> Fail e | Panic \<Rightarrow> Panic)"

definition gmap :: "('a \<Rightarrow> 'b) \<Rightarrow> 'a go \<Rightarrow> 'b go" where
  "gmap f r = gbind r (\<lambda>x. Ok (f x))"

text \<open>\<open>if err != nil { return e }\<close>: an error of the computation is replaced.\<close>

definition or_else :: "'a go \<Rightarrow> err \<Rightarrow> 'a go" where
  "or_else r e = (case r of Ok x \<Rightarrow> Ok x | Fail _ \<Rightarrow> Fail e | Panic \<Rightarrow> Panic)"

lemma gbind_simps [simp]: "gbind (Ok x) f = f x" "gbind (Fail e) f = Fail e" "gbind Panic f = Panic"
  by (simp_all add: gbind_def)

lemma gmap_simps [simp]: "gmap h (Ok x) = Ok (h x)" "gmap h (Fail e) = Fail e" "gmap h Panic = Panic"
  by (simp_all add: gmap_def)

lemma or_else_simps [simp]: "or_else (Ok x) e = Ok x" "or_else (Fail e') e = Fail e" "or_else Panic e = Panic"
  by (simp_all add: or_else_def)

lemma gbind_Ok_iff: "gbind r f = Ok y \<longleftrightarrow> (\<exists>x. r = Ok x \<and> f x = Ok y)"
  by (cases r) simp_all

lemma gmap_Ok_iff: "gmap h r = Ok y \<longleftrightarrow> (\<exists>x. r = Ok x \<and> h x = y)"
  by (cases r) simp_all

lemma gbind_Panic_iff: "gbind r f = Panic \<longleftrightarrow> r = Panic \<or> (\<exists>x. r = Ok x \<and> f x = Panic)"
  by (cases r) simp_all

lemma gmap_Panic_iff [simp]: "gmap h r = Panic \<longleftrightarrow> r = Panic"
  by (cases r) simp_all

lemma or_else_Panic_iff [simp]: "or_else r e = Panic \<longleftrightarrow> r = Panic"
  by (cases r) simp_all

section \<open>Slices\<close>

definition at :: "bytes \<Rightarrow> nat \<Rightarrow> byte go" where
  "at data i = (if i < length data then Ok (data ! i) else Panic)"

definition slice :: "bytes \<Rightarrow> nat \<Rightarrow> nat \<Rightarrow> bytes go" where
  "slice data a b = (if a \<le> b \<and> b \<le> length data then Ok (take (b - a) (drop a data)) else Panic)"

definition slice_from :: "bytes \<Rightarrow> nat \<Rightarrow> bytes go" where
  "slice_from data a = (if a \<le> length data then Ok (drop a data) else Panic)"

lemma at_append [simp]: "at (xs @ y # ys) (length xs) = Ok y"
  by (simp add: at_def)

lemma at_0 [simp]: "at (y # ys) 0 = Ok y"
  by (simp add: at_def)

lemma slice_append [simp]: "slice (xs @ ys @ zs) (length xs) (length xs + length ys) = Ok ys"
  by (simp add: slice_def)

lemma slice_from_append [simp]: "slice_from (xs @ ys) (length xs) = Ok ys"
  by (simp add: slice_from_def)

lemma at_Panic_iff [simp]: "at data i = Panic \<longleftrightarrow> length data \<le> i"
  by (simp add: at_def not_less)

lemma slice_Panic_iff [simp]: "slice data a b = Panic \<longleftrightarrow> b < a \<or> length data < b"
  by (auto simp: slice_def)

lemma slice_from_Panic_iff [simp]: "slice_from data a = Panic \<longleftrightarrow> length data < a"
  by (simp add: slice_from_def not_le)

lemma at_not_Fail [simp]: "at data i \<noteq> Fail e" "slice data a b \<noteq> Fail e" "slice_from data a \<noteq> Fail e"
  by (simp_all add: at_def slice_def slice_from_def)

section \<open>Big-endian numbers\<close>

type_synonym u16 = "16 word"
type_synonym u32 = "32 word"

text \<open>\<open>binary.BigEndian.PutUint16\<close> and the like, and \<open>PutBigEndianUint24\<close>, \<open>PutBigEndianUint48\<close>.\<close>

definition be16 :: "u16 \<Rightarrow> bytes" where
  "be16 w = [ucast (drop_bit 8 w), ucast w]"

definition PutBigEndianUint24 :: "u32 \<Rightarrow> bytes" where
  "PutBigEndianUint24 w = [ucast (drop_bit 16 w), ucast (drop_bit 8 w), ucast w]"

definition be32 :: "u32 \<Rightarrow> bytes" where
  "be32 w = [ucast (drop_bit 24 w), ucast (drop_bit 16 w), ucast (drop_bit 8 w), ucast w]"

definition be64 :: "u64 \<Rightarrow> bytes" where
  "be64 w = [ucast (drop_bit 56 w), ucast (drop_bit 48 w), ucast (drop_bit 40 w), ucast (drop_bit 32 w),
     ucast (drop_bit 24 w), ucast (drop_bit 16 w), ucast (drop_bit 8 w), ucast w]"

definition PutBigEndianUint48 :: "u64 \<Rightarrow> bytes" where
  "PutBigEndianUint48 w = drop 2 (be64 w)"

definition word16 :: "byte \<Rightarrow> byte \<Rightarrow> u16" where
  "word16 a b = push_bit 8 (ucast a) OR ucast b"

definition word32 :: "byte \<Rightarrow> byte \<Rightarrow> byte \<Rightarrow> byte \<Rightarrow> u32" where
  "word32 a b c d = push_bit 24 (ucast a) OR push_bit 16 (ucast b) OR push_bit 8 (ucast c) OR ucast d"

definition word64 :: "byte \<Rightarrow> byte \<Rightarrow> byte \<Rightarrow> byte \<Rightarrow> byte \<Rightarrow> byte \<Rightarrow> byte \<Rightarrow> byte \<Rightarrow> u64" where
  "word64 a b c d e f g h = push_bit 56 (ucast a) OR push_bit 48 (ucast b) OR push_bit 40 (ucast c) OR
     push_bit 32 (ucast d) OR push_bit 24 (ucast e) OR push_bit 16 (ucast f) OR push_bit 8 (ucast g) OR ucast h"

fun Uint16 :: "bytes \<Rightarrow> u16 go" where
  "Uint16 (a # b # _) = Ok (word16 a b)"
| "Uint16 _ = Panic"

fun Uint32 :: "bytes \<Rightarrow> u32 go" where
  "Uint32 (a # b # c # d # _) = Ok (word32 a b c d)"
| "Uint32 _ = Panic"

fun Uint64 :: "bytes \<Rightarrow> u64 go" where
  "Uint64 (a # b # c # d # e # f # g # h # _) = Ok (word64 a b c d e f g h)"
| "Uint64 _ = Panic"

fun BigEndianUint24 :: "bytes \<Rightarrow> u32" where
  "BigEndianUint24 (a # b # c # _) = word32 0 a b c"
| "BigEndianUint24 _ = 0"

text \<open>\<open>binary.BigEndian.Uint16(data[a:])\<close>.\<close>

definition u16_at :: "bytes \<Rightarrow> nat \<Rightarrow> u16 go" where
  "u16_at data a = gbind (slice_from data a) Uint16"

lemma length_be [simp]:
  "length (be16 w) = 2" "length (PutBigEndianUint24 v) = 3" "length (be32 v) = 4" "length (be64 u) = 8"
  "length (PutBigEndianUint48 u) = 6"
  by (simp_all add: be16_def PutBigEndianUint24_def be32_def be64_def PutBigEndianUint48_def)

lemma word16_split [simp]: "word16 (ucast (drop_bit 8 w)) (ucast w) = w"
  by (rule bit_word_eqI) (auto simp: word16_def bit_simps)

lemma word32_split [simp]:
  "word32 (ucast (drop_bit 24 w)) (ucast (drop_bit 16 w)) (ucast (drop_bit 8 w)) (ucast w) = w"
proof (rule bit_word_eqI)
  fix n
  assume "n < LENGTH(32)"
  then consider "n < 8" | "8 \<le> n" "n < 16" | "16 \<le> n" "n < 24" | "24 \<le> n" "n < 32" by force
  then show "bit (word32 (ucast (drop_bit 24 w)) (ucast (drop_bit 16 w)) (ucast (drop_bit 8 w)) (ucast w)) n = bit w n"
    by cases (simp_all add: word32_def bit_simps less_diff_conv2)
qed

lemma word64_split [simp]:
  "word64 (ucast (drop_bit 56 w)) (ucast (drop_bit 48 w)) (ucast (drop_bit 40 w)) (ucast (drop_bit 32 w)) (ucast (drop_bit 24 w)) (ucast (drop_bit 16 w)) (ucast (drop_bit 8 w)) (ucast w) = w"
proof (rule bit_word_eqI)
  fix n
  assume "n < LENGTH(64)"
  then consider "n < 8" | "8 \<le> n" "n < 16" | "16 \<le> n" "n < 24" | "24 \<le> n" "n < 32" | "32 \<le> n" "n < 40" | "40 \<le> n" "n < 48" | "48 \<le> n" "n < 56" | "56 \<le> n" "n < 64" by force
  then show "bit (word64 (ucast (drop_bit 56 w)) (ucast (drop_bit 48 w)) (ucast (drop_bit 40 w)) (ucast (drop_bit 32 w)) (ucast (drop_bit 24 w)) (ucast (drop_bit 16 w)) (ucast (drop_bit 8 w)) (ucast w)) n = bit w n"
    by cases (simp_all add: word64_def bit_simps less_diff_conv2)
qed

lemma Uint16_be16 [simp]: "Uint16 (be16 w @ r) = Ok w" "Uint16 (be16 w) = Ok w"
  by (simp_all add: be16_def)

lemma Uint32_be32 [simp]: "Uint32 (be32 w @ r) = Ok w" "Uint32 (be32 w) = Ok w"
  by (simp_all add: be32_def)

lemma Uint64_be64 [simp]: "Uint64 (be64 w @ r) = Ok w" "Uint64 (be64 w) = Ok w"
  by (simp_all add: be64_def)

lemma Uint16_Panic_iff [simp]: "Uint16 d = Panic \<longleftrightarrow> length d < 2"
  by (cases d rule: Uint16.cases) auto

lemma Uint32_Panic_iff [simp]: "Uint32 d = Panic \<longleftrightarrow> length d < 4"
  by (cases d rule: Uint32.cases) auto

lemma Uint64_Panic_iff [simp]: "Uint64 d = Panic \<longleftrightarrow> length d < 8"
  by (cases d rule: Uint64.cases) auto

lemma Uint_not_Fail [simp]: "Uint16 d \<noteq> Fail e" "Uint32 d \<noteq> Fail e" "Uint64 d \<noteq> Fail e" "u16_at d a \<noteq> Fail e"
proof -
  show u: "Uint16 d \<noteq> Fail e" for d by (cases d rule: Uint16.cases) auto
  show "Uint32 d \<noteq> Fail e" by (cases d rule: Uint32.cases) auto
  show "Uint64 d \<noteq> Fail e" by (cases d rule: Uint64.cases) auto
  show "u16_at d a \<noteq> Fail e" by (simp add: u16_at_def slice_from_def u)
qed

lemma u16_at_Panic_iff [simp]: "u16_at d a = Panic \<longleftrightarrow> length d < a + 2"
  by (auto simp: u16_at_def gbind_Panic_iff slice_from_def)

lemma u16_at_append [simp]: "u16_at (xs @ be16 w @ ys) (length xs) = Ok w"
  by (simp add: u16_at_def)

lemma Uint24_Put24 [simp]:
  assumes "unat w < 2 ^ 24"
  shows "BigEndianUint24 (PutBigEndianUint24 w @ r) = w"
proof -
  have "drop_bit 24 w = 0" using assms by (simp add: word_unat_eq_iff unat_drop_bit_eq flip: drop_bit_eq_div) (simp add: drop_bit_eq_div)
  then have "ucast (drop_bit 24 w) = (0 :: byte)" by simp
  then show ?thesis using word32_split [of w] by (simp add: PutBigEndianUint24_def)
qed

lemma word16_inj [simp]: "word16 a b = word16 c d \<longleftrightarrow> a = c \<and> b = d"
proof
  assume eq: "word16 a b = word16 c d"
  have "ucast (drop_bit 8 (word16 a b)) = a" for a b
    by (rule bit_word_eqI) (use bit_imp_le_length in \<open>fastforce simp: word16_def bit_simps\<close>)
  moreover have "ucast (word16 a b) = b" for a b
    by (rule bit_word_eqI) (auto simp: word16_def bit_simps)
  ultimately show "a = c \<and> b = d" using eq by metis
qed simp

lemma be16_word16 [simp]: "be16 (word16 a b) = [a, b]"
  using word16_inj [of "ucast (drop_bit 8 (word16 a b))" "ucast (word16 a b)" a b] by (simp add: be16_def)

end
