(* ===== verification/Dtls_Errors.thy ===== *)
theory Dtls_Errors
  imports Go_Bytes
begin

text \<open>The error values of \<open>src/dtls/internal/errors/errors.go\<close> that the models use, by their messages.\<close>

abbreviation ErrBufferTooSmall :: err where "ErrBufferTooSmall \<equiv> Err ''buffer is too small''"
abbreviation ErrSequenceNumberOverflow :: err where "ErrSequenceNumberOverflow \<equiv> Err ''sequence number overflow''"
abbreviation ErrUnsupportedProtocolVersion :: err where "ErrUnsupportedProtocolVersion \<equiv> Err ''unsupported protocol version''"
abbreviation ErrInvalidContentType :: err where "ErrInvalidContentType \<equiv> Err ''invalid content type''"
abbreviation ErrInvalidCipherSpec :: err where "ErrInvalidCipherSpec \<equiv> Err ''cipher spec invalid''"
abbreviation ErrInvalidPacketLength :: err where "ErrInvalidPacketLength \<equiv> Err ''packet length and declared length do not match''"
abbreviation ErrLengthMismatch :: err where "ErrLengthMismatch \<equiv> Err ''data length and declared length do not match''"
abbreviation ErrNotImplemented :: err where "ErrNotImplemented \<equiv> Err ''feature has not been implemented yet''"
abbreviation ErrHandshakeMessageUnset :: err where "ErrHandshakeMessageUnset \<equiv> Err ''handshake message unset, unable to marshal''"
abbreviation ErrUnableToMarshalFragmented :: err where "ErrUnableToMarshalFragmented \<equiv> Err ''unable to marshal fragmented handshakes''"
abbreviation ErrCookieTooLong :: err where "ErrCookieTooLong \<equiv> Err ''cookie must not be longer than 255 bytes''"
abbreviation ErrSessionIDTooLong :: err where "ErrSessionIDTooLong \<equiv> Err ''session ID must not be longer than 255 bytes''"
abbreviation ErrCompressionMethodsTooLong :: err where "ErrCompressionMethodsTooLong \<equiv> Err ''compression methods must not be longer than 255 entries''"
abbreviation ErrCipherSuiteUnset :: err where "ErrCipherSuiteUnset \<equiv> Err ''server hello can not be created without a cipher suite''"
abbreviation ErrCompressionMethodUnset :: err where "ErrCompressionMethodUnset \<equiv> Err ''server hello can not be created without a compression method''"
abbreviation ErrInvalidCompressionMethod :: err where "ErrInvalidCompressionMethod \<equiv> Err ''invalid or unknown compression method''"
abbreviation ErrInvalidClientKeyExchange :: err where "ErrInvalidClientKeyExchange \<equiv> Err ''unable to determine if ClientKeyExchange is a public key or PSK Identity''"
abbreviation ErrPublicKeyTooLong :: err where "ErrPublicKeyTooLong \<equiv> Err ''public key must not be longer than 255 bytes''"
abbreviation ErrInvalidSignHashAlgorithm :: err where "ErrInvalidSignHashAlgorithm \<equiv> Err ''invalid signature/hash algorithm''"
abbreviation ErrInvalidEllipticCurveType :: err where "ErrInvalidEllipticCurveType \<equiv> Err ''invalid or unknown elliptic curve type''"
abbreviation ErrInvalidNamedCurveFatal :: err where "ErrInvalidNamedCurveFatal \<equiv> Err ''invalid named curve''"
abbreviation ErrCertificateTypesTooLong :: err where "ErrCertificateTypesTooLong \<equiv> Err ''certificate types must not be longer than 255 entries''"
abbreviation ErrSignatureHashNoAvailableSignatureSchemes :: err where "ErrSignatureHashNoAvailableSignatureSchemes \<equiv> Err ''connection can not be created, no SignatureScheme satisfy this Config''"
abbreviation ErrSignatureHashInvalidSignatureAlgorithm :: err where "ErrSignatureHashInvalidSignatureAlgorithm \<equiv> Err ''invalid signature algorithm''"
abbreviation ErrSignatureHashInvalidHashAlgorithm :: err where "ErrSignatureHashInvalidHashAlgorithm \<equiv> Err ''invalid hash algorithm''"
abbreviation ErrSignatureHashInvalidPrivateKey :: err where "ErrSignatureHashInvalidPrivateKey \<equiv> Err ''invalid private key type''"
abbreviation ErrALPNInvalidFormat :: err where "ErrALPNInvalidFormat \<equiv> Err ''invalid alpn format''"
abbreviation ErrALPNNoAppProto :: err where "ErrALPNNoAppProto \<equiv> Err ''no application protocol''"
abbreviation ErrInvalidExtensionType :: err where "ErrInvalidExtensionType \<equiv> Err ''invalid extension type''"
abbreviation ErrInvalidSNIFormat :: err where "ErrInvalidSNIFormat \<equiv> Err ''invalid server name format''"
abbreviation ErrInvalidCIDFormat :: err where "ErrInvalidCIDFormat \<equiv> Err ''invalid connection ID format''"
abbreviation ErrMasterKeyIdentifierTooLarge :: err where "ErrMasterKeyIdentifierTooLarge \<equiv> Err ''master key identifier is over 255 bytes''"
abbreviation ErrUseSRTPDataTooLarge :: err where "ErrUseSRTPDataTooLarge \<equiv> Err ''use_srtp extension data exceeds uint16 length''"
abbreviation ErrPointFormatsTooLarge :: err where "ErrPointFormatsTooLarge \<equiv> Err ''point formats must not be longer than 255 ''"
abbreviation ErrPreSharedKeyFormat :: err where "ErrPreSharedKeyFormat \<equiv> Err ''invalid Pre-Shared Key extension format''"
abbreviation ErrPskKeyExchangeModesFormat :: err where "ErrPskKeyExchangeModesFormat \<equiv> Err ''invalid Pre-Shared Key Exchange Modes extension format''"
abbreviation ErrNoPskKeyExchangeMode :: err where "ErrNoPskKeyExchangeMode \<equiv> Err ''no mode set for the Pre-Shared Key Exchange Modes extension''"
abbreviation ErrCookieExtFormat :: err where "ErrCookieExtFormat \<equiv> Err ''invalid cookie format''"
abbreviation ErrInvalidKeyShareFormat :: err where "ErrInvalidKeyShareFormat \<equiv> Err ''invalid key_share format''"
abbreviation ErrDuplicateKeyShare :: err where "ErrDuplicateKeyShare \<equiv> Err ''duplicate key_share group''"
abbreviation ErrInvalidSupportedVersionsFormat :: err where "ErrInvalidSupportedVersionsFormat \<equiv> Err ''invalid supported_versions format''"
abbreviation ErrInvalidDTLSVersion :: err where "ErrInvalidDTLSVersion \<equiv> Err ''invalid dtls version was provided''"
abbreviation ErrEarlyDataIndicationFormat :: err where "ErrEarlyDataIndicationFormat \<equiv> Err ''invalid Early Data Indication extension format''"
abbreviation ErrInvalidCertificateAuthFormat :: err where "ErrInvalidCertificateAuthFormat \<equiv> Err ''invalid Certificate Authorities extension format''"
abbreviation ErrEmptyOIDFilter :: err where "ErrEmptyOIDFilter \<equiv> Err ''no oid set for a OID filter''"
abbreviation ErrOIDFiltersFormat :: err where "ErrOIDFiltersFormat \<equiv> Err ''invalid OID filters extension format''"
abbreviation ErrDuplicateOID :: err where "ErrDuplicateOID \<equiv> Err ''duplicate OID filters''"
abbreviation ErrInvalidACK :: err where "ErrInvalidACK \<equiv> Err ''ack invalid''"
abbreviation ErrInvalidCiphertextHeader :: err where "ErrInvalidCiphertextHeader \<equiv> Err ''invalid dtls 1.3 ciphertext header''"
abbreviation ErrInvalidEpoch :: err where "ErrInvalidEpoch \<equiv> Err ''invalid epoch''"
abbreviation ErrCIDTooBig :: err where "ErrCIDTooBig \<equiv> Err ''connection ID size is too big''"
abbreviation ErrInvalidUnifiedHeaderFormat :: err where "ErrInvalidUnifiedHeaderFormat \<equiv> Err ''invalid dtls 1.3 unified header format''"
abbreviation ErrFragmentBufferOverflow :: err where "ErrFragmentBufferOverflow \<equiv> Err ''fragment buffer overflow''"
abbreviation ErrInvalidCertificateRequestContext :: err where "ErrInvalidCertificateRequestContext \<equiv> Err ''invalid certificate request context''"
abbreviation ErrInvalidCertificateEntry :: err where "ErrInvalidCertificateEntry \<equiv> Err ''invalid certificate entry''"
abbreviation ErrCertificateRequestContextTooLong :: err where "ErrCertificateRequestContextTooLong \<equiv> Err ''certificate request context must not be longer than 255 bytes''"
abbreviation ErrCertificateListTooLong :: err where "ErrCertificateListTooLong \<equiv> Err ''certificate list must not be longer than 2^24-1 bytes''"
abbreviation ErrInvalidExtensionsLength :: err where "ErrInvalidExtensionsLength \<equiv> Err ''extensions data must be between 2 and 2^16-1 bytes''"
abbreviation ErrMissingSignatureAlgorithmsExtension :: err where "ErrMissingSignatureAlgorithmsExtension \<equiv> Err ''signature_algorithms extension is required in CertificateRequest''"
abbreviation ErrInvalidFlight :: err where "ErrInvalidFlight \<equiv> Err ''invalid flight number''"
abbreviation ErrInvalidFSMTransition :: err where "ErrInvalidFSMTransition \<equiv> Err ''invalid state machine transition''"
abbreviation ErrCipherSuiteNoIntersection :: err where "ErrCipherSuiteNoIntersection \<equiv> Err ''client+server do not support any shared cipher suites''"
abbreviation ErrCookieMismatch :: err where "ErrCookieMismatch \<equiv> Err ''client+server cookie does not match''"

end
