(* ===== verification/Cryptobyte.thy ===== *)
theory Cryptobyte
  imports Dtls_Errors
begin

text \<open>
  The library \<open>golang.org/x/crypto/cryptobyte\<close> that the DTLS 1.3 codecs use is not part of the repository: it is
  a parameter, a record of its operations over an abstract type of builders.  \<open>documented\<close> says what they do: a
  \<open>String\<close> gives its bytes from the front, and a read that does not succeed leaves it as it is; a \<open>Builder\<close>
  appends, writes the length of what a continuation adds before it, and remembers an error.
\<close>

record 'b cryptobyte =
  cb_Empty :: "bytes \<Rightarrow> bool"
  cb_ReadUint8 :: "bytes \<Rightarrow> (byte \<times> bytes) option"
  cb_ReadUint16 :: "bytes \<Rightarrow> (u16 \<times> bytes) option"
  cb_ReadUint32 :: "bytes \<Rightarrow> (u32 \<times> bytes) option"
  cb_ReadUint64 :: "bytes \<Rightarrow> (u64 \<times> bytes) option"
  cb_ReadBytes :: "nat \<Rightarrow> bytes \<Rightarrow> (bytes \<times> bytes) option"
  cb_Skip :: "nat \<Rightarrow> bytes \<Rightarrow> bytes option"
  cb_ReadUint8LengthPrefixed :: "bytes \<Rightarrow> (bytes \<times> bytes) option"
  cb_ReadUint16LengthPrefixed :: "bytes \<Rightarrow> (bytes \<times> bytes) option"
  cb_ReadUint24LengthPrefixed :: "bytes \<Rightarrow> (bytes \<times> bytes) option"
  cb_Builder :: 'b
  cb_AddUint8 :: "byte \<Rightarrow> 'b \<Rightarrow> 'b"
  cb_AddUint16 :: "u16 \<Rightarrow> 'b \<Rightarrow> 'b"
  cb_AddUint32 :: "u32 \<Rightarrow> 'b \<Rightarrow> 'b"
  cb_AddUint64 :: "u64 \<Rightarrow> 'b \<Rightarrow> 'b"
  cb_AddBytes :: "bytes \<Rightarrow> 'b \<Rightarrow> 'b"
  cb_AddUint8LengthPrefixed :: "('b \<Rightarrow> 'b) \<Rightarrow> 'b \<Rightarrow> 'b"
  cb_AddUint16LengthPrefixed :: "('b \<Rightarrow> 'b) \<Rightarrow> 'b \<Rightarrow> 'b"
  cb_AddUint24LengthPrefixed :: "('b \<Rightarrow> 'b) \<Rightarrow> 'b \<Rightarrow> 'b"
  cb_SetError :: "err \<Rightarrow> 'b \<Rightarrow> 'b"
  cb_Bytes :: "'b \<Rightarrow> bytes go"
  cb_errTooLong :: err

section \<open>What the operations do\<close>

fun read8 :: "bytes \<Rightarrow> (byte \<times> bytes) option" where
  "read8 (a # r) = Some (a, r)"
| "read8 _ = None"

fun read16 :: "bytes \<Rightarrow> (u16 \<times> bytes) option" where
  "read16 (a # b # r) = Some (word16 a b, r)"
| "read16 _ = None"

fun read24 :: "bytes \<Rightarrow> (u32 \<times> bytes) option" where
  "read24 (a # b # c # r) = Some (word32 0 a b c, r)"
| "read24 _ = None"

fun read32 :: "bytes \<Rightarrow> (u32 \<times> bytes) option" where
  "read32 (a # b # c # d # r) = Some (word32 a b c d, r)"
| "read32 _ = None"

fun read64 :: "bytes \<Rightarrow> (u64 \<times> bytes) option" where
  "read64 (a # b # c # d # e # f # g # h # r) = Some (word64 a b c d e f g h, r)"
| "read64 _ = None"

definition read_bytes :: "nat \<Rightarrow> bytes \<Rightarrow> (bytes \<times> bytes) option" where
  "read_bytes n s = (if n \<le> length s then Some (take n s, drop n s) else None)"

definition read_prefixed :: "(bytes \<Rightarrow> ('a::len word \<times> bytes) option) \<Rightarrow> bytes \<Rightarrow> (bytes \<times> bytes) option" where
  "read_prefixed rd s = (case rd s of None \<Rightarrow> None | Some (n, r) \<Rightarrow> read_bytes (unat n) r)"

definition write_prefixed :: "nat \<Rightarrow> (nat \<Rightarrow> bytes) \<Rightarrow> err \<Rightarrow> bytes go \<Rightarrow> bytes go \<Rightarrow> bytes go" where
  "write_prefixed limit put tooLong child parent =
     gbind parent (\<lambda>s. gbind child (\<lambda>t. if length t < limit then Ok (s @ put (length t) @ t) else Fail tooLong))"

definition documented :: "'b cryptobyte \<Rightarrow> bool" where
  "documented cb \<longleftrightarrow>
     (\<forall>s. cb_Empty cb s = (s = [])) \<and>
     cb_ReadUint8 cb = read8 \<and> cb_ReadUint16 cb = read16 \<and> cb_ReadUint32 cb = read32 \<and> cb_ReadUint64 cb = read64 \<and>
     cb_ReadBytes cb = read_bytes \<and> (\<forall>n s. cb_Skip cb n s = map_option snd (read_bytes n s)) \<and>
     cb_ReadUint8LengthPrefixed cb = read_prefixed read8 \<and> cb_ReadUint16LengthPrefixed cb = read_prefixed read16 \<and>
     cb_ReadUint24LengthPrefixed cb = read_prefixed read24 \<and>
     cb_Bytes cb (cb_Builder cb) = Ok [] \<and>
     (\<forall>v b. cb_Bytes cb (cb_AddUint8 cb v b) = gmap (\<lambda>s. s @ [v]) (cb_Bytes cb b)) \<and>
     (\<forall>v b. cb_Bytes cb (cb_AddUint16 cb v b) = gmap (\<lambda>s. s @ be16 v) (cb_Bytes cb b)) \<and>
     (\<forall>v b. cb_Bytes cb (cb_AddUint32 cb v b) = gmap (\<lambda>s. s @ be32 v) (cb_Bytes cb b)) \<and>
     (\<forall>v b. cb_Bytes cb (cb_AddUint64 cb v b) = gmap (\<lambda>s. s @ be64 v) (cb_Bytes cb b)) \<and>
     (\<forall>v b. cb_Bytes cb (cb_AddBytes cb v b) = gmap (\<lambda>s. s @ v) (cb_Bytes cb b)) \<and>
     (\<forall>f b. cb_Bytes cb (cb_AddUint8LengthPrefixed cb f b) =
        write_prefixed (2 ^ 8) (\<lambda>n. [of_nat n]) (cb_errTooLong cb) (cb_Bytes cb (f (cb_Builder cb))) (cb_Bytes cb b)) \<and>
     (\<forall>f b. cb_Bytes cb (cb_AddUint16LengthPrefixed cb f b) =
        write_prefixed (2 ^ 16) (\<lambda>n. be16 (of_nat n)) (cb_errTooLong cb) (cb_Bytes cb (f (cb_Builder cb))) (cb_Bytes cb b)) \<and>
     (\<forall>f b. cb_Bytes cb (cb_AddUint24LengthPrefixed cb f b) =
        write_prefixed (2 ^ 24) (\<lambda>n. PutBigEndianUint24 (of_nat n)) (cb_errTooLong cb)
          (cb_Bytes cb (f (cb_Builder cb))) (cb_Bytes cb b)) \<and>
     (\<forall>e b. cb_Bytes cb (cb_SetError cb e b) = Fail e)"

text \<open>Such a library: a builder is its bytes or its error.\<close>

definition plain_cryptobyte :: "bytes go cryptobyte" where
  "plain_cryptobyte =
     \<lparr>cb_Empty = (\<lambda>s. s = []),
      cb_ReadUint8 = read8, cb_ReadUint16 = read16, cb_ReadUint32 = read32, cb_ReadUint64 = read64,
      cb_ReadBytes = read_bytes, cb_Skip = (\<lambda>n s. map_option snd (read_bytes n s)),
      cb_ReadUint8LengthPrefixed = read_prefixed read8, cb_ReadUint16LengthPrefixed = read_prefixed read16,
      cb_ReadUint24LengthPrefixed = read_prefixed read24,
      cb_Builder = Ok [],
      cb_AddUint8 = (\<lambda>v. gmap (\<lambda>s. s @ [v])), cb_AddUint16 = (\<lambda>v. gmap (\<lambda>s. s @ be16 v)),
      cb_AddUint32 = (\<lambda>v. gmap (\<lambda>s. s @ be32 v)), cb_AddUint64 = (\<lambda>v. gmap (\<lambda>s. s @ be64 v)),
      cb_AddBytes = (\<lambda>v. gmap (\<lambda>s. s @ v)),
      cb_AddUint8LengthPrefixed = (\<lambda>f b. write_prefixed (2 ^ 8) (\<lambda>n. [of_nat n]) (Err ''too long'') (f (Ok [])) b),
      cb_AddUint16LengthPrefixed = (\<lambda>f b. write_prefixed (2 ^ 16) (\<lambda>n. be16 (of_nat n)) (Err ''too long'') (f (Ok [])) b),
      cb_AddUint24LengthPrefixed =
        (\<lambda>f b. write_prefixed (2 ^ 24) (\<lambda>n. PutBigEndianUint24 (of_nat n)) (Err ''too long'') (f (Ok [])) b),
      cb_SetError = (\<lambda>e b. Fail e),
      cb_Bytes = (\<lambda>b. b),
      cb_errTooLong = Err ''too long''\<rparr>"

lemma documented_plain: "documented plain_cryptobyte"
  by (simp add: documented_def plain_cryptobyte_def)

lemma cb_simps:
  assumes "documented cb"
  shows "cb_Empty cb s = (s = [])"
    "cb_ReadUint8 cb = read8" "cb_ReadUint16 cb = read16" "cb_ReadUint32 cb = read32" "cb_ReadUint64 cb = read64"
    "cb_ReadBytes cb = read_bytes" "cb_Skip cb n s = map_option snd (read_bytes n s)"
    "cb_ReadUint8LengthPrefixed cb = read_prefixed read8" "cb_ReadUint16LengthPrefixed cb = read_prefixed read16"
    "cb_ReadUint24LengthPrefixed cb = read_prefixed read24"
    "cb_Bytes cb (cb_Builder cb) = Ok []"
    "cb_Bytes cb (cb_AddUint8 cb v1 b) = gmap (\<lambda>s. s @ [v1]) (cb_Bytes cb b)"
    "cb_Bytes cb (cb_AddUint16 cb v2 b) = gmap (\<lambda>s. s @ be16 v2) (cb_Bytes cb b)"
    "cb_Bytes cb (cb_AddUint32 cb v4 b) = gmap (\<lambda>s. s @ be32 v4) (cb_Bytes cb b)"
    "cb_Bytes cb (cb_AddUint64 cb v8 b) = gmap (\<lambda>s. s @ be64 v8) (cb_Bytes cb b)"
    "cb_Bytes cb (cb_AddBytes cb v b) = gmap (\<lambda>s. s @ v) (cb_Bytes cb b)"
    "cb_Bytes cb (cb_AddUint8LengthPrefixed cb f b) =
       write_prefixed (2 ^ 8) (\<lambda>n. [of_nat n]) (cb_errTooLong cb) (cb_Bytes cb (f (cb_Builder cb))) (cb_Bytes cb b)"
    "cb_Bytes cb (cb_AddUint16LengthPrefixed cb f b) =
       write_prefixed (2 ^ 16) (\<lambda>n. be16 (of_nat n)) (cb_errTooLong cb) (cb_Bytes cb (f (cb_Builder cb))) (cb_Bytes cb b)"
    "cb_Bytes cb (cb_AddUint24LengthPrefixed cb f b) =
       write_prefixed (2 ^ 24) (\<lambda>n. PutBigEndianUint24 (of_nat n)) (cb_errTooLong cb)
         (cb_Bytes cb (f (cb_Builder cb))) (cb_Bytes cb b)"
    "cb_Bytes cb (cb_SetError cb e b) = Fail e"
  using assms by (simp_all add: documented_def)

section \<open>Loops over a string\<close>

text \<open>
  \<open>for !s.Empty() { ... }\<close> with a body that reads from the front of the string: at most \<open>n\<close> rounds.  A round
  that does not end the loop takes at least a byte, so as many rounds as there are bytes are enough
  (\<open>cb_while_no_panic\<close>).
\<close>

fun cb_while :: "'b cryptobyte \<Rightarrow> (bytes \<Rightarrow> 's \<Rightarrow> ('s \<times> bytes) go) \<Rightarrow> nat \<Rightarrow> bytes \<Rightarrow> 's \<Rightarrow> 's go" where
  "cb_while cb body 0 s st = (if cb_Empty cb s then Ok st else Panic)"
| "cb_while cb body (Suc n) s st =
     (if cb_Empty cb s then Ok st else gbind (body s st) (\<lambda>(st, s). cb_while cb body n s st))"

section \<open>Lemmas\<close>

lemma read_append [simp]:
  "read8 (a # r) = Some (a, r)" "read16 (be16 w @ r) = Some (w, r)" "read32 (be32 v @ r) = Some (v, r)"
  "read64 (be64 u @ r) = Some (u, r)" "read_bytes (length xs) (xs @ r) = Some (xs, r)"
  by (simp_all add: be16_def be32_def be64_def read_bytes_def)

lemma read16_be16 [simp]: "read16 (be16 w) = Some (w, [])" "read32 (be32 v) = Some (v, [])"
  using read_append(2) [of w "[]"] read_append(3) [of v "[]"] by simp_all

lemma read8_Some: "read8 s = Some (v, r) \<longleftrightarrow> s = v # r"
  by (cases s rule: read8.cases) auto

lemma read16_Some: "read16 s = Some (v, r) \<longleftrightarrow> s = be16 v @ r"
proof
  show "read16 s = Some (v, r) \<Longrightarrow> s = be16 v @ r" by (cases s rule: read16.cases) auto
qed simp

lemma read_lengths:
  "read8 s = Some (a, r) \<Longrightarrow> length s = 1 + length r" "read16 s = Some (w, r) \<Longrightarrow> length s = 2 + length r"
  "read24 s = Some (v, r) \<Longrightarrow> length s = 3 + length r" "read32 s = Some (v, r) \<Longrightarrow> length s = 4 + length r"
  "read64 s = Some (u, r) \<Longrightarrow> length s = 8 + length r"
  "read_bytes n s = Some (t, r) \<Longrightarrow> length s = length t + length r \<and> length t = n"
proof -
  show "read8 s = Some (a, r) \<Longrightarrow> length s = 1 + length r" by (cases s rule: read8.cases) auto
  show "read16 s = Some (w, r) \<Longrightarrow> length s = 2 + length r" by (cases s rule: read16.cases) auto
  show "read24 s = Some (v, r) \<Longrightarrow> length s = 3 + length r" by (cases s rule: read24.cases) auto
  show "read32 s = Some (v, r) \<Longrightarrow> length s = 4 + length r" by (cases s rule: read32.cases) auto
  show "read64 s = Some (u, r) \<Longrightarrow> length s = 8 + length r" by (cases s rule: read64.cases) auto
  show "read_bytes n s = Some (t, r) \<Longrightarrow> length s = length t + length r \<and> length t = n"
    by (auto simp: read_bytes_def split: if_splits)
qed

lemma read_prefixed_lengths:
  "read_prefixed read8 s = Some (t, r) \<Longrightarrow> length s = 1 + length t + length r"
  "read_prefixed read16 s = Some (t, r) \<Longrightarrow> length s = 2 + length t + length r"
  "read_prefixed read24 s = Some (t, r) \<Longrightarrow> length s = 3 + length t + length r"
  by (fastforce simp: read_prefixed_def split: option.splits prod.splits dest!: read_lengths)+

lemma read_prefixed_write [simp]:
  "length t < 256 \<Longrightarrow> read_prefixed read8 (of_nat (length t) # t @ r) = Some (t, r)"
  "length t < 65536 \<Longrightarrow> read_prefixed read16 (be16 (of_nat (length t)) @ t @ r) = Some (t, r)"
  by (simp_all add: read_prefixed_def unat_of_nat take_bit_nat_eq_self)

lemma read_prefixed_write_end [simp]:
  "length t < 256 \<Longrightarrow> read_prefixed read8 (of_nat (length t) # t) = Some (t, [])"
  "length t < 65536 \<Longrightarrow> read_prefixed read16 (be16 (of_nat (length t)) @ t) = Some (t, [])"
  using read_prefixed_write [of t "[]"] by simp_all

lemma read24_Put24 [simp]: "unat w < 2 ^ 24 \<Longrightarrow> read24 (PutBigEndianUint24 w @ r) = Some (w, r)"
  using Uint24_Put24 [of w r] by (simp add: PutBigEndianUint24_def)

lemma read_prefixed24_write [simp]:
  "length t < 16777216 \<Longrightarrow> read_prefixed read24 (PutBigEndianUint24 (of_nat (length t)) @ t @ r) = Some (t, r)"
  "length t < 16777216 \<Longrightarrow> read_prefixed read24 (PutBigEndianUint24 (of_nat (length t)) @ t) = Some (t, [])"
  using read24_Put24 [of "of_nat (length t)" "t @ r"] read24_Put24 [of "of_nat (length t)" t] read_append(5) [of t "[]"]
  by (simp_all add: read_prefixed_def unat_of_nat take_bit_nat_eq_self)

lemma write_prefixed_Ok_iff:
  "write_prefixed limit put e child parent = Ok x \<longleftrightarrow>
     (\<exists>s t. parent = Ok s \<and> child = Ok t \<and> length t < limit \<and> x = s @ put (length t) @ t)"
  by (cases parent; cases child) (auto simp: write_prefixed_def)

lemma write_prefixed_no_panic: "\<lbrakk>child \<noteq> Panic; parent \<noteq> Panic\<rbrakk> \<Longrightarrow> write_prefixed limit put e child parent \<noteq> Panic"
  by (cases parent; cases child) (auto simp: write_prefixed_def)

lemma cb_while_no_panic:
  assumes "documented cb" "\<And>s st. s \<noteq> [] \<Longrightarrow> body s st \<noteq> Panic"
    and "\<And>s st st' s'. body s st = Ok (st', s') \<Longrightarrow> length s' < length s"
  shows "length s \<le> n \<Longrightarrow> cb_while cb body n s st \<noteq> Panic"
proof (induction n arbitrary: s st)
  case 0
  then show ?case by (simp add: cb_simps [OF assms(1)])
next
  case (Suc n)
  show ?case
  proof (cases "s = []")
    case True
    then show ?thesis by (simp add: cb_simps [OF assms(1)])
  next
    case False
    show ?thesis
    proof (cases "body s st")
      case (Ok r)
      obtain st' s' where r: "r = (st', s')" by force
      have "length s' \<le> n" using assms(3) [of s st st' s'] Ok Suc.prems by (simp add: r)
      then show ?thesis using Suc.IH False Ok by (simp add: r cb_simps [OF assms(1)])
    qed (use False assms(2) in \<open>simp_all add: cb_simps [OF assms(1)]\<close>)
  qed
qed

text \<open>
  A loop over the encodings of a list of items, one item a round, as long as the items are good for the state.
\<close>

lemma cb_while_good:
  assumes "documented cb"
    and "\<And>x xs r st. good (x # xs) st \<Longrightarrow> body (enc x @ r) st = Ok (upd x st, r) \<and> enc x \<noteq> [] \<and> good xs (upd x st)"
  shows "\<lbrakk>good xs st; length (concat (map enc xs)) \<le> n\<rbrakk> \<Longrightarrow> cb_while cb body n (concat (map enc xs)) st = Ok (fold upd xs st)"
proof (induction xs arbitrary: n st)
  case Nil
  show ?case by (cases n) (simp_all add: cb_simps [OF assms(1)])
next
  case (Cons x xs)
  have x: "body (enc x @ concat (map enc xs)) st = Ok (upd x st, concat (map enc xs))" "enc x \<noteq> []" "good xs (upd x st)"
    using assms(2) [OF Cons.prems(1)] by blast+
  then obtain m where m: "n = Suc m" "length (concat (map enc xs)) \<le> m"
    using Cons.prems(2) by (cases n; cases "enc x") auto
  then show ?case using x Cons.IH [OF x(3) m(2)] by (simp add: cb_simps [OF assms(1)])
qed

lemma cb_while_items:
  assumes "documented cb" "\<And>x r st. x \<in> set xs \<Longrightarrow> body (enc x @ r) st = Ok (upd x st, r)" "\<And>x. x \<in> set xs \<Longrightarrow> enc x \<noteq> []"
  shows "length (concat (map enc xs)) \<le> n \<Longrightarrow> cb_while cb body n (concat (map enc xs)) st = Ok (fold upd xs st)"
  by (rule cb_while_good [OF assms(1), where good = "\<lambda>ys st. set ys \<subseteq> set xs"]) (use assms(2,3) in auto)

text \<open>Building the encodings of a list of items.\<close>

lemma cb_Bytes_fold:
  assumes "\<And>x b. x \<in> set xs \<Longrightarrow> cb_Bytes cb (add x b) = gbind (cb_Bytes cb b) (\<lambda>s. gmap (\<lambda>t. s @ t) (enc x))"
    and "\<And>x. x \<in> set xs \<Longrightarrow> enc x = Ok (f x)"
  shows "cb_Bytes cb (fold add xs b) = gmap (\<lambda>s. s @ concat (map f xs)) (cb_Bytes cb b)"
  using assms
proof (induction xs arbitrary: b)
  case Nil
  show ?case by (cases "cb_Bytes cb b") simp_all
next
  case (Cons x xs)
  have "cb_Bytes cb (fold add (x # xs) b) = gmap (\<lambda>s. s @ concat (map f xs)) (cb_Bytes cb (add x b))"
    using Cons by simp
  then show ?case using Cons.prems by (cases "cb_Bytes cb b") simp_all
qed

end
