(* ===== verification/Dtls_Algorithms.thy ===== *)
theory Dtls_Algorithms
  imports Dtls_Errors
begin

unbundle bit_operations_syntax

text \<open>
  The registries of \<open>src/dtls/pkg/crypto\<close>: hash and signature algorithms, their combination into signature
  schemes with its two encodings, the choice of a scheme, the allowed schemes of a certificate chain, curves, and
  the key exchange algorithms.
\<close>

section \<open>Hash and signature algorithms\<close>

type_synonym HashAlgorithm = u16
type_synonym SignatureAlgorithm = u16

abbreviation (input) hash_None :: HashAlgorithm where "hash_None \<equiv> 0"
abbreviation (input) hash_MD5 :: HashAlgorithm where "hash_MD5 \<equiv> 1"
abbreviation (input) hash_SHA1 :: HashAlgorithm where "hash_SHA1 \<equiv> 2"
abbreviation (input) hash_SHA224 :: HashAlgorithm where "hash_SHA224 \<equiv> 3"
abbreviation (input) hash_SHA256 :: HashAlgorithm where "hash_SHA256 \<equiv> 4"
abbreviation (input) hash_SHA384 :: HashAlgorithm where "hash_SHA384 \<equiv> 5"
abbreviation (input) hash_SHA512 :: HashAlgorithm where "hash_SHA512 \<equiv> 6"
abbreviation (input) hash_Ed25519 :: HashAlgorithm where "hash_Ed25519 \<equiv> 8"

definition hash_String :: "HashAlgorithm \<Rightarrow> string" where
  "hash_String a =
     (case map_of [(hash_None, ''none''), (hash_MD5, ''md5''), (hash_SHA1, ''sha-1''), (hash_SHA224, ''sha-224''),
        (hash_SHA256, ''sha-256''), (hash_SHA384, ''sha-384''), (hash_SHA512, ''sha-512''), (hash_Ed25519, ''null'')] a of
        Some s \<Rightarrow> s
      | None \<Rightarrow> ''unknown or unsupported hash algorithm'')"

definition Insecure :: "HashAlgorithm \<Rightarrow> bool" where
  "Insecure a \<longleftrightarrow> a = hash_None \<or> a = hash_MD5 \<or> a = hash_SHA1"

definition hash_Algorithms :: "HashAlgorithm list" where
  "hash_Algorithms =
     [hash_None, hash_MD5, hash_SHA1, hash_SHA224, hash_SHA256, hash_SHA384, hash_SHA512, hash_Ed25519]"

definition ExtractHashFromPSS :: "u16 \<Rightarrow> HashAlgorithm" where
  "ExtractHashFromPSS pssScheme =
     (if pssScheme \<in> {0x0804, 0x0809} then hash_SHA256
      else if pssScheme \<in> {0x0805, 0x080a} then hash_SHA384
      else if pssScheme \<in> {0x0806, 0x080b} then hash_SHA512
      else hash_None)"

abbreviation (input) sig_Anonymous :: SignatureAlgorithm where "sig_Anonymous \<equiv> 0"
abbreviation (input) sig_ECDSA :: SignatureAlgorithm where "sig_ECDSA \<equiv> 3"
abbreviation (input) sig_Ed25519 :: SignatureAlgorithm where "sig_Ed25519 \<equiv> 7"
abbreviation (input) RSA_PSS_RSAE_SHA256 :: SignatureAlgorithm where "RSA_PSS_RSAE_SHA256 \<equiv> 0x0804"
abbreviation (input) RSA_PSS_RSAE_SHA384 :: SignatureAlgorithm where "RSA_PSS_RSAE_SHA384 \<equiv> 0x0805"
abbreviation (input) RSA_PSS_RSAE_SHA512 :: SignatureAlgorithm where "RSA_PSS_RSAE_SHA512 \<equiv> 0x0806"
abbreviation (input) RSA_PSS_PSS_SHA256 :: SignatureAlgorithm where "RSA_PSS_PSS_SHA256 \<equiv> 0x0809"
abbreviation (input) RSA_PSS_PSS_SHA384 :: SignatureAlgorithm where "RSA_PSS_PSS_SHA384 \<equiv> 0x080a"
abbreviation (input) RSA_PSS_PSS_SHA512 :: SignatureAlgorithm where "RSA_PSS_PSS_SHA512 \<equiv> 0x080b"

definition signature_Algorithms :: "SignatureAlgorithm list" where
  "signature_Algorithms =
     [sig_Anonymous, sig_ECDSA, sig_Ed25519, RSA_PSS_RSAE_SHA256, RSA_PSS_RSAE_SHA384, RSA_PSS_RSAE_SHA512,
      RSA_PSS_PSS_SHA256, RSA_PSS_PSS_SHA384, RSA_PSS_PSS_SHA512]"

definition IsPSS :: "SignatureAlgorithm \<Rightarrow> bool" where
  "IsPSS a \<longleftrightarrow> a = RSA_PSS_RSAE_SHA256 \<or> a = RSA_PSS_RSAE_SHA384 \<or> a = RSA_PSS_RSAE_SHA512 \<or>
     a = RSA_PSS_PSS_SHA256 \<or> a = RSA_PSS_PSS_SHA384 \<or> a = RSA_PSS_PSS_SHA512"

definition IsUnsupported :: "SignatureAlgorithm \<Rightarrow> bool" where
  "IsUnsupported a \<longleftrightarrow> a = RSA_PSS_PSS_SHA256 \<or> a = RSA_PSS_PSS_SHA384 \<or> a = RSA_PSS_PSS_SHA512"

definition GetPSSHash :: "SignatureAlgorithm \<Rightarrow> HashAlgorithm" where
  "GetPSSHash a =
     (if a \<in> {RSA_PSS_RSAE_SHA256, RSA_PSS_PSS_SHA256} then hash_SHA256
      else if a \<in> {RSA_PSS_RSAE_SHA384, RSA_PSS_PSS_SHA384} then hash_SHA384
      else if a \<in> {RSA_PSS_RSAE_SHA512, RSA_PSS_PSS_SHA512} then hash_SHA512
      else hash_None)"

section \<open>Signature schemes\<close>

record SigHash =
  sh_Hash :: HashAlgorithm
  sh_Signature :: SignatureAlgorithm

definition sh :: "HashAlgorithm \<Rightarrow> SignatureAlgorithm \<Rightarrow> SigHash" where
  "sh h s = \<lparr>sh_Hash = h, sh_Signature = s\<rparr>"

definition sh_Algorithms :: "SigHash list" where
  "sh_Algorithms =
     [sh hash_SHA256 sig_ECDSA, sh hash_SHA384 sig_ECDSA, sh hash_SHA512 sig_ECDSA, sh hash_Ed25519 sig_Ed25519,
      sh hash_SHA256 RSA_PSS_RSAE_SHA256, sh hash_SHA384 RSA_PSS_RSAE_SHA384, sh hash_SHA512 RSA_PSS_RSAE_SHA512]"

definition sh_Algorithms13 :: "SigHash list" where
  "sh_Algorithms13 =
     [sh hash_SHA256 sig_ECDSA, sh hash_SHA384 sig_ECDSA, sh hash_SHA512 sig_ECDSA, sh hash_Ed25519 sig_Ed25519,
      sh hash_SHA256 RSA_PSS_RSAE_SHA256, sh hash_SHA384 RSA_PSS_RSAE_SHA384, sh hash_SHA512 RSA_PSS_RSAE_SHA512]"

definition sh_Unmarshal :: "u16 \<Rightarrow> SigHash go" where
  "sh_Unmarshal sigScheme =
     gbind (if IsPSS sigScheme then
              let h = ExtractHashFromPSS sigScheme in
              if h = hash_None then Fail ErrSignatureHashInvalidHashAlgorithm else Ok (sh h sigScheme)
            else Ok (sh (drop_bit 8 sigScheme) (sigScheme AND 0xFF))) (\<lambda>a.
       if sh_Signature a \<notin> set signature_Algorithms then Fail ErrSignatureHashInvalidSignatureAlgorithm
       else if sh_Hash a \<notin> set hash_Algorithms \<or> sh_Hash a = hash_None then Fail ErrSignatureHashInvalidHashAlgorithm
       else Ok a)"

definition sh_Marshal :: "SigHash \<Rightarrow> bytes" where
  "sh_Marshal a =
     (if IsPSS (sh_Signature a) then
        let scheme = sh_Signature a in [ucast (drop_bit 8 scheme), ucast (scheme AND 0xFF)]
      else [ucast (sh_Hash a), ucast (sh_Signature a)])"

fun parse_schemes :: "bool \<Rightarrow> u16 list \<Rightarrow> SigHash list \<Rightarrow> SigHash list go" where
  "parse_schemes insecureHashes [] out = Ok out"
| "parse_schemes insecureHashes (ss # sigs) out =
     gbind (sh_Unmarshal ss) (\<lambda>alg.
       if Insecure (sh_Hash alg) \<and> \<not> insecureHashes then parse_schemes insecureHashes sigs out
       else parse_schemes insecureHashes sigs (out @ [alg]))"

definition ParseSignatureSchemes :: "u16 list \<Rightarrow> bool \<Rightarrow> SigHash list go" where
  "ParseSignatureSchemes sigs insecureHashes =
     (if sigs = [] then Ok sh_Algorithms
      else
        gbind (parse_schemes insecureHashes sigs []) (\<lambda>out.
          if out = [] then Fail ErrSignatureHashNoAvailableSignatureSchemes else Ok out))"

text \<open>The public keys that a \<open>crypto.Signer\<close> may have; \<open>NoSigner\<close> is a private key that is none.\<close>

datatype private_key = NoSigner | Signer_Ed25519 | Signer_ECDSA | Signer_Other

definition isCompatible :: "SigHash \<Rightarrow> private_key \<Rightarrow> bool" where
  "isCompatible a signer =
     (case signer of
        Signer_Ed25519 \<Rightarrow> sh_Signature a = sig_Ed25519
      | Signer_ECDSA \<Rightarrow> sh_Signature a = sig_ECDSA
      | _ \<Rightarrow> False)"

fun select_loop :: "bool \<Rightarrow> private_key \<Rightarrow> SigHash list \<Rightarrow> SigHash go" where
  "select_loop is13 signer [] = Fail ErrSignatureHashNoAvailableSignatureSchemes"
| "select_loop is13 signer (ss # sigs) =
     (if \<not> is13 \<and> IsPSS (sh_Signature ss) then select_loop is13 signer sigs
      else if IsUnsupported (sh_Signature ss) then select_loop is13 signer sigs
      else if isCompatible ss signer then Ok ss
      else select_loop is13 signer sigs)"

definition selectSignatureScheme13 :: "SigHash list \<Rightarrow> private_key \<Rightarrow> bool \<Rightarrow> SigHash go" where
  "selectSignatureScheme13 sigs privateKey is13 =
     (if privateKey = NoSigner then Fail ErrSignatureHashInvalidPrivateKey
      else select_loop is13 privateKey sigs)"

definition SelectSignatureScheme :: "SigHash list \<Rightarrow> private_key \<Rightarrow> SigHash go" where
  "SelectSignatureScheme sigs privateKey = selectSignatureScheme13 sigs privateKey False"

definition SelectSignatureScheme13 :: "SigHash list \<Rightarrow> private_key \<Rightarrow> SigHash go" where
  "SelectSignatureScheme13 sigs privateKey = selectSignatureScheme13 sigs privateKey True"

section \<open>The schemes of a certificate chain\<close>

text \<open>A certificate by its signature algorithm, an \<open>x509.SignatureAlgorithm\<close>.\<close>

datatype x509_SignatureAlgorithm =
    SHA256WithRSAPSS | SHA384WithRSAPSS | SHA512WithRSAPSS
  | ECDSAWithSHA1 | ECDSAWithSHA256 | ECDSAWithSHA384 | ECDSAWithSHA512
  | PureEd25519 | x509_Other

definition FromCertificate :: "x509_SignatureAlgorithm \<Rightarrow> SigHash go" where
  "FromCertificate cert =
     (case cert of
        SHA256WithRSAPSS \<Rightarrow> Ok (sh hash_SHA256 RSA_PSS_PSS_SHA256)
      | SHA384WithRSAPSS \<Rightarrow> Ok (sh hash_SHA384 RSA_PSS_PSS_SHA384)
      | SHA512WithRSAPSS \<Rightarrow> Ok (sh hash_SHA512 RSA_PSS_PSS_SHA512)
      | ECDSAWithSHA256 \<Rightarrow> Ok (sh hash_SHA256 sig_ECDSA)
      | ECDSAWithSHA384 \<Rightarrow> Ok (sh hash_SHA384 sig_ECDSA)
      | ECDSAWithSHA512 \<Rightarrow> Ok (sh hash_SHA512 sig_ECDSA)
      | PureEd25519 \<Rightarrow> Ok (sh hash_None sig_Ed25519)
      | ECDSAWithSHA1 \<Rightarrow> Ok (sh hash_SHA1 sig_ECDSA)
      | x509_Other \<Rightarrow> Fail ErrSignatureHashInvalidSignatureAlgorithm)"

abbreviation ErrInvalidCertificateSignatureAlgorithm :: err where
  "ErrInvalidCertificateSignatureAlgorithm \<equiv> Err ''certificate uses a signature algorithm that is not allowed''"

fun validate_certs :: "SigHash list \<Rightarrow> x509_SignatureAlgorithm list \<Rightarrow> unit go" where
  "validate_certs allowed [] = Ok ()"
| "validate_certs allowed (cert # certs) =
     gbind (FromCertificate cert) (\<lambda>certAlg.
       if \<exists>a \<in> set allowed. sh_Hash certAlg = sh_Hash a \<and> sh_Signature certAlg = sh_Signature a
       then validate_certs allowed certs
       else Fail ErrInvalidCertificateSignatureAlgorithm)"

definition ValidateCertificateSignatureAlgorithms :: "x509_SignatureAlgorithm list \<Rightarrow> SigHash list \<Rightarrow> unit go" where
  "ValidateCertificateSignatureAlgorithms certs allowed =
     (if allowed = [] then Ok () else validate_certs allowed (butlast certs))"

section \<open>Curves and key exchange\<close>

type_synonym Curve = u16

abbreviation (input) P256 :: Curve where "P256 \<equiv> 0x0017"
abbreviation (input) P384 :: Curve where "P384 \<equiv> 0x0018"
abbreviation (input) X25519 :: Curve where "X25519 \<equiv> 0x001d"
abbreviation (input) X25519MLKEM768 :: Curve where "X25519MLKEM768 \<equiv> 0x11ec"

definition CurveTypes :: "byte list" where "CurveTypes = [0x03]"
definition Curves :: "Curve list" where "Curves = [X25519, P256, P384, X25519MLKEM768]"

text \<open>The curves of \<open>crypto/ecdh\<close>.\<close>

datatype ecdh_curve = ecdh_X25519 | ecdh_P384

definition toECDH :: "Curve \<Rightarrow> ecdh_curve go" where
  "toECDH c = (if c = X25519 then Ok ecdh_X25519 else if c = P384 then Ok ecdh_P384 else Fail ErrInvalidNamedCurveFatal)"

definition clientcertificate_Types :: "byte list" where "clientcertificate_Types = [64]"

type_synonym KeyExchangeAlgorithm = int

definition KeyExchangeAlgorithmNone :: KeyExchangeAlgorithm where "KeyExchangeAlgorithmNone = 0"
definition KeyExchangeAlgorithmPsk :: KeyExchangeAlgorithm where "KeyExchangeAlgorithmPsk = push_bit 1 1"
definition KeyExchangeAlgorithmEcdhe :: KeyExchangeAlgorithm where "KeyExchangeAlgorithmEcdhe = push_bit 1 2"

definition Has :: "KeyExchangeAlgorithm \<Rightarrow> KeyExchangeAlgorithm \<Rightarrow> bool" where
  "Has a v \<longleftrightarrow> a AND v = v"

section \<open>Lemmas\<close>

lemma ucast_low_byte: "(ucast (w AND 0xFF) :: byte) = ucast (w :: u16)"
proof (rule bit_word_eqI)
  fix n
  assume "n < LENGTH(8)"
  then have "bit (0xFF :: u16) n" by (auto simp: less_Suc_eq numeral_eq_Suc)
  then show "bit (ucast (w AND 0xFF) :: byte) n = bit (ucast w :: byte) n" by (simp add: bit_simps)
qed

lemma sh_Unmarshal_Ok:
  assumes "sh_Unmarshal w = Ok a"
  shows "sh_Hash a \<noteq> hash_None" "sh_Marshal a = be16 w"
proof -
  show "sh_Hash a \<noteq> hash_None"
    using assms by (auto simp: sh_Unmarshal_def gbind_Ok_iff split: if_splits)
  show "sh_Marshal a = be16 w"
  proof (cases "IsPSS w")
    case True
    then have "sh_Signature a = w"
      using assms by (auto simp: sh_Unmarshal_def gbind_Ok_iff sh_def Let_def split: if_splits)
    then show ?thesis using True by (simp add: sh_Marshal_def be16_def ucast_low_byte)
  next
    case False
    then have a: "a = sh (drop_bit 8 w) (w AND 0xFF)"
      using assms by (auto simp: sh_Unmarshal_def gbind_Ok_iff split: if_splits)
    have "w AND 0xFF \<le> 0xFF" by (rule word_and_le1)
    then have "\<not> IsPSS (w AND 0xFF)" by (auto simp: IsPSS_def)
    then show ?thesis by (simp add: a sh_def sh_Marshal_def be16_def ucast_low_byte)
  qed
qed

lemma parse_schemes_Ok:
  "\<lbrakk>parse_schemes b sigs out = Ok out'; \<forall>a \<in> set out. sh_Hash a \<noteq> hash_None\<rbrakk> \<Longrightarrow> \<forall>a \<in> set out'. sh_Hash a \<noteq> hash_None"
proof (induction sigs arbitrary: out)
  case (Cons s sigs)
  obtain alg where alg: "sh_Unmarshal s = Ok alg" using Cons.prems(1) by (auto simp: gbind_Ok_iff)
  have "\<forall>a \<in> set (out @ [alg]). sh_Hash a \<noteq> hash_None" using Cons.prems(2) sh_Unmarshal_Ok(1) [OF alg] by simp
  moreover have "parse_schemes b sigs out = Ok out' \<or> parse_schemes b sigs (out @ [alg]) = Ok out'"
    using Cons.prems(1) by (simp add: alg split: if_splits)
  ultimately show ?case using Cons.IH Cons.prems(2) by blast
qed simp

lemma ParseSignatureSchemes_Ok:
  assumes "ParseSignatureSchemes sigs b = Ok out"
  shows "\<forall>a \<in> set out. sh_Hash a \<noteq> hash_None"
proof (cases "sigs = []")
  case True
  then show ?thesis using assms by (auto simp: ParseSignatureSchemes_def sh_Algorithms_def sh_def)
next
  case False
  then have "parse_schemes b sigs [] = Ok out"
    using assms by (auto simp: ParseSignatureSchemes_def gbind_Ok_iff split: if_splits)
  then show ?thesis by (rule parse_schemes_Ok) simp
qed

lemma validate_certs_Ed25519:
  "\<lbrakk>PureEd25519 \<in> set certs; \<forall>a \<in> set allowed. sh_Hash a \<noteq> hash_None\<rbrakk> \<Longrightarrow> \<exists>e. validate_certs allowed certs = Fail e"
proof (induction certs)
  case (Cons c certs)
  show ?case
  proof (cases "c = PureEd25519")
    case True
    have "\<not> (\<exists>a \<in> set allowed. hash_None = sh_Hash a \<and> sig_Ed25519 = sh_Signature a)"
      using Cons.prems(2) by fastforce
    then show ?thesis by (simp add: True FromCertificate_def sh_def) blast
  next
    case False
    then have "PureEd25519 \<in> set certs" using Cons.prems(1) by simp
    then obtain e where "validate_certs allowed certs = Fail e" using Cons.IH Cons.prems(2) by blast
    then show ?thesis by (cases "FromCertificate c") (auto simp: FromCertificate_def split: x509_SignatureAlgorithm.splits)
  qed
qed simp

lemma select_loop_find:
  "select_loop is13 signer sigs =
     (case find (\<lambda>a. isCompatible a signer) sigs of
        Some a \<Rightarrow> Ok a
      | None \<Rightarrow> Fail ErrSignatureHashNoAvailableSignatureSchemes)"
proof (induction sigs)
  case (Cons s sigs)
  have "\<not> isCompatible s signer" if "IsPSS (sh_Signature s) \<or> IsUnsupported (sh_Signature s)"
    using that by (auto simp: isCompatible_def IsPSS_def IsUnsupported_def split: private_key.splits)
  then show ?case using Cons.IH by auto
qed simp

section \<open>Properties\<close>

text \<open> The two encodings of signature schemes (hash and signature byte, or one number for RSA-PSS) together are
  an encoding: a scheme number that is accepted is what the resulting algorithm is written as, so that decoding is
  injective and encoding inverts it.\<close>

theorem SignatureScheme_codec:
  assumes "sh_Unmarshal w = Ok a"
  shows "sh_Marshal a = be16 w \<and> gbind (Uint16 (sh_Marshal a)) sh_Unmarshal = Ok a"
  using assms sh_Unmarshal_Ok(2) [OF assms] by simp

theorem SignatureScheme_codec_witness:
  "sh_Marshal (sh hash_SHA256 sig_ECDSA) = be16 0x0403 \<and>
   gbind (Uint16 (sh_Marshal (sh hash_SHA256 sig_ECDSA))) sh_Unmarshal = Ok (sh hash_SHA256 sig_ECDSA)"
  by (rule SignatureScheme_codec)
    (simp add: sh_Unmarshal_def IsPSS_def sh_def signature_Algorithms_def hash_Algorithms_def drop_bit_eq_div)

text \<open> C38. Whatever signature schemes a peer allows for certificates, by default or by a list that is accepted, a
  chain with a certificate that is signed with Ed25519 (other than the root) is rejected: for such a certificate
  \<open>FromCertificate\<close> has no hash, while the schemes have the hash \<open>Ed25519\<close>.\<close>

theorem Ed25519_certificate_rejected:
  assumes "ParseSignatureSchemes sigs insecureHashes = Ok allowed" "PureEd25519 \<in> set (butlast certs)"
  shows "\<exists>e. ValidateCertificateSignatureAlgorithms certs allowed = Fail e"
proof -
  have "allowed \<noteq> []"
    using assms(1) by (auto simp: ParseSignatureSchemes_def sh_Algorithms_def gbind_Ok_iff split: if_splits)
  then show ?thesis
    using validate_certs_Ed25519 [OF assms(2) ParseSignatureSchemes_Ok [OF assms(1)]]
    by (simp add: ValidateCertificateSignatureAlgorithms_def)
qed

theorem Ed25519_certificate_rejected_witness:
  "\<exists>e. ValidateCertificateSignatureAlgorithms [PureEd25519, PureEd25519] [sh hash_Ed25519 sig_Ed25519] = Fail e"
  by (rule Ed25519_certificate_rejected [of "[0x0807]" False])
    (simp_all add: ParseSignatureSchemes_def sh_Unmarshal_def IsPSS_def sh_def signature_Algorithms_def hash_Algorithms_def
      Insecure_def drop_bit_eq_div)

text \<open> The scheme that is selected is the first of the list that fits the private key, for both versions: an
  RSA-PSS scheme is never selected, whatever the version, as no private key fits one.\<close>

theorem SelectSignatureScheme_first:
  "selectSignatureScheme13 sigs key is13 =
     (if key = NoSigner then Fail ErrSignatureHashInvalidPrivateKey
      else
        (case find (\<lambda>a. isCompatible a key) sigs of
           Some a \<Rightarrow> Ok a
         | None \<Rightarrow> Fail ErrSignatureHashNoAvailableSignatureSchemes))"
  by (simp add: selectSignatureScheme13_def select_loop_find)

end
