(* ===== verification/Dtls_Protocol.thy ===== *)
theory Dtls_Protocol
  imports Dtls_Errors
begin

text \<open>
  The DTLS record layer, \<open>src/dtls/pkg/protocol\<close>: versions, content types, the content of records other than
  handshake messages, the record header, and the records of a datagram.
\<close>

section \<open>Versions and content types\<close>

record Version =
  Major :: byte
  Minor :: byte

definition Version1_0 :: Version where "Version1_0 = \<lparr>Major = 0xfe, Minor = 0xff\<rparr>"
definition Version1_2 :: Version where "Version1_2 = \<lparr>Major = 0xfe, Minor = 0xfd\<rparr>"
definition Version1_3 :: Version where "Version1_3 = \<lparr>Major = 0xfe, Minor = 0xfc\<rparr>"

definition Version_Equal :: "Version \<Rightarrow> Version \<Rightarrow> bool" where
  "Version_Equal v x \<longleftrightarrow> Major v = Major x \<and> Minor v = Minor x"

definition IsSupportedBytes :: "byte \<Rightarrow> byte \<Rightarrow> bool" where
  "IsSupportedBytes major minor \<longleftrightarrow> major = Major Version1_2 \<and> minor = Minor Version1_2"

definition IsSupportedVersion :: "Version \<Rightarrow> bool" where
  "IsSupportedVersion v \<longleftrightarrow> Version_Equal v Version1_2"

definition IsValidBytes :: "byte \<Rightarrow> byte \<Rightarrow> bool" where
  "IsValidBytes major minor \<longleftrightarrow> major = 0xfe \<and> (minor = 0xff \<or> minor = 0xfd \<or> minor = 0xfc)"

definition IsValidVersion :: "Version \<Rightarrow> bool" where
  "IsValidVersion v \<longleftrightarrow> Version_Equal v Version1_0 \<or> Version_Equal v Version1_2 \<or> Version_Equal v Version1_3"

type_synonym ContentType = byte

definition ContentTypeChangeCipherSpec :: ContentType where "ContentTypeChangeCipherSpec = 20"
definition ContentTypeAlert :: ContentType where "ContentTypeAlert = 21"
definition ContentTypeHandshake :: ContentType where "ContentTypeHandshake = 22"
definition ContentTypeApplicationData :: ContentType where "ContentTypeApplicationData = 23"
definition ContentTypeConnectionID :: ContentType where "ContentTypeConnectionID = 25"
definition ContentTypeACK :: ContentType where "ContentTypeACK = 26"

lemmas content_types = ContentTypeChangeCipherSpec_def ContentTypeAlert_def ContentTypeHandshake_def
  ContentTypeApplicationData_def ContentTypeConnectionID_def ContentTypeACK_def

definition IsDTLS13Ciphertext :: "ContentType \<Rightarrow> bool" where
  "IsDTLS13Ciphertext ct \<longleftrightarrow> 31 < ct \<and> ct < 64"

section \<open>Change cipher spec, application data and alerts\<close>

definition ChangeCipherSpec_Marshal :: "bytes go" where
  "ChangeCipherSpec_Marshal = Ok [0x01]"

definition ChangeCipherSpec_Unmarshal :: "bytes \<Rightarrow> unit go" where
  "ChangeCipherSpec_Unmarshal data =
     (if length data = 1 \<and> data ! 0 = 0x01 then Ok () else Fail ErrInvalidCipherSpec)"

definition ApplicationData_Marshal :: "bytes \<Rightarrow> bytes go" where
  "ApplicationData_Marshal a = Ok a"

definition ApplicationData_Unmarshal :: "bytes \<Rightarrow> bytes go" where
  "ApplicationData_Unmarshal data = Ok data"

record Alert =
  Alert_Level :: byte
  Alert_Description :: byte

definition Level_String :: "byte \<Rightarrow> string" where
  "Level_String l = (if l = 1 then ''Warning'' else if l = 2 then ''Fatal'' else ''Invalid alert level'')"

definition Description_names :: "(byte \<times> string) list" where
  "Description_names =
     [(0, ''CloseNotify''), (10, ''UnexpectedMessage''), (20, ''BadRecordMac''), (21, ''DecryptionFailed''),
      (22, ''RecordOverflow''), (30, ''DecompressionFailure''), (40, ''HandshakeFailure''), (41, ''NoCertificate''),
      (42, ''BadCertificate''), (43, ''UnsupportedCertificate''), (44, ''CertificateRevoked''),
      (45, ''CertificateExpired''), (46, ''CertificateUnknown''), (47, ''IllegalParameter''), (48, ''UnknownCA''),
      (49, ''AccessDenied''), (50, ''DecodeError''), (51, ''DecryptError''), (60, ''ExportRestriction''),
      (70, ''ProtocolVersion''), (71, ''InsufficientSecurity''), (80, ''InternalError''), (90, ''UserCanceled''),
      (100, ''NoRenegotiation''), (109, ''MissingExtension''), (110, ''UnsupportedExtension''),
      (120, ''NoApplicationProtocol'')]"

definition Description_String :: "byte \<Rightarrow> string" where
  "Description_String d =
     (case map_of Description_names d of Some s \<Rightarrow> s | None \<Rightarrow> ''Invalid alert description'')"

definition Alert_Marshal :: "Alert \<Rightarrow> bytes go" where
  "Alert_Marshal a = Ok [Alert_Level a, Alert_Description a]"

definition Alert_Unmarshal :: "bytes \<Rightarrow> Alert go" where
  "Alert_Unmarshal data =
     (if length data \<noteq> 2 then Fail ErrBufferTooSmall
      else gbind (at data 0) (\<lambda>l. gbind (at data 1) (\<lambda>d. Ok \<lparr>Alert_Level = l, Alert_Description = d\<rparr>)))"

definition Alert_String :: "Alert \<Rightarrow> string" where
  "Alert_String a =
     ''Alert '' @ Level_String (Alert_Level a) @ '': '' @ Description_String (Alert_Description a)"

section \<open>Compression methods\<close>

type_synonym CompressionMethod = byte

definition CompressionMethods :: "CompressionMethod \<Rightarrow> CompressionMethod option" where
  "CompressionMethods = [0 \<mapsto> 0]"

text \<open>The rounds \<open>i, ..., count - 1\<close> of the loop.\<close>

fun compression_loop :: "bytes \<Rightarrow> nat \<Rightarrow> nat \<Rightarrow> CompressionMethod list \<Rightarrow> CompressionMethod list go" where
  "compression_loop buf i 0 c = Ok c"
| "compression_loop buf i (Suc n) c =
     (if length buf \<le> i + 1 then Fail ErrBufferTooSmall
      else
        gbind (at buf (i + 1)) (\<lambda>b.
          compression_loop buf (Suc i) n (case CompressionMethods b of Some m \<Rightarrow> c @ [m] | None \<Rightarrow> c)))"

definition DecodeCompressionMethods :: "bytes \<Rightarrow> CompressionMethod list go" where
  "DecodeCompressionMethods buf =
     (if length buf < 1 then Fail ErrBufferTooSmall
      else gbind (at buf 0) (\<lambda>n. compression_loop buf 0 (unat n) []))"

definition EncodeCompressionMethods :: "CompressionMethod list \<Rightarrow> bytes" where
  "EncodeCompressionMethods c = of_nat (length c) # rev c"

section \<open>The record header\<close>

record Header =
  Header_ContentType :: ContentType
  ContentLen :: u16
  Header_Version :: Version
  Epoch :: u16
  SequenceNumber :: u64
  ConnectionID :: bytes

definition FixedHeaderSize :: nat where "FixedHeaderSize = 13"
definition MaxSequenceNumber :: u64 where "MaxSequenceNumber = 0x0000FFFFFFFFFFFF"
definition fixedHeaderLenIdx :: nat where "fixedHeaderLenIdx = 11"

definition Header_Marshal :: "Header \<Rightarrow> bytes go" where
  "Header_Marshal h =
     (if MaxSequenceNumber < SequenceNumber h then Fail ErrSequenceNumberOverflow
      else
        Ok ([Header_ContentType h, Major (Header_Version h), Minor (Header_Version h)] @ be16 (Epoch h) @
            PutBigEndianUint48 (SequenceNumber h) @ ConnectionID h @ be16 (ContentLen h)))"

text \<open>\<open>Unmarshal\<close> on a header whose connection ID has been set (to one of the expected length) before.\<close>

definition Header_Unmarshal :: "bytes \<Rightarrow> bytes \<Rightarrow> Header go" where
  "Header_Unmarshal cid data =
     (if length data < FixedHeaderSize then Fail ErrBufferTooSmall
      else
        gbind (at data 0) (\<lambda>ct.
        gbind (if ct = ContentTypeConnectionID then
                 if length data < FixedHeaderSize + length cid then Fail ErrBufferTooSmall
                 else slice data 11 (11 + length cid)
               else Ok []) (\<lambda>cid'.
        gbind (at data 1) (\<lambda>major.
        gbind (at data 2) (\<lambda>minor.
        gbind (u16_at data 3) (\<lambda>epoch.
        gbind (gbind (slice data 5 11) (\<lambda>s. Uint64 ([0, 0] @ s))) (\<lambda>seqno.
        gbind (u16_at data (FixedHeaderSize + length cid' - 2)) (\<lambda>len.
          let v = \<lparr>Major = major, Minor = minor\<rparr> in
          if \<not> Version_Equal v Version1_0 \<and> \<not> Version_Equal v Version1_2 then Fail ErrUnsupportedProtocolVersion
          else
            Ok \<lparr>Header_ContentType = ct, ContentLen = len, Header_Version = v, Epoch = epoch,
                SequenceNumber = seqno, ConnectionID = cid'\<rparr>))))))))"

definition Header_Size :: "Header \<Rightarrow> nat" where
  "Header_Size h = FixedHeaderSize + length (ConnectionID h)"

section \<open>The records of a datagram\<close>

lemma gbind_cong [fundef_cong]: "\<lbrakk>r = r'; \<And>x. r' = Ok x \<Longrightarrow> f x = g x\<rbrakk> \<Longrightarrow> gbind r f = gbind r' g"
  by (cases r') simp_all

function unpack_loop :: "bytes \<Rightarrow> nat \<Rightarrow> bytes list \<Rightarrow> bytes list go" where
  "unpack_loop buf offset out =
     (if length buf = offset then Ok out
      else if length buf - offset \<le> FixedHeaderSize then Fail ErrInvalidPacketLength
      else
        gbind (u16_at buf (offset + 11)) (\<lambda>w.
          let pktLen = FixedHeaderSize + unat w in
          if length buf < offset + pktLen then Fail ErrInvalidPacketLength
          else
            gbind (slice buf offset (offset + pktLen)) (\<lambda>p.
              unpack_loop buf (offset + pktLen) (out @ [p]))))"
  by pat_completeness auto

termination
  by (relation "measure (\<lambda>(buf, offset, _). length buf - offset)") (auto simp: FixedHeaderSize_def)

definition UnpackDatagram :: "bytes \<Rightarrow> bytes list go" where
  "UnpackDatagram buf = unpack_loop buf 0 []"

function aware_loop :: "nat \<Rightarrow> bytes \<Rightarrow> nat \<Rightarrow> bytes list \<Rightarrow> bytes list go" where
  "aware_loop cidLength buf offset out =
     (if length buf = offset then Ok out
      else
        gbind (at buf offset) (\<lambda>ct.
          let cid = (ct = ContentTypeConnectionID);
              headerSize = FixedHeaderSize + (if cid then cidLength else 0);
              lenIdx = fixedHeaderLenIdx + (if cid then cidLength else 0) in
          if length buf - offset \<le> headerSize then Fail ErrInvalidPacketLength
          else
            gbind (u16_at buf (offset + lenIdx)) (\<lambda>w.
              let pktLen = headerSize + unat w in
              if length buf < offset + pktLen then Fail ErrInvalidPacketLength
              else
                gbind (slice buf offset (offset + pktLen)) (\<lambda>p.
                  aware_loop cidLength buf (offset + pktLen) (out @ [p])))))"
  by pat_completeness auto

termination
  by (relation "measure (\<lambda>(_, buf, offset, _). length buf - offset)") (auto simp: FixedHeaderSize_def)

definition ContentAwareUnpackDatagram :: "bytes \<Rightarrow> nat \<Rightarrow> bytes list go" where
  "ContentAwareUnpackDatagram buf cidLength = aware_loop cidLength buf 0 []"

declare unpack_loop.simps [simp del] aware_loop.simps [simp del]

section \<open>Specification\<close>

text \<open>
  A record with its declared length, behind a connection ID of \<open>cidLength\<close> bytes in records of that type, and a
  datagram of such records, the last of which has content.
\<close>

definition cid_len :: "nat \<Rightarrow> bytes \<Rightarrow> nat" where
  "cid_len cidLength r = (if hd r = ContentTypeConnectionID then cidLength else 0)"

definition sized :: "nat \<Rightarrow> bytes \<Rightarrow> bool" where
  "sized cidLength r \<longleftrightarrow>
     (\<exists>w. u16_at r (11 + cid_len cidLength r) = Ok w \<and> length r = 13 + cid_len cidLength r + unat w)"

definition datagram :: "nat \<Rightarrow> bytes list \<Rightarrow> bytes \<Rightarrow> bool" where
  "datagram cidLength rs buf \<longleftrightarrow>
     concat rs = buf \<and> (\<forall>r \<in> set rs. sized cidLength r) \<and>
     (rs \<noteq> [] \<longrightarrow> 13 + cid_len cidLength (last rs) < length (last rs))"

section \<open>Lemmas\<close>

lemma Header_Unmarshal_no_panic: "Header_Unmarshal cid data \<noteq> Panic"
  by (auto simp: Header_Unmarshal_def gbind_Panic_iff FixedHeaderSize_def Let_def slice_def split: if_splits)

lemma MaxSequenceNumber_top:
  assumes "\<not> MaxSequenceNumber < w"
  shows "ucast (drop_bit 56 w) = (0 :: byte)" "ucast (drop_bit 48 w) = (0 :: byte)"
proof -
  have "unat w < 2 ^ 48" using assms by (simp add: MaxSequenceNumber_def word_less_nat_alt not_less)
  then have "drop_bit 48 w = 0" by (simp add: word_unat_eq_iff unat_drop_bit_eq flip: drop_bit_eq_div) (simp add: drop_bit_eq_div)
  moreover have "drop_bit 56 w = drop_bit 8 (drop_bit 48 w)" by (simp only: drop_bit_drop_bit) simp
  ultimately show "ucast (drop_bit 56 w) = (0 :: byte)" "ucast (drop_bit 48 w) = (0 :: byte)" by simp_all
qed

lemma Uint64_Put48:
  assumes "\<not> MaxSequenceNumber < w"
  shows "Uint64 (0 # 0 # PutBigEndianUint48 w) = Ok w"
  using word64_split [of w] by (simp add: PutBigEndianUint48_def be64_def MaxSequenceNumber_top [OF assms])

lemma Header_Unmarshal_Marshal:
  assumes "Header_Marshal h = Ok b" "Header_Version h \<in> {Version1_0, Version1_2}"
    and "if Header_ContentType h = ContentTypeConnectionID then length cid = length (ConnectionID h) else ConnectionID h = []"
  shows "Header_Unmarshal cid (b @ r) = Ok h"
proof -
  define a where "a = [Header_ContentType h, Major (Header_Version h), Minor (Header_Version h)]"
  have seqno: "\<not> MaxSequenceNumber < SequenceNumber h"
    and b: "b = a @ be16 (Epoch h) @ PutBigEndianUint48 (SequenceNumber h) @ ConnectionID h @ be16 (ContentLen h)"
    using assms(1) by (simp_all add: Header_Marshal_def a_def split: if_splits)
  have la: "length a = 3" by (simp add: a_def)
  have "u16_at (b @ r) 3 = Ok (Epoch h)" using u16_at_append [of a "Epoch h"] by (simp add: b la)
  moreover have "slice (b @ r) 5 11 = Ok (PutBigEndianUint48 (SequenceNumber h))"
    using slice_append [of "a @ be16 (Epoch h)" "PutBigEndianUint48 (SequenceNumber h)"] by (simp add: b la)
  moreover have "slice (b @ r) 11 (11 + length (ConnectionID h)) = Ok (ConnectionID h)"
    using slice_append [of "a @ be16 (Epoch h) @ PutBigEndianUint48 (SequenceNumber h)" "ConnectionID h"] by (simp add: b la)
  moreover have "u16_at (b @ r) (11 + length (ConnectionID h)) = Ok (ContentLen h)"
    using u16_at_append [of "a @ be16 (Epoch h) @ PutBigEndianUint48 (SequenceNumber h) @ ConnectionID h" "ContentLen h"]
    by (simp add: b la)
  moreover have "at (b @ r) 0 = Ok (Header_ContentType h)" "at (b @ r) 1 = Ok (Major (Header_Version h))"
      "at (b @ r) 2 = Ok (Minor (Header_Version h))"
    by (simp_all add: b a_def at_def)
  moreover have "length b = 13 + length (ConnectionID h)" by (simp add: b la)
  ultimately show ?thesis
    using assms(2,3) by (auto simp: Header_Unmarshal_def FixedHeaderSize_def Uint64_Put48 [OF seqno] Version_Equal_def split: if_splits)
qed

lemma u16_at_drop: "u16_at (drop a d) b = u16_at d (a + b)" if "a \<le> length d"
  using that by (auto simp: u16_at_def slice_from_def add.commute)

lemma u16_at_take: "u16_at (take n d) b = u16_at d b" if "b + 2 \<le> n" "n \<le> length d"
proof -
  define k where "k = n - b - 2"
  have "n = b + Suc (Suc k)" using that(1) by (simp add: k_def)
  then have "drop b (take n d) = take (Suc (Suc k)) (drop b d)" by (simp add: drop_take)
  moreover have "Uint16 (take (Suc (Suc k)) e) = Uint16 e" for k e by (cases e rule: Uint16.cases) simp_all
  ultimately show ?thesis using that by (auto simp: u16_at_def slice_from_def)
qed

lemma u16_at_append2: "u16_at (d @ e) b = u16_at d b" if "b + 2 \<le> length d"
  using u16_at_take [of b "length d" "d @ e"] that by simp

lemma aware_loop_no_panic: "offset \<le> length buf \<Longrightarrow> aware_loop c buf offset out \<noteq> Panic"
proof (induction "length buf - offset" arbitrary: offset out rule: less_induct)
  case less
  show ?case
    apply (subst aware_loop.simps)
    using less by (auto simp: gbind_Panic_iff Let_def FixedHeaderSize_def fixedHeaderLenIdx_def)
qed

lemma aware_loop_sound:
  "\<lbrakk>aware_loop c buf offset out = Ok res; offset \<le> length buf\<rbrakk> \<Longrightarrow> \<exists>rs. res = out @ rs \<and> datagram c rs (drop offset buf)"
proof (induction "length buf - offset" arbitrary: offset out rule: less_induct)
  case less
  show ?case
  proof (cases "offset = length buf")
    case True
    then show ?thesis using less.prems by (subst (asm) aware_loop.simps) (simp add: datagram_def)
  next
    case False
    let ?s = "drop offset buf" and ?c = "cid_len c (drop offset buf)"
    have hd: "hd ?s = buf ! offset" using False less.prems(2) by (simp add: hd_drop_conv_nth)
    obtain w where w: "13 + ?c < length ?s" "u16_at buf (offset + (11 + ?c)) = Ok w" "offset + (13 + ?c + unat w) \<le> length buf"
        "aware_loop c buf (offset + (13 + ?c + unat w)) (out @ [take (13 + ?c + unat w) ?s]) = Ok res"
      using less.prems(1) [unfolded aware_loop.simps [of c buf offset out]] less.prems(2) False
      by (auto simp: gbind_Ok_iff Let_def at_def slice_def FixedHeaderSize_def fixedHeaderLenIdx_def cid_len_def hd
          split: if_splits)
    define n where "n = 13 + ?c + unat w"
    have "length buf - (offset + n) < length buf - offset" using less.prems(2) False by (simp add: n_def)
    then have "\<exists>rs. res = (out @ [take n ?s]) @ rs \<and> datagram c rs (drop (offset + n) buf)"
      using w(4,3) unfolding n_def [symmetric] by (rule less.hyps)
    then obtain rs where rs: "res = out @ [take n ?s] @ rs" "datagram c rs (drop (offset + n) buf)"
      unfolding append_assoc by blast
    have "hd (take n ?s) = hd ?s" using False less.prems(2) by (cases ?s) (auto simp: n_def)
    then have c: "cid_len c (take n ?s) = ?c" by (simp add: cid_len_def)
    have "u16_at (take n ?s) (11 + ?c) = Ok w"
      using w less.prems(2) by (simp add: u16_at_take u16_at_drop n_def)
    moreover have "length (take n ?s) = 13 + ?c + unat w"
      using w(3) less.prems(2) by (simp add: n_def [symmetric])
    ultimately have "sized c (take n ?s)" unfolding sized_def c by blast
    moreover have "13 + ?c < length (take n ?s)" if "drop (offset + n) buf = []"
      using that w(1,3) by (simp add: n_def)
    moreover have "take n ?s @ drop (n + offset) buf = ?s" by (simp only: append_take_drop_id flip: drop_drop)
    ultimately have "datagram c (take n ?s # rs) ?s"
      using rs(2) by (auto simp: datagram_def c add.commute [of offset])
    then show ?thesis using rs(1) by simp
  qed
qed

lemma aware_loop_complete:
  "\<lbrakk>datagram c rs (drop offset buf); offset \<le> length buf\<rbrakk> \<Longrightarrow> aware_loop c buf offset out = Ok (out @ rs)"
proof (induction rs arbitrary: offset out)
  case Nil
  then show ?case by (subst aware_loop.simps) (simp add: datagram_def)
next
  case (Cons r rs)
  let ?s = "drop offset buf" and ?c = "cid_len c r"
  have s: "?s = r @ concat rs" and szd: "sized c r" using Cons.prems(1) by (auto simp: datagram_def)
  obtain w where w: "u16_at r (11 + ?c) = Ok w" "length r = 13 + ?c + unat w" using szd by (auto simp: sized_def)
  have "r \<noteq> []" using w(2) by auto
  then have off: "offset < length buf" using s Cons.prems(2) by (cases "offset = length buf") auto
  then have "hd ?s = buf ! offset" by (rule hd_drop_conv_nth)
  then have hd: "hd r = buf ! offset" using \<open>r \<noteq> []\<close> by (simp add: s)
  have len: "length buf = offset + length r + length (concat rs)" using arg_cong [OF s, of length] Cons.prems(2) by simp
  have "u16_at buf (offset + (11 + ?c)) = u16_at ?s (11 + ?c)" by (simp only: u16_at_drop [OF Cons.prems(2)])
  also have "\<dots> = u16_at r (11 + ?c)" unfolding s by (rule u16_at_append2) (simp add: w(2))
  finally have "u16_at buf (offset + (11 + ?c)) = Ok w" by (simp only: w(1))
  moreover have "13 + ?c < length buf - offset"
  proof (cases "concat rs = []")
    case True
    have "rs = []"
    proof (rule ccontr)
      assume "rs \<noteq> []"
      then have "last rs = []" "last rs \<in> set rs" using True by auto
      then show False using Cons.prems(1) \<open>rs \<noteq> []\<close> by (simp add: datagram_def)
    qed
    then have "13 + ?c < length r" using Cons.prems(1) [unfolded datagram_def, THEN conjunct2, THEN conjunct2] by simp
    then show ?thesis using len by linarith
  next
    case False
    then show ?thesis using w(2) len by (cases "concat rs") auto
  qed
  moreover have "drop (offset + length r) buf = concat rs" using arg_cong [OF s, of "drop (length r)"] by (simp add: add.commute)
  then have "aware_loop c buf (offset + length r) (out @ [r]) = Ok ((out @ [r]) @ rs)"
    using Cons.prems len by (intro Cons.IH) (auto simp: datagram_def)
  moreover have "take (length r) ?s = r" by (simp add: s)
  ultimately show ?case
    apply (subst aware_loop.simps)
    using hd off w len by (auto simp: Let_def at_def slice_def FixedHeaderSize_def fixedHeaderLenIdx_def cid_len_def)
qed

lemma unpack_loop_aware: "offset \<le> length buf \<Longrightarrow> unpack_loop buf offset out = aware_loop 0 buf offset out"
proof (induction "length buf - offset" arbitrary: offset out rule: less_induct)
  case less
  show ?case
    apply (subst unpack_loop.simps, subst aware_loop.simps)
    using less by (auto simp: Let_def at_def FixedHeaderSize_def fixedHeaderLenIdx_def intro!: gbind_cong)
qed

section \<open>Properties\<close>

text \<open> C36. Cutting a datagram into records succeeds with exactly one result, the records that make up the datagram,
  each as long as its header declares (records with a connection ID counted with it) and the last one with content.
  In every other case the function reports an error; it never reads outside of the datagram.\<close>

theorem UnpackDatagram_exact:
  "ContentAwareUnpackDatagram buf n \<noteq> Panic \<and>
   (ContentAwareUnpackDatagram buf n = Ok rs \<longleftrightarrow> datagram n rs buf) \<and>
   UnpackDatagram buf = ContentAwareUnpackDatagram buf 0"
  using aware_loop_no_panic [of 0 buf n "[]"] aware_loop_sound [of n buf 0 "[]" rs]
    aware_loop_complete [of n rs 0 buf "[]"] unpack_loop_aware [of 0 buf "[]"]
  by (auto simp: UnpackDatagram_def ContentAwareUnpackDatagram_def)

text \<open> Reading back a record header gives the header, for the two versions that a record may carry; and reading
  any bytes as a header gives a header or an error, and never reads past the end.\<close>

theorem Header_roundtrip:
  "Header_Unmarshal cid data \<noteq> Panic \<and>
   (Header_Marshal h = Ok b \<and> Header_Version h \<in> {Version1_0, Version1_2} \<and>
    (if Header_ContentType h = ContentTypeConnectionID then length cid = length (ConnectionID h) else ConnectionID h = []) \<longrightarrow>
    Header_Unmarshal cid (b @ r) = Ok h)"
  using Header_Unmarshal_no_panic Header_Unmarshal_Marshal by blast

theorem Header_roundtrip_witness:
  "Header_Unmarshal [9, 9, 9] ([25, 0xfe, 0xfd, 0, 1, 0, 0, 0, 0, 0, 2, 7, 8, 7, 0, 5] @ [1, 2]) =
     Ok \<lparr>Header_ContentType = 25, ContentLen = 5, Header_Version = Version1_2, Epoch = 1, SequenceNumber = 2,
         ConnectionID = [7, 8, 7]\<rparr>"
  using Header_roundtrip [of "[9, 9, 9]" "[]"
    "\<lparr>Header_ContentType = 25, ContentLen = 5, Header_Version = Version1_2, Epoch = 1, SequenceNumber = 2, ConnectionID = [7, 8, 7]\<rparr>"
    "[25, 0xfe, 0xfd, 0, 1, 0, 0, 0, 0, 0, 2, 7, 8, 7, 0, 5]" "[1, 2]"]
  by (simp add: Header_Marshal_def MaxSequenceNumber_def Version1_2_def ContentTypeConnectionID_def be16_def
      PutBigEndianUint48_def be64_def drop_bit_eq_div)

end
