(* ===== verification/Dtls_Extension.thy ===== *)
theory Dtls_Extension
  imports Cryptobyte Dtls_Algorithms Dtls_Protocol
begin

text \<open>
  The extensions of hello messages, \<open>src/dtls/pkg/protocol/extension\<close>: one encoder and one decoder per
  extension, and the lists of extensions.  A decoder gets all the data from the type of its extension on, also
  what comes after the extension.  Decoders fill a struct that is new.
\<close>

type_synonym TypeValue = u16

abbreviation (input) ServerNameTypeValue :: TypeValue where "ServerNameTypeValue \<equiv> 0"
abbreviation (input) SupportedEllipticCurvesTypeValue :: TypeValue where "SupportedEllipticCurvesTypeValue \<equiv> 10"
abbreviation (input) SupportedPointFormatsTypeValue :: TypeValue where "SupportedPointFormatsTypeValue \<equiv> 11"
abbreviation (input) SupportedSignatureAlgorithmsTypeValue :: TypeValue where "SupportedSignatureAlgorithmsTypeValue \<equiv> 13"
abbreviation (input) UseSRTPTypeValue :: TypeValue where "UseSRTPTypeValue \<equiv> 14"
abbreviation (input) ALPNTypeValue :: TypeValue where "ALPNTypeValue \<equiv> 16"
abbreviation (input) UseExtendedMasterSecretTypeValue :: TypeValue where "UseExtendedMasterSecretTypeValue \<equiv> 23"
abbreviation (input) PreSharedKeyValue :: TypeValue where "PreSharedKeyValue \<equiv> 41"
abbreviation (input) EarlyDataIndicationTypeValue :: TypeValue where "EarlyDataIndicationTypeValue \<equiv> 42"
abbreviation (input) SupportedVersionsTypeValue :: TypeValue where "SupportedVersionsTypeValue \<equiv> 43"
abbreviation (input) CookieTypeValue :: TypeValue where "CookieTypeValue \<equiv> 44"
abbreviation (input) PskKeyExchangeModesTypeValue :: TypeValue where "PskKeyExchangeModesTypeValue \<equiv> 45"
abbreviation (input) CertificateAuthoritiesTypeValue :: TypeValue where "CertificateAuthoritiesTypeValue \<equiv> 47"
abbreviation (input) OIDFiltersTypeValue :: TypeValue where "OIDFiltersTypeValue \<equiv> 48"
abbreviation (input) PostHandshakeAuthTypeValue :: TypeValue where "PostHandshakeAuthTypeValue \<equiv> 49"
abbreviation (input) SignatureAlgorithmsCertTypeValue :: TypeValue where "SignatureAlgorithmsCertTypeValue \<equiv> 50"
abbreviation (input) KeyShareTypeValue :: TypeValue where "KeyShareTypeValue \<equiv> 51"
abbreviation (input) ConnectionIDTypeValue :: TypeValue where "ConnectionIDTypeValue \<equiv> 54"
abbreviation (input) RenegotiationInfoTypeValue :: TypeValue where "RenegotiationInfoTypeValue \<equiv> 65281"

text \<open>
  The first lines of the decoders that use \<open>cryptobyte\<close>: the type (whose reading some of them check), the length,
  and the data of the extension.
\<close>

definition ext_data :: "'b cryptobyte \<Rightarrow> bool \<Rightarrow> TypeValue \<Rightarrow> err \<Rightarrow> bytes \<Rightarrow> bytes go" where
  "ext_data cb checked typeValue lengthErr data =
     (case (case cb_ReadUint16 cb data of
              None \<Rightarrow> if checked then None else Some (0, data)
            | Some (t, val) \<Rightarrow> Some (t, val)) of
        None \<Rightarrow> Fail ErrInvalidExtensionType
      | Some (t, val) \<Rightarrow>
          if t \<noteq> typeValue then Fail ErrInvalidExtensionType
          else
            (case cb_ReadUint16LengthPrefixed cb val of
               None \<Rightarrow> Fail lengthErr
             | Some (extData, _) \<Rightarrow> Ok extData))"

section \<open>Names and protocols\<close>

definition ServerName_Marshal :: "'b cryptobyte \<Rightarrow> bytes \<Rightarrow> bytes go" where
  "ServerName_Marshal cb name =
     cb_Bytes cb
       (cb_AddUint16LengthPrefixed cb
          (cb_AddUint16LengthPrefixed cb
             (\<lambda>b. cb_AddUint16LengthPrefixed cb (cb_AddBytes cb name) (cb_AddUint8 cb 0 b)))
          (cb_AddUint16 cb ServerNameTypeValue (cb_Builder cb)))"

definition server_name_round :: "'b cryptobyte \<Rightarrow> bytes \<Rightarrow> bytes \<Rightarrow> (bytes \<times> bytes) go" where
  "server_name_round cb nameList name =
     (case cb_ReadUint8 cb nameList of
        None \<Rightarrow> Fail ErrInvalidSNIFormat
      | Some (nameType, nameList) \<Rightarrow>
          (case cb_ReadUint16LengthPrefixed cb nameList of
             None \<Rightarrow> Fail ErrInvalidSNIFormat
           | Some (serverName, nameList) \<Rightarrow>
               if cb_Empty cb serverName then Fail ErrInvalidSNIFormat
               else if nameType \<noteq> 0 then Ok (name, nameList)
               else if length name \<noteq> 0 then Fail ErrInvalidSNIFormat
               else if last serverName = 0x2e then Fail ErrInvalidSNIFormat
               else Ok (serverName, nameList)))"

definition ServerName_Unmarshal :: "'b cryptobyte \<Rightarrow> bytes \<Rightarrow> bytes go" where
  "ServerName_Unmarshal cb data =
     gbind (ext_data cb False ServerNameTypeValue ErrBufferTooSmall data) (\<lambda>extData.
       case cb_ReadUint16LengthPrefixed cb extData of
         None \<Rightarrow> Fail ErrInvalidSNIFormat
       | Some (nameList, extData) \<Rightarrow>
           if cb_Empty cb nameList then Fail ErrInvalidSNIFormat
           else if \<not> cb_Empty cb extData then Fail ErrLengthMismatch
           else cb_while cb (server_name_round cb) (length nameList) nameList [])"

definition ALPN_Marshal :: "'b cryptobyte \<Rightarrow> bytes list \<Rightarrow> bytes go" where
  "ALPN_Marshal cb protos =
     cb_Bytes cb
       (cb_AddUint16LengthPrefixed cb
          (cb_AddUint16LengthPrefixed cb
             (fold (\<lambda>p. cb_AddUint8LengthPrefixed cb (cb_AddBytes cb p)) protos))
          (cb_AddUint16 cb ALPNTypeValue (cb_Builder cb)))"

definition alpn_round :: "'b cryptobyte \<Rightarrow> bytes \<Rightarrow> bytes list \<Rightarrow> (bytes list \<times> bytes) go" where
  "alpn_round cb protoList protos =
     (case cb_ReadUint8LengthPrefixed cb protoList of
        None \<Rightarrow> Fail ErrALPNInvalidFormat
      | Some (proto, protoList) \<Rightarrow>
          if cb_Empty cb proto then Fail ErrALPNInvalidFormat else Ok (protos @ [proto], protoList))"

definition ALPN_Unmarshal :: "'b cryptobyte \<Rightarrow> bytes \<Rightarrow> bytes list go" where
  "ALPN_Unmarshal cb data =
     gbind (ext_data cb False ALPNTypeValue ErrLengthMismatch data) (\<lambda>extData.
       case cb_ReadUint16LengthPrefixed cb extData of
         None \<Rightarrow> Fail ErrALPNInvalidFormat
       | Some (protoList, extData) \<Rightarrow>
           if cb_Empty cb protoList then Fail ErrALPNInvalidFormat
           else if \<not> cb_Empty cb extData then Fail ErrLengthMismatch
           else cb_while cb (alpn_round cb) (length protoList) protoList [])"

definition ALPNProtocolSelection :: "bytes list \<Rightarrow> bytes list \<Rightarrow> bytes go" where
  "ALPNProtocolSelection supportedProtocols peerSupportedProtocols =
     (if length supportedProtocols = 0 \<or> length peerSupportedProtocols = 0 then Ok []
      else
        (case find (\<lambda>s. s \<in> set peerSupportedProtocols) supportedProtocols of
           Some s \<Rightarrow> Ok s
         | None \<Rightarrow> Fail ErrALPNNoAppProto))"

section \<open>Curves and point formats\<close>

fun u16s_at :: "bytes \<Rightarrow> nat \<Rightarrow> nat \<Rightarrow> u16 list go" where
  "u16s_at data a 0 = Ok []"
| "u16s_at data a (Suc n) = gbind (u16_at data a) (\<lambda>w. gmap (\<lambda>ws. w # ws) (u16s_at data (a + 2) n))"

fun bytes_at :: "bytes \<Rightarrow> nat \<Rightarrow> nat \<Rightarrow> bytes go" where
  "bytes_at data a 0 = Ok []"
| "bytes_at data a (Suc n) = gbind (at data a) (\<lambda>b. gmap (\<lambda>bs. b # bs) (bytes_at data (Suc a) n))"

definition SupportedEllipticCurves_Marshal :: "Curve list \<Rightarrow> bytes go" where
  "SupportedEllipticCurves_Marshal curves =
     Ok (be16 SupportedEllipticCurvesTypeValue @ be16 (of_nat (2 + length curves * 2)) @
         be16 (of_nat (length curves * 2)) @ concat (map be16 curves))"

definition SupportedEllipticCurves_Unmarshal :: "bytes \<Rightarrow> Curve list go" where
  "SupportedEllipticCurves_Unmarshal data =
     (if length data < 6 then Fail ErrBufferTooSmall
      else
        gbind (u16_at data 2) (\<lambda>dl.
        gbind (u16_at data 4) (\<lambda>gl.
        gbind (u16_at data 0) (\<lambda>t.
          let declaredLength = unat dl; groupCount = unat (gl div 2) in
          if t \<noteq> SupportedEllipticCurvesTypeValue then Fail ErrInvalidExtensionType
          else if declaredLength > length data - 4 then Fail ErrLengthMismatch
          else if 6 + groupCount * 2 > length data then Fail ErrLengthMismatch
          else if groupCount * 2 + 2 \<noteq> declaredLength then Fail ErrLengthMismatch
          else gmap (filter (\<lambda>c. c \<in> set Curves)) (u16s_at data 6 groupCount)))))"

definition SupportedPointFormats_Marshal :: "byte list \<Rightarrow> bytes go" where
  "SupportedPointFormats_Marshal formats =
     (if length formats > 255 then Fail ErrPointFormatsTooLarge
      else
        Ok (be16 SupportedPointFormatsTypeValue @ be16 (of_nat (1 + length formats)) @
            [of_nat (length formats)] @ formats))"

definition SupportedPointFormats_Unmarshal :: "bytes \<Rightarrow> byte list go" where
  "SupportedPointFormats_Unmarshal data =
     (if length data < 5 then Fail ErrBufferTooSmall
      else
        gbind (u16_at data 2) (\<lambda>dl.
        gbind (at data 4) (\<lambda>n.
        gbind (u16_at data 0) (\<lambda>t.
          let declaredLength = unat dl; pointFormatCount = unat n in
          if t \<noteq> SupportedPointFormatsTypeValue then Fail ErrInvalidExtensionType
          else if declaredLength > length data - 4 then Fail ErrLengthMismatch
          else if 5 + pointFormatCount > length data then Fail ErrLengthMismatch
          else if pointFormatCount + 1 \<noteq> declaredLength then Fail ErrLengthMismatch
          else gmap (filter (\<lambda>p. p = 0)) (bytes_at data 5 pointFormatCount)))))"

section \<open>Signature algorithms\<close>

definition marshalGenericSignatureHashAlgorithm :: "'b cryptobyte \<Rightarrow> TypeValue \<Rightarrow> SigHash list \<Rightarrow> bytes go" where
  "marshalGenericSignatureHashAlgorithm cb typeValue algs =
     cb_Bytes cb
       (cb_AddUint16LengthPrefixed cb
          (cb_AddUint16LengthPrefixed cb (fold (\<lambda>v. cb_AddBytes cb (sh_Marshal v)) algs))
          (cb_AddUint16 cb typeValue (cb_Builder cb)))"

definition sig_alg_round :: "'b cryptobyte \<Rightarrow> bytes \<Rightarrow> SigHash list \<Rightarrow> (SigHash list \<times> bytes) go" where
  "sig_alg_round cb algData dst =
     (case cb_ReadUint16 cb algData of
        None \<Rightarrow> Fail ErrLengthMismatch
      | Some (scheme, algData) \<Rightarrow>
          (case sh_Unmarshal scheme of
             Ok alg \<Rightarrow> Ok (dst @ [alg], algData)
           | Fail _ \<Rightarrow> Ok (dst, algData)
           | Panic \<Rightarrow> Panic))"

definition unmarshalGenericSignatureHashAlgorithm :: "'b cryptobyte \<Rightarrow> TypeValue \<Rightarrow> bytes \<Rightarrow> SigHash list go" where
  "unmarshalGenericSignatureHashAlgorithm cb typeValue data =
     gbind (ext_data cb True typeValue ErrBufferTooSmall data) (\<lambda>extData.
       case cb_ReadUint16LengthPrefixed cb extData of
         None \<Rightarrow> Fail ErrLengthMismatch
       | Some (algData, extData) \<Rightarrow>
           if \<not> cb_Empty cb extData then Fail ErrLengthMismatch
           else cb_while cb (sig_alg_round cb) (length algData) algData [])"

definition SupportedSignatureAlgorithms_Marshal :: "'b cryptobyte \<Rightarrow> SigHash list \<Rightarrow> bytes go" where
  "SupportedSignatureAlgorithms_Marshal cb algs =
     marshalGenericSignatureHashAlgorithm cb SupportedSignatureAlgorithmsTypeValue algs"

definition SupportedSignatureAlgorithms_Unmarshal :: "'b cryptobyte \<Rightarrow> bytes \<Rightarrow> SigHash list go" where
  "SupportedSignatureAlgorithms_Unmarshal cb data =
     unmarshalGenericSignatureHashAlgorithm cb SupportedSignatureAlgorithmsTypeValue data"

definition SignatureAlgorithmsCert_Marshal :: "'b cryptobyte \<Rightarrow> SigHash list \<Rightarrow> bytes go" where
  "SignatureAlgorithmsCert_Marshal cb algs =
     marshalGenericSignatureHashAlgorithm cb SignatureAlgorithmsCertTypeValue algs"

definition SignatureAlgorithmsCert_Unmarshal :: "'b cryptobyte \<Rightarrow> bytes \<Rightarrow> SigHash list go" where
  "SignatureAlgorithmsCert_Unmarshal cb data =
     unmarshalGenericSignatureHashAlgorithm cb SignatureAlgorithmsCertTypeValue data"

section \<open>SRTP, extended master secret, renegotiation\<close>

record UseSRTP =
  ProtectionProfiles :: "u16 list"
  MasterKeyIdentifier :: bytes

definition srtpProtectionProfiles :: "u16 list" where
  "srtpProtectionProfiles = [1, 2, 3, 4, 5, 6, 7, 8]"

definition UseSRTP_Marshal :: "UseSRTP \<Rightarrow> bytes go" where
  "UseSRTP_Marshal u =
     (if length (MasterKeyIdentifier u) > 255 then Fail ErrMasterKeyIdentifierTooLarge
      else
        let extensionDataLen = 2 + length (ProtectionProfiles u) * 2 + 1 + length (MasterKeyIdentifier u) in
        if extensionDataLen > 65535 then Fail ErrUseSRTPDataTooLarge
        else
          Ok (be16 UseSRTPTypeValue @ be16 (of_nat extensionDataLen) @
              be16 (of_nat (length (ProtectionProfiles u) * 2)) @ concat (map be16 (ProtectionProfiles u)) @
              [of_nat (length (MasterKeyIdentifier u))] @ MasterKeyIdentifier u))"

definition UseSRTP_Unmarshal :: "bytes \<Rightarrow> UseSRTP go" where
  "UseSRTP_Unmarshal data =
     (if length data \<le> 6 then Fail ErrBufferTooSmall
      else
        gbind (u16_at data 0) (\<lambda>t.
        if t \<noteq> UseSRTPTypeValue then Fail ErrInvalidExtensionType
        else
          gbind (u16_at data 4) (\<lambda>pl.
          let profileCount = unat (pl div 2);
              masterKeyIdentifierIndex = 6 + profileCount * 2 in
          if masterKeyIdentifierIndex + 1 > length data then Fail ErrLengthMismatch
          else
            gbind (u16_at data 2) (\<lambda>dl.
            gbind (at data masterKeyIdentifierIndex) (\<lambda>ml.
            let end = masterKeyIdentifierIndex + unat ml in
            if end \<ge> length data \<or> end - 4 \<noteq> unat dl - 1 then Fail ErrLengthMismatch
            else
              gbind (u16s_at data 6 profileCount) (\<lambda>profiles.
              gbind (slice data (masterKeyIdentifierIndex + 1) (end + 1)) (\<lambda>mki.
                Ok \<lparr>ProtectionProfiles = filter (\<lambda>p. p \<in> set srtpProtectionProfiles) profiles,
                    MasterKeyIdentifier = mki\<rparr>)))))))"

definition UseExtendedMasterSecret_Marshal :: "bool \<Rightarrow> bytes go" where
  "UseExtendedMasterSecret_Marshal supported =
     (if \<not> supported then Ok [] else Ok (be16 UseExtendedMasterSecretTypeValue @ be16 0))"

definition UseExtendedMasterSecret_Unmarshal :: "bytes \<Rightarrow> bool go" where
  "UseExtendedMasterSecret_Unmarshal data =
     (if length data < 4 then Fail ErrBufferTooSmall
      else
        gbind (at data 2) (\<lambda>a.
        gbind (at data 3) (\<lambda>b.
          if a \<noteq> 0 \<or> b \<noteq> 0 then Fail ErrLengthMismatch
          else
            gbind (u16_at data 0) (\<lambda>t.
              if t \<noteq> UseExtendedMasterSecretTypeValue then Fail ErrInvalidExtensionType else Ok True))))"

definition RenegotiationInfo_Marshal :: "byte \<Rightarrow> bytes go" where
  "RenegotiationInfo_Marshal r = Ok (be16 RenegotiationInfoTypeValue @ be16 1 @ [r])"

definition RenegotiationInfo_Unmarshal :: "bytes \<Rightarrow> byte go" where
  "RenegotiationInfo_Unmarshal data =
     (if length data < 5 then Fail ErrBufferTooSmall
      else
        gbind (u16_at data 0) (\<lambda>t.
          if t \<noteq> RenegotiationInfoTypeValue then Fail ErrInvalidExtensionType
          else
            gbind (u16_at data 2) (\<lambda>n.
              if n \<noteq> 1 then Fail ErrLengthMismatch else at data 4)))"

section \<open>Connection IDs, versions, cookies\<close>

definition ConnectionID_Marshal :: "'b cryptobyte \<Rightarrow> bytes \<Rightarrow> bytes go" where
  "ConnectionID_Marshal cb cid =
     cb_Bytes cb
       (cb_AddUint16LengthPrefixed cb (cb_AddUint8LengthPrefixed cb (cb_AddBytes cb cid))
          (cb_AddUint16 cb ConnectionIDTypeValue (cb_Builder cb)))"

definition ConnectionID_Unmarshal :: "'b cryptobyte \<Rightarrow> bytes \<Rightarrow> bytes go" where
  "ConnectionID_Unmarshal cb data =
     gbind (ext_data cb False ConnectionIDTypeValue ErrBufferTooSmall data) (\<lambda>extData.
       case cb_ReadUint8LengthPrefixed cb extData of
         None \<Rightarrow> Fail ErrInvalidCIDFormat
       | Some (cid, extData) \<Rightarrow>
           if \<not> cb_Empty cb extData then Fail ErrLengthMismatch
           else
             (case cb_ReadBytes cb (length cid) cid of
                None \<Rightarrow> Fail ErrInvalidCIDFormat
              | Some (c, _) \<Rightarrow> Ok c))"

record SupportedVersions =
  Versions :: "Version list"
  SelectedVersion :: bool

definition add_version :: "'b cryptobyte \<Rightarrow> Version \<Rightarrow> 'b \<Rightarrow> 'b" where
  "add_version cb v b = cb_AddUint8 cb (Minor v) (cb_AddUint8 cb (Major v) b)"

definition SupportedVersions_Marshal :: "'b cryptobyte \<Rightarrow> SupportedVersions \<Rightarrow> bytes go" where
  "SupportedVersions_Marshal cb s =
     (if length (Versions s) = 0 then Fail ErrInvalidSupportedVersionsFormat
      else if SelectedVersion s \<and> length (Versions s) \<noteq> 1 then Fail ErrInvalidSupportedVersionsFormat
      else if length (Versions s) * 2 < 2 \<or> length (Versions s) * 2 > 254 then Fail ErrInvalidSupportedVersionsFormat
      else if \<exists>v \<in> set (Versions s). \<not> IsValidVersion v then Fail ErrInvalidDTLSVersion
      else
        cb_Bytes cb
          (cb_AddUint16LengthPrefixed cb
             (if SelectedVersion s then add_version cb (hd (Versions s))
              else cb_AddUint8LengthPrefixed cb (fold (add_version cb) (Versions s)))
             (cb_AddUint16 cb SupportedVersionsTypeValue (cb_Builder cb))))"

definition version_round :: "'b cryptobyte \<Rightarrow> bytes \<Rightarrow> Version list \<Rightarrow> (Version list \<times> bytes) go" where
  "version_round cb peek vs =
     (case cb_ReadUint8 cb peek of
        None \<Rightarrow> Fail ErrInvalidSupportedVersionsFormat
      | Some (major, peek) \<Rightarrow>
          (case cb_ReadUint8 cb peek of
             None \<Rightarrow> Fail ErrInvalidSupportedVersionsFormat
           | Some (minor, peek) \<Rightarrow>
               Ok (if IsValidBytes major minor then vs @ [\<lparr>Major = major, Minor = minor\<rparr>] else vs, peek)))"

definition SupportedVersions_Unmarshal :: "'b cryptobyte \<Rightarrow> bytes \<Rightarrow> SupportedVersions go" where
  "SupportedVersions_Unmarshal cb data =
     gbind (ext_data cb False SupportedVersionsTypeValue ErrBufferTooSmall data) (\<lambda>extData.
       if cb_Empty cb extData then Fail ErrInvalidSupportedVersionsFormat
       else
         let selected =
           (if length extData \<noteq> 2 then Fail ErrInvalidSupportedVersionsFormat
            else
              gbind (version_round cb extData []) (\<lambda>(vs, _). Ok \<lparr>Versions = vs, SelectedVersion = True\<rparr>)) in
         case cb_ReadUint8 cb extData of
           None \<Rightarrow> selected
         | Some (listLen, peek) \<Rightarrow>
             if unat listLen = length peek \<and> 2 \<le> listLen \<and> listLen mod 2 = 0 then
               gbind (cb_while cb (version_round cb) (length peek) peek []) (\<lambda>vs.
                 case cb_Skip cb (1 + unat listLen) extData of
                   None \<Rightarrow> Fail ErrInvalidSupportedVersionsFormat
                 | Some extData \<Rightarrow>
                     if \<not> cb_Empty cb extData then Fail ErrLengthMismatch
                     else Ok \<lparr>Versions = vs, SelectedVersion = False\<rparr>)
             else selected)"

definition maxCookieSize :: nat where "maxCookieSize = 0xffff - 2"

definition CookieExt_Marshal :: "'b cryptobyte \<Rightarrow> bytes \<Rightarrow> bytes go" where
  "CookieExt_Marshal cb cookie =
     (if length cookie = 0 \<or> length cookie > maxCookieSize then Fail ErrCookieExtFormat
      else
        cb_Bytes cb
          (cb_AddUint16LengthPrefixed cb (cb_AddUint16LengthPrefixed cb (cb_AddBytes cb cookie))
             (cb_AddUint16 cb CookieTypeValue (cb_Builder cb))))"

definition CookieExt_Unmarshal :: "'b cryptobyte \<Rightarrow> bytes \<Rightarrow> bytes go" where
  "CookieExt_Unmarshal cb data =
     gbind (ext_data cb True CookieTypeValue ErrBufferTooSmall data) (\<lambda>extData.
       case cb_ReadUint16LengthPrefixed cb extData of
         None \<Rightarrow> Fail ErrCookieExtFormat
       | Some (cookie, extData) \<Rightarrow>
           if cb_Empty cb cookie \<or> length cookie > maxCookieSize then Fail ErrCookieExtFormat
           else if \<not> cb_Empty cb extData then Fail ErrLengthMismatch
           else Ok cookie)"

section \<open>Key shares and pre-shared keys\<close>

record KeyShareEntry =
  Group :: Curve
  KeyExchange :: bytes

text \<open>\<open>ClientShares\<close> may be nil.\<close>

record KeyShare =
  ClientShares :: "KeyShareEntry list option"
  ServerShare :: "KeyShareEntry option"
  SelectedGroup :: "Curve option"

definition hasTooManyContexts :: "bool \<Rightarrow> bool \<Rightarrow> bool \<Rightarrow> bool" where
  "hasTooManyContexts a b c \<longleftrightarrow> (a \<and> b) \<or> (a \<and> c) \<or> (b \<and> c)"

definition addKeyShareEntry :: "'b cryptobyte \<Rightarrow> KeyShareEntry \<Rightarrow> 'b \<Rightarrow> 'b" where
  "addKeyShareEntry cb e b =
     cb_AddUint16LengthPrefixed cb (cb_AddBytes cb (KeyExchange e)) (cb_AddUint16 cb (Group e) b)"

fun check_shares :: "KeyShareEntry list \<Rightarrow> Curve set \<Rightarrow> unit go" where
  "check_shares [] seenGroups = Ok ()"
| "check_shares (e # es) seenGroups =
     (if Group e \<in> seenGroups then Fail ErrDuplicateKeyShare
      else if length (KeyExchange e) = 0 \<or> length (KeyExchange e) > 0xffff then Fail ErrInvalidKeyShareFormat
      else check_shares es (insert (Group e) seenGroups))"

definition KeyShare_Marshal :: "'b cryptobyte \<Rightarrow> KeyShare \<Rightarrow> bytes go" where
  "KeyShare_Marshal cb k =
     (if hasTooManyContexts (ClientShares k \<noteq> None) (ServerShare k \<noteq> None) (SelectedGroup k \<noteq> None)
      then Fail ErrInvalidKeyShareFormat
      else
        gbind (case ClientShares k of Some es \<Rightarrow> check_shares es {} | None \<Rightarrow> Ok ()) (\<lambda>_.
        gbind (case ServerShare k of
                 Some e \<Rightarrow>
                   if length (KeyExchange e) = 0 \<or> length (KeyExchange e) > 0xffff then Fail ErrInvalidKeyShareFormat
                   else Ok ()
               | None \<Rightarrow> Ok ()) (\<lambda>_.
          cb_Bytes cb
            (cb_AddUint16LengthPrefixed cb
               (case SelectedGroup k of
                  Some g \<Rightarrow> cb_AddUint16 cb g
                | None \<Rightarrow>
                    (case ServerShare k of
                       Some e \<Rightarrow> addKeyShareEntry cb e
                     | None \<Rightarrow>
                         cb_AddUint16LengthPrefixed cb
                           (fold (addKeyShareEntry cb) (case ClientShares k of Some es \<Rightarrow> es | None \<Rightarrow> []))))
               (cb_AddUint16 cb KeyShareTypeValue (cb_Builder cb))))))"

definition key_share_round ::
  "'b cryptobyte \<Rightarrow> bytes \<Rightarrow> KeyShareEntry list \<times> Curve set \<Rightarrow> ((KeyShareEntry list \<times> Curve set) \<times> bytes) go" where
  "key_share_round cb peek st =
     (case cb_ReadUint16 cb peek of
        None \<Rightarrow> Fail ErrInvalidKeyShareFormat
      | Some (grp, peek) \<Rightarrow>
          (case cb_ReadUint16LengthPrefixed cb peek of
             None \<Rightarrow> Fail ErrInvalidKeyShareFormat
           | Some (raw, peek) \<Rightarrow>
               if length raw = 0 then Fail ErrInvalidKeyShareFormat
               else if grp \<in> snd st then Fail ErrDuplicateKeyShare
               else Ok ((fst st @ [\<lparr>Group = grp, KeyExchange = raw\<rparr>], insert grp (snd st)), peek)))"

definition KeyShare_Unmarshal :: "'b cryptobyte \<Rightarrow> bytes \<Rightarrow> KeyShare go" where
  "KeyShare_Unmarshal cb data =
     gbind (ext_data cb True KeyShareTypeValue ErrBufferTooSmall data) (\<lambda>extData.
       if cb_Empty cb extData then Fail ErrInvalidKeyShareFormat
       else
         let other =
           (if length extData = 2 then
              (case cb_ReadUint16 cb extData of
                 None \<Rightarrow> Fail ErrInvalidKeyShareFormat
               | Some (grp, _) \<Rightarrow>
                   Ok \<lparr>ClientShares = None, ServerShare = None,
                       SelectedGroup = (if grp \<in> set Curves then Some grp else None)\<rparr>)
            else
              (case cb_ReadUint16 cb extData of
                 None \<Rightarrow> Fail ErrInvalidKeyShareFormat
               | Some (grp, extData) \<Rightarrow>
                   (case cb_ReadUint16LengthPrefixed cb extData of
                      None \<Rightarrow> Fail ErrInvalidKeyShareFormat
                    | Some (raw, extData) \<Rightarrow>
                        if \<not> cb_Empty cb extData \<or> length raw = 0 then Fail ErrInvalidKeyShareFormat
                        else
                          Ok \<lparr>ClientShares = None, ServerShare = Some \<lparr>Group = grp, KeyExchange = raw\<rparr>,
                              SelectedGroup = None\<rparr>))) in
         case cb_ReadUint16 cb extData of
           None \<Rightarrow> other
         | Some (vecLen, peek) \<Rightarrow>
             if unat vecLen = length peek then
               gbind (cb_while cb (key_share_round cb) (length peek) peek ([], {})) (\<lambda>(es, _).
                 case cb_Skip cb (2 + unat vecLen) extData of
                   None \<Rightarrow> Fail ErrInvalidKeyShareFormat
                 | Some _ \<Rightarrow>
                     Ok \<lparr>ClientShares = (if es = [] then None else Some es), ServerShare = None, SelectedGroup = None\<rparr>)
             else other)"

definition PskKeyExchangeModes_Marshal :: "'b cryptobyte \<Rightarrow> byte list \<Rightarrow> bytes go" where
  "PskKeyExchangeModes_Marshal cb modes =
     (if length modes = 0 then Fail ErrNoPskKeyExchangeMode
      else
        cb_Bytes cb
          (cb_AddUint16LengthPrefixed cb (cb_AddUint8LengthPrefixed cb (fold (cb_AddUint8 cb) modes))
             (cb_AddUint16 cb PskKeyExchangeModesTypeValue (cb_Builder cb))))"

definition PskKeyExchangeModes_Unmarshal :: "'b cryptobyte \<Rightarrow> bytes \<Rightarrow> byte list go" where
  "PskKeyExchangeModes_Unmarshal cb data =
     gbind (ext_data cb True PskKeyExchangeModesTypeValue ErrBufferTooSmall data) (\<lambda>extData.
       case cb_ReadUint8LengthPrefixed cb extData of
         None \<Rightarrow> Fail ErrPskKeyExchangeModesFormat
       | Some (strModes, extData) \<Rightarrow>
           if cb_Empty cb strModes then Fail ErrPskKeyExchangeModesFormat
           else if \<not> cb_Empty cb extData then Fail ErrLengthMismatch
           else Ok strModes)"

record PreSharedKey =
  Identities :: "(bytes \<times> u32) list"
  Binders :: "bytes list"
  SelectedIdentity :: u16

definition minPSKBinderSize :: nat where "minPSKBinderSize = 32"

definition add_identity :: "'b cryptobyte \<Rightarrow> bytes \<times> u32 \<Rightarrow> 'b \<Rightarrow> 'b" where
  "add_identity cb i b =
     (let b = (if length (fst i) = 0 then cb_SetError cb ErrPreSharedKeyFormat b else b) in
      cb_AddUint32 cb (snd i) (cb_AddUint16LengthPrefixed cb (cb_AddBytes cb (fst i)) b))"

definition add_binder :: "'b cryptobyte \<Rightarrow> bytes \<Rightarrow> 'b \<Rightarrow> 'b" where
  "add_binder cb binder b =
     (let b = (if length binder < minPSKBinderSize then cb_SetError cb ErrPreSharedKeyFormat b else b) in
      cb_AddUint8LengthPrefixed cb (cb_AddBytes cb binder) b)"

definition PreSharedKey_Marshal :: "'b cryptobyte \<Rightarrow> PreSharedKey \<Rightarrow> bytes go" where
  "PreSharedKey_Marshal cb p =
     (let out = cb_AddUint16 cb PreSharedKeyValue (cb_Builder cb) in
      if length (Identities p) = 0 \<or> length (Binders p) = 0 then
        cb_Bytes cb (cb_AddUint16LengthPrefixed cb (cb_AddUint16 cb (SelectedIdentity p)) out)
      else
        cb_Bytes cb
          (cb_AddUint16LengthPrefixed cb
             (\<lambda>b. cb_AddUint16LengthPrefixed cb (fold (add_binder cb) (Binders p))
                (cb_AddUint16LengthPrefixed cb (fold (add_identity cb) (Identities p)) b))
             out))"

definition identity_round :: "'b cryptobyte \<Rightarrow> bytes \<Rightarrow> (bytes \<times> u32) list \<Rightarrow> ((bytes \<times> u32) list \<times> bytes) go" where
  "identity_round cb identities ids =
     (case cb_ReadUint16LengthPrefixed cb identities of
        None \<Rightarrow> Fail ErrPreSharedKeyFormat
      | Some (identity, identities) \<Rightarrow>
          (case cb_ReadUint32 cb identities of
             None \<Rightarrow> Fail ErrPreSharedKeyFormat
           | Some (ticket, identities) \<Rightarrow>
               if cb_Empty cb identity then Fail ErrPreSharedKeyFormat
               else Ok (ids @ [(identity, ticket)], identities)))"

definition binder_round :: "'b cryptobyte \<Rightarrow> bytes \<Rightarrow> bytes list \<Rightarrow> (bytes list \<times> bytes) go" where
  "binder_round cb binders bs =
     (case cb_ReadUint8LengthPrefixed cb binders of
        None \<Rightarrow> Fail ErrPreSharedKeyFormat
      | Some (binder, binders) \<Rightarrow>
          if length binder < minPSKBinderSize then Fail ErrPreSharedKeyFormat else Ok (bs @ [binder], binders))"

definition PreSharedKey_Unmarshal :: "'b cryptobyte \<Rightarrow> bytes \<Rightarrow> PreSharedKey go" where
  "PreSharedKey_Unmarshal cb data =
     gbind (ext_data cb True PreSharedKeyValue ErrBufferTooSmall data) (\<lambda>extData.
       if length extData = 2 then
         (case cb_ReadUint16 cb extData of
            None \<Rightarrow> Fail ErrPreSharedKeyFormat
          | Some (selected, _) \<Rightarrow> Ok \<lparr>Identities = [], Binders = [], SelectedIdentity = selected\<rparr>)
       else
         (case cb_ReadUint16LengthPrefixed cb extData of
            None \<Rightarrow> Fail ErrPreSharedKeyFormat
          | Some (identities, extData) \<Rightarrow>
              if cb_Empty cb identities then Fail ErrPreSharedKeyFormat
              else
                gbind (cb_while cb (identity_round cb) (length identities) identities []) (\<lambda>ids.
                  case cb_ReadUint16LengthPrefixed cb extData of
                    None \<Rightarrow> Fail ErrPreSharedKeyFormat
                  | Some (binders, extData) \<Rightarrow>
                      if cb_Empty cb binders then Fail ErrPreSharedKeyFormat
                      else
                        gbind (cb_while cb (binder_round cb) (length binders) binders []) (\<lambda>bs.
                          if \<not> cb_Empty cb extData then Fail ErrLengthMismatch
                          else if length bs \<noteq> length ids then Fail ErrPreSharedKeyFormat
                          else Ok \<lparr>Identities = ids, Binders = bs, SelectedIdentity = 0\<rparr>))))"

section \<open>Extensions of certificate requests\<close>

definition EarlyDataIndication_Marshal :: "'b cryptobyte \<Rightarrow> u32 option \<Rightarrow> bytes go" where
  "EarlyDataIndication_Marshal cb maxEarlyData =
     (let out = cb_AddUint16 cb EarlyDataIndicationTypeValue (cb_Builder cb) in
      case maxEarlyData of
        None \<Rightarrow> cb_Bytes cb (cb_AddUint16 cb 0 out)
      | Some n \<Rightarrow> cb_Bytes cb (cb_AddUint16LengthPrefixed cb (cb_AddUint32 cb n) out))"

definition EarlyDataIndication_Unmarshal :: "'b cryptobyte \<Rightarrow> bytes \<Rightarrow> u32 option go" where
  "EarlyDataIndication_Unmarshal cb data =
     gbind (ext_data cb True EarlyDataIndicationTypeValue ErrBufferTooSmall data) (\<lambda>extData.
       if \<not> cb_Empty cb extData then
         (case cb_ReadUint32 cb extData of
            None \<Rightarrow> Fail ErrEarlyDataIndicationFormat
          | Some (med, extData) \<Rightarrow>
              if \<not> cb_Empty cb extData then Fail ErrEarlyDataIndicationFormat else Ok (Some med))
       else Ok None)"

definition PostHandshakeAuth_Marshal :: "bool \<Rightarrow> bytes go" where
  "PostHandshakeAuth_Marshal enabled =
     (if \<not> enabled then Ok [] else Ok (be16 PostHandshakeAuthTypeValue @ be16 0))"

definition PostHandshakeAuth_Unmarshal :: "bytes \<Rightarrow> bool go" where
  "PostHandshakeAuth_Unmarshal data =
     (if length data < 4 then Fail ErrBufferTooSmall
      else
        gbind (at data 2) (\<lambda>a.
        gbind (at data 3) (\<lambda>b.
          if a \<noteq> 0 \<or> b \<noteq> 0 then Fail ErrLengthMismatch
          else
            gbind (u16_at data 0) (\<lambda>t.
              if t \<noteq> PostHandshakeAuthTypeValue then Fail ErrInvalidExtensionType else Ok True))))"

fun add_authorities :: "'b cryptobyte \<Rightarrow> bytes list \<Rightarrow> 'b \<Rightarrow> 'b" where
  "add_authorities cb [] b = b"
| "add_authorities cb (ca # cas) b =
     (if length ca < 1 then cb_SetError cb ErrInvalidCertificateAuthFormat b
      else add_authorities cb cas (cb_AddUint16LengthPrefixed cb (cb_AddBytes cb ca) b))"

definition CertificateAuthorities_Marshal :: "'b cryptobyte \<Rightarrow> bytes list \<Rightarrow> bytes go" where
  "CertificateAuthorities_Marshal cb authorities =
     (if length authorities < 1 then Fail ErrInvalidCertificateAuthFormat
      else
        cb_Bytes cb
          (cb_AddUint16LengthPrefixed cb (cb_AddUint16LengthPrefixed cb (add_authorities cb authorities))
             (cb_AddUint16 cb CertificateAuthoritiesTypeValue (cb_Builder cb))))"

definition authority_round :: "'b cryptobyte \<Rightarrow> bytes \<Rightarrow> bytes list \<Rightarrow> (bytes list \<times> bytes) go" where
  "authority_round cb auths cauths =
     (case cb_ReadUint16LengthPrefixed cb auths of
        None \<Rightarrow> Fail ErrInvalidCertificateAuthFormat
      | Some (ca, auths) \<Rightarrow>
          if length ca < 1 then Fail ErrInvalidCertificateAuthFormat else Ok (cauths @ [ca], auths))"

definition CertificateAuthorities_Unmarshal :: "'b cryptobyte \<Rightarrow> bytes \<Rightarrow> bytes list go" where
  "CertificateAuthorities_Unmarshal cb data =
     gbind (ext_data cb True CertificateAuthoritiesTypeValue ErrBufferTooSmall data) (\<lambda>extData.
       if cb_Empty cb extData then Fail ErrInvalidCertificateAuthFormat
       else
         (case cb_ReadUint16LengthPrefixed cb extData of
            None \<Rightarrow> Fail ErrInvalidCertificateAuthFormat
          | Some (auths, extData) \<Rightarrow>
              if cb_Empty cb auths then Fail ErrInvalidCertificateAuthFormat
              else if \<not> cb_Empty cb extData then Fail ErrLengthMismatch
              else cb_while cb (authority_round cb) (length auths) auths []))"

record OIDFilter =
  OID :: bytes
  Values :: bytes

text \<open>The loop over the filters, with the OIDs seen.\<close>

fun add_filters :: "'b cryptobyte \<Rightarrow> bytes set \<Rightarrow> OIDFilter list \<Rightarrow> 'b \<Rightarrow> 'b" where
  "add_filters cb seen [] b = b"
| "add_filters cb seen (f # fs) b =
     (let b = (if length (OID f) < 1 then cb_SetError cb ErrEmptyOIDFilter b else b);
          b = (if OID f \<in> seen then cb_SetError cb ErrDuplicateOID b else b) in
      add_filters cb (insert (OID f) seen) fs
        (cb_AddUint16LengthPrefixed cb (cb_AddBytes cb (Values f))
           (cb_AddUint8LengthPrefixed cb (cb_AddBytes cb (OID f)) b)))"

definition OIDFilters_Marshal :: "'b cryptobyte \<Rightarrow> OIDFilter list \<Rightarrow> bytes go" where
  "OIDFilters_Marshal cb filters =
     cb_Bytes cb
       (cb_AddUint16LengthPrefixed cb (cb_AddUint16LengthPrefixed cb (add_filters cb {} filters))
          (cb_AddUint16 cb OIDFiltersTypeValue (cb_Builder cb)))"

definition filter_round ::
  "'b cryptobyte \<Rightarrow> bytes \<Rightarrow> OIDFilter list \<times> bytes set \<Rightarrow> ((OIDFilter list \<times> bytes set) \<times> bytes) go" where
  "filter_round cb filterList st =
     (case cb_ReadUint8LengthPrefixed cb filterList of
        None \<Rightarrow> Fail ErrOIDFiltersFormat
      | Some (oid, filterList) \<Rightarrow>
          if cb_Empty cb oid then Fail ErrOIDFiltersFormat
          else if oid \<in> snd st then Fail ErrDuplicateOID
          else
            (case cb_ReadUint16LengthPrefixed cb filterList of
               None \<Rightarrow> Fail ErrOIDFiltersFormat
             | Some (values, filterList) \<Rightarrow>
                 Ok ((fst st @ [\<lparr>OID = oid, Values = values\<rparr>], insert oid (snd st)), filterList)))"

definition OIDFilters_Unmarshal :: "'b cryptobyte \<Rightarrow> bytes \<Rightarrow> OIDFilter list go" where
  "OIDFilters_Unmarshal cb data =
     gbind (ext_data cb True OIDFiltersTypeValue ErrBufferTooSmall data) (\<lambda>extData.
       case cb_ReadUint16LengthPrefixed cb extData of
         None \<Rightarrow> Fail ErrLengthMismatch
       | Some (filterList, extData) \<Rightarrow>
           if \<not> cb_Empty cb extData then Fail ErrLengthMismatch
           else gmap fst (cb_while cb (filter_round cb) (length filterList) filterList ([], {})))"

section \<open>Lists of extensions\<close>

datatype Extension =
    ServerName bytes
  | SupportedEllipticCurves "Curve list"
  | SupportedPointFormats "byte list"
  | SupportedSignatureAlgorithms "SigHash list"
  | SignatureAlgorithmsCert "SigHash list"
  | UseSRTP UseSRTP
  | ALPN "bytes list"
  | UseExtendedMasterSecret bool
  | RenegotiationInfo byte
  | ConnectionIDExt bytes
  | SupportedVersions SupportedVersions
  | KeyShare KeyShare
  | CookieExt bytes
  | PskKeyExchangeModes "byte list"
  | PreSharedKey PreSharedKey

fun ext_Marshal :: "'b cryptobyte \<Rightarrow> Extension \<Rightarrow> bytes go" where
  "ext_Marshal cb (ServerName x) = ServerName_Marshal cb x"
| "ext_Marshal cb (SupportedEllipticCurves x) = SupportedEllipticCurves_Marshal x"
| "ext_Marshal cb (SupportedPointFormats x) = SupportedPointFormats_Marshal x"
| "ext_Marshal cb (SupportedSignatureAlgorithms x) = SupportedSignatureAlgorithms_Marshal cb x"
| "ext_Marshal cb (SignatureAlgorithmsCert x) = SignatureAlgorithmsCert_Marshal cb x"
| "ext_Marshal cb (UseSRTP x) = UseSRTP_Marshal x"
| "ext_Marshal cb (ALPN x) = ALPN_Marshal cb x"
| "ext_Marshal cb (UseExtendedMasterSecret x) = UseExtendedMasterSecret_Marshal x"
| "ext_Marshal cb (RenegotiationInfo x) = RenegotiationInfo_Marshal x"
| "ext_Marshal cb (ConnectionIDExt x) = ConnectionID_Marshal cb x"
| "ext_Marshal cb (SupportedVersions x) = SupportedVersions_Marshal cb x"
| "ext_Marshal cb (KeyShare x) = KeyShare_Marshal cb x"
| "ext_Marshal cb (CookieExt x) = CookieExt_Marshal cb x"
| "ext_Marshal cb (PskKeyExchangeModes x) = PskKeyExchangeModes_Marshal cb x"
| "ext_Marshal cb (PreSharedKey x) = PreSharedKey_Marshal cb x"

text \<open>The switch of \<open>Unmarshal\<close>: the extension that is appended, if any.\<close>

definition ext_Unmarshal :: "'b cryptobyte \<Rightarrow> bytes \<Rightarrow> u16 \<Rightarrow> Extension option go" where
  "ext_Unmarshal cb bufView t =
     (if t = ServerNameTypeValue then gmap (Some \<circ> ServerName) (ServerName_Unmarshal cb bufView)
      else if t = SupportedEllipticCurvesTypeValue then
        gmap (Some \<circ> SupportedEllipticCurves) (SupportedEllipticCurves_Unmarshal bufView)
      else if t = SupportedPointFormatsTypeValue then
        gmap (Some \<circ> SupportedPointFormats) (SupportedPointFormats_Unmarshal bufView)
      else if t = SupportedSignatureAlgorithmsTypeValue then
        gmap (Some \<circ> SupportedSignatureAlgorithms) (SupportedSignatureAlgorithms_Unmarshal cb bufView)
      else if t = SignatureAlgorithmsCertTypeValue then
        gmap (Some \<circ> SignatureAlgorithmsCert) (SignatureAlgorithmsCert_Unmarshal cb bufView)
      else if t = UseSRTPTypeValue then gmap (Some \<circ> UseSRTP) (UseSRTP_Unmarshal bufView)
      else if t = ALPNTypeValue then gmap (Some \<circ> ALPN) (ALPN_Unmarshal cb bufView)
      else if t = UseExtendedMasterSecretTypeValue then
        gmap (Some \<circ> UseExtendedMasterSecret) (UseExtendedMasterSecret_Unmarshal bufView)
      else if t = RenegotiationInfoTypeValue then gmap (Some \<circ> RenegotiationInfo) (RenegotiationInfo_Unmarshal bufView)
      else if t = ConnectionIDTypeValue then gmap (Some \<circ> ConnectionIDExt) (ConnectionID_Unmarshal cb bufView)
      else if t = SupportedVersionsTypeValue then gmap (Some \<circ> SupportedVersions) (SupportedVersions_Unmarshal cb bufView)
      else if t = KeyShareTypeValue then gmap (Some \<circ> KeyShare) (KeyShare_Unmarshal cb bufView)
      else if t = CookieTypeValue then gmap (Some \<circ> CookieExt) (CookieExt_Unmarshal cb bufView)
      else if t = PskKeyExchangeModesTypeValue then
        gmap (Some \<circ> PskKeyExchangeModes) (PskKeyExchangeModes_Unmarshal cb bufView)
      else if t = PreSharedKeyValue then gmap (Some \<circ> PreSharedKey) (PreSharedKey_Unmarshal cb bufView)
      else Ok None)"

function extensions_loop :: "'b cryptobyte \<Rightarrow> bytes \<Rightarrow> nat \<Rightarrow> Extension list \<Rightarrow> Extension list go" where
  "extensions_loop cb buf offset extensions =
     (if offset < length buf then
        gbind (slice_from buf offset) (\<lambda>bufView.
          if length bufView < 2 then Fail ErrBufferTooSmall
          else
            gbind (u16_at bufView 0) (\<lambda>t.
            gbind (ext_Unmarshal cb bufView t) (\<lambda>e.
              if length bufView < 4 then Fail ErrBufferTooSmall
              else
                gbind (u16_at bufView 2) (\<lambda>extensionLength.
                  extensions_loop cb buf (offset + (4 + unat extensionLength))
                    (extensions @ (case e of None \<Rightarrow> [] | Some e \<Rightarrow> [e]))))))
      else Ok extensions)"
  by pat_completeness auto

termination
  by (relation "measure (\<lambda>(_, buf, offset, _). length buf - offset)") auto

declare extensions_loop.simps [simp del]

definition extensions_Unmarshal :: "'b cryptobyte \<Rightarrow> bytes \<Rightarrow> Extension list go" where
  "extensions_Unmarshal cb buf =
     (if length buf = 0 then Ok []
      else if length buf < 2 then Fail ErrBufferTooSmall
      else
        gbind (u16_at buf 0) (\<lambda>declaredLen.
          if length buf - 2 \<noteq> unat declaredLen then Fail ErrLengthMismatch
          else extensions_loop cb buf 2 []))"

fun marshal_each :: "'b cryptobyte \<Rightarrow> Extension list \<Rightarrow> bytes \<Rightarrow> bytes go" where
  "marshal_each cb [] extensions = Ok extensions"
| "marshal_each cb (e # es) extensions =
     gbind (ext_Marshal cb e) (\<lambda>raw. marshal_each cb es (extensions @ raw))"

definition extensions_Marshal :: "'b cryptobyte \<Rightarrow> Extension list \<Rightarrow> bytes go" where
  "extensions_Marshal cb es =
     gbind (marshal_each cb es []) (\<lambda>extensions. Ok (be16 (of_nat (length extensions)) @ extensions))"

end
