(* ===== verification/Dtls_Extension_Codec.thy ===== *)
theory Dtls_Extension_Codec
  imports Dtls_Extension
begin

text \<open>
  The extensions are codecs.  The contract \<open>ext_codec\<close> is what the lists of extensions rely on: an encoding
  starts with the type and the length of what follows, decoding it in front of any other data gives back the
  extension, and no data makes the decoder panic.  Every extension is an instance.
\<close>

section \<open>The contract\<close>

locale ext_codec =
  fixes ok :: bool
    and enc :: "'a \<Rightarrow> bytes go"
    and dec :: "bytes \<Rightarrow> 'a go"
    and wf :: "'a \<Rightarrow> bool"
    and typeValue :: TypeValue
  assumes framed: "\<lbrakk>ok; wf x; enc x = Ok b\<rbrakk> \<Longrightarrow> \<exists>body. length body < 65536 \<and> b = be16 typeValue @ be16 (of_nat (length body)) @ body"
    and roundtrip: "\<lbrakk>ok; wf x; enc x = Ok b\<rbrakk> \<Longrightarrow> dec (b @ r) = Ok x"
    and no_panic: "ok \<Longrightarrow> dec data \<noteq> Panic"
begin

lemma enc_inj:
  assumes "ok" "wf x" "wf y" "enc x = Ok b" "enc y = Ok b"
  shows "x = y"
  using roundtrip [of x b "[]"] roundtrip [of y b "[]"] assms by simp

text \<open>No encoding is a proper prefix of another one.\<close>

lemma enc_prefix_free:
  assumes "ok" "wf x" "wf y" "enc x = Ok b" "enc y = Ok (b @ c)"
  shows "c = []"
proof -
  have "x = y" using roundtrip [of x b c] roundtrip [of y "b @ c" "[]"] assms by simp
  then show ?thesis using assms by simp
qed

end

section \<open>Shared lemmas\<close>

lemma ext_data_frame:
  assumes "documented cb" "length body < 65536" "b = be16 t @ be16 (of_nat (length body)) @ body"
  shows "ext_data cb checked t e (b @ r) = Ok body"
  using assms(2) by (simp add: ext_data_def cb_simps [OF assms(1)] assms(3))

lemma ext_data_no_panic: "ext_data cb checked t e data \<noteq> Panic"
  by (auto simp: ext_data_def split: option.splits if_splits)

lemma gmap_append: "gmap (\<lambda>s. s @ b) (gmap (\<lambda>s. s @ a) m) = gmap (\<lambda>s. s @ a @ b) m"
  by (cases m) simp_all

text \<open>A type and a length before what a continuation adds.\<close>

lemma framed_build:
  assumes "documented cb"
    and "cb_Bytes cb (cb_AddUint16LengthPrefixed cb f (cb_AddUint16 cb t (cb_Builder cb))) = Ok b"
  shows "\<exists>body. cb_Bytes cb (f (cb_Builder cb)) = Ok body \<and> length body < 65536 \<and>
    b = be16 t @ be16 (of_nat (length body)) @ body"
  using assms(2) by (auto simp: cb_simps [OF assms(1)] write_prefixed_Ok_iff)

lemma lp16_build:
  assumes "documented cb" "cb_Bytes cb (cb_AddUint16LengthPrefixed cb f (cb_Builder cb)) = Ok b"
  shows "\<exists>t. cb_Bytes cb (f (cb_Builder cb)) = Ok t \<and> length t < 65536 \<and> b = be16 (of_nat (length t)) @ t"
  using assms(2) by (auto simp: cb_simps [OF assms(1)] write_prefixed_Ok_iff)

lemma lp8_build:
  assumes "documented cb" "cb_Bytes cb (cb_AddUint8LengthPrefixed cb f (cb_Builder cb)) = Ok b"
  shows "\<exists>t. cb_Bytes cb (f (cb_Builder cb)) = Ok t \<and> length t < 256 \<and> b = of_nat (length t) # t"
  using assms(2) by (auto simp: cb_simps [OF assms(1)] write_prefixed_Ok_iff)

lemma u16s_at_append: "u16s_at (xs @ concat (map be16 ws) @ ys) (length xs) (length ws) = Ok ws"
proof (induction ws arbitrary: xs)
  case (Cons w ws)
  have "u16_at (xs @ be16 w @ concat (map be16 ws) @ ys) (length xs) = Ok w" by simp
  moreover have "u16s_at ((xs @ be16 w) @ concat (map be16 ws) @ ys) (length (xs @ be16 w)) (length ws) = Ok ws"
    by (rule Cons.IH)
  ultimately show ?case by simp
qed simp

lemma u16s_at_no_panic: "a + 2 * n \<le> length data \<Longrightarrow> u16s_at data a n \<noteq> Panic"
  by (induction n arbitrary: a) (auto simp: gbind_Panic_iff)

lemma bytes_at_append: "bytes_at (xs @ bs @ ys) (length xs) (length bs) = Ok bs"
proof (induction bs arbitrary: xs)
  case (Cons b bs)
  have "at (xs @ b # bs @ ys) (length xs) = Ok b" by simp
  moreover have "bytes_at ((xs @ [b]) @ bs @ ys) (length (xs @ [b])) (length bs) = Ok bs" by (rule Cons.IH)
  ultimately show ?case by simp
qed simp

lemma bytes_at_no_panic: "a + n \<le> length data \<Longrightarrow> bytes_at data a n \<noteq> Panic"
  by (induction n arbitrary: a) (auto simp: gbind_Panic_iff)

lemma length_concat_be16 [simp]: "length (concat (map be16 ws)) = 2 * length ws"
  by (induction ws) simp_all

lemma fold_snoc: "fold (\<lambda>x acc. acc @ [x]) xs acc = acc @ xs"
  by (induction xs arbitrary: acc) simp_all

section \<open>Names and protocols\<close>

definition ServerName_wf :: "bytes \<Rightarrow> bool" where
  "ServerName_wf name \<longleftrightarrow> name \<noteq> [] \<and> last name \<noteq> 0x2e"

lemma ServerName_build:
  assumes "documented cb" "ServerName_Marshal cb name = Ok b"
  shows "length name < 65536 \<and> 5 + length name < 65536 \<and>
    (let inner = 0 # be16 (of_nat (length name)) @ name; body = be16 (of_nat (length inner)) @ inner in
     b = be16 ServerNameTypeValue @ be16 (of_nat (length body)) @ body)"
  using assms(2) by (auto simp: ServerName_Marshal_def cb_simps [OF assms(1)] write_prefixed_Ok_iff)

lemma server_name_round:
  assumes "documented cb" "ServerName_wf name" "length name < 65536"
  shows "server_name_round cb (0 # be16 (of_nat (length name)) @ name) [] = Ok (name, [])"
  using assms(2,3) by (simp add: server_name_round_def cb_simps [OF assms(1)] ServerName_wf_def)

lemma server_name_while: "documented cb \<Longrightarrow> cb_while cb (server_name_round cb) (length s) s st \<noteq> Panic"
  by (rule cb_while_no_panic)
    (auto simp: server_name_round_def cb_simps split: option.splits if_splits dest!: read_lengths read_prefixed_lengths)

interpretation server_name: ext_codec "documented cb" "ServerName_Marshal cb" "ServerName_Unmarshal cb" ServerName_wf ServerNameTypeValue
  for cb :: "'b cryptobyte"
proof (unfold_locales, goal_cases)
  case (1 name b)
  then show ?case using ServerName_build [of cb name b] by (auto simp: Let_def intro!: exI [of _ "be16 _ @ _"])
next
  case (2 name b r)
  define inner where "inner = 0 # be16 (of_nat (length name)) @ name"
  define body where "body = be16 (of_nat (length inner)) @ inner"
  have b: "length name < 65536" "length inner < 65536" "length body < 65536"
      "b = be16 ServerNameTypeValue @ be16 (of_nat (length body)) @ body"
    using ServerName_build [OF 2(1) 2(3)] by (simp_all add: inner_def body_def Let_def)
  have "inner \<noteq> []" by (simp add: inner_def)
  then have "cb_while cb (server_name_round cb) (length inner) inner [] = Ok name"
    using server_name_round [OF 2(1,2) b(1)] by (cases inner) (auto simp: cb_simps [OF 2(1)] inner_def)
  then show ?case
    using b(2) \<open>inner \<noteq> []\<close>
    by (simp add: ServerName_Unmarshal_def ext_data_frame [OF 2(1) b(3,4)] cb_simps [OF 2(1)] body_def)
next
  case (3 data)
  then show ?case
    by (auto simp: ServerName_Unmarshal_def gbind_Panic_iff ext_data_no_panic server_name_while split: option.splits)
qed

definition ALPN_wf :: "bytes list \<Rightarrow> bool" where
  "ALPN_wf protos \<longleftrightarrow> protos \<noteq> [] \<and> (\<forall>p \<in> set protos. p \<noteq> [] \<and> length p < 256)"

definition lp8 :: "bytes \<Rightarrow> bytes" where
  "lp8 t = of_nat (length t) # t"

definition lp16 :: "bytes \<Rightarrow> bytes" where
  "lp16 t = be16 (of_nat (length t)) @ t"

lemma lp_not_Nil [simp]: "lp8 t \<noteq> []" "lp16 t \<noteq> []"
  by (simp_all add: lp8_def lp16_def be16_def)

lemma read_lp [simp]:
  "length t < 256 \<Longrightarrow> read_prefixed read8 (lp8 t @ r) = Some (t, r)"
  "length t < 65536 \<Longrightarrow> read_prefixed read16 (lp16 t @ r) = Some (t, r)"
  "length t < 256 \<Longrightarrow> read_prefixed read8 (lp8 t) = Some (t, [])"
  "length t < 65536 \<Longrightarrow> read_prefixed read16 (lp16 t) = Some (t, [])"
  by (simp_all add: lp8_def lp16_def)

lemma alpn_build:
  assumes "documented cb" "\<forall>p \<in> set protos. length p < 256"
  shows "cb_Bytes cb (fold (\<lambda>p. cb_AddUint8LengthPrefixed cb (cb_AddBytes cb p)) protos (cb_Builder cb)) =
    Ok (concat (map lp8 protos))"
proof -
  have "cb_Bytes cb (fold (\<lambda>p. cb_AddUint8LengthPrefixed cb (cb_AddBytes cb p)) protos (cb_Builder cb)) =
      gmap (\<lambda>s. s @ concat (map lp8 protos)) (cb_Bytes cb (cb_Builder cb))"
    by (rule cb_Bytes_fold [where enc = "\<lambda>p. Ok (lp8 p)"])
      (use assms(2) in \<open>auto simp: cb_simps [OF assms(1)] write_prefixed_def lp8_def gmap_def intro!: gbind_cong\<close>)
  then show ?thesis by (simp add: cb_simps [OF assms(1)])
qed

lemma alpn_while: "documented cb \<Longrightarrow> cb_while cb (alpn_round cb) (length s) s st \<noteq> Panic"
  by (rule cb_while_no_panic)
    (auto simp: alpn_round_def cb_simps split: option.splits if_splits dest!: read_lengths read_prefixed_lengths)

lemma alpn_items:
  assumes "documented cb" "ALPN_wf protos"
  shows "cb_while cb (alpn_round cb) (length (concat (map lp8 protos))) (concat (map lp8 protos)) [] = Ok protos"
proof -
  have "cb_while cb (alpn_round cb) (length (concat (map lp8 protos))) (concat (map lp8 protos)) [] =
      Ok (fold (\<lambda>p ps. ps @ [p]) protos [])"
    by (rule cb_while_items [OF assms(1)]) (use assms(2) in \<open>auto simp: ALPN_wf_def alpn_round_def cb_simps [OF assms(1)]\<close>)
  then show ?thesis by (simp add: fold_snoc)
qed

interpretation alpn: ext_codec "documented cb" "ALPN_Marshal cb" "ALPN_Unmarshal cb" ALPN_wf ALPNTypeValue
  for cb :: "'b cryptobyte"
proof (unfold_locales, goal_cases)
  case (1 protos b)
  then show ?case using framed_build [of cb] by (fastforce simp: ALPN_Marshal_def)
next
  case (2 protos b r)
  define list where "list = concat (map lp8 protos)"
  have "\<forall>p \<in> set protos. length p < 256" using 2(2) by (simp add: ALPN_wf_def)
  note list = alpn_build [OF 2(1) this, folded list_def]
  obtain body where body: "cb_Bytes cb (cb_AddUint16LengthPrefixed cb
        (fold (\<lambda>p. cb_AddUint8LengthPrefixed cb (cb_AddBytes cb p)) protos) (cb_Builder cb)) = Ok body"
      "length body < 65536" "b = be16 ALPNTypeValue @ be16 (of_nat (length body)) @ body"
    using framed_build [OF 2(1) 2(3) [unfolded ALPN_Marshal_def]] by blast
  then have b: "length list < 65536" "body = lp16 list" using lp16_build [OF 2(1) body(1)] by (simp_all add: list lp16_def)
  moreover have "list \<noteq> []" using 2(2) by (cases protos) (simp_all add: list_def ALPN_wf_def)
  ultimately show ?case
    using alpn_items [OF 2(1,2)] ext_data_frame [OF 2(1) body(2,3)]
    by (simp add: ALPN_Unmarshal_def cb_simps [OF 2(1)] flip: list_def)
next
  case (3 data)
  then show ?case
    by (auto simp: ALPN_Unmarshal_def gbind_Panic_iff ext_data_no_panic alpn_while split: option.splits)
qed

section \<open>Curves and point formats\<close>

lemma header_at:
  "u16_at (be16 t @ rest) 0 = Ok t" "u16_at (be16 t @ be16 l @ rest) 2 = Ok l" "u16_at (be16 t @ be16 l @ be16 m @ rest) 4 = Ok m"
  "at (be16 t @ be16 l @ x # rest) 4 = Ok x" "at (be16 t @ x # rest) 2 = Ok x" "at (be16 t @ x # y # rest) 3 = Ok y"
  by (simp_all add: u16_at_def slice_from_def be16_def at_def)

lemma unat_of_nat_16: "n < 65536 \<Longrightarrow> unat (of_nat n :: u16) = n"
  by (simp add: unat_of_nat take_bit_nat_eq_self)

lemma unat_of_nat_8: "n < 256 \<Longrightarrow> unat (of_nat n :: byte) = n"
  by (simp add: unat_of_nat take_bit_nat_eq_self)

lemma unat_half: "n * 2 < 65536 \<Longrightarrow> unat (of_nat (n * 2) div 2 :: u16) = n"
  by (simp only: unat_div unat_of_nat_16 unat_numeral) simp

definition Curves_wf :: "Curve list \<Rightarrow> bool" where
  "Curves_wf cs \<longleftrightarrow> set cs \<subseteq> set Curves \<and> 2 + length cs * 2 < 65536"

interpretation curves: ext_codec True SupportedEllipticCurves_Marshal SupportedEllipticCurves_Unmarshal Curves_wf
  SupportedEllipticCurvesTypeValue
proof (unfold_locales, goal_cases)
  case (1 cs b)
  then show ?case
    by (intro exI [of _ "be16 (of_nat (length cs * 2)) @ concat (map be16 cs)"])
      (auto simp: SupportedEllipticCurves_Marshal_def Curves_wf_def mult.commute)
next
  case (2 cs b r)
  define n where "n = length cs"
  have b: "b = be16 SupportedEllipticCurvesTypeValue @ be16 (of_nat (2 + n * 2)) @ be16 (of_nat (n * 2)) @ concat (map be16 cs)"
    and n: "2 + n * 2 < 65536"
    using 2 by (auto simp: SupportedEllipticCurves_Marshal_def Curves_wf_def n_def)
  define h where "h = be16 SupportedEllipticCurvesTypeValue @ be16 (of_nat (2 + n * 2)) @ be16 (of_nat (n * 2))"
  have "u16s_at (b @ r) 6 n = Ok cs" using u16s_at_append [of h cs r] by (simp add: b h_def n_def)
  moreover have "u16_at (b @ r) 0 = Ok SupportedEllipticCurvesTypeValue" "u16_at (b @ r) 2 = Ok (of_nat (2 + n * 2))"
      "u16_at (b @ r) 4 = Ok (of_nat (n * 2))"
    unfolding b append_assoc by (rule header_at)+
  moreover have "filter (\<lambda>c. c \<in> set Curves) cs = cs" using 2(2) by (auto simp: Curves_wf_def filter_id_conv)
  moreover have "length (b @ r) = 6 + n * 2 + length r" by (simp add: b n_def)
  moreover have "unat (of_nat (2 + n * 2) :: u16) = 2 + n * 2" "unat (of_nat (n * 2) div 2 :: u16) = n"
    using n unat_of_nat_16 [OF n] unat_half [of n] by simp_all
  ultimately show ?case by (simp add: SupportedEllipticCurves_Unmarshal_def Let_def del: length_append of_nat_add of_nat_mult)
next
  case (3 data)
  then show ?case
    using u16s_at_no_panic by (auto simp: SupportedEllipticCurves_Unmarshal_def gbind_Panic_iff Let_def)
qed

definition PointFormats_wf :: "byte list \<Rightarrow> bool" where
  "PointFormats_wf fs \<longleftrightarrow> set fs \<subseteq> {0}"

interpretation point_formats: ext_codec True SupportedPointFormats_Marshal SupportedPointFormats_Unmarshal PointFormats_wf
  SupportedPointFormatsTypeValue
proof (unfold_locales, goal_cases)
  case (1 fs b)
  then show ?case
    by (intro exI [of _ "[of_nat (length fs)] @ fs"]) (auto simp: SupportedPointFormats_Marshal_def split: if_splits)
next
  case (2 fs b r)
  define n where "n = length fs"
  have b: "b = be16 SupportedPointFormatsTypeValue @ be16 (of_nat (1 + n)) @ [of_nat n] @ fs" and n: "n < 256"
    using 2 by (auto simp: SupportedPointFormats_Marshal_def n_def split: if_splits)
  define h where "h = be16 SupportedPointFormatsTypeValue @ be16 (of_nat (1 + n)) @ [of_nat n]"
  have "bytes_at (b @ r) 5 n = Ok fs" using bytes_at_append [of h fs r] by (simp add: b h_def n_def)
  moreover have "u16_at (b @ r) 0 = Ok SupportedPointFormatsTypeValue" "u16_at (b @ r) 2 = Ok (of_nat (1 + n))"
      "at (b @ r) 4 = Ok (of_nat n)"
    unfolding b append_assoc append_Cons by (rule header_at)+
  moreover have "filter (\<lambda>p. p = 0) fs = fs" using 2(2) by (auto simp: PointFormats_wf_def filter_id_conv)
  moreover have "length (b @ r) = 5 + n + length r" by (simp add: b n_def)
  moreover have "unat (of_nat (1 + n) :: u16) = 1 + n" "unat (of_nat n :: byte) = n"
    using unat_of_nat_16 [of "1 + n"] unat_of_nat_8 [OF n] n by simp_all
  ultimately show ?case by (simp add: SupportedPointFormats_Unmarshal_def Let_def del: length_append of_nat_add)
next
  case (3 data)
  then show ?case
    using bytes_at_no_panic by (auto simp: SupportedPointFormats_Unmarshal_def gbind_Panic_iff Let_def)
qed

section \<open>Signature algorithms\<close>

definition SigHashes_wf :: "SigHash list \<Rightarrow> bool" where
  "SigHashes_wf algs \<longleftrightarrow> (\<forall>a \<in> set algs. \<exists>w. sh_Unmarshal w = Ok a)"

lemma sh_Marshal_read:
  assumes "sh_Unmarshal w = Ok a"
  shows "read16 (sh_Marshal a @ r) = Some (w, r)" "sh_Marshal a \<noteq> []"
  by (simp_all add: sh_Unmarshal_Ok(2) [OF assms] be16_def)

lemma sig_algs_build:
  assumes "documented cb"
  shows "cb_Bytes cb (fold (\<lambda>v. cb_AddBytes cb (sh_Marshal v)) algs (cb_Builder cb)) = Ok (concat (map sh_Marshal algs))"
proof -
  have "cb_Bytes cb (fold (\<lambda>v. cb_AddBytes cb (sh_Marshal v)) algs (cb_Builder cb)) =
      gmap (\<lambda>s. s @ concat (map sh_Marshal algs)) (cb_Bytes cb (cb_Builder cb))"
    by (rule cb_Bytes_fold [where enc = "\<lambda>v. Ok (sh_Marshal v)"]) (auto simp: cb_simps [OF assms] gmap_def)
  then show ?thesis by (simp add: cb_simps [OF assms])
qed

lemma sig_alg_while: "documented cb \<Longrightarrow> cb_while cb (sig_alg_round cb) (length s) s st \<noteq> Panic"
proof (rule cb_while_no_panic)
  have "sh_Unmarshal w \<noteq> Panic" for w by (auto simp: sh_Unmarshal_def gbind_Panic_iff Let_def split: if_splits)
  then show "sig_alg_round cb s st \<noteq> Panic" for s st by (auto simp: sig_alg_round_def split: option.splits go.splits)
qed (auto simp: sig_alg_round_def cb_simps split: option.splits go.splits dest!: read_lengths)

lemma sig_alg_items:
  assumes "documented cb" "SigHashes_wf algs"
  shows "cb_while cb (sig_alg_round cb) (length (concat (map sh_Marshal algs))) (concat (map sh_Marshal algs)) [] = Ok algs"
proof -
  have "cb_while cb (sig_alg_round cb) (length (concat (map sh_Marshal algs))) (concat (map sh_Marshal algs)) [] =
      Ok (fold (\<lambda>a as. as @ [a]) algs [])"
  proof (rule cb_while_items [OF assms(1)])
    fix a r st
    assume "a \<in> set algs"
    then obtain w where "sh_Unmarshal w = Ok a" using assms(2) unfolding SigHashes_wf_def by blast
    then show "sig_alg_round cb (sh_Marshal a @ r) st = Ok (st @ [a], r)" "sh_Marshal a \<noteq> []"
      using sh_Marshal_read [of w a] by (simp_all add: sig_alg_round_def cb_simps [OF assms(1)])
  qed simp
  then show ?thesis by (simp add: fold_snoc)
qed

lemma sig_algs_roundtrip:
  assumes "documented cb" "SigHashes_wf algs" "marshalGenericSignatureHashAlgorithm cb t algs = Ok b"
  shows "unmarshalGenericSignatureHashAlgorithm cb t (b @ r) = Ok algs"
proof -
  define list where "list = concat (map sh_Marshal algs)"
  note list = sig_algs_build [OF assms(1), of algs, folded list_def]
  obtain body where body: "cb_Bytes cb (cb_AddUint16LengthPrefixed cb
        (fold (\<lambda>v. cb_AddBytes cb (sh_Marshal v)) algs) (cb_Builder cb)) = Ok body"
      "length body < 65536" "b = be16 t @ be16 (of_nat (length body)) @ body"
    using framed_build [OF assms(1) assms(3) [unfolded marshalGenericSignatureHashAlgorithm_def]] by blast
  then have "length list < 65536" "body = lp16 list" using lp16_build [OF assms(1) body(1)] by (simp_all add: list lp16_def)
  then show ?thesis
    using sig_alg_items [OF assms(1,2)] ext_data_frame [OF assms(1) body(2,3)]
    by (simp add: unmarshalGenericSignatureHashAlgorithm_def cb_simps [OF assms(1)] flip: list_def)
qed

lemma sig_algs_no_panic: "documented cb \<Longrightarrow> unmarshalGenericSignatureHashAlgorithm cb t data \<noteq> Panic"
  by (auto simp: unmarshalGenericSignatureHashAlgorithm_def gbind_Panic_iff ext_data_no_panic sig_alg_while split: option.splits)

lemma sig_algs_framed:
  assumes "documented cb" "marshalGenericSignatureHashAlgorithm cb t algs = Ok b"
  shows "\<exists>body. length body < 65536 \<and> b = be16 t @ be16 (of_nat (length body)) @ body"
  using framed_build [OF assms(1) assms(2) [unfolded marshalGenericSignatureHashAlgorithm_def]] by blast

interpretation sig_algs: ext_codec "documented cb" "SupportedSignatureAlgorithms_Marshal cb"
  "SupportedSignatureAlgorithms_Unmarshal cb" SigHashes_wf SupportedSignatureAlgorithmsTypeValue for cb :: "'b cryptobyte"
  unfolding SupportedSignatureAlgorithms_Marshal_def SupportedSignatureAlgorithms_Unmarshal_def
  by (unfold_locales) (rule sig_algs_framed sig_algs_roundtrip sig_algs_no_panic; assumption)+

interpretation sig_algs_cert: ext_codec "documented cb" "SignatureAlgorithmsCert_Marshal cb"
  "SignatureAlgorithmsCert_Unmarshal cb" SigHashes_wf SignatureAlgorithmsCertTypeValue for cb :: "'b cryptobyte"
  unfolding SignatureAlgorithmsCert_Marshal_def SignatureAlgorithmsCert_Unmarshal_def
  by (unfold_locales) (rule sig_algs_framed sig_algs_roundtrip sig_algs_no_panic; assumption)+

section \<open>SRTP, extended master secret, renegotiation\<close>

definition UseSRTP_wf :: "UseSRTP \<Rightarrow> bool" where
  "UseSRTP_wf u \<longleftrightarrow> set (ProtectionProfiles u) \<subseteq> set srtpProtectionProfiles"

interpretation use_srtp: ext_codec True UseSRTP_Marshal UseSRTP_Unmarshal UseSRTP_wf UseSRTPTypeValue
proof (unfold_locales, goal_cases)
  case (1 u b)
  then show ?case
    by (intro exI [of _ "be16 (of_nat (length (ProtectionProfiles u) * 2)) @ concat (map be16 (ProtectionProfiles u)) @
        [of_nat (length (MasterKeyIdentifier u))] @ MasterKeyIdentifier u"])
      (auto simp: UseSRTP_Marshal_def Let_def mult.commute split: if_splits)
next
  case (2 u b r)
  define n k where "n = length (ProtectionProfiles u)" and "k = length (MasterKeyIdentifier u)"
  define len where "len = 2 + n * 2 + 1 + k"
  define h where "h = be16 UseSRTPTypeValue @ be16 (of_nat len) @ be16 (of_nat (n * 2))"
  define g where "g = h @ concat (map be16 (ProtectionProfiles u))"
  have lens: "k < 256" "len < 65536" and b: "b = g @ [of_nat k] @ MasterKeyIdentifier u"
    using 2 by (auto simp: UseSRTP_Marshal_def Let_def len_def n_def k_def g_def h_def split: if_splits)
  have h: "length h = 6" "length g = 6 + n * 2" by (simp_all add: h_def g_def n_def)
  have "u16_at (b @ r) 0 = Ok UseSRTPTypeValue" "u16_at (b @ r) 2 = Ok (of_nat len)" "u16_at (b @ r) 4 = Ok (of_nat (n * 2))"
    unfolding b g_def h_def append_assoc by (rule header_at)+
  moreover have "u16s_at (b @ r) 6 n = Ok (ProtectionProfiles u)"
    using u16s_at_append [of h "ProtectionProfiles u" "[of_nat k] @ MasterKeyIdentifier u @ r"] by (simp add: b g_def h(1) n_def)
  moreover have "at (b @ r) (6 + n * 2) = Ok (of_nat k)"
    using at_append [of g "of_nat k" "MasterKeyIdentifier u @ r"] by (simp add: b h(2))
  moreover have "slice (b @ r) (6 + n * 2 + 1) (6 + n * 2 + k + 1) = Ok (MasterKeyIdentifier u)"
    using slice_append [of "g @ [of_nat k]" "MasterKeyIdentifier u" r] by (simp add: b h(2) k_def add.assoc)
  moreover have "filter (\<lambda>p. p \<in> set srtpProtectionProfiles) (ProtectionProfiles u) = ProtectionProfiles u"
    using 2(2) by (auto simp: UseSRTP_wf_def filter_id_conv)
  moreover have "length (b @ r) = 6 + n * 2 + 1 + k + length r" by (simp add: b h(2) k_def)
  moreover have "unat (of_nat len :: u16) = len" "unat (of_nat (n * 2) div 2 :: u16) = n" "unat (of_nat k :: byte) = k"
    using lens unat_of_nat_16 [of len] unat_half [of n] unat_of_nat_8 [of k] by (simp_all add: len_def)
  ultimately show ?case
    by (simp add: UseSRTP_Unmarshal_def Let_def del: length_append of_nat_mult) (simp add: len_def)
next
  case (3 data)
  then show ?case
    using u16s_at_no_panic by (auto simp: UseSRTP_Unmarshal_def gbind_Panic_iff Let_def)
qed

interpretation ems: ext_codec True UseExtendedMasterSecret_Marshal UseExtendedMasterSecret_Unmarshal "\<lambda>supported. supported"
  UseExtendedMasterSecretTypeValue
proof (unfold_locales, goal_cases)
  case (1 x b)
  then show ?case by (intro exI [of _ "[]"]) (auto simp: UseExtendedMasterSecret_Marshal_def)
next
  case (2 x b r)
  then have b: "b = be16 UseExtendedMasterSecretTypeValue @ 0 # 0 # []" by (simp add: UseExtendedMasterSecret_Marshal_def be16_def)
  have "at (b @ r) 2 = Ok 0" "at (b @ r) 3 = Ok 0" "u16_at (b @ r) 0 = Ok UseExtendedMasterSecretTypeValue"
    unfolding b append_assoc append_Cons by (rule header_at)+
  moreover have "\<not> length (b @ r) < 4" by (simp add: b)
  ultimately show ?case using 2 by (simp add: UseExtendedMasterSecret_Unmarshal_def)
next
  case (3 data)
  then show ?case by (auto simp: UseExtendedMasterSecret_Unmarshal_def gbind_Panic_iff)
qed

interpretation renegotiation: ext_codec True RenegotiationInfo_Marshal RenegotiationInfo_Unmarshal "\<lambda>_. True"
  RenegotiationInfoTypeValue
proof (unfold_locales, goal_cases)
  case (1 x b)
  then show ?case by (intro exI [of _ "[x]"]) (auto simp: RenegotiationInfo_Marshal_def)
next
  case (2 x b r)
  then have b: "b = be16 RenegotiationInfoTypeValue @ be16 1 @ x # []" by (simp add: RenegotiationInfo_Marshal_def)
  have "u16_at (b @ r) 0 = Ok RenegotiationInfoTypeValue" "u16_at (b @ r) 2 = Ok 1" "at (b @ r) 4 = Ok x"
    unfolding b append_assoc append_Cons by (rule header_at)+
  moreover have "\<not> length (b @ r) < 5" by (simp add: b)
  ultimately show ?case by (simp add: RenegotiationInfo_Unmarshal_def)
next
  case (3 data)
  then show ?case by (auto simp: RenegotiationInfo_Unmarshal_def gbind_Panic_iff)
qed

interpretation post_handshake_auth: ext_codec True PostHandshakeAuth_Marshal PostHandshakeAuth_Unmarshal "\<lambda>enabled. enabled"
  PostHandshakeAuthTypeValue
proof (unfold_locales, goal_cases)
  case (1 x b)
  then show ?case by (intro exI [of _ "[]"]) (auto simp: PostHandshakeAuth_Marshal_def)
next
  case (2 x b r)
  then have b: "b = be16 PostHandshakeAuthTypeValue @ 0 # 0 # []" by (simp add: PostHandshakeAuth_Marshal_def be16_def)
  have "at (b @ r) 2 = Ok 0" "at (b @ r) 3 = Ok 0" "u16_at (b @ r) 0 = Ok PostHandshakeAuthTypeValue"
    unfolding b append_assoc append_Cons by (rule header_at)+
  moreover have "\<not> length (b @ r) < 4" by (simp add: b)
  ultimately show ?case using 2 by (simp add: PostHandshakeAuth_Unmarshal_def)
next
  case (3 data)
  then show ?case by (auto simp: PostHandshakeAuth_Unmarshal_def gbind_Panic_iff)
qed

section \<open>Connection IDs, versions, cookies\<close>

interpretation connection_id: ext_codec "documented cb" "ConnectionID_Marshal cb" "ConnectionID_Unmarshal cb" "\<lambda>_. True"
  ConnectionIDTypeValue for cb :: "'b cryptobyte"
proof (unfold_locales, goal_cases)
  case (1 cid b)
  then show ?case using framed_build [of cb] by (fastforce simp: ConnectionID_Marshal_def)
next
  case (2 cid b r)
  obtain body where body: "cb_Bytes cb (cb_AddUint8LengthPrefixed cb (cb_AddBytes cb cid) (cb_Builder cb)) = Ok body"
      "length body < 65536" "b = be16 ConnectionIDTypeValue @ be16 (of_nat (length body)) @ body"
    using framed_build [OF 2(1) 2(3) [unfolded ConnectionID_Marshal_def]] by blast
  then have "length cid < 256" "body = lp8 cid" using lp8_build [OF 2(1) body(1)] by (auto simp: cb_simps [OF 2(1)] lp8_def)
  then show ?case
    using ext_data_frame [OF 2(1) body(2,3)]
    by (simp add: ConnectionID_Unmarshal_def cb_simps [OF 2(1)] read_bytes_def)
next
  case (3 data)
  then show ?case by (auto simp: ConnectionID_Unmarshal_def gbind_Panic_iff ext_data_no_panic split: option.splits)
qed

interpretation cookie: ext_codec "documented cb" "CookieExt_Marshal cb" "CookieExt_Unmarshal cb" "\<lambda>_. True" CookieTypeValue
  for cb :: "'b cryptobyte"
proof (unfold_locales, goal_cases)
  case (1 c b)
  then show ?case using framed_build [of cb] by (fastforce simp: CookieExt_Marshal_def split: if_splits)
next
  case (2 c b r)
  have c: "c \<noteq> []" "length c \<le> maxCookieSize" using 2(3) by (auto simp: CookieExt_Marshal_def split: if_splits)
  then have "cb_Bytes cb (cb_AddUint16LengthPrefixed cb (cb_AddUint16LengthPrefixed cb (cb_AddBytes cb c))
      (cb_AddUint16 cb CookieTypeValue (cb_Builder cb))) = Ok b"
    using 2(3) by (simp add: CookieExt_Marshal_def)
  from framed_build [OF 2(1) this]
  obtain body where body: "cb_Bytes cb (cb_AddUint16LengthPrefixed cb (cb_AddBytes cb c) (cb_Builder cb)) = Ok body"
      "length body < 65536" "b = be16 CookieTypeValue @ be16 (of_nat (length body)) @ body" by blast
  then have "length c < 65536" "body = lp16 c" using lp16_build [OF 2(1) body(1)] by (auto simp: cb_simps [OF 2(1)] lp16_def)
  then show ?case
    using ext_data_frame [OF 2(1) body(2,3)] c by (simp add: CookieExt_Unmarshal_def cb_simps [OF 2(1)])
next
  case (3 data)
  then show ?case by (auto simp: CookieExt_Unmarshal_def gbind_Panic_iff ext_data_no_panic split: option.splits)
qed

interpretation psk_modes: ext_codec "documented cb" "PskKeyExchangeModes_Marshal cb" "PskKeyExchangeModes_Unmarshal cb" "\<lambda>_. True"
  PskKeyExchangeModesTypeValue for cb :: "'b cryptobyte"
proof (unfold_locales, goal_cases)
  case (1 c b)
  then show ?case using framed_build [of cb] by (fastforce simp: PskKeyExchangeModes_Marshal_def split: if_splits)
next
  case (2 c b r)
  have c: "c \<noteq> []" using 2(3) by (auto simp: PskKeyExchangeModes_Marshal_def split: if_splits)
  then have "cb_Bytes cb (cb_AddUint16LengthPrefixed cb (cb_AddUint8LengthPrefixed cb (fold (cb_AddUint8 cb) c))
      (cb_AddUint16 cb PskKeyExchangeModesTypeValue (cb_Builder cb))) = Ok b"
    using 2(3) by (simp add: PskKeyExchangeModes_Marshal_def)
  from framed_build [OF 2(1) this]
  obtain body where body: "cb_Bytes cb (cb_AddUint8LengthPrefixed cb (fold (cb_AddUint8 cb) c) (cb_Builder cb)) = Ok body"
      "length body < 65536" "b = be16 PskKeyExchangeModesTypeValue @ be16 (of_nat (length body)) @ body" by blast
  have "cb_Bytes cb (fold (cb_AddUint8 cb) c (cb_Builder cb)) = gmap (\<lambda>s. s @ concat (map (\<lambda>x. [x]) c)) (cb_Bytes cb (cb_Builder cb))"
    by (rule cb_Bytes_fold [where enc = "\<lambda>x. Ok [x]"]) (auto simp: cb_simps [OF 2(1)] gmap_def)
  then have "length c < 256" "body = lp8 c" using lp8_build [OF 2(1) body(1)] by (auto simp: cb_simps [OF 2(1)] lp8_def)
  then show ?case
    using ext_data_frame [OF 2(1) body(2,3)] c by (simp add: PskKeyExchangeModes_Unmarshal_def cb_simps [OF 2(1)])
next
  case (3 data)
  then show ?case by (auto simp: PskKeyExchangeModes_Unmarshal_def gbind_Panic_iff ext_data_no_panic split: option.splits)
qed

definition version_bytes :: "Version \<Rightarrow> bytes" where
  "version_bytes v = [Major v, Minor v]"

lemma version_bytes_not_Nil: "version_bytes v \<noteq> []"
  by (simp add: version_bytes_def)

lemma IsValid_bytes: "IsValidVersion v \<longleftrightarrow> IsValidBytes (Major v) (Minor v)"
  by (auto simp: IsValidVersion_def IsValidBytes_def Version_Equal_def Version1_0_def Version1_2_def Version1_3_def)

lemma add_version_bytes: "documented cb \<Longrightarrow> cb_Bytes cb (add_version cb v b) = gmap (\<lambda>s. s @ version_bytes v) (cb_Bytes cb b)"
  by (simp add: add_version_def cb_simps gmap_append version_bytes_def)

lemma versions_build:
  assumes "documented cb"
  shows "cb_Bytes cb (fold (add_version cb) vs (cb_Builder cb)) = Ok (concat (map version_bytes vs))"
proof -
  have "cb_Bytes cb (fold (add_version cb) vs (cb_Builder cb)) =
      gmap (\<lambda>s. s @ concat (map version_bytes vs)) (cb_Bytes cb (cb_Builder cb))"
    by (rule cb_Bytes_fold [where enc = "\<lambda>v. Ok (version_bytes v)"]) (auto simp: add_version_bytes [OF assms] gmap_def)
  then show ?thesis by (simp add: cb_simps [OF assms])
qed

lemma version_while: "documented cb \<Longrightarrow> cb_while cb (version_round cb) (length s) s st \<noteq> Panic"
  by (rule cb_while_no_panic)
    (auto simp: version_round_def cb_simps split: option.splits if_splits dest!: read_lengths)

lemma version_round_bytes:
  "\<lbrakk>documented cb; IsValidVersion v\<rbrakk> \<Longrightarrow> version_round cb (version_bytes v @ r) vs = Ok (vs @ [v], r)"
  by (simp add: version_round_def version_bytes_def cb_simps IsValid_bytes)

lemma version_items:
  assumes "documented cb" "\<forall>v \<in> set vs. IsValidVersion v"
  shows "cb_while cb (version_round cb) (length (concat (map version_bytes vs))) (concat (map version_bytes vs)) [] = Ok vs"
proof -
  have "cb_while cb (version_round cb) (length (concat (map version_bytes vs))) (concat (map version_bytes vs)) [] =
      Ok (fold (\<lambda>v vs. vs @ [v]) vs [])"
    by (rule cb_while_items [OF assms(1)]) (simp_all add: version_round_bytes [OF assms(1) bspec [OF assms(2)]] version_bytes_not_Nil)
  then show ?thesis by (simp add: fold_snoc)
qed

lemma length_versions [simp]: "length (concat (map version_bytes vs)) = 2 * length vs"
  by (induction vs) (simp_all add: version_bytes_def)

lemma SupportedVersions_guards:
  assumes "SupportedVersions_Marshal cb s = Ok b"
  shows "Versions s \<noteq> []" "SelectedVersion s \<Longrightarrow> length (Versions s) = 1" "2 * length (Versions s) < 255"
    "\<forall>v \<in> set (Versions s). IsValidVersion v"
    "cb_Bytes cb (cb_AddUint16LengthPrefixed cb
       (if SelectedVersion s then add_version cb (hd (Versions s))
        else cb_AddUint8LengthPrefixed cb (fold (add_version cb) (Versions s)))
       (cb_AddUint16 cb SupportedVersionsTypeValue (cb_Builder cb))) = Ok b"
  using assms by (auto simp: SupportedVersions_Marshal_def split: if_splits)

lemma even_of_nat_byte:
  assumes "n < 128"
  shows "(of_nat (2 * n) :: byte) mod 2 = 0"
proof -
  have "unat (of_nat (2 * n) :: byte) = 2 * n" using assms by (intro unat_of_nat_8) simp
  then show ?thesis unfolding word_unat_eq_iff unat_mod_distrib by simp
qed

interpretation versions: ext_codec "documented cb" "SupportedVersions_Marshal cb" "SupportedVersions_Unmarshal cb" "\<lambda>_. True"
  SupportedVersionsTypeValue for cb :: "'b cryptobyte"
proof (unfold_locales, goal_cases)
  case (1 s b)
  then show ?case using framed_build [OF 1(1) SupportedVersions_guards(5) [OF 1(3)]] by blast
next
  case (2 s b r)
  note g = SupportedVersions_guards [OF 2(3)]
  obtain body where body: "cb_Bytes cb ((if SelectedVersion s then add_version cb (hd (Versions s))
        else cb_AddUint8LengthPrefixed cb (fold (add_version cb) (Versions s))) (cb_Builder cb)) = Ok body"
      "length body < 65536" "b = be16 SupportedVersionsTypeValue @ be16 (of_nat (length body)) @ body"
    using framed_build [OF 2(1) g(5)] by blast
  show ?case
  proof (cases "SelectedVersion s")
    case True
    then obtain v where v: "Versions s = [v]" using g(2) by (auto simp: length_Suc_conv)
    have bd: "body = version_bytes v" using body(1) True by (simp add: v add_version_bytes [OF 2(1)] cb_simps [OF 2(1)])
    have "Major v = 0xfe" using g(4) by (simp add: v IsValid_bytes IsValidBytes_def)
    moreover have "version_round cb (version_bytes v) [] = Ok ([v], [])"
      using version_round_bytes [OF 2(1), of v "[]" "[]"] g(4) by (simp add: v)
    moreover have "s = \<lparr>Versions = [v], SelectedVersion = True\<rparr>" using v True by (cases s) simp
    ultimately show ?thesis
      using ext_data_frame [OF 2(1) body(2,3)]
      by (simp add: SupportedVersions_Unmarshal_def cb_simps [OF 2(1)] bd) (simp add: version_bytes_def)
  next
    case False
    define list where "list = concat (map version_bytes (Versions s))"
    have len: "length list = 2 * length (Versions s)" "length list < 256" using g(3) by (simp_all add: list_def)
    have bd: "body = of_nat (length list) # list"
      using lp8_build [OF 2(1), of "fold (add_version cb) (Versions s)" body] body(1) False versions_build [OF 2(1), of "Versions s"]
      by (simp add: list_def [symmetric])
    have "(2 :: byte) \<le> of_nat (length list)"
      using len g(1) unat_of_nat_8 [OF len(2)] by (cases "Versions s") (simp_all add: word_le_nat_alt)
    moreover have "(of_nat (length list) :: byte) mod 2 = 0" using even_of_nat_byte [of "length (Versions s)"] g(3) by (simp add: len(1))
    moreover have "cb_while cb (version_round cb) (length list) list [] = Ok (Versions s)"
      using version_items [OF 2(1) g(4)] by (simp add: list_def)
    moreover have "s = \<lparr>Versions = Versions s, SelectedVersion = False\<rparr>" using False by (cases s) simp
    ultimately show ?thesis
      using ext_data_frame [OF 2(1) body(2,3)] unat_of_nat_8 [OF len(2)]
      by (simp add: SupportedVersions_Unmarshal_def cb_simps [OF 2(1)] bd read_bytes_def)
  qed
next
  case (3 data)
  have "version_round cb s st \<noteq> Panic" for s st by (auto simp: version_round_def split: option.splits)
  then show ?case
    by (auto simp: SupportedVersions_Unmarshal_def gbind_Panic_iff ext_data_no_panic version_while [OF 3] Let_def split: option.splits if_splits)
qed

section \<open>Key shares and pre-shared keys\<close>

text \<open>
  A share of a server whose group is the length of the rest reads as a list of shares, and a selected group must be
  one that is implemented.
\<close>

definition KeyShare_wf :: "KeyShare \<Rightarrow> bool" where
  "KeyShare_wf k \<longleftrightarrow>
     ClientShares k \<noteq> Some [] \<and>
     (case ServerShare k of Some e \<Rightarrow> unat (Group e) \<noteq> 2 + length (KeyExchange e) | None \<Rightarrow> True) \<and>
     (case SelectedGroup k of Some g \<Rightarrow> g \<in> set Curves | None \<Rightarrow> True)"

definition share_bytes :: "KeyShareEntry \<Rightarrow> bytes" where
  "share_bytes e = be16 (Group e) @ lp16 (KeyExchange e)"

lemma share_build:
  assumes "documented cb" "length (KeyExchange e) < 65536"
  shows "cb_Bytes cb (addKeyShareEntry cb e b) = gmap (\<lambda>s. s @ share_bytes e) (cb_Bytes cb b)"
  using assms(2)
  by (cases "cb_Bytes cb b") (simp_all add: addKeyShareEntry_def cb_simps [OF assms(1)] write_prefixed_def share_bytes_def lp16_def)

lemma check_shares_lengths: "check_shares es seen = Ok () \<Longrightarrow> e \<in> set es \<Longrightarrow> length (KeyExchange e) < 65536"
  by (induction es arbitrary: seen) (auto split: if_splits)

lemma shares_build:
  assumes "documented cb" "check_shares es seen = Ok ()"
  shows "cb_Bytes cb (fold (addKeyShareEntry cb) es (cb_Builder cb)) = Ok (concat (map share_bytes es))"
proof -
  have "cb_Bytes cb (fold (addKeyShareEntry cb) es (cb_Builder cb)) =
      gmap (\<lambda>s. s @ concat (map share_bytes es)) (cb_Bytes cb (cb_Builder cb))"
    by (rule cb_Bytes_fold [where enc = "\<lambda>e. Ok (share_bytes e)"])
      (simp_all add: share_build [OF assms(1) check_shares_lengths [OF assms(2)]] gmap_def)
  then show ?thesis by (simp add: cb_simps [OF assms(1)])
qed

lemma key_share_while: "documented cb \<Longrightarrow> cb_while cb (key_share_round cb) (length s) s st \<noteq> Panic"
  by (rule cb_while_no_panic)
    (auto simp: key_share_round_def cb_simps split: option.splits if_splits dest!: read_lengths read_prefixed_lengths)

lemma fold_pair: "fst (fold (\<lambda>e st. (fst st @ [e], insert (f e) (snd st))) es st) = fst st @ es"
  by (induction es arbitrary: st) simp_all

lemma key_share_items:
  assumes "documented cb" "check_shares es {} = Ok ()"
  shows "\<exists>seen. cb_while cb (key_share_round cb) (length (concat (map share_bytes es))) (concat (map share_bytes es)) ([], {}) =
    Ok (es, seen)"
proof -
  define upd where "upd = (\<lambda>(e :: KeyShareEntry) st. (fst st @ [e], insert (Group e) (snd st)))"
  have "cb_while cb (key_share_round cb) (length (concat (map share_bytes es))) (concat (map share_bytes es)) ([], {}) =
      Ok (fold upd es ([], {}))"
  proof (rule cb_while_good [OF assms(1), where good = "\<lambda>es st. check_shares es (snd st) = Ok ()"])
    fix e es r and st :: "KeyShareEntry list \<times> Curve set"
    assume "check_shares (e # es) (snd st) = Ok ()"
    then have "Group e \<notin> snd st" "KeyExchange e \<noteq> []" "length (KeyExchange e) < 65536"
        "check_shares es (insert (Group e) (snd st)) = Ok ()"
      by (auto split: if_splits)
    then show "key_share_round cb (share_bytes e @ r) st = Ok (upd e st, r) \<and> share_bytes e \<noteq> [] \<and>
        check_shares es (snd (upd e st)) = Ok ()"
      by (simp add: key_share_round_def share_bytes_def cb_simps [OF assms(1)] upd_def be16_def)
  qed (use assms(2) in simp_all)
  moreover have "fst (fold upd es ([], {})) = es" unfolding upd_def by (simp only: fold_pair fst_conv append_Nil)
  ultimately show ?thesis by (metis prod.collapse)
qed

lemma KeyShare_guards:
  assumes "KeyShare_Marshal cb k = Ok b"
  shows "\<not> hasTooManyContexts (ClientShares k \<noteq> None) (ServerShare k \<noteq> None) (SelectedGroup k \<noteq> None)"
    "ClientShares k = Some es \<Longrightarrow> check_shares es {} = Ok ()"
    "ServerShare k = Some e \<Longrightarrow> KeyExchange e \<noteq> [] \<and> length (KeyExchange e) < 65536"
    "cb_Bytes cb
       (cb_AddUint16LengthPrefixed cb
          (case SelectedGroup k of
             Some g \<Rightarrow> cb_AddUint16 cb g
           | None \<Rightarrow>
               (case ServerShare k of
                  Some e \<Rightarrow> addKeyShareEntry cb e
                | None \<Rightarrow>
                    cb_AddUint16LengthPrefixed cb
                      (fold (addKeyShareEntry cb) (case ClientShares k of Some es \<Rightarrow> es | None \<Rightarrow> []))))
          (cb_AddUint16 cb KeyShareTypeValue (cb_Builder cb))) = Ok b"
  using assms by (auto simp: KeyShare_Marshal_def gbind_Ok_iff split: if_splits)

lemma Curves_not_0: "g \<in> set Curves \<Longrightarrow> unat g \<noteq> 0"
  by (auto simp: Curves_def)

interpretation key_share: ext_codec "documented cb" "KeyShare_Marshal cb" "KeyShare_Unmarshal cb" KeyShare_wf KeyShareTypeValue
  for cb :: "'b cryptobyte"
proof (unfold_locales, goal_cases)
  case (1 k b)
  then show ?case using framed_build [OF 1(1) KeyShare_guards(4) [OF 1(3)]] by blast
next
  case (2 k b r)
  note g = KeyShare_guards [OF 2(3)] and simps = cb_simps [OF 2(1)]
  obtain body where body: "cb_Bytes cb ((case SelectedGroup k of
             Some g \<Rightarrow> cb_AddUint16 cb g
           | None \<Rightarrow>
               (case ServerShare k of
                  Some e \<Rightarrow> addKeyShareEntry cb e
                | None \<Rightarrow>
                    cb_AddUint16LengthPrefixed cb
                      (fold (addKeyShareEntry cb) (case ClientShares k of Some es \<Rightarrow> es | None \<Rightarrow> [])))) (cb_Builder cb)) = Ok body"
      "length body < 65536" "b = be16 KeyShareTypeValue @ be16 (of_nat (length body)) @ body"
    using framed_build [OF 2(1) g(4)] by blast
  note data = ext_data_frame [OF 2(1) body(2,3)]
  consider (hrr) grp where "SelectedGroup k = Some grp" | (server) e where "SelectedGroup k = None" "ServerShare k = Some e"
    | (client) "SelectedGroup k = None" "ServerShare k = None"
    by (cases "SelectedGroup k"; cases "ServerShare k") auto
  then show ?case
  proof cases
    case hrr
    then have k: "k = \<lparr>ClientShares = None, ServerShare = None, SelectedGroup = Some grp\<rparr>" "grp \<in> set Curves"
      using g(1) 2(2) by (cases k; auto simp: hasTooManyContexts_def KeyShare_wf_def)+
    have "body = be16 grp" using body(1) by (simp add: hrr simps)
    then show ?thesis using data Curves_not_0 [OF k(2)] k(2) by (simp add: KeyShare_Unmarshal_def simps k(1)) (simp add: be16_def)
  next
    case server
    then have k: "k = \<lparr>ClientShares = None, ServerShare = Some e, SelectedGroup = None\<rparr>"
        "unat (Group e) \<noteq> 2 + length (KeyExchange e)"
      using g(1) 2(2) by (cases k; auto simp: hasTooManyContexts_def KeyShare_wf_def)+
    note kx = g(3) [OF server(2)]
    have "body = share_bytes e" using body(1) kx by (simp add: server share_build [OF 2(1)] simps)
    moreover have "length (lp16 (KeyExchange e)) = 2 + length (KeyExchange e)" by (simp add: lp16_def)
    ultimately show ?thesis using data k(2) kx by (simp add: KeyShare_Unmarshal_def simps k(1) share_bytes_def)
  next
    case client
    define es where "es = (case ClientShares k of Some es \<Rightarrow> es | None \<Rightarrow> [])"
    have k: "k = \<lparr>ClientShares = (if es = [] then None else Some es), ServerShare = None, SelectedGroup = None\<rparr>"
      using client 2(2) by (cases k) (auto simp: es_def KeyShare_wf_def split: option.splits)
    have ck: "check_shares es {} = Ok ()" using g(2) by (cases "ClientShares k") (simp_all add: es_def)
    define list where "list = concat (map share_bytes es)"
    have "cb_Bytes cb (cb_AddUint16LengthPrefixed cb (fold (addKeyShareEntry cb) es) (cb_Builder cb)) = Ok body"
      using body(1) by (simp add: client es_def)
    from lp16_build [OF 2(1) this] have bd: "body = be16 (of_nat (length list)) @ list" "length list < 65536"
      by (auto simp: shares_build [OF 2(1) ck] list_def)
    obtain seen where "cb_while cb (key_share_round cb) (length list) list ([], {}) = Ok (es, seen)"
      using key_share_items [OF 2(1) ck] by (auto simp: list_def)
    then show ?thesis
      using data unat_of_nat_16 [OF bd(2)] by (simp add: KeyShare_Unmarshal_def simps bd(1) read_bytes_def) (auto simp: be16_def k)
  qed
next
  case (3 data)
  then show ?case
    by (auto simp: KeyShare_Unmarshal_def gbind_Panic_iff ext_data_no_panic key_share_while [OF 3] Let_def split: option.splits if_splits)
qed

definition PreSharedKey_wf :: "PreSharedKey \<Rightarrow> bool" where
  "PreSharedKey_wf p \<longleftrightarrow>
     Identities p = [] \<and> Binders p = [] \<or>
     Identities p \<noteq> [] \<and> length (Binders p) = length (Identities p) \<and> SelectedIdentity p = 0 \<and>
     (\<forall>i \<in> set (Identities p). fst i \<noteq> [] \<and> length (fst i) < 65536) \<and>
     (\<forall>b \<in> set (Binders p). 32 \<le> length b \<and> length b < 256)"

definition identity_bytes :: "bytes \<times> u32 \<Rightarrow> bytes" where
  "identity_bytes i = lp16 (fst i) @ be32 (snd i)"

lemma identities_build:
  assumes "documented cb" "\<forall>i \<in> set is. fst i \<noteq> [] \<and> length (fst i) < 65536"
  shows "cb_Bytes cb (fold (add_identity cb) is (cb_Builder cb)) = Ok (concat (map identity_bytes is))"
proof -
  have "cb_Bytes cb (fold (add_identity cb) is (cb_Builder cb)) =
      gmap (\<lambda>s. s @ concat (map identity_bytes is)) (cb_Bytes cb (cb_Builder cb))"
  proof (rule cb_Bytes_fold [where enc = "\<lambda>i. Ok (identity_bytes i)"])
    fix i b
    assume "i \<in> set is"
    then show "cb_Bytes cb (add_identity cb i b) = gbind (cb_Bytes cb b) (\<lambda>s. gmap (\<lambda>t. s @ t) (Ok (identity_bytes i)))"
      using assms(2)
      by (cases "cb_Bytes cb b") (simp_all add: add_identity_def cb_simps [OF assms(1)] write_prefixed_def identity_bytes_def lp16_def)
  qed simp
  then show ?thesis by (simp add: cb_simps [OF assms(1)])
qed

lemma binders_build:
  assumes "documented cb" "\<forall>b \<in> set bs. 32 \<le> length b \<and> length b < 256"
  shows "cb_Bytes cb (fold (add_binder cb) bs (cb_Builder cb)) = Ok (concat (map lp8 bs))"
proof -
  have "cb_Bytes cb (fold (add_binder cb) bs (cb_Builder cb)) = gmap (\<lambda>s. s @ concat (map lp8 bs)) (cb_Bytes cb (cb_Builder cb))"
  proof (rule cb_Bytes_fold [where enc = "\<lambda>b. Ok (lp8 b)"])
    fix x b
    assume "x \<in> set bs"
    then have "\<not> length x < minPSKBinderSize" "length x < 256" using assms(2) by (auto simp: minPSKBinderSize_def)
    then show "cb_Bytes cb (add_binder cb x b) = gbind (cb_Bytes cb b) (\<lambda>s. gmap (\<lambda>t. s @ t) (Ok (lp8 x)))"
      by (cases "cb_Bytes cb b") (simp_all add: add_binder_def cb_simps [OF assms(1)] write_prefixed_def lp8_def)
  qed simp
  then show ?thesis by (simp add: cb_simps [OF assms(1)])
qed

lemma identity_while: "documented cb \<Longrightarrow> cb_while cb (identity_round cb) (length s) s st \<noteq> Panic"
  by (rule cb_while_no_panic)
    (auto simp: identity_round_def cb_simps split: option.splits if_splits dest!: read_lengths read_prefixed_lengths)

lemma binder_while: "documented cb \<Longrightarrow> cb_while cb (binder_round cb) (length s) s st \<noteq> Panic"
  by (rule cb_while_no_panic)
    (auto simp: binder_round_def cb_simps split: option.splits if_splits dest!: read_prefixed_lengths)

lemma identity_items:
  assumes "documented cb" "\<forall>i \<in> set is. fst i \<noteq> [] \<and> length (fst i) < 65536"
  shows "cb_while cb (identity_round cb) (length (concat (map identity_bytes is))) (concat (map identity_bytes is)) [] = Ok is"
proof -
  have "cb_while cb (identity_round cb) (length (concat (map identity_bytes is))) (concat (map identity_bytes is)) [] =
      Ok (fold (\<lambda>i is. is @ [i]) is [])"
    by (rule cb_while_items [OF assms(1)])
      (use assms(2) in \<open>auto simp: identity_round_def identity_bytes_def cb_simps [OF assms(1)]\<close>)
  then show ?thesis by (simp add: fold_snoc)
qed

lemma binder_items:
  assumes "documented cb" "\<forall>b \<in> set bs. 32 \<le> length b \<and> length b < 256"
  shows "cb_while cb (binder_round cb) (length (concat (map lp8 bs))) (concat (map lp8 bs)) [] = Ok bs"
proof -
  have "cb_while cb (binder_round cb) (length (concat (map lp8 bs))) (concat (map lp8 bs)) [] =
      Ok (fold (\<lambda>b bs. bs @ [b]) bs [])"
    by (rule cb_while_items [OF assms(1)])
      (use assms(2) in \<open>auto simp: binder_round_def minPSKBinderSize_def cb_simps [OF assms(1)]\<close>)
  then show ?thesis by (simp add: fold_snoc)
qed

interpretation pre_shared_key: ext_codec "documented cb" "PreSharedKey_Marshal cb" "PreSharedKey_Unmarshal cb" PreSharedKey_wf
  PreSharedKeyValue for cb :: "'b cryptobyte"
proof (unfold_locales, goal_cases)
  case (1 p b)
  then show ?case using framed_build [OF 1(1)] by (fastforce simp: PreSharedKey_Marshal_def Let_def split: if_splits)
next
  case (2 p b r)
  note simps = cb_simps [OF 2(1)]
  show ?case
  proof (cases "Identities p = []")
    case True
    then have p: "p = \<lparr>Identities = [], Binders = [], SelectedIdentity = SelectedIdentity p\<rparr>"
      using 2(2) by (cases p) (simp add: PreSharedKey_wf_def)
    have "cb_Bytes cb (cb_AddUint16LengthPrefixed cb (cb_AddUint16 cb (SelectedIdentity p))
        (cb_AddUint16 cb PreSharedKeyValue (cb_Builder cb))) = Ok b"
      using 2(3) True by (simp add: PreSharedKey_Marshal_def)
    from framed_build [OF 2(1) this]
    obtain body where body: "body = be16 (SelectedIdentity p)" "length body < 65536"
        "b = be16 PreSharedKeyValue @ be16 (of_nat (length body)) @ body"
      by (auto simp: simps)
    then show ?thesis using ext_data_frame [OF 2(1) body(2,3)] p by (simp add: PreSharedKey_Unmarshal_def simps)
  next
    case False
    define ids bs where "ids = concat (map identity_bytes (Identities p))" and "bs = concat (map lp8 (Binders p))"
    have wf: "Binders p \<noteq> []" "length (Binders p) = length (Identities p)" "SelectedIdentity p = 0"
        "\<forall>i \<in> set (Identities p). fst i \<noteq> [] \<and> length (fst i) < 65536"
        "\<forall>b \<in> set (Binders p). 32 \<le> length b \<and> length b < 256"
      using 2(2) False by (auto simp: PreSharedKey_wf_def)
    have "cb_Bytes cb (cb_AddUint16LengthPrefixed cb
             (\<lambda>b. cb_AddUint16LengthPrefixed cb (fold (add_binder cb) (Binders p))
                (cb_AddUint16LengthPrefixed cb (fold (add_identity cb) (Identities p)) b))
             (cb_AddUint16 cb PreSharedKeyValue (cb_Builder cb))) = Ok b"
      using 2(3) False wf(1) by (simp add: PreSharedKey_Marshal_def)
    from framed_build [OF 2(1) this]
    obtain body where body: "body = lp16 ids @ lp16 bs" "length body < 65536"
        "b = be16 PreSharedKeyValue @ be16 (of_nat (length body)) @ body" "length ids < 65536" "length bs < 65536"
      by (auto simp: simps write_prefixed_Ok_iff identities_build [OF 2(1) wf(4)] binders_build [OF 2(1) wf(5)] lp16_def
          simp flip: ids_def bs_def)
    have "ids \<noteq> []" using False wf(4) by (cases "Identities p") (simp_all add: ids_def identity_bytes_def)
    moreover have "bs \<noteq> []" using wf(1) by (cases "Binders p") (simp_all add: bs_def)
    moreover have "length body \<noteq> 2" by (simp add: body(1) lp16_def)
    moreover have "cb_while cb (identity_round cb) (length ids) ids [] = Ok (Identities p)"
      using identity_items [OF 2(1) wf(4)] by (simp add: ids_def)
    moreover have "cb_while cb (binder_round cb) (length bs) bs [] = Ok (Binders p)"
      using binder_items [OF 2(1) wf(5)] by (simp add: bs_def)
    ultimately show ?thesis
      using ext_data_frame [OF 2(1) body(2,3)] body(1,4,5) wf(2,3) by (simp add: PreSharedKey_Unmarshal_def simps)
  qed
next
  case (3 data)
  then show ?case
    by (auto simp: PreSharedKey_Unmarshal_def gbind_Panic_iff ext_data_no_panic identity_while [OF 3] binder_while [OF 3]
        split: option.splits if_splits)
qed

section \<open>Extensions of certificate requests\<close>

interpretation early_data: ext_codec "documented cb" "EarlyDataIndication_Marshal cb" "EarlyDataIndication_Unmarshal cb" "\<lambda>_. True"
  EarlyDataIndicationTypeValue for cb :: "'b cryptobyte"
proof (unfold_locales, goal_cases)
  case (1 x b)
  show ?case
  proof (cases x)
    case None
    then show ?thesis using 1 by (intro exI [of _ "[]"]) (auto simp: EarlyDataIndication_Marshal_def cb_simps)
  next
    case (Some n)
    then show ?thesis using 1 framed_build [OF 1(1)] by (fastforce simp: EarlyDataIndication_Marshal_def)
  qed
next
  case (2 x b r)
  define body where "body = (case x of None \<Rightarrow> [] | Some n \<Rightarrow> be32 n)"
  have "length body < 65536" "b = be16 EarlyDataIndicationTypeValue @ be16 (of_nat (length body)) @ body"
    using 2(3) by (cases x; auto simp: EarlyDataIndication_Marshal_def cb_simps [OF 2(1)] body_def write_prefixed_Ok_iff)+
  from ext_data_frame [OF 2(1) this] show ?case
    by (cases x; simp add: EarlyDataIndication_Unmarshal_def cb_simps [OF 2(1)] body_def) (simp add: be32_def)
next
  case (3 data)
  then show ?case by (auto simp: EarlyDataIndication_Unmarshal_def gbind_Panic_iff ext_data_no_panic split: option.splits if_splits)
qed

definition Authorities_wf :: "bytes list \<Rightarrow> bool" where
  "Authorities_wf cas \<longleftrightarrow> (\<forall>ca \<in> set cas. ca \<noteq> [] \<and> length ca < 65536)"

lemma authorities_build:
  assumes "documented cb" "Authorities_wf cas"
  shows "cb_Bytes cb (add_authorities cb cas b) = gmap (\<lambda>s. s @ concat (map lp16 cas)) (cb_Bytes cb b)"
  using assms(2)
proof (induction cas arbitrary: b)
  case Nil
  show ?case by (cases "cb_Bytes cb b") simp_all
next
  case (Cons ca cas)
  have ca: "\<not> length ca < 1" "length ca < 65536" "Authorities_wf cas" using Cons.prems by (auto simp: Authorities_wf_def Suc_le_eq)
  then show ?case
    using Cons.IH [OF ca(3)]
    by (cases "cb_Bytes cb b") (simp_all add: cb_simps [OF assms(1)] write_prefixed_def lp16_def)
qed

lemma authority_while: "documented cb \<Longrightarrow> cb_while cb (authority_round cb) (length s) s st \<noteq> Panic"
  by (rule cb_while_no_panic)
    (auto simp: authority_round_def cb_simps split: option.splits if_splits dest!: read_prefixed_lengths)

lemma authority_items:
  assumes "documented cb" "Authorities_wf cas"
  shows "cb_while cb (authority_round cb) (length (concat (map lp16 cas))) (concat (map lp16 cas)) [] = Ok cas"
proof -
  have "cb_while cb (authority_round cb) (length (concat (map lp16 cas))) (concat (map lp16 cas)) [] =
      Ok (fold (\<lambda>ca cas. cas @ [ca]) cas [])"
    by (rule cb_while_items [OF assms(1)])
      (use assms(2) in \<open>auto simp: Authorities_wf_def authority_round_def cb_simps [OF assms(1)] Suc_le_eq\<close>)
  then show ?thesis by (simp add: fold_snoc)
qed

interpretation authorities: ext_codec "documented cb" "CertificateAuthorities_Marshal cb" "CertificateAuthorities_Unmarshal cb"
  Authorities_wf CertificateAuthoritiesTypeValue for cb :: "'b cryptobyte"
proof (unfold_locales, goal_cases)
  case (1 cas b)
  then show ?case using framed_build [OF 1(1)] by (fastforce simp: CertificateAuthorities_Marshal_def split: if_splits)
next
  case (2 cas b r)
  define list where "list = concat (map lp16 cas)"
  have cas: "cas \<noteq> []" and "cb_Bytes cb (cb_AddUint16LengthPrefixed cb (cb_AddUint16LengthPrefixed cb (add_authorities cb cas))
      (cb_AddUint16 cb CertificateAuthoritiesTypeValue (cb_Builder cb))) = Ok b"
    using 2(3) by (auto simp: CertificateAuthorities_Marshal_def split: if_splits)
  from framed_build [OF 2(1) this(2)]
  obtain body where body: "body = lp16 list" "length body < 65536" "length list < 65536"
      "b = be16 CertificateAuthoritiesTypeValue @ be16 (of_nat (length body)) @ body"
    by (auto simp: cb_simps [OF 2(1)] write_prefixed_Ok_iff authorities_build [OF 2(1,2)] list_def lp16_def)
  moreover have "list \<noteq> []" using cas by (cases cas) (simp_all add: list_def)
  moreover have "cb_while cb (authority_round cb) (length list) list [] = Ok cas"
    using authority_items [OF 2(1,2)] by (simp add: list_def)
  ultimately show ?case
    using ext_data_frame [OF 2(1) body(2,4)] by (simp add: CertificateAuthorities_Unmarshal_def cb_simps [OF 2(1)])
next
  case (3 data)
  then show ?case
    by (auto simp: CertificateAuthorities_Unmarshal_def gbind_Panic_iff ext_data_no_panic authority_while [OF 3]
        split: option.splits if_splits)
qed

definition filters_wf :: "OIDFilter list \<Rightarrow> bool" where
  "filters_wf fs \<longleftrightarrow> distinct (map OID fs) \<and> (\<forall>f \<in> set fs. OID f \<noteq> [] \<and> length (OID f) < 256 \<and> length (Values f) < 65536)"

definition filter_bytes :: "OIDFilter \<Rightarrow> bytes" where
  "filter_bytes f = lp8 (OID f) @ lp16 (Values f)"

lemma filters_build:
  assumes "documented cb"
  shows "\<lbrakk>filters_wf fs; seen \<inter> OID ` set fs = {}\<rbrakk> \<Longrightarrow>
    cb_Bytes cb (add_filters cb seen fs b) = gmap (\<lambda>s. s @ concat (map filter_bytes fs)) (cb_Bytes cb b)"
proof (induction fs arbitrary: b seen)
  case Nil
  show ?case by (cases "cb_Bytes cb b") simp_all
next
  case (Cons f fs)
  have f: "\<not> length (OID f) < 1" "length (OID f) < 256" "length (Values f) < 65536" "OID f \<notin> seen" "filters_wf fs"
      "insert (OID f) seen \<inter> OID ` set fs = {}"
    using Cons.prems by (auto simp: filters_wf_def Suc_le_eq)
  then show ?case
    using Cons.IH [OF f(5,6)]
    by (cases "cb_Bytes cb b") (simp_all add: cb_simps [OF assms] write_prefixed_def filter_bytes_def lp8_def lp16_def Let_def)
qed

lemma filter_while: "documented cb \<Longrightarrow> cb_while cb (filter_round cb) (length s) s st \<noteq> Panic"
  by (rule cb_while_no_panic)
    (auto simp: filter_round_def cb_simps split: option.splits if_splits dest!: read_prefixed_lengths)

lemma filter_items:
  assumes "documented cb" "filters_wf fs"
  shows "gmap fst (cb_while cb (filter_round cb) (length (concat (map filter_bytes fs))) (concat (map filter_bytes fs)) ([], {})) = Ok fs"
proof -
  define upd where "upd = (\<lambda>(f :: OIDFilter) st. (fst st @ [f], insert (OID f) (snd st)))"
  have "cb_while cb (filter_round cb) (length (concat (map filter_bytes fs))) (concat (map filter_bytes fs)) ([], {}) =
      Ok (fold upd fs ([], {}))"
  proof (rule cb_while_good [OF assms(1), where good = "\<lambda>fs st. filters_wf fs \<and> snd st \<inter> OID ` set fs = {}"])
    fix f fs r and st :: "OIDFilter list \<times> bytes set"
    assume "filters_wf (f # fs) \<and> snd st \<inter> OID ` set (f # fs) = {}"
    then have f: "OID f \<noteq> []" "length (OID f) < 256" "length (Values f) < 65536" "OID f \<notin> snd st" "filters_wf fs"
        "insert (OID f) (snd st) \<inter> OID ` set fs = {}"
      by (auto simp: filters_wf_def)
    then show "filter_round cb (filter_bytes f @ r) st = Ok (upd f st, r) \<and> filter_bytes f \<noteq> [] \<and>
        filters_wf fs \<and> snd (upd f st) \<inter> OID ` set fs = {}"
      by (simp add: filter_round_def filter_bytes_def cb_simps [OF assms(1)] upd_def)
  qed (use assms(2) in simp_all)
  moreover have "fst (fold upd fs ([], {})) = fs" unfolding upd_def by (simp only: fold_pair fst_conv append_Nil)
  ultimately show ?thesis by simp
qed

interpretation oid_filters: ext_codec "documented cb" "OIDFilters_Marshal cb" "OIDFilters_Unmarshal cb" filters_wf OIDFiltersTypeValue
  for cb :: "'b cryptobyte"
proof (unfold_locales, goal_cases)
  case (1 fs b)
  then show ?case using framed_build [OF 1(1)] by (fastforce simp: OIDFilters_Marshal_def)
next
  case (2 fs b r)
  define list where "list = concat (map filter_bytes fs)"
  have "{} \<inter> OID ` set fs = {}" by simp
  from framed_build [OF 2(1) 2(3) [unfolded OIDFilters_Marshal_def]]
  obtain body where body: "body = lp16 list" "length body < 65536" "length list < 65536"
      "b = be16 OIDFiltersTypeValue @ be16 (of_nat (length body)) @ body"
    by (auto simp: cb_simps [OF 2(1)] write_prefixed_Ok_iff filters_build [OF 2(1,2) \<open>{} \<inter> OID ` set fs = {}\<close>] list_def lp16_def)
  moreover have "gmap fst (cb_while cb (filter_round cb) (length list) list ([], {})) = Ok fs"
    using filter_items [OF 2(1,2)] by (simp add: list_def)
  ultimately show ?case
    using ext_data_frame [OF 2(1) body(2,4)] by (simp add: OIDFilters_Unmarshal_def cb_simps [OF 2(1)])
next
  case (3 data)
  then show ?case
    by (auto simp: OIDFilters_Unmarshal_def gbind_Panic_iff ext_data_no_panic filter_while [OF 3] split: option.splits if_splits)
qed

section \<open>Lists of extensions\<close>

fun ext_wf :: "Extension \<Rightarrow> bool" where
  "ext_wf (ServerName x) = ServerName_wf x"
| "ext_wf (SupportedEllipticCurves x) = Curves_wf x"
| "ext_wf (SupportedPointFormats x) = PointFormats_wf x"
| "ext_wf (SupportedSignatureAlgorithms x) = SigHashes_wf x"
| "ext_wf (SignatureAlgorithmsCert x) = SigHashes_wf x"
| "ext_wf (UseSRTP x) = UseSRTP_wf x"
| "ext_wf (ALPN x) = ALPN_wf x"
| "ext_wf (UseExtendedMasterSecret x) = x"
| "ext_wf (KeyShare x) = KeyShare_wf x"
| "ext_wf (PreSharedKey x) = PreSharedKey_wf x"
| "ext_wf _ = True"

definition ext_type :: "Extension \<Rightarrow> TypeValue" where
  "ext_type e =
     (case e of
        ServerName _ \<Rightarrow> ServerNameTypeValue
      | SupportedEllipticCurves _ \<Rightarrow> SupportedEllipticCurvesTypeValue
      | SupportedPointFormats _ \<Rightarrow> SupportedPointFormatsTypeValue
      | SupportedSignatureAlgorithms _ \<Rightarrow> SupportedSignatureAlgorithmsTypeValue
      | SignatureAlgorithmsCert _ \<Rightarrow> SignatureAlgorithmsCertTypeValue
      | UseSRTP _ \<Rightarrow> UseSRTPTypeValue
      | ALPN _ \<Rightarrow> ALPNTypeValue
      | UseExtendedMasterSecret _ \<Rightarrow> UseExtendedMasterSecretTypeValue
      | RenegotiationInfo _ \<Rightarrow> RenegotiationInfoTypeValue
      | ConnectionIDExt _ \<Rightarrow> ConnectionIDTypeValue
      | SupportedVersions _ \<Rightarrow> SupportedVersionsTypeValue
      | KeyShare _ \<Rightarrow> KeyShareTypeValue
      | CookieExt _ \<Rightarrow> CookieTypeValue
      | PskKeyExchangeModes _ \<Rightarrow> PskKeyExchangeModesTypeValue
      | PreSharedKey _ \<Rightarrow> PreSharedKeyValue)"

lemma ext_framed:
  assumes "documented cb" "ext_wf e" "ext_Marshal cb e = Ok b"
  shows "\<exists>body. length body < 65536 \<and> b = be16 (ext_type e) @ be16 (of_nat (length body)) @ body"
  using assms
  by (cases e)
    (simp_all add: ext_type_def server_name.framed curves.framed point_formats.framed sig_algs.framed sig_algs_cert.framed
      use_srtp.framed alpn.framed ems.framed renegotiation.framed connection_id.framed versions.framed key_share.framed
      cookie.framed psk_modes.framed pre_shared_key.framed)

lemma ext_roundtrip:
  assumes "documented cb" "ext_wf e" "ext_Marshal cb e = Ok b"
  shows "ext_Unmarshal cb (b @ r) (ext_type e) = Ok (Some e)"
  using assms
  by (cases e)
    (simp_all add: ext_type_def ext_Unmarshal_def server_name.roundtrip curves.roundtrip point_formats.roundtrip
      sig_algs.roundtrip sig_algs_cert.roundtrip use_srtp.roundtrip alpn.roundtrip ems.roundtrip renegotiation.roundtrip
      connection_id.roundtrip versions.roundtrip key_share.roundtrip cookie.roundtrip psk_modes.roundtrip pre_shared_key.roundtrip)

lemma ext_no_panic: "documented cb \<Longrightarrow> ext_Unmarshal cb data t \<noteq> Panic"
  by (simp add: ext_Unmarshal_def server_name.no_panic curves.no_panic point_formats.no_panic sig_algs.no_panic
      sig_algs_cert.no_panic use_srtp.no_panic alpn.no_panic ems.no_panic renegotiation.no_panic connection_id.no_panic
      versions.no_panic key_share.no_panic cookie.no_panic psk_modes.no_panic pre_shared_key.no_panic)

lemma extensions_loop_no_panic: "documented cb \<Longrightarrow> extensions_loop cb buf offset es \<noteq> Panic"
proof (induction "length buf - offset" arbitrary: offset es rule: less_induct)
  case less
  show ?case
    apply (subst extensions_loop.simps)
    using less by (auto simp: gbind_Panic_iff ext_no_panic slice_from_def)
qed

lemma extensions_no_panic: "documented cb \<Longrightarrow> extensions_Unmarshal cb buf \<noteq> Panic"
  by (auto simp: extensions_Unmarshal_def gbind_Panic_iff extensions_loop_no_panic)

lemma extensions_loop_step:
  assumes "documented cb" "ext_wf e" "ext_Marshal cb e = Ok b"
  shows "extensions_loop cb (pre @ b @ r) (length pre) es = extensions_loop cb (pre @ b @ r) (length pre + length b) (es @ [e])"
proof -
  obtain body where body: "length body < 65536" "b = be16 (ext_type e) @ be16 (of_nat (length body)) @ body"
    using ext_framed [OF assms] by blast
  have "u16_at (b @ r) 0 = Ok (ext_type e)" "u16_at (b @ r) 2 = Ok (of_nat (length body))"
    unfolding body(2) append_assoc by (rule header_at)+
  moreover have "length b = 4 + length body" by (simp add: body(2))
  ultimately show ?thesis
    using unat_of_nat_16 [OF body(1)]
    by (subst extensions_loop.simps) (simp add: ext_roundtrip [OF assms])
qed

lemma marshal_loop:
  assumes "documented cb"
  shows "\<lbrakk>marshal_each cb es acc = Ok (acc @ x); \<forall>e \<in> set es. ext_wf e\<rbrakk> \<Longrightarrow>
    extensions_loop cb (pre @ x) (length pre) es0 = Ok (es0 @ es)"
proof (induction es arbitrary: acc pre x es0)
  case Nil
  then show ?case by (subst extensions_loop.simps) simp
next
  case (Cons e es)
  obtain b where b: "ext_Marshal cb e = Ok b" "marshal_each cb es (acc @ b) = Ok (acc @ x)"
    using Cons.prems(1) by (auto simp: gbind_Ok_iff)
  have "\<exists>y. out = acc @ y" if "marshal_each cb es acc = Ok out" for es acc out
    using that
  proof (induction es arbitrary: acc)
    case (Cons e es)
    then obtain b where "marshal_each cb es (acc @ b) = Ok out" by (auto simp: gbind_Ok_iff)
    then obtain y where "out = (acc @ b) @ y" using Cons.IH by blast
    then show ?case by simp
  qed simp
  then obtain y where "acc @ x = (acc @ b) @ y" using b(2) by blast
  then have x: "x = b @ y" by simp
  have "extensions_loop cb ((pre @ b) @ y) (length (pre @ b)) (es0 @ [e]) = Ok ((es0 @ [e]) @ es)"
    using b(2) Cons.prems(2) by (intro Cons.IH [of "acc @ b"]) (simp_all add: x)
  then show ?case using extensions_loop_step [OF assms _ b(1), of pre y es0] Cons.prems(2) by (simp add: x)
qed

lemma extensions_roundtrip:
  assumes "documented cb" "\<forall>e \<in> set es. ext_wf e" "extensions_Marshal cb es = Ok b" "length b < 65538"
  shows "extensions_Unmarshal cb b = Ok es"
proof -
  obtain x where x: "marshal_each cb es [] = Ok x" "b = be16 (of_nat (length x)) @ x"
    using assms(3) by (auto simp: extensions_Marshal_def gbind_Ok_iff)
  have "length x < 65536" using assms(4) by (simp add: x(2))
  then have "unat (of_nat (length x) :: u16) = length x" by (rule unat_of_nat_16)
  moreover have "extensions_loop cb b (length (be16 (of_nat (length x)))) [] = Ok ([] @ es)"
    unfolding x(2) using x(1) assms(2) by (intro marshal_loop [OF assms(1), of es "[]"]) simp_all
  moreover have "u16_at b 0 = Ok (of_nat (length x))" unfolding x(2) by (rule header_at)
  moreover have "length b = 2 + length x" by (simp add: x(2))
  ultimately show ?thesis by (simp add: extensions_Unmarshal_def del: length_0_conv)
qed

section \<open>Properties\<close>

text \<open> C37. Every list of well-formed extensions that can be encoded (into less than 64 KB, as its length is written
  in two bytes) is decoded to the same list.  Well-formed means that the values are known ones, that lists that may
  not be empty are not, and for key shares that the encoding is not ambiguous.\<close>

theorem Extensions_roundtrip:
  assumes "documented cb" "\<forall>e \<in> set es. ext_wf e" "extensions_Marshal cb es = Ok b" "length b < 65538"
  shows "extensions_Unmarshal cb b = Ok es"
  using assms by (rule extensions_roundtrip)

theorem Extensions_roundtrip_witness:
  "extensions_Unmarshal plain_cryptobyte [0, 13, 0xff, 1, 0, 1, 0, 0, 54, 0, 4, 3, 7, 8, 9] =
     Ok [RenegotiationInfo 0, ConnectionIDExt [7, 8, 9]]"
  by (rule Extensions_roundtrip [OF documented_plain])
    (simp_all add: extensions_Marshal_def RenegotiationInfo_Marshal_def ConnectionID_Marshal_def plain_cryptobyte_def
      write_prefixed_def be16_def drop_bit_eq_div)

text \<open> C29. No bytes that a peer sends as extensions make the decoder panic: the result is a list or an error.\<close>

theorem Extensions_no_panic:
  assumes "documented cb"
  shows "extensions_Unmarshal cb buf \<noteq> Panic"
  using assms by (rule extensions_no_panic)

theorem Extensions_no_panic_witness: "extensions_Unmarshal plain_cryptobyte [0, 3, 0, 43, 255] \<noteq> Panic"
  by (rule Extensions_no_panic [OF documented_plain])

end
