(* ===== verification/Dtls_Handshake.thy ===== *)
theory Dtls_Handshake
  imports Dtls_Extension_Codec
begin

unbundle bit_operations_syntax

text \<open>
  The handshake messages of DTLS 1.2, \<open>src/dtls/pkg/protocol/handshake\<close>, and the handshake protocol that wraps
  them with its header.  The decoders work by offsets into their data, with the guards of the source, and panic
  where an index or a slice is out of range.
\<close>

section \<open>Randoms, cipher suites, vectors\<close>

record Random =
  GMTUnixTime :: int
  RandomBytes :: bytes

definition RandomBytesLength :: nat where "RandomBytesLength = 28"
definition RandomLength :: nat where "RandomLength = RandomBytesLength + 4"

definition Random_MarshalFixed :: "Random \<Rightarrow> bytes" where
  "Random_MarshalFixed r = be32 (of_int (GMTUnixTime r)) @ RandomBytes r"

definition Random_UnmarshalFixed :: "bytes \<Rightarrow> Random go" where
  "Random_UnmarshalFixed data =
     gbind (Uint32 data) (\<lambda>t. Ok \<lparr>GMTUnixTime = uint t, RandomBytes = take RandomBytesLength (drop 4 data)\<rparr>)"

text \<open>The rounds \<open>i, ..., count - 1\<close> of the loop.\<close>

fun suites_loop :: "bytes \<Rightarrow> nat \<Rightarrow> nat \<Rightarrow> u16 list go" where
  "suites_loop buf i 0 = Ok []"
| "suites_loop buf i (Suc n) =
     (if length buf < i * 2 + 4 then Fail ErrBufferTooSmall
      else gbind (u16_at buf (i * 2 + 2)) (\<lambda>w. gmap (\<lambda>ws. w # ws) (suites_loop buf (Suc i) n)))"

definition decodeCipherSuiteIDs :: "bytes \<Rightarrow> u16 list go" where
  "decodeCipherSuiteIDs buf =
     (if length buf < 2 then Fail ErrBufferTooSmall
      else gbind (u16_at buf 0) (\<lambda>n. suites_loop buf 0 (unat n div 2)))"

definition encodeCipherSuiteIDs :: "u16 list \<Rightarrow> bytes" where
  "encodeCipherSuiteIDs ids = be16 (of_nat (length ids * 2)) @ concat (map be16 ids)"

text \<open>A vector with a one-byte length at an offset, which must not end the data: session IDs and cookies.\<close>

definition vec8_at :: "bytes \<Rightarrow> nat \<Rightarrow> bytes go" where
  "vec8_at data currOffset =
     (if length data \<le> currOffset + 1 then Fail ErrBufferTooSmall
      else
        gbind (at data currOffset) (\<lambda>n.
          if length data \<le> currOffset + 1 + unat n then Fail ErrBufferTooSmall
          else slice data (currOffset + 1) (currOffset + 1 + unat n)))"

section \<open>Hello messages\<close>

record MessageHelloVerifyRequest =
  HVR_Version :: Version
  HVR_Cookie :: bytes

definition HelloVerifyRequest_Marshal :: "MessageHelloVerifyRequest \<Rightarrow> bytes go" where
  "HelloVerifyRequest_Marshal m =
     (if length (HVR_Cookie m) > 255 then Fail ErrCookieTooLong
      else
        Ok ([Major (HVR_Version m), Minor (HVR_Version m), of_nat (length (HVR_Cookie m))] @ HVR_Cookie m))"

definition HelloVerifyRequest_Unmarshal :: "bytes \<Rightarrow> MessageHelloVerifyRequest go" where
  "HelloVerifyRequest_Unmarshal data =
     (if length data < 3 then Fail ErrBufferTooSmall
      else
        gbind (at data 0) (\<lambda>major.
        gbind (at data 1) (\<lambda>minor.
        gbind (at data 2) (\<lambda>n.
          if length data < unat n + 3 then Fail ErrBufferTooSmall
          else
            gbind (slice data 3 (3 + unat n)) (\<lambda>cookie.
              Ok \<lparr>HVR_Version = \<lparr>Major = major, Minor = minor\<rparr>, HVR_Cookie = cookie\<rparr>)))))"

record MessageClientHello =
  CH_Version :: Version
  CH_Random :: Random
  CH_Cookie :: bytes
  CH_SessionID :: bytes
  CH_CipherSuiteIDs :: "u16 list"
  CH_CompressionMethods :: "CompressionMethod list"
  CH_Extensions :: "Extension list"

definition ClientHello_Marshal :: "'b cryptobyte \<Rightarrow> MessageClientHello \<Rightarrow> bytes go" where
  "ClientHello_Marshal cb m =
     (if length (CH_Cookie m) > 255 then Fail ErrCookieTooLong
      else if length (CH_SessionID m) > 255 then Fail ErrSessionIDTooLong
      else if length (CH_CompressionMethods m) > 255 then Fail ErrCompressionMethodsTooLong
      else
        gbind (extensions_Marshal cb (CH_Extensions m)) (\<lambda>extensions.
          Ok ([Major (CH_Version m), Minor (CH_Version m)] @ Random_MarshalFixed (CH_Random m) @
              [of_nat (length (CH_SessionID m))] @ CH_SessionID m @
              [of_nat (length (CH_Cookie m))] @ CH_Cookie m @
              encodeCipherSuiteIDs (CH_CipherSuiteIDs m) @ EncodeCompressionMethods (CH_CompressionMethods m) @ extensions)))"

definition ClientHello_Unmarshal :: "'b cryptobyte \<Rightarrow> bytes \<Rightarrow> MessageClientHello go" where
  "ClientHello_Unmarshal cb data =
     (if length data < 2 + RandomLength then Fail ErrBufferTooSmall
      else
        gbind (at data 0) (\<lambda>major.
        gbind (at data 1) (\<lambda>minor.
        gbind (gbind (slice_from data 2) (\<lambda>d. Random_UnmarshalFixed (take RandomLength d))) (\<lambda>random.
        gbind (vec8_at data 34) (\<lambda>sessionID.
        let currOffset = 34 + 1 + length sessionID in
        gbind (vec8_at data currOffset) (\<lambda>cookie.
        let currOffset = currOffset + 1 + length cookie in
        if length data < currOffset then Fail ErrBufferTooSmall
        else
          gbind (gbind (slice_from data currOffset) decodeCipherSuiteIDs) (\<lambda>cipherSuiteIDs.
          if length data < currOffset + 2 then Fail ErrBufferTooSmall
          else
            gbind (u16_at data currOffset) (\<lambda>n.
            let currOffset = currOffset + unat n + 2 in
            if length data < currOffset then Fail ErrBufferTooSmall
            else
              gbind (gbind (slice_from data currOffset) DecodeCompressionMethods) (\<lambda>compressionMethods.
              if length data < currOffset then Fail ErrBufferTooSmall
              else
                gbind (at data currOffset) (\<lambda>n.
                let currOffset = currOffset + unat n + 1 in
                gbind (gbind (slice_from data currOffset) (extensions_Unmarshal cb)) (\<lambda>extensions.
                  Ok \<lparr>CH_Version = \<lparr>Major = major, Minor = minor\<rparr>, CH_Random = random, CH_Cookie = cookie,
                      CH_SessionID = sessionID, CH_CipherSuiteIDs = cipherSuiteIDs,
                      CH_CompressionMethods = compressionMethods, CH_Extensions = extensions\<rparr>)))))))))))"

text \<open>The cipher suite and the compression method are pointers.\<close>

record MessageServerHello =
  SH_Version :: Version
  SH_Random :: Random
  SH_SessionID :: bytes
  SH_CipherSuiteID :: "u16 option"
  SH_CompressionMethod :: "CompressionMethod option"
  SH_Extensions :: "Extension list"

definition ServerHello_Marshal :: "'b cryptobyte \<Rightarrow> MessageServerHello \<Rightarrow> bytes go" where
  "ServerHello_Marshal cb m =
     (case SH_CipherSuiteID m of
        None \<Rightarrow> Fail ErrCipherSuiteUnset
      | Some suite \<Rightarrow>
          (case SH_CompressionMethod m of
             None \<Rightarrow> Fail ErrCompressionMethodUnset
           | Some method \<Rightarrow>
               if length (SH_SessionID m) > 255 then Fail ErrSessionIDTooLong
               else
                 gbind (extensions_Marshal cb (SH_Extensions m)) (\<lambda>extensions.
                   Ok ([Major (SH_Version m), Minor (SH_Version m)] @ Random_MarshalFixed (SH_Random m) @
                       [of_nat (length (SH_SessionID m))] @ SH_SessionID m @ be16 suite @ [method] @ extensions))))"

definition ServerHello_Unmarshal :: "'b cryptobyte \<Rightarrow> bytes \<Rightarrow> MessageServerHello go" where
  "ServerHello_Unmarshal cb data =
     (if length data < 2 + RandomLength then Fail ErrBufferTooSmall
      else
        gbind (at data 0) (\<lambda>major.
        gbind (at data 1) (\<lambda>minor.
        gbind (gbind (slice_from data 2) (\<lambda>d. Random_UnmarshalFixed (take RandomLength d))) (\<lambda>random.
        gbind (vec8_at data (2 + RandomLength)) (\<lambda>sessionID.
        let currOffset = 2 + RandomLength + 1 + length sessionID in
        if length data < currOffset + 2 then Fail ErrBufferTooSmall
        else
          gbind (u16_at data currOffset) (\<lambda>suite.
          let currOffset = currOffset + 2 in
          if length data \<le> currOffset then Fail ErrBufferTooSmall
          else
            gbind (at data currOffset) (\<lambda>b.
            case CompressionMethods b of
              None \<Rightarrow> Fail ErrInvalidCompressionMethod
            | Some method \<Rightarrow>
                let currOffset = currOffset + 1 in
                gbind (if length data \<le> currOffset then Ok []
                       else gbind (slice_from data currOffset) (extensions_Unmarshal cb)) (\<lambda>extensions.
                  Ok \<lparr>SH_Version = \<lparr>Major = major, Minor = minor\<rparr>, SH_Random = random, SH_SessionID = sessionID,
                      SH_CipherSuiteID = Some suite, SH_CompressionMethod = Some method,
                      SH_Extensions = extensions\<rparr>))))))))"

definition EncryptedExtensions_Marshal :: "'b cryptobyte \<Rightarrow> Extension list \<Rightarrow> bytes go" where
  "EncryptedExtensions_Marshal cb m = extensions_Marshal cb m"

definition EncryptedExtensions_Unmarshal :: "'b cryptobyte \<Rightarrow> bytes \<Rightarrow> Extension list go" where
  "EncryptedExtensions_Unmarshal cb data =
     (if length data < 2 then Fail ErrBufferTooSmall else extensions_Unmarshal cb data)"

section \<open>Certificates\<close>

definition Certificate_Marshal :: "bytes list \<Rightarrow> bytes go" where
  "Certificate_Marshal certs =
     (let total = 3 + sum_list (map (\<lambda>cert. 3 + length cert) certs) in
      Ok (PutBigEndianUint24 (of_nat (total - 3)) @
          concat (map (\<lambda>cert. PutBigEndianUint24 (of_nat (length cert)) @ cert) certs)))"

function certificate_loop :: "bytes \<Rightarrow> nat \<Rightarrow> bytes list \<Rightarrow> bytes list go" where
  "certificate_loop data offset certs =
     (if offset < length data then
        gbind (slice_from data offset) (\<lambda>d.
          let certificateLen = unat (BigEndianUint24 d); offset = offset + 3 in
          if offset + certificateLen > length data then Fail ErrLengthMismatch
          else
            gbind (slice data offset (offset + certificateLen)) (\<lambda>cert.
              certificate_loop data (offset + certificateLen) (certs @ [cert])))
      else Ok certs)"
  by pat_completeness auto

termination
  by (relation "measure (\<lambda>(data, offset, _). length data - offset)") auto

declare certificate_loop.simps [simp del]

definition Certificate_Unmarshal :: "bytes \<Rightarrow> bytes list go" where
  "Certificate_Unmarshal data =
     (if length data < 3 then Fail ErrBufferTooSmall
      else if unat (BigEndianUint24 data) + 3 \<noteq> length data then Fail ErrLengthMismatch
      else certificate_loop data 3 [])"

record MessageCertificateVerify =
  CV_HashAlgorithm :: HashAlgorithm
  CV_SignatureAlgorithm :: SignatureAlgorithm
  CV_Signature :: bytes

definition CertificateVerify_Marshal :: "MessageCertificateVerify \<Rightarrow> bytes go" where
  "CertificateVerify_Marshal m =
     (if CV_HashAlgorithm m > 0xFF \<or> CV_SignatureAlgorithm m > 0xFF then Fail ErrInvalidSignHashAlgorithm
      else
        gbind (or_else (sh_Unmarshal (push_bit 8 (CV_HashAlgorithm m) OR CV_SignatureAlgorithm m))
                 ErrInvalidSignHashAlgorithm) (\<lambda>_.
          Ok ([ucast (CV_HashAlgorithm m), ucast (CV_SignatureAlgorithm m)] @
              be16 (of_nat (length (CV_Signature m))) @ CV_Signature m)))"

definition CertificateVerify_Unmarshal :: "bytes \<Rightarrow> MessageCertificateVerify go" where
  "CertificateVerify_Unmarshal data =
     (if length data < 4 then Fail ErrBufferTooSmall
      else
        gbind (u16_at data 0) (\<lambda>scheme.
        gbind (or_else (sh_Unmarshal scheme) ErrInvalidSignHashAlgorithm) (\<lambda>alg.
        gbind (u16_at data 2) (\<lambda>n.
          if unat n + 4 \<noteq> length data then Fail ErrBufferTooSmall
          else
            gbind (slice_from data 4) (\<lambda>sig.
              Ok \<lparr>CV_HashAlgorithm = sh_Hash alg, CV_SignatureAlgorithm = sh_Signature alg, CV_Signature = sig\<rparr>)))))"

record MessageCertificateRequest =
  CertificateTypes :: "byte list"
  SignatureHashAlgorithms :: "SigHash list"
  CertificateAuthoritiesNames :: "bytes list"

definition CertificateRequest_Marshal :: "MessageCertificateRequest \<Rightarrow> bytes go" where
  "CertificateRequest_Marshal m =
     (if length (CertificateTypes m) > 255 then Fail ErrCertificateTypesTooLong
      else
        let casLength = sum_list (map (\<lambda>ca. length ca + 2) (CertificateAuthoritiesNames m)) in
        Ok ([of_nat (length (CertificateTypes m))] @ CertificateTypes m @
            be16 (of_nat (length (SignatureHashAlgorithms m) * 2)) @ concat (map sh_Marshal (SignatureHashAlgorithms m)) @
            be16 (of_nat casLength) @
            (if casLength > 0
             then concat (map (\<lambda>ca. be16 (of_nat (length ca)) @ ca) (CertificateAuthoritiesNames m)) else [])))"

text \<open>The loop over the signature algorithms; \<open>k\<close> bytes of them are left at \<open>a\<close>.\<close>

function sig_algs_at :: "bytes \<Rightarrow> nat \<Rightarrow> nat \<Rightarrow> SigHash list go" where
  "sig_algs_at data a k =
     (if k = 0 then Ok []
      else if length data < a + 2 then Fail ErrBufferTooSmall
      else
        gbind (u16_at data a) (\<lambda>scheme.
          gmap (\<lambda>as. (case sh_Unmarshal scheme of Ok alg \<Rightarrow> [alg] | _ \<Rightarrow> []) @ as) (sig_algs_at data (a + 2) (k - 2))))"
  by pat_completeness auto

termination
  by (relation "measure (\<lambda>(_, _, k). k)") auto

declare sig_algs_at.simps [simp del]

function ca_names :: "bytes \<Rightarrow> bytes list \<Rightarrow> bytes list go" where
  "ca_names cas names =
     (if length cas > 0 then
        if length cas < 2 then Fail ErrBufferTooSmall
        else
          gbind (u16_at cas 0) (\<lambda>caLen.
          gbind (slice_from cas 2) (\<lambda>cas'.
            if length cas' < unat caLen then Fail ErrBufferTooSmall
            else
              gbind (slice cas' 0 (unat caLen)) (\<lambda>ca.
              gbind (slice_from cas' (unat caLen)) (\<lambda>rest. ca_names rest (names @ [ca])))))
      else Ok names)"
  by pat_completeness auto

termination
  by (relation "measure (\<lambda>(cas, _). length cas)") (auto simp: slice_from_def split: if_splits)

declare ca_names.simps [simp del]

definition CertificateRequest_Unmarshal :: "bytes \<Rightarrow> MessageCertificateRequest go" where
  "CertificateRequest_Unmarshal data =
     (if length data < 5 then Fail ErrBufferTooSmall
      else
        gbind (at data 0) (\<lambda>n.
        let certificateTypesLength = unat n; offset = 1 in
        if offset + certificateTypesLength > length data then Fail ErrBufferTooSmall
        else
          gbind (bytes_at data offset certificateTypesLength) (\<lambda>types.
          let offset = offset + certificateTypesLength in
          if length data < offset + 2 then Fail ErrBufferTooSmall
          else
            gbind (u16_at data offset) (\<lambda>n.
            let signatureHashAlgorithmsLength = unat n; offset = offset + 2 in
            if offset + signatureHashAlgorithmsLength > length data then Fail ErrBufferTooSmall
            else
              gbind (sig_algs_at data offset signatureHashAlgorithmsLength) (\<lambda>algs.
              let offset = offset + signatureHashAlgorithmsLength in
              if length data < offset + 2 then Fail ErrBufferTooSmall
              else
                gbind (u16_at data offset) (\<lambda>n.
                let casLength = unat n; offset = offset + 2 in
                if offset + casLength > length data then Fail ErrBufferTooSmall
                else
                  gbind (gbind (slice data offset (offset + casLength)) (\<lambda>cas. ca_names cas [])) (\<lambda>names.
                    Ok \<lparr>CertificateTypes = filter (\<lambda>t. t \<in> set clientcertificate_Types) types,
                        SignatureHashAlgorithms = algs, CertificateAuthoritiesNames = names\<rparr>)))))))"

section \<open>Key exchanges\<close>

text \<open>\<open>IdentityHint\<close> and \<open>PublicKey\<close> of a client are nil or a slice, and so is the hint of a server.\<close>

record MessageClientKeyExchange =
  CKE_IdentityHint :: "bytes option"
  CKE_PublicKey :: "bytes option"
  CKE_KeyExchangeAlgorithm :: KeyExchangeAlgorithm

definition prefixed16 :: "bytes \<Rightarrow> bytes" where
  "prefixed16 b = be16 (of_nat (length b)) @ b"

definition ClientKeyExchange_Marshal :: "MessageClientKeyExchange \<Rightarrow> bytes go" where
  "ClientKeyExchange_Marshal m =
     (if CKE_IdentityHint m = None \<and> CKE_PublicKey m = None then Fail ErrInvalidClientKeyExchange
      else
        let out = (case CKE_IdentityHint m of None \<Rightarrow> [] | Some hint \<Rightarrow> prefixed16 hint) in
        case CKE_PublicKey m of
          None \<Rightarrow> Ok out
        | Some key \<Rightarrow>
            if length key > 255 then Fail ErrPublicKeyTooLong
            else Ok (out @ [of_nat (length key)] @ key))"

definition ClientKeyExchange_Unmarshal :: "KeyExchangeAlgorithm \<Rightarrow> bytes \<Rightarrow> MessageClientKeyExchange go" where
  "ClientKeyExchange_Unmarshal alg data =
     (if length data < 2 then Fail ErrBufferTooSmall
      else if alg = KeyExchangeAlgorithmNone then Fail ErrCipherSuiteUnset
      else
        gbind (if Has alg KeyExchangeAlgorithmPsk then
                 gbind (u16_at data 0) (\<lambda>n.
                   let pskLength = unat n in
                   if pskLength > length data - 2 then Fail ErrBufferTooSmall
                   else gbind (slice data 2 (pskLength + 2)) (\<lambda>hint. Ok (Some hint, pskLength + 2)))
               else Ok (None, 0)) (\<lambda>(hint, offset).
        gbind (if Has alg KeyExchangeAlgorithmEcdhe then
                 gbind (at data offset) (\<lambda>n.
                   if unat n > length data - 1 - offset then Fail ErrBufferTooSmall
                   else gbind (slice_from data (offset + 1)) (\<lambda>key. Ok (Some key)))
               else Ok None) (\<lambda>key.
          Ok \<lparr>CKE_IdentityHint = hint, CKE_PublicKey = key, CKE_KeyExchangeAlgorithm = alg\<rparr>)))"

record MessageServerKeyExchange =
  SKE_IdentityHint :: "bytes option"
  SKE_EllipticCurveType :: byte
  SKE_NamedCurve :: Curve
  SKE_PublicKey :: bytes
  SKE_HashAlgorithm :: HashAlgorithm
  SKE_SignatureAlgorithm :: SignatureAlgorithm
  SKE_Signature :: bytes
  SKE_KeyExchangeAlgorithm :: KeyExchangeAlgorithm

definition ServerKeyExchange_Marshal :: "MessageServerKeyExchange \<Rightarrow> bytes go" where
  "ServerKeyExchange_Marshal m =
     (let out = (case SKE_IdentityHint m of None \<Rightarrow> [] | Some hint \<Rightarrow> prefixed16 hint) in
      if SKE_EllipticCurveType m = 0 \<or> SKE_PublicKey m = [] then Ok out
      else
        let out = out @ [SKE_EllipticCurveType m] @ be16 (SKE_NamedCurve m) @
              [of_nat (length (SKE_PublicKey m))] @ SKE_PublicKey m in
        if SKE_HashAlgorithm m \<noteq> hash_None \<and> SKE_Signature m = [] then Fail ErrInvalidSignHashAlgorithm
        else if SKE_HashAlgorithm m = hash_None \<and> SKE_Signature m \<noteq> [] then Fail ErrInvalidSignHashAlgorithm
        else if SKE_SignatureAlgorithm m = sig_Anonymous \<and> (SKE_HashAlgorithm m \<noteq> hash_None \<or> SKE_Signature m \<noteq> [])
          then Fail ErrInvalidSignHashAlgorithm
        else if SKE_SignatureAlgorithm m = sig_Anonymous then Ok out
        else
          Ok (out @ sh_Marshal \<lparr>sh_Hash = SKE_HashAlgorithm m, sh_Signature = SKE_SignatureAlgorithm m\<rparr> @
              prefixed16 (SKE_Signature m)))"

text \<open>
  The slice \<open>data[2:2+hintLength]\<close> is taken with an unsigned 16-bit sum.  A signature that does not follow the key
  is one of an anonymous key exchange.
\<close>

definition ske_hint :: "KeyExchangeAlgorithm \<Rightarrow> bytes \<Rightarrow> (bytes option \<times> bytes) go" where
  "ske_hint alg data =
     gbind (u16_at data 0) (\<lambda>hintLength.
       if unat hintLength \<le> length data - 2 \<and> Has alg KeyExchangeAlgorithmPsk then
         gbind (slice data 2 (unat (2 + hintLength))) (\<lambda>hint.
         gbind (slice_from data (unat (2 + hintLength))) (\<lambda>rest. Ok (Some hint, rest)))
       else Ok (None, data))"

definition ske_signature :: "bytes \<Rightarrow> nat \<Rightarrow> (HashAlgorithm \<times> SignatureAlgorithm \<times> bytes) go" where
  "ske_signature data offset =
     (if length data = offset then Ok (0, 0, [])
      else if length data \<le> offset + 1 then Fail ErrBufferTooSmall
      else
        gbind (u16_at data offset) (\<lambda>scheme.
        gbind (or_else (sh_Unmarshal scheme) ErrInvalidSignHashAlgorithm) (\<lambda>alg.
        let offset = offset + 2 in
        if length data < offset + 2 then Fail ErrBufferTooSmall
        else
          gbind (u16_at data offset) (\<lambda>n.
          let offset = offset + 2 in
          if length data < offset + unat n then Fail ErrBufferTooSmall
          else
            gbind (slice data offset (offset + unat n)) (\<lambda>sig. Ok (sh_Hash alg, sh_Signature alg, sig))))))"

definition ServerKeyExchange_Unmarshal :: "KeyExchangeAlgorithm \<Rightarrow> bytes \<Rightarrow> MessageServerKeyExchange go" where
  "ServerKeyExchange_Unmarshal alg data =
     (if length data < 2 then Fail ErrBufferTooSmall
      else if alg = KeyExchangeAlgorithmNone then Fail ErrCipherSuiteUnset
      else
        gbind (ske_hint alg data) (\<lambda>(hint, data).
        if alg = KeyExchangeAlgorithmPsk then
          (if data = []
           then Ok \<lparr>SKE_IdentityHint = hint, SKE_EllipticCurveType = 0, SKE_NamedCurve = 0, SKE_PublicKey = [],
                    SKE_HashAlgorithm = 0, SKE_SignatureAlgorithm = 0, SKE_Signature = [],
                    SKE_KeyExchangeAlgorithm = alg\<rparr>
           else Fail ErrLengthMismatch)
        else if \<not> Has alg KeyExchangeAlgorithmEcdhe then Fail ErrLengthMismatch
        else if data = [] then Fail ErrBufferTooSmall
        else
          gbind (at data 0) (\<lambda>curveType.
          if curveType \<notin> set CurveTypes then Fail ErrInvalidEllipticCurveType
          else
            gbind (slice_from data 1) (\<lambda>d.
            if length d < 2 then Fail ErrBufferTooSmall
            else
              gbind (u16_at data 1) (\<lambda>curve.
              if curve \<notin> set Curves then Fail ErrInvalidNamedCurveFatal
              else if length data < 4 then Fail ErrBufferTooSmall
              else
                gbind (at data 3) (\<lambda>publicKeyLength.
                let offset = 4 + unat publicKeyLength in
                if length data < offset then Fail ErrBufferTooSmall
                else
                  gbind (slice data 4 offset) (\<lambda>key.
                  gbind (ske_signature data offset) (\<lambda>(hash, sig, signature).
                    Ok \<lparr>SKE_IdentityHint = hint, SKE_EllipticCurveType = curveType, SKE_NamedCurve = curve,
                        SKE_PublicKey = key, SKE_HashAlgorithm = hash, SKE_SignatureAlgorithm = sig,
                        SKE_Signature = signature, SKE_KeyExchangeAlgorithm = alg\<rparr>))))))))"

section \<open>The handshake protocol\<close>

type_synonym Type = byte

abbreviation (input) TypeHelloRequest :: Type where "TypeHelloRequest \<equiv> 0"
abbreviation (input) TypeClientHello :: Type where "TypeClientHello \<equiv> 1"
abbreviation (input) TypeServerHello :: Type where "TypeServerHello \<equiv> 2"
abbreviation (input) TypeHelloVerifyRequest :: Type where "TypeHelloVerifyRequest \<equiv> 3"
abbreviation (input) TypeEncryptedExtensions :: Type where "TypeEncryptedExtensions \<equiv> 8"
abbreviation (input) TypeCertificate :: Type where "TypeCertificate \<equiv> 11"
abbreviation (input) TypeServerKeyExchange :: Type where "TypeServerKeyExchange \<equiv> 12"
abbreviation (input) TypeCertificateRequest :: Type where "TypeCertificateRequest \<equiv> 13"
abbreviation (input) TypeServerHelloDone :: Type where "TypeServerHelloDone \<equiv> 14"
abbreviation (input) TypeCertificateVerify :: Type where "TypeCertificateVerify \<equiv> 15"
abbreviation (input) TypeClientKeyExchange :: Type where "TypeClientKeyExchange \<equiv> 16"
abbreviation (input) TypeFinished :: Type where "TypeFinished \<equiv> 20"
abbreviation (input) TypeMessageHash :: Type where "TypeMessageHash \<equiv> 254"

definition HelloRetryRequestRandom :: bytes where
  "HelloRetryRequestRandom =
     [0xCF, 0x21, 0xAD, 0x74, 0xE5, 0x9A, 0x61, 0x11,
      0xBE, 0x1D, 0x8C, 0x02, 0x1E, 0x65, 0xB8, 0x91,
      0xC2, 0xA2, 0x11, 0x16, 0x7A, 0xBB, 0x8C, 0x5E,
      0x07, 0x9E, 0x09, 0xE2, 0xC8, 0xA8, 0x33, 0x9C]"

definition Type_String :: "Type \<Rightarrow> string" where
  "Type_String t =
     (if t = TypeHelloRequest then ''HelloRequest''
      else if t = TypeClientHello then ''ClientHello''
      else if t = TypeServerHello then ''ServerHello''
      else if t = TypeHelloVerifyRequest then ''HelloVerifyRequest''
      else if t = TypeEncryptedExtensions then ''EncryptedExtensions''
      else if t = TypeCertificate then ''TypeCertificate''
      else if t = TypeServerKeyExchange then ''ServerKeyExchange''
      else if t = TypeCertificateRequest then ''CertificateRequest''
      else if t = TypeServerHelloDone then ''ServerHelloDone''
      else if t = TypeCertificateVerify then ''CertificateVerify''
      else if t = TypeClientKeyExchange then ''ClientKeyExchange''
      else if t = TypeFinished then ''Finished''
      else if t = TypeMessageHash then ''MessageHash''
      else [])"

datatype Message =
    MClientHello MessageClientHello
  | MServerHello MessageServerHello
  | MHelloVerifyRequest MessageHelloVerifyRequest
  | MEncryptedExtensions "Extension list"
  | MCertificate "bytes list"
  | MServerKeyExchange MessageServerKeyExchange
  | MCertificateRequest MessageCertificateRequest
  | MServerHelloDone
  | MCertificateVerify MessageCertificateVerify
  | MClientKeyExchange MessageClientKeyExchange
  | MFinished bytes

primrec Message_Type :: "Message \<Rightarrow> Type" where
  "Message_Type (MClientHello m) = TypeClientHello"
| "Message_Type (MServerHello m) = TypeServerHello"
| "Message_Type (MHelloVerifyRequest m) = TypeHelloVerifyRequest"
| "Message_Type (MEncryptedExtensions m) = TypeEncryptedExtensions"
| "Message_Type (MCertificate m) = TypeCertificate"
| "Message_Type (MServerKeyExchange m) = TypeServerKeyExchange"
| "Message_Type (MCertificateRequest m) = TypeCertificateRequest"
| "Message_Type MServerHelloDone = TypeServerHelloDone"
| "Message_Type (MCertificateVerify m) = TypeCertificateVerify"
| "Message_Type (MClientKeyExchange m) = TypeClientKeyExchange"
| "Message_Type (MFinished m) = TypeFinished"

primrec Message_Marshal :: "'b cryptobyte \<Rightarrow> Message \<Rightarrow> bytes go" where
  "Message_Marshal cb (MClientHello m) = ClientHello_Marshal cb m"
| "Message_Marshal cb (MServerHello m) = ServerHello_Marshal cb m"
| "Message_Marshal cb (MHelloVerifyRequest m) = HelloVerifyRequest_Marshal m"
| "Message_Marshal cb (MEncryptedExtensions m) = EncryptedExtensions_Marshal cb m"
| "Message_Marshal cb (MCertificate m) = Certificate_Marshal m"
| "Message_Marshal cb (MServerKeyExchange m) = ServerKeyExchange_Marshal m"
| "Message_Marshal cb (MCertificateRequest m) = CertificateRequest_Marshal m"
| "Message_Marshal cb MServerHelloDone = Ok []"
| "Message_Marshal cb (MCertificateVerify m) = CertificateVerify_Marshal m"
| "Message_Marshal cb (MClientKeyExchange m) = ClientKeyExchange_Marshal m"
| "Message_Marshal cb (MFinished verifyData) = Ok verifyData"

record hs_Header =
  hs_Type :: Type
  hs_Length :: u32
  hs_MessageSequence :: u16
  hs_FragmentOffset :: u32
  hs_FragmentLength :: u32

definition HeaderLength :: nat where "HeaderLength = 12"

definition hs_Header_Marshal :: "hs_Header \<Rightarrow> bytes" where
  "hs_Header_Marshal h =
     [hs_Type h] @ PutBigEndianUint24 (hs_Length h) @ be16 (hs_MessageSequence h) @
     PutBigEndianUint24 (hs_FragmentOffset h) @ PutBigEndianUint24 (hs_FragmentLength h)"

definition hs_Header_Unmarshal :: "bytes \<Rightarrow> hs_Header go" where
  "hs_Header_Unmarshal data =
     (if length data < HeaderLength then Fail ErrBufferTooSmall
      else
        gbind (at data 0) (\<lambda>t.
        gbind (slice_from data 1) (\<lambda>d1.
        gbind (u16_at data 4) (\<lambda>seq.
        gbind (slice_from data 6) (\<lambda>d6.
        gbind (slice_from data 9) (\<lambda>d9.
          Ok \<lparr>hs_Type = t, hs_Length = BigEndianUint24 d1, hs_MessageSequence = seq,
              hs_FragmentOffset = BigEndianUint24 d6, hs_FragmentLength = BigEndianUint24 d9\<rparr>))))))"

record Handshake =
  h_Header :: hs_Header
  h_Message :: "Message option"
  h_KeyExchangeAlgorithm :: KeyExchangeAlgorithm

text \<open>\<open>Marshal\<close> fills in the length and the type of its receiver's header; it returns that receiver too.\<close>

definition Handshake_Marshal :: "'b cryptobyte \<Rightarrow> Handshake \<Rightarrow> (bytes \<times> Handshake) go" where
  "Handshake_Marshal cb h =
     (case h_Message h of
        None \<Rightarrow> Fail ErrHandshakeMessageUnset
      | Some m \<Rightarrow>
          if hs_FragmentOffset (h_Header h) \<noteq> 0 then Fail ErrUnableToMarshalFragmented
          else
            gbind (Message_Marshal cb m) (\<lambda>msg.
              let len = of_nat (length msg);
                  header = (h_Header h)\<lparr>hs_Length := len, hs_FragmentLength := len, hs_Type := Message_Type m\<rparr> in
              Ok (hs_Header_Marshal header @ msg, h\<lparr>h_Header := header\<rparr>)))"

definition Message_Unmarshal :: "'b cryptobyte \<Rightarrow> KeyExchangeAlgorithm \<Rightarrow> Type \<Rightarrow> bytes \<Rightarrow> Message go" where
  "Message_Unmarshal cb alg t data =
     (if t = TypeHelloRequest then Fail ErrNotImplemented
      else if t = TypeClientHello then gmap MClientHello (ClientHello_Unmarshal cb data)
      else if t = TypeHelloVerifyRequest then gmap MHelloVerifyRequest (HelloVerifyRequest_Unmarshal data)
      else if t = TypeServerHello then gmap MServerHello (ServerHello_Unmarshal cb data)
      else if t = TypeEncryptedExtensions then gmap MEncryptedExtensions (EncryptedExtensions_Unmarshal cb data)
      else if t = TypeCertificate then gmap MCertificate (Certificate_Unmarshal data)
      else if t = TypeServerKeyExchange then gmap MServerKeyExchange (ServerKeyExchange_Unmarshal alg data)
      else if t = TypeCertificateRequest then gmap MCertificateRequest (CertificateRequest_Unmarshal data)
      else if t = TypeServerHelloDone then Ok MServerHelloDone
      else if t = TypeClientKeyExchange then gmap MClientKeyExchange (ClientKeyExchange_Unmarshal alg data)
      else if t = TypeFinished then Ok (MFinished data)
      else if t = TypeCertificateVerify then gmap MCertificateVerify (CertificateVerify_Unmarshal data)
      else Fail ErrNotImplemented)"

definition Handshake_Unmarshal :: "'b cryptobyte \<Rightarrow> KeyExchangeAlgorithm \<Rightarrow> bytes \<Rightarrow> Handshake go" where
  "Handshake_Unmarshal cb alg data =
     gbind (hs_Header_Unmarshal data) (\<lambda>header.
     gbind (slice_from data 1) (\<lambda>d1.
     let reportedLen = BigEndianUint24 d1 in
     if of_nat (length data - HeaderLength) \<noteq> reportedLen then Fail ErrLengthMismatch
     else if reportedLen \<noteq> hs_FragmentLength header then Fail ErrLengthMismatch
     else
       gbind (at data 0) (\<lambda>t.
       gbind (slice_from data HeaderLength) (\<lambda>body.
       gbind (Message_Unmarshal cb alg t body) (\<lambda>m.
         Ok \<lparr>h_Header = header, h_Message = Some m, h_KeyExchangeAlgorithm = alg\<rparr>)))))"

end
