(* ===== verification/Dtls_Handshake_Codec.thy ===== *)
theory Dtls_Handshake_Codec
  imports Dtls_Handshake
begin

unbundle bit_operations_syntax

text \<open>
  What the codecs of the handshake messages promise, as the locale \<open>msg_codec\<close>: a message that is well-formed is read
  back from its encoding, and the decoder panics exactly where the interpretation says it does (nowhere, for all
  messages but the two key exchanges).  Each message interprets it; the last section puts them behind the header.
\<close>

section \<open>The contract\<close>

locale msg_codec =
  fixes ok :: bool
    and enc :: "'a \<Rightarrow> bytes go"
    and dec :: "bytes \<Rightarrow> 'a go"
    and wf :: "'a \<Rightarrow> bool"
    and panics :: "bytes \<Rightarrow> bool"
  assumes roundtrip: "\<lbrakk>ok; wf x; enc x = Ok b\<rbrakk> \<Longrightarrow> dec b = Ok x"
    and panic_iff: "ok \<Longrightarrow> dec data = Panic \<longleftrightarrow> panics data"
begin

lemma enc_inj: "\<lbrakk>ok; wf x; wf y; enc x = Ok b; enc y = Ok b\<rbrakk> \<Longrightarrow> x = y"
  using roundtrip [of x b] roundtrip [of y b] by simp

lemma enc_not_panics: "\<lbrakk>ok; wf x; enc x = Ok b\<rbrakk> \<Longrightarrow> \<not> panics b"
  using roundtrip [of x b] panic_iff [of b] by auto

end

section \<open>Reading at an offset\<close>

lemma at_offset: "i = length xs \<Longrightarrow> at (xs @ y # ys) i = Ok y"
  by simp

lemma slice_offset: "\<lbrakk>i = length xs; j = length xs + length ys\<rbrakk> \<Longrightarrow> slice (xs @ ys @ zs) i j = Ok ys"
  by simp

lemma slice_from_offset: "i = length xs \<Longrightarrow> slice_from (xs @ ys) i = Ok ys"
  by simp

lemma u16_at_offset: "i = length xs \<Longrightarrow> u16_at (xs @ be16 w @ ys) i = Ok w"
  by simp

lemma gbind_no_panic: "\<lbrakk>r \<noteq> Panic; \<And>x. r = Ok x \<Longrightarrow> f x \<noteq> Panic\<rbrakk> \<Longrightarrow> gbind r f \<noteq> Panic"
  by (cases r) simp_all

lemma if_no_panic: "\<lbrakk>c \<Longrightarrow> r \<noteq> Panic; \<not> c \<Longrightarrow> s \<noteq> Panic\<rbrakk> \<Longrightarrow> (if c then r else s) \<noteq> Panic"
  by simp

lemmas no_panic_intros = if_no_panic gbind_no_panic

lemma vec8_at_no_panic: "vec8_at data i \<noteq> Panic"
  by (auto simp: vec8_at_def gbind_Panic_iff)

lemma vec8_at_length: "vec8_at data i = Ok b \<Longrightarrow> i + 1 + length b < length data"
  by (auto simp: vec8_at_def gbind_Ok_iff slice_def split: if_splits)

lemma vec8_at_offset:
  assumes "i = length xs" "length b < 256" "ys \<noteq> []"
  shows "vec8_at (xs @ of_nat (length b) # b @ ys) i = Ok b"
proof -
  have "slice (xs @ of_nat (length b) # b @ ys) (i + 1) (i + 1 + length b) = Ok b"
    using slice_offset [of "i + 1" "xs @ [of_nat (length b)]" "i + 1 + length b" b ys] assms(1) by simp
  then show ?thesis
    using assms by (simp add: vec8_at_def unat_of_nat_8 at_offset)
qed

lemma suites_loop_no_panic: "suites_loop buf i n \<noteq> Panic"
  by (induction n arbitrary: i) (auto simp: gbind_Panic_iff)

lemma suites_loop_append:
  "length pre = i * 2 + 2 \<Longrightarrow> suites_loop (pre @ concat (map be16 ids) @ r) i (length ids) = Ok ids"
proof (induction ids arbitrary: pre i)
  case (Cons w ids)
  have "suites_loop ((pre @ be16 w) @ concat (map be16 ids) @ r) (Suc i) (length ids) = Ok ids"
    by (rule Cons.IH) (simp add: Cons.prems)
  then show ?case using Cons.prems u16_at_offset [of "i * 2 + 2" pre w "concat (map be16 ids) @ r"] by simp
qed simp

lemma decodeCipherSuiteIDs_no_panic: "decodeCipherSuiteIDs buf \<noteq> Panic"
  by (auto simp: decodeCipherSuiteIDs_def gbind_Panic_iff suites_loop_no_panic)

lemma decodeCipherSuiteIDs_encode:
  assumes "length ids * 2 < 65536"
  shows "decodeCipherSuiteIDs (encodeCipherSuiteIDs ids @ r) = Ok ids"
proof -
  have "suites_loop (be16 (of_nat (length ids * 2)) @ concat (map be16 ids) @ r) 0 (length ids) = Ok ids"
    by (rule suites_loop_append) simp
  then show ?thesis
    using u16_at_offset [of 0 "[]" "of_nat (length ids * 2)" "concat (map be16 ids) @ r"] unat_of_nat_16 [OF assms]
    by (simp add: decodeCipherSuiteIDs_def encodeCipherSuiteIDs_def)
qed

lemma compression_loop_no_panic: "compression_loop buf i n c \<noteq> Panic"
  by (induction n arbitrary: i c) (auto simp: gbind_Panic_iff)

lemma compression_loop_length: "compression_loop buf i n c = Ok c' \<Longrightarrow> n = 0 \<or> i + n < length buf"
proof (induction n arbitrary: i c)
  case (Suc n)
  then show ?case by (force simp: gbind_Ok_iff split: if_splits)
qed simp

lemma compression_loop_append:
  "\<lbrakk>length pre = i + 1; set cs \<subseteq> {0}\<rbrakk> \<Longrightarrow> compression_loop (pre @ cs @ r) i (length cs) acc = Ok (acc @ cs)"
proof (induction cs arbitrary: pre i acc)
  case (Cons c cs)
  have "compression_loop ((pre @ [c]) @ cs @ r) (Suc i) (length cs) (acc @ [c]) = Ok ((acc @ [c]) @ cs)"
    by (rule Cons.IH) (use Cons.prems in simp_all)
  then show ?case using Cons.prems at_offset [of "i + 1" pre c "cs @ r"] by (simp add: CompressionMethods_def)
qed simp

lemma DecodeCompressionMethods_no_panic: "DecodeCompressionMethods buf \<noteq> Panic"
  by (auto simp: DecodeCompressionMethods_def gbind_Panic_iff compression_loop_no_panic)

lemma DecodeCompressionMethods_length:
  assumes "DecodeCompressionMethods buf = Ok c" "at buf 0 = Ok n"
  shows "unat n < length buf"
  using assms compression_loop_length [of buf 0 "unat n" "[]" c]
  by (auto simp: DecodeCompressionMethods_def at_def split: if_splits)

lemma compression_methods_start: "gbind (slice_from data i) DecodeCompressionMethods = Ok c \<Longrightarrow> i < length data"
  by (auto simp: gbind_Ok_iff slice_from_def DecodeCompressionMethods_def split: if_splits)

lemma compression_methods_end:
  assumes "gbind (slice_from data i) DecodeCompressionMethods = Ok c" "at data i = Ok n"
  shows "i + unat n + 1 \<le> length data"
proof -
  have "DecodeCompressionMethods (drop i data) = Ok c" "at (drop i data) 0 = Ok n"
    using assms by (auto simp: slice_from_def at_def split: if_splits)
  then show ?thesis using DecodeCompressionMethods_length [of "drop i data" c n] by simp
qed

lemma DecodeCompressionMethods_encode:
  assumes "length cs < 256" "set cs \<subseteq> {0}"
  shows "DecodeCompressionMethods (EncodeCompressionMethods cs @ r) = Ok cs"
proof -
  have "compression_loop ([of_nat (length cs)] @ rev cs @ r) 0 (length (rev cs)) [] = Ok ([] @ rev cs)"
    by (rule compression_loop_append) (use assms in simp_all)
  moreover have "rev cs = cs" using assms(2) by (metis insert_not_empty replicate_length_same rev_replicate set_replicate subset_singletonD singletonD subsetD)
  ultimately show ?thesis
    using assms(1) by (simp add: DecodeCompressionMethods_def EncodeCompressionMethods_def unat_of_nat_8)
qed

section \<open>Hello messages\<close>

definition Random_wf :: "Random \<Rightarrow> bool" where
  "Random_wf r \<longleftrightarrow> length (RandomBytes r) = RandomBytesLength \<and> 0 \<le> GMTUnixTime r \<and> GMTUnixTime r < 2 ^ 32"

lemma Random_roundtrip:
  assumes "Random_wf r"
  shows "Random_UnmarshalFixed (Random_MarshalFixed r) = Ok r" "length (Random_MarshalFixed r) = RandomLength"
  using assms
  by (simp_all add: Random_UnmarshalFixed_def Random_MarshalFixed_def Random_wf_def RandomBytesLength_def RandomLength_def
      uint_word_of_int take_bit_int_eq_self unsigned_of_int)

lemma Random_no_panic: "length data = RandomLength \<Longrightarrow> Random_UnmarshalFixed data \<noteq> Panic"
  by (auto simp: Random_UnmarshalFixed_def gbind_Panic_iff RandomLength_def RandomBytesLength_def)

interpretation hello_verify_request: msg_codec True HelloVerifyRequest_Marshal HelloVerifyRequest_Unmarshal "\<lambda>_. True" "\<lambda>_. False"
proof (unfold_locales, goal_cases)
  case (1 m b)
  then have len: "length (HVR_Cookie m) < 256"
    and b: "b = [Major (HVR_Version m), Minor (HVR_Version m), of_nat (length (HVR_Cookie m))] @ HVR_Cookie m"
    by (auto simp: HelloVerifyRequest_Marshal_def split: if_splits)
  have "slice b 3 (3 + length (HVR_Cookie m)) = Ok (HVR_Cookie m)" by (simp add: b slice_def)
  then show ?case
    using len by (simp add: HelloVerifyRequest_Unmarshal_def unat_of_nat_8 b at_def)
next
  case (2 data)
  then show ?case by (auto simp: HelloVerifyRequest_Unmarshal_def gbind_Panic_iff)
qed

definition exts_wf :: "'b cryptobyte \<Rightarrow> Extension list \<Rightarrow> bool" where
  "exts_wf cb es \<longleftrightarrow> (\<forall>e \<in> set es. ext_wf e) \<and> (\<forall>b. extensions_Marshal cb es = Ok b \<longrightarrow> length b < 65538)"

lemma exts_read:
  assumes "documented cb" "exts_wf cb es" "extensions_Marshal cb es = Ok b"
  shows "extensions_Unmarshal cb b = Ok es" "length b \<ge> 2"
proof -
  show "extensions_Unmarshal cb b = Ok es"
    using assms unfolding exts_wf_def by (intro extensions_roundtrip) auto
  show "length b \<ge> 2" using assms(3) by (auto simp: extensions_Marshal_def gbind_Ok_iff)
qed

text \<open>The fixed part of the two hellos.\<close>

lemma hello_random:
  assumes "Random_wf r" "b = [x, y] @ Random_MarshalFixed r @ zs"
  shows "at b 0 = Ok x" "at b 1 = Ok y" "length b = 34 + length zs"
    "gbind (slice_from b 2) (\<lambda>d. Random_UnmarshalFixed (take RandomLength d)) = Ok r"
  using Random_roundtrip [OF assms(1)]
  by (simp_all add: assms(2) at_def slice_from_def RandomLength_def RandomBytesLength_def)

lemma hello_random_no_panic:
  assumes "\<not> length data < 2 + RandomLength"
  shows "gbind (slice_from data 2) (\<lambda>d. Random_UnmarshalFixed (take RandomLength d)) \<noteq> Panic"
  using assms Random_no_panic [of "take RandomLength (drop 2 data)"]
  by (simp add: slice_from_def RandomLength_def RandomBytesLength_def)

definition ClientHello_wf :: "'b cryptobyte \<Rightarrow> MessageClientHello \<Rightarrow> bool" where
  "ClientHello_wf cb m \<longleftrightarrow> Random_wf (CH_Random m) \<and> length (CH_CipherSuiteIDs m) * 2 < 65536 \<and>
     set (CH_CompressionMethods m) \<subseteq> {0} \<and> exts_wf cb (CH_Extensions m)"

interpretation client_hello: msg_codec "documented cb" "ClientHello_Marshal cb" "ClientHello_Unmarshal cb" "ClientHello_wf cb"
  "\<lambda>_. False" for cb
proof (unfold_locales, goal_cases)
  case (1 m b)
  note cb = 1(1)
  let ?sid = "CH_SessionID m" and ?cookie = "CH_Cookie m"
  define ids cms where "ids = encodeCipherSuiteIDs (CH_CipherSuiteIDs m)"
    and "cms = EncodeCompressionMethods (CH_CompressionMethods m)"
  obtain exts where lens: "length ?cookie < 256" "length ?sid < 256" "length (CH_CompressionMethods m) < 256"
    and exts: "extensions_Marshal cb (CH_Extensions m) = Ok exts"
    and b: "b = [Major (CH_Version m), Minor (CH_Version m)] @ Random_MarshalFixed (CH_Random m) @
      of_nat (length ?sid) # ?sid @ of_nat (length ?cookie) # ?cookie @ ids @ cms @ exts"
    using 1(3) by (auto simp: ClientHello_Marshal_def gbind_Ok_iff ids_def cms_def split: if_splits)
  have wf: "Random_wf (CH_Random m)" "length (CH_CipherSuiteIDs m) * 2 < 65536" "set (CH_CompressionMethods m) \<subseteq> {0}"
    "exts_wf cb (CH_Extensions m)" using 1(2) by (simp_all add: ClientHello_wf_def)
  note e = exts_read [OF cb wf(4) exts]
  have ne: "ids @ cms @ exts \<noteq> []" using e(2) by auto
  note rnd = hello_random [OF wf(1) b]
  define p where "p = [Major (CH_Version m), Minor (CH_Version m)] @ Random_MarshalFixed (CH_Random m)"
  have lp: "length p = 34"
    using Random_roundtrip(2) [OF wf(1)] by (simp add: p_def RandomLength_def RandomBytesLength_def)
  define q where "q = p @ of_nat (length ?sid) # ?sid @ of_nat (length ?cookie) # ?cookie"
  define i j k where "i = 34 + 1 + length ?sid + 1 + length ?cookie" and "j = i + length (CH_CipherSuiteIDs m) * 2 + 2"
    and "k = j + length (CH_CompressionMethods m) + 1"
  have lq: "length q = i" by (simp add: q_def lp i_def)
  have bq: "b = q @ ids @ cms @ exts" by (simp add: b q_def p_def)
  have sid: "vec8_at b 34 = Ok ?sid"
    using vec8_at_offset [of 34 p ?sid "of_nat (length ?cookie) # ?cookie @ ids @ cms @ exts"] lens lp by (simp add: b p_def)
  have cookie: "vec8_at b (34 + 1 + length ?sid) = Ok ?cookie"
    using vec8_at_offset [of "35 + length ?sid" "p @ of_nat (length ?sid) # ?sid" ?cookie "ids @ cms @ exts"] lens lp ne
    by (simp add: b p_def del: append_is_Nil_conv)
  have ids: "gbind (slice_from b i) decodeCipherSuiteIDs = Ok (CH_CipherSuiteIDs m)"
    "u16_at b i = Ok (of_nat (length (CH_CipherSuiteIDs m) * 2))"
    using slice_from_offset [of i q "ids @ cms @ exts"] decodeCipherSuiteIDs_encode [OF wf(2), of "cms @ exts"]
      u16_at_offset [of i q] by (simp_all add: bq lq ids_def encodeCipherSuiteIDs_def)
  have li: "length (q @ ids) = j" by (simp add: ids_def encodeCipherSuiteIDs_def lq j_def)
  have cms: "gbind (slice_from b j) DecodeCompressionMethods = Ok (CH_CompressionMethods m)"
    "at b j = Ok (of_nat (length (CH_CompressionMethods m)))"
    using slice_from_offset [of j "q @ ids" "cms @ exts"] DecodeCompressionMethods_encode [OF lens(3) wf(3), of exts]
      at_offset [of j "q @ ids"] li by (simp_all add: bq cms_def EncodeCompressionMethods_def)
  have lc: "length (q @ ids @ cms) = k" using li by (simp add: cms_def EncodeCompressionMethods_def k_def)
  have es: "gbind (slice_from b k) (extensions_Unmarshal cb) = Ok (CH_Extensions m)"
    using slice_from_offset [of k "q @ ids @ cms" exts] lc e(1) by (simp add: bq)
  have "length b = k + length exts" using lc by (simp add: bq)
  then have guards: "(length b < 2 + RandomLength) = False" "(length b < i) = False" "(length b < i + 2) = False"
    "(length b < j) = False"
    by (simp_all add: i_def j_def k_def RandomLength_def RandomBytesLength_def)
  show ?case
    unfolding ClientHello_Unmarshal_def Let_def
    by (simp only: guards rnd(1,2,4) sid cookie ids cms es gbind_simps if_False i_def [symmetric] j_def [symmetric] k_def [symmetric]
        unat_of_nat_16 [OF wf(2)] unat_of_nat_8 [OF lens(3)]) simp
next
  case (2 data)
  then have "ClientHello_Unmarshal cb data \<noteq> Panic"
    unfolding ClientHello_Unmarshal_def Let_def
    by (intro hello_random_no_panic no_panic_intros)
      (auto simp: vec8_at_no_panic decodeCipherSuiteIDs_no_panic DecodeCompressionMethods_no_panic extensions_no_panic
        RandomLength_def RandomBytesLength_def dest: compression_methods_end compression_methods_start)
  then show ?case by simp
qed

definition ServerHello_wf :: "'b cryptobyte \<Rightarrow> MessageServerHello \<Rightarrow> bool" where
  "ServerHello_wf cb m \<longleftrightarrow> Random_wf (SH_Random m) \<and> SH_CompressionMethod m \<in> {None, Some 0} \<and> exts_wf cb (SH_Extensions m)"

interpretation server_hello: msg_codec "documented cb" "ServerHello_Marshal cb" "ServerHello_Unmarshal cb" "ServerHello_wf cb"
  "\<lambda>_. False" for cb
proof (unfold_locales, goal_cases)
  case (1 m b)
  let ?sid = "SH_SessionID m"
  have wf: "Random_wf (SH_Random m)" "SH_CompressionMethod m \<in> {None, Some 0}" "exts_wf cb (SH_Extensions m)"
    using 1(2) by (simp_all add: ServerHello_wf_def)
  obtain suite exts where some: "SH_CipherSuiteID m = Some suite" "SH_CompressionMethod m = Some 0"
    and lens: "length ?sid < 256"
    and exts: "extensions_Marshal cb (SH_Extensions m) = Ok exts"
    and b: "b = [Major (SH_Version m), Minor (SH_Version m)] @ Random_MarshalFixed (SH_Random m) @
      of_nat (length ?sid) # ?sid @ be16 suite @ 0 # exts"
    using 1(3) wf(2) by (auto simp: ServerHello_Marshal_def gbind_Ok_iff split: if_splits option.splits)
  note e = exts_read [OF 1(1) wf(3) exts] and rnd = hello_random [OF wf(1) b]
  define p where "p = [Major (SH_Version m), Minor (SH_Version m)] @ Random_MarshalFixed (SH_Random m)"
  have lp: "length p = 2 + RandomLength" using Random_roundtrip(2) [OF wf(1)] by (simp add: p_def)
  define q i where "q = p @ of_nat (length ?sid) # ?sid" and "i = 2 + RandomLength + 1 + length ?sid"
  have lq: "length q = i" by (simp add: q_def lp i_def)
  have bq: "b = q @ be16 suite @ 0 # exts" by (simp add: b q_def p_def)
  have sid: "vec8_at b (2 + RandomLength) = Ok ?sid"
    using vec8_at_offset [of "2 + RandomLength" p ?sid "be16 suite @ 0 # exts"] lens lp by (simp add: b p_def)
  have suite: "u16_at b i = Ok suite" unfolding bq by (rule u16_at_offset) (simp add: lq)
  have meth: "at b (i + 2) = Ok 0" using at_offset [of "i + 2" "q @ be16 suite" 0 exts] by (simp add: bq lq)
  have es: "gbind (slice_from b (i + 2 + 1)) (extensions_Unmarshal cb) = Ok (SH_Extensions m)"
    using slice_from_offset [of "i + 2 + 1" "q @ be16 suite @ [0]" exts] e(1) by (simp add: bq lq)
  have "length b = i + 3 + length exts" by (simp add: bq lq)
  then have guards: "(length b < 2 + RandomLength) = False" "(length b < i + 2) = False" "(length b \<le> i + 2) = False"
    "(length b \<le> i + 2 + 1) = False" using e(2) by (auto simp: i_def)
  have nul: "CompressionMethods 0 = Some 0" by (simp add: CompressionMethods_def)
  show ?case
    unfolding ServerHello_Unmarshal_def Let_def
    by (simp only: guards rnd(1,2,4) sid suite meth nul es gbind_simps if_False i_def [symmetric] option.case) (simp add: some)
next
  case (2 data)
  then have "ServerHello_Unmarshal cb data \<noteq> Panic"
    unfolding ServerHello_Unmarshal_def Let_def
    by (intro hello_random_no_panic no_panic_intros)
      (auto simp: vec8_at_no_panic extensions_no_panic gbind_Panic_iff split: option.split)
  then show ?case by simp
qed

interpretation encrypted_extensions: msg_codec "documented cb" "EncryptedExtensions_Marshal cb" "EncryptedExtensions_Unmarshal cb"
  "exts_wf cb" "\<lambda>_. False" for cb
proof (unfold_locales, goal_cases)
  case (1 m b)
  then show ?case
    using exts_read [of cb m b] by (simp add: EncryptedExtensions_Marshal_def EncryptedExtensions_Unmarshal_def)
next
  case (2 data)
  then show ?case by (simp add: EncryptedExtensions_Unmarshal_def extensions_no_panic)
qed

section \<open>Certificates\<close>

definition Certificate_wf :: "bytes list \<Rightarrow> bool" where
  "Certificate_wf certs \<longleftrightarrow> sum_list (map (\<lambda>cert. 3 + length cert) certs) < 2 ^ 24"

definition cert_bytes :: "bytes \<Rightarrow> bytes" where
  "cert_bytes cert = PutBigEndianUint24 (of_nat (length cert)) @ cert"

lemma unat_of_nat_24: "n < 2 ^ 24 \<Longrightarrow> unat (of_nat n :: u32) = n"
  by (simp add: unat_of_nat take_bit_nat_eq_self)

lemma Uint24_of_nat: "n < 2 ^ 24 \<Longrightarrow> BigEndianUint24 (PutBigEndianUint24 (of_nat n) @ r) = of_nat n"
  by (rule Uint24_Put24) (simp add: unat_of_nat_24)

lemma certificate_loop_append:
  "sum_list (map (\<lambda>cert. 3 + length cert) certs) < 2 ^ 24 \<Longrightarrow>
    certificate_loop (pre @ concat (map cert_bytes certs)) (length pre) acc = Ok (acc @ certs)"
proof (induction certs arbitrary: pre acc)
  case Nil
  then show ?case by (simp add: certificate_loop.simps [of pre])
next
  case (Cons c certs)
  define rest where "rest = concat (map cert_bytes certs)"
  have data: "pre @ concat (map cert_bytes (c # certs)) = (pre @ PutBigEndianUint24 (of_nat (length c))) @ c @ rest"
    by (simp add: cert_bytes_def rest_def)
  have c: "length c < 2 ^ 24" using Cons.prems by simp
  have "certificate_loop ((pre @ cert_bytes c) @ rest) (length (pre @ cert_bytes c)) (acc @ [c]) = Ok ((acc @ [c]) @ certs)"
    unfolding rest_def by (rule Cons.IH) (use Cons.prems in simp)
  then show ?case
    using slice_append [of "pre @ PutBigEndianUint24 (of_nat (length c))" c rest]
    unfolding data
    by (subst certificate_loop.simps)
      (simp add: slice_from_def Let_def Uint24_of_nat [OF c] unat_of_nat_24 [OF c] cert_bytes_def ac_simps)
qed

lemma certificate_loop_no_panic: "certificate_loop data offset certs \<noteq> Panic"
proof (induction data offset certs rule: certificate_loop.induct)
  case (1 data offset certs)
  then show ?case
    by (subst certificate_loop.simps) (auto simp: gbind_Panic_iff Let_def)
qed

interpretation certificate: msg_codec True Certificate_Marshal Certificate_Unmarshal Certificate_wf "\<lambda>_. False"
proof (unfold_locales, goal_cases)
  case (1 certs b)
  define n where "n = sum_list (map (\<lambda>cert. 3 + length cert) certs)"
  have n: "n < 2 ^ 24" using 1(2) by (simp add: Certificate_wf_def n_def)
  have b: "b = PutBigEndianUint24 (of_nat n) @ concat (map cert_bytes certs)"
    using 1(3) by (simp add: Certificate_Marshal_def Let_def n_def cert_bytes_def [abs_def])
  have "length (concat (map cert_bytes certs)) = n"
    by (simp add: n_def length_concat cert_bytes_def comp_def)
  moreover have "certificate_loop b 3 [] = Ok certs"
    using certificate_loop_append [of certs "PutBigEndianUint24 (of_nat n)" "[]"] n by (simp add: b n_def)
  ultimately show ?case
    using Uint24_of_nat [OF n, of "concat (map cert_bytes certs)"] unat_of_nat_24 [OF n]
    by (simp add: Certificate_Unmarshal_def b)
next
  case (2 data)
  then show ?case by (simp add: Certificate_Unmarshal_def certificate_loop_no_panic)
qed

lemma sh_Unmarshal_no_panic: "sh_Unmarshal w \<noteq> Panic"
  by (auto simp: sh_Unmarshal_def gbind_Panic_iff Let_def split: if_splits)

lemma u16_at_0: "u16_at (x # y # r) 0 = Ok (word16 x y)"
  by (simp add: u16_at_def slice_from_def)

lemma low_byte: "w \<le> 0xFF \<Longrightarrow> ucast (ucast w :: byte) = (w :: u16)"
proof (rule bit_word_eqI)
  fix n
  assume w: "w \<le> 0xFF" and n: "n < LENGTH(16)"
  have "w = w AND 0xFF"
  proof -
    have "unat w < 2 ^ 8" using w by (simp add: word_le_nat_alt)
    then have "take_bit 8 w = w" by (simp add: word_unat_eq_iff unsigned_take_bit_eq take_bit_nat_eq_self)
    then show ?thesis by (simp add: take_bit_eq_mask mask_eq_exp_minus_1)
  qed
  moreover have "\<not> bit (0xFF :: u16) n" if "\<not> n < 8" using that n by (auto simp: less_Suc_eq numeral_eq_Suc)
  ultimately have "bit w n \<Longrightarrow> n < 8" by (metis bit_and_iff)
  then show "bit (ucast (ucast w :: byte) :: u16) n = bit w n" using n by (auto simp: bit_simps)
qed

definition CertificateVerify_wf :: "MessageCertificateVerify \<Rightarrow> bool" where
  "CertificateVerify_wf m \<longleftrightarrow> length (CV_Signature m) < 65536 \<and>
     sh_Unmarshal (push_bit 8 (CV_HashAlgorithm m) OR CV_SignatureAlgorithm m) =
       Ok \<lparr>sh_Hash = CV_HashAlgorithm m, sh_Signature = CV_SignatureAlgorithm m\<rparr>"

interpretation certificate_verify: msg_codec True CertificateVerify_Marshal CertificateVerify_Unmarshal CertificateVerify_wf "\<lambda>_. False"
proof (unfold_locales, goal_cases)
  case (1 m b)
  have small: "CV_HashAlgorithm m \<le> 0xFF" "CV_SignatureAlgorithm m \<le> 0xFF" and len: "length (CV_Signature m) < 65536"
    and b: "b = [ucast (CV_HashAlgorithm m), ucast (CV_SignatureAlgorithm m)] @
      be16 (of_nat (length (CV_Signature m))) @ CV_Signature m"
    using 1 by (auto simp: CertificateVerify_Marshal_def CertificateVerify_wf_def gbind_Ok_iff not_less split: if_splits)
  have "u16_at b 0 = Ok (push_bit 8 (CV_HashAlgorithm m) OR CV_SignatureAlgorithm m)"
    by (simp add: b u16_at_0 word16_def low_byte [OF small(1)] low_byte [OF small(2)])
  moreover have "u16_at b 2 = Ok (of_nat (length (CV_Signature m)))"
    unfolding b by (rule u16_at_offset) simp
  moreover have "slice_from b 4 = Ok (CV_Signature m)" by (simp add: b slice_from_def)
  moreover have "length b = 4 + length (CV_Signature m)" by (simp add: b)
  ultimately show ?case
    using 1(2) by (simp add: CertificateVerify_Unmarshal_def CertificateVerify_wf_def unat_of_nat_16 [OF len])
next
  case (2 data)
  then show ?case by (auto simp: CertificateVerify_Unmarshal_def gbind_Panic_iff sh_Unmarshal_no_panic)
qed

definition CertificateRequest_wf :: "MessageCertificateRequest \<Rightarrow> bool" where
  "CertificateRequest_wf m \<longleftrightarrow> set (CertificateTypes m) \<subseteq> set clientcertificate_Types \<and>
     SigHashes_wf (SignatureHashAlgorithms m) \<and> length (SignatureHashAlgorithms m) * 2 < 65536 \<and>
     sum_list (map (\<lambda>ca. length ca + 2) (CertificateAuthoritiesNames m)) < 65536"

lemma sig_algs_at_append:
  "SigHashes_wf algs \<Longrightarrow>
    sig_algs_at (pre @ concat (map sh_Marshal algs) @ r) (length pre) (length algs * 2) = Ok algs"
proof (induction algs arbitrary: pre)
  case Nil
  then show ?case by (simp add: sig_algs_at.simps)
next
  case (Cons a algs)
  obtain w where w: "sh_Unmarshal w = Ok a" using Cons.prems by (auto simp: SigHashes_wf_def)
  note m = sh_Unmarshal_Ok(2) [OF w]
  have "sig_algs_at ((pre @ be16 w) @ concat (map sh_Marshal algs) @ r) (length (pre @ be16 w)) (length algs * 2) = Ok algs"
    by (rule Cons.IH) (use Cons.prems in \<open>simp add: SigHashes_wf_def\<close>)
  then show ?case
    by (subst sig_algs_at.simps) (simp add: m w)
qed

lemma length_sh_Marshal: "length (concat (map sh_Marshal algs)) = length algs * 2"
  by (induction algs) (simp_all add: sh_Marshal_def Let_def)

lemma sig_algs_at_no_panic: "sig_algs_at data a k \<noteq> Panic"
proof (induction data a k rule: sig_algs_at.induct)
  case (1 data a k)
  then show ?case by (subst sig_algs_at.simps) (auto simp: gbind_Panic_iff)
qed

lemma ca_names_append:
  "\<forall>ca \<in> set names. length ca < 65536 \<Longrightarrow> ca_names (concat (map prefixed16 names)) acc = Ok (acc @ names)"
proof (induction names arbitrary: acc)
  case Nil
  then show ?case by (simp add: ca_names.simps)
next
  case (Cons n names)
  have "unat (of_nat (length n) :: u16) = length n" using Cons.prems by (simp add: unat_of_nat_16)
  moreover have "u16_at (be16 (of_nat (length n)) @ n @ r) 0 = Ok (of_nat (length n))" for r
    using u16_at_offset [of 0 "[]"] by simp
  ultimately show ?case
    using Cons.IH [of "acc @ [n]"] Cons.prems
    by (subst ca_names.simps) (simp add: prefixed16_def [of n] slice_from_def slice_def)
qed

lemma ca_names_no_panic: "ca_names cas names \<noteq> Panic"
proof (induction cas names rule: ca_names.induct)
  case (1 cas names)
  then show ?case by (subst ca_names.simps) (auto simp: gbind_Panic_iff)
qed

interpretation certificate_request: msg_codec True CertificateRequest_Marshal CertificateRequest_Unmarshal CertificateRequest_wf
  "\<lambda>_. False"
proof (unfold_locales, goal_cases)
  case (1 m b)
  define types algs cas where "types = CertificateTypes m" and "algs = concat (map sh_Marshal (SignatureHashAlgorithms m))"
    and "cas = concat (map prefixed16 (CertificateAuthoritiesNames m))"
  have wf: "set types \<subseteq> set clientcertificate_Types" "SigHashes_wf (SignatureHashAlgorithms m)"
    "length (SignatureHashAlgorithms m) * 2 < 65536"
    "sum_list (map (\<lambda>ca. length ca + 2) (CertificateAuthoritiesNames m)) < 65536"
    using 1(2) by (simp_all add: CertificateRequest_wf_def types_def)
  have lcas: "sum_list (map (\<lambda>ca. length ca + 2) (CertificateAuthoritiesNames m)) = length cas"
    by (simp add: cas_def length_concat prefixed16_def comp_def add.commute)
  have names: "length ca < 65536" if "ca \<in> set (CertificateAuthoritiesNames m)" for ca
    using member_le_sum_list [of "length ca + 2" "map (\<lambda>ca. length ca + 2) (CertificateAuthoritiesNames m)"] wf(4) that by force
  have cas: "concat (map (\<lambda>ca. be16 (of_nat (length ca)) @ ca) (CertificateAuthoritiesNames m)) = cas"
    by (simp add: cas_def prefixed16_def [abs_def])
  have lt: "length types < 256"
    and b: "b = [of_nat (length types)] @ types @ be16 (of_nat (length (SignatureHashAlgorithms m) * 2)) @ algs @
      be16 (of_nat (length cas)) @ cas"
    using 1(3) unfolding CertificateRequest_Marshal_def lcas Let_def cas types_def [symmetric] algs_def [symmetric]
    by (auto split: if_splits)
  have lalgs: "length algs = length (SignatureHashAlgorithms m) * 2" unfolding algs_def by (rule length_sh_Marshal)
  define i j where "i = 1 + length types" and "j = i + 2 + length (SignatureHashAlgorithms m) * 2"
  have ty: "at b 0 = Ok (of_nat (length types))" "bytes_at b 1 (length types) = Ok types"
    using bytes_at_append [of "[of_nat (length types)]" types] by (simp_all add: b)
  have al: "u16_at b i = Ok (of_nat (length (SignatureHashAlgorithms m) * 2))"
    using u16_at_offset [of i "[of_nat (length types)] @ types"] by (simp add: b i_def)
  have al': "sig_algs_at b (i + 2) (length (SignatureHashAlgorithms m) * 2) = Ok (SignatureHashAlgorithms m)"
    using sig_algs_at_append [OF wf(2), of "[of_nat (length types)] @ types @ be16 (of_nat (length (SignatureHashAlgorithms m) * 2))"]
    by (simp add: b i_def algs_def)
  have ca: "u16_at b j = Ok (of_nat (length cas))"
    using u16_at_offset [of j "[of_nat (length types)] @ types @ be16 (of_nat (length (SignatureHashAlgorithms m) * 2)) @ algs"]
    by (simp add: b i_def j_def lalgs)
  have "slice b (j + 2) (j + 2 + length cas) = Ok cas"
    by (simp add: b i_def j_def lalgs slice_def)
  then have ca': "gbind (slice b (j + 2) (j + 2 + length cas)) (\<lambda>cas. ca_names cas []) = Ok (CertificateAuthoritiesNames m)"
    using ca_names_append [of "CertificateAuthoritiesNames m" "[]"] names by (simp add: cas_def)
  have "length b = j + 2 + length cas" by (simp add: b i_def j_def lalgs)
  then have guards: "(length b < 5) = False" "(i > length b) = False" "(length b < i + 2) = False" "(j > length b) = False"
    "(length b < j + 2) = False"
    "(j + 2 + length cas > length b) = False"
    by (simp_all add: i_def j_def)
  have filt: "filter (\<lambda>t. t \<in> set clientcertificate_Types) types = types"
    using wf(1) by (simp add: filter_id_conv subset_iff)
  have "length cas < 65536" using wf(4) lcas by simp
  note unats = unat_of_nat_8 [OF lt] unat_of_nat_16 [OF wf(3)] unat_of_nat_16 [OF this]
  show ?case
    unfolding CertificateRequest_Unmarshal_def Let_def
    by (simp only: guards unats ty al al' ca ca' filt gbind_simps if_False i_def [symmetric] j_def [symmetric]) (simp add: types_def)
next
  case (2 data)
  have "CertificateRequest_Unmarshal data \<noteq> Panic"
    unfolding CertificateRequest_Unmarshal_def Let_def
    by (intro no_panic_intros) (auto simp: bytes_at_no_panic sig_algs_at_no_panic ca_names_no_panic)
  then show ?case by simp
qed

section \<open>Key exchanges\<close>

definition ClientKeyExchange_wf :: "KeyExchangeAlgorithm \<Rightarrow> MessageClientKeyExchange \<Rightarrow> bool" where
  "ClientKeyExchange_wf alg m \<longleftrightarrow> CKE_KeyExchangeAlgorithm m = alg \<and>
     (CKE_IdentityHint m \<noteq> None \<longleftrightarrow> Has alg KeyExchangeAlgorithmPsk) \<and>
     (CKE_PublicKey m \<noteq> None \<longleftrightarrow> Has alg KeyExchangeAlgorithmEcdhe) \<and>
     (\<forall>hint. CKE_IdentityHint m = Some hint \<longrightarrow> length hint < 65536) \<and> CKE_PublicKey m \<noteq> Some []"

text \<open>An identity that ends the message leaves no byte for the length of the key that has to follow it.\<close>

definition cke_panics :: "KeyExchangeAlgorithm \<Rightarrow> bytes \<Rightarrow> bool" where
  "cke_panics alg data \<longleftrightarrow> Has alg KeyExchangeAlgorithmPsk \<and> Has alg KeyExchangeAlgorithmEcdhe \<and>
     (case u16_at data 0 of Ok n \<Rightarrow> unat n + 2 = length data | _ \<Rightarrow> False)"

lemmas kx_algs = KeyExchangeAlgorithmNone_def KeyExchangeAlgorithmPsk_def KeyExchangeAlgorithmEcdhe_def Has_def

lemma prefixed16_read:
  assumes "length h < 65536"
  shows "u16_at (prefixed16 h @ r) 0 = Ok (of_nat (length h))" "unat (of_nat (length h) :: u16) = length h"
    "slice (prefixed16 h @ r) 2 (length h + 2) = Ok h" "length (prefixed16 h) = length h + 2"
  using assms u16_at_offset [of 0 "[]"] by (simp_all add: prefixed16_def unat_of_nat_16 slice_def)

lemma has_not_none: "Has alg KeyExchangeAlgorithmPsk \<or> Has alg KeyExchangeAlgorithmEcdhe \<Longrightarrow> alg \<noteq> KeyExchangeAlgorithmNone"
  by (auto simp: kx_algs)

interpretation client_key_exchange: msg_codec True ClientKeyExchange_Marshal "ClientKeyExchange_Unmarshal alg" "ClientKeyExchange_wf alg"
  "cke_panics alg" for alg
proof (unfold_locales, goal_cases)
  case (1 m b)
  define out where "out = (case CKE_IdentityHint m of None \<Rightarrow> [] | Some hint \<Rightarrow> prefixed16 hint)"
  have some: "\<not> (CKE_IdentityHint m = None \<and> CKE_PublicKey m = None)"
  proof
    assume "CKE_IdentityHint m = None \<and> CKE_PublicKey m = None"
    then show False using 1(3) by (simp add: ClientKeyExchange_Marshal_def)
  qed
  then have alg: "alg \<noteq> KeyExchangeAlgorithmNone"
    using 1(2) has_not_none [of alg] unfolding ClientKeyExchange_wf_def by auto
  have hint: "(if Has alg KeyExchangeAlgorithmPsk then
        gbind (u16_at (out @ r) 0) (\<lambda>n.
          if unat n > length (out @ r) - 2 then Fail ErrBufferTooSmall
          else gbind (slice (out @ r) 2 (unat n + 2)) (\<lambda>hint. Ok (Some hint, unat n + 2)))
      else Ok (None, 0)) = Ok (CKE_IdentityHint m, length out)" for r
    using 1(2) prefixed16_read
    by (cases "CKE_IdentityHint m") (auto simp: ClientKeyExchange_wf_def out_def)
  show ?case
  proof (cases "CKE_PublicKey m")
    case None
    then obtain h where h: "CKE_IdentityHint m = Some h" using some by auto
    have "b = out" using 1(3) some None by (auto simp: ClientKeyExchange_Marshal_def out_def)
    moreover have "length out \<ge> 2" by (simp add: out_def h prefixed16_def)
    moreover have "\<not> Has alg KeyExchangeAlgorithmEcdhe" "CKE_KeyExchangeAlgorithm m = alg"
      using 1(2) None by (simp_all add: ClientKeyExchange_wf_def)
    ultimately show ?thesis
      unfolding ClientKeyExchange_Unmarshal_def Let_def
      by (simp only: hint [of "[]", unfolded append_Nil2] alg not_less [symmetric] if_False gbind_simps prod.case)
        (simp add: None)
  next
    case (Some key)
    have key: "length key < 256" "b = out @ of_nat (length key) # key"
      using 1(3) some Some by (auto simp: ClientKeyExchange_Marshal_def out_def split: if_splits)
    have "key \<noteq> []" "Has alg KeyExchangeAlgorithmEcdhe" "CKE_KeyExchangeAlgorithm m = alg"
      using 1(2) Some by (auto simp: ClientKeyExchange_wf_def)
    moreover have "slice_from b (length out + 1) = Ok key"
      using slice_from_offset [of "length out + 1" "out @ [of_nat (length key)]" key] by (simp add: key)
    moreover have "length b \<ge> 2" using \<open>key \<noteq> []\<close> by (cases key) (simp_all add: key)
    ultimately show ?thesis
      unfolding ClientKeyExchange_Unmarshal_def Let_def
      by (simp only: hint [of "of_nat (length key) # key", folded key(2)] alg not_less [symmetric] if_False if_True gbind_simps prod.case)
        (simp add: key unat_of_nat_8 [OF key(1)] Some)
  qed
next
  case (2 data)
  show ?case
  proof (cases "u16_at data 0")
    case (Ok n)
    then have "\<not> length data < 2" by (metis add_0 go.distinct(3) u16_at_Panic_iff)
    then show ?thesis
      using Ok by (auto simp: ClientKeyExchange_Unmarshal_def cke_panics_def Let_def has_not_none slice_def at_def slice_from_def)
  next
    case Panic
    then have "length data < 2" by simp
    with Panic show ?thesis by (simp add: ClientKeyExchange_Unmarshal_def cke_panics_def del: u16_at_Panic_iff)
  qed simp
qed

section \<open>Server key exchange\<close>

definition ServerKeyExchange_wf :: "KeyExchangeAlgorithm \<Rightarrow> MessageServerKeyExchange \<Rightarrow> bool" where
  "ServerKeyExchange_wf alg m \<longleftrightarrow> SKE_KeyExchangeAlgorithm m = alg \<and>
     (SKE_IdentityHint m \<noteq> None \<longleftrightarrow> Has alg KeyExchangeAlgorithmPsk) \<and>
     (\<forall>hint. SKE_IdentityHint m = Some hint \<longrightarrow> length hint < 65534) \<and>
     (if alg = KeyExchangeAlgorithmPsk
      then SKE_EllipticCurveType m = 0 \<and> SKE_NamedCurve m = 0 \<and> SKE_PublicKey m = [] \<and>
        SKE_HashAlgorithm m = 0 \<and> SKE_SignatureAlgorithm m = 0 \<and> SKE_Signature m = []
      else Has alg KeyExchangeAlgorithmEcdhe \<and> SKE_EllipticCurveType m \<in> set CurveTypes \<and>
        SKE_NamedCurve m \<in> set Curves \<and> SKE_PublicKey m \<noteq> [] \<and> length (SKE_PublicKey m) < 256 \<and>
        (if SKE_SignatureAlgorithm m = sig_Anonymous then SKE_HashAlgorithm m = 0 \<and> SKE_Signature m = []
         else SKE_Signature m \<noteq> [] \<and> length (SKE_Signature m) < 65536 \<and>
           (\<exists>w. sh_Unmarshal w = Ok \<lparr>sh_Hash = SKE_HashAlgorithm m, sh_Signature = SKE_SignatureAlgorithm m\<rparr>)))"

text \<open>A hint of 65534 or 65535 bytes wraps the end of its slice around to 0 or 1.\<close>

definition ske_panics :: "KeyExchangeAlgorithm \<Rightarrow> bytes \<Rightarrow> bool" where
  "ske_panics alg data \<longleftrightarrow> Has alg KeyExchangeAlgorithmPsk \<and>
     (case u16_at data 0 of Ok n \<Rightarrow> 65534 \<le> unat n \<and> unat n + 2 \<le> length data | _ \<Rightarrow> False)"

lemma unat_add2: "unat (2 + n :: u16) = (if unat n < 65534 then 2 + unat n else unat n - 65534)"
proof -
  have "unat (2 + n) = (2 + unat n) mod 65536"
    by (simp add: word_arith_nat_add unat_of_nat take_bit_eq_mod flip: of_nat_Suc)
  moreover have "unat n < 65536" using unsigned_less [of n] by simp
  ultimately show ?thesis by (auto simp: mod_if)
qed

lemma ske_hint_Panic: "ske_hint alg data = Panic \<longleftrightarrow> length data < 2 \<or> ske_panics alg data"
proof (cases "u16_at data 0")
  case (Ok n)
  then have "\<not> length data < 2" by (metis add_0 go.distinct(3) u16_at_Panic_iff)
  moreover have "unat n < 65536" using unsigned_less [of n] by simp
  ultimately show ?thesis
    using Ok by (auto simp: ske_hint_def ske_panics_def unat_add2 slice_def slice_from_def)
next
  case Panic
  then have "length data < 2" by simp
  with Panic show ?thesis by (simp add: ske_hint_def ske_panics_def del: u16_at_Panic_iff)
qed simp

lemma ske_hint_read:
  assumes "hint \<noteq> None \<longleftrightarrow> Has alg KeyExchangeAlgorithmPsk" "\<forall>h. hint = Some h \<longrightarrow> length h < 65534"
    and "length ((case hint of None \<Rightarrow> [] | Some h \<Rightarrow> prefixed16 h) @ r) \<ge> 2"
  shows "ske_hint alg ((case hint of None \<Rightarrow> [] | Some h \<Rightarrow> prefixed16 h) @ r) = Ok (hint, r)"
proof (cases hint)
  case None
  then have "u16_at r 0 \<noteq> Panic" "\<not> Has alg KeyExchangeAlgorithmPsk" using assms by simp_all
  then show ?thesis using None by (cases "u16_at r 0") (simp_all add: ske_hint_def)
next
  case (Some h)
  have h: "length h < 65536" "length h < 65534" using assms(2) Some by simp_all
  note rd = prefixed16_read [OF h(1)]
  have "slice_from (prefixed16 h @ r) (2 + length h) = Ok r" by (rule slice_from_offset) (simp add: rd)
  then show ?thesis
    using Some assms(1) h rd by (simp add: ske_hint_def unat_add2)
qed

lemma ske_signature_no_panic: "offset \<le> length data \<Longrightarrow> ske_signature data offset \<noteq> Panic"
  unfolding ske_signature_def Let_def by (intro no_panic_intros) (auto simp: sh_Unmarshal_no_panic)

lemma ske_signature_read:
  assumes "length s < 65536" "sh_Unmarshal w = Ok a"
  shows "ske_signature (xs @ sh_Marshal a @ prefixed16 s) (length xs) = Ok (sh_Hash a, sh_Signature a, s)"
proof -
  let ?d = "xs @ sh_Marshal a @ prefixed16 s"
  have m: "sh_Marshal a = be16 w" by (rule sh_Unmarshal_Ok(2) [OF assms(2)])
  have "u16_at ?d (length xs) = Ok w" unfolding m by (rule u16_at_offset) simp
  moreover have "u16_at ?d (length xs + 2) = Ok (of_nat (length s))"
    using u16_at_offset [of "length xs + 2" "xs @ be16 w" "of_nat (length s)" s] by (simp add: m prefixed16_def)
  moreover have "slice ?d (length xs + 2 + 2) (length xs + 2 + 2 + length s) = Ok s"
    by (simp add: m prefixed16_def slice_def)
  ultimately show ?thesis
    by (simp add: ske_signature_def Let_def assms(2) unat_of_nat_16 [OF assms(1)] prefixed16_read(4) [OF assms(1)] m)
qed

interpretation server_key_exchange: msg_codec True ServerKeyExchange_Marshal "ServerKeyExchange_Unmarshal alg" "ServerKeyExchange_wf alg"
  "ske_panics alg" for alg
proof (unfold_locales, goal_cases)
  case (1 m b)
  define out where "out = (case SKE_IdentityHint m of None \<Rightarrow> [] | Some hint \<Rightarrow> prefixed16 hint)"
  have wf: "SKE_KeyExchangeAlgorithm m = alg" "SKE_IdentityHint m \<noteq> None \<longleftrightarrow> Has alg KeyExchangeAlgorithmPsk"
    "\<forall>hint. SKE_IdentityHint m = Some hint \<longrightarrow> length hint < 65534"
    using 1(2) unfolding ServerKeyExchange_wf_def by blast+
  note hint = ske_hint_read [OF wf(2,3), folded out_def]
  show ?case
  proof (cases "alg = KeyExchangeAlgorithmPsk")
    case True
    then have z: "SKE_EllipticCurveType m = 0" "SKE_NamedCurve m = 0" "SKE_PublicKey m = []"
      "SKE_HashAlgorithm m = 0" "SKE_SignatureAlgorithm m = 0" "SKE_Signature m = []"
      using 1(2) by (simp_all add: ServerKeyExchange_wf_def)
    have "Has alg KeyExchangeAlgorithmPsk" by (simp add: True kx_algs)
    then obtain h where "SKE_IdentityHint m = Some h" using wf(2) by auto
    then have "length out \<ge> 2" by (simp add: out_def prefixed16_def)
    moreover have "b = out" using 1(3) by (simp add: ServerKeyExchange_Marshal_def Let_def z out_def)
    moreover have "alg \<noteq> KeyExchangeAlgorithmNone" by (simp add: True kx_algs)
    ultimately show ?thesis
      using hint [of "[]"] z wf(1) True by (simp add: ServerKeyExchange_Unmarshal_def)
  next
    case False
    let ?key = "SKE_PublicKey m" and ?ty = "SKE_EllipticCurveType m"
    have ec: "Has alg KeyExchangeAlgorithmEcdhe" "?ty \<in> set CurveTypes" "SKE_NamedCurve m \<in> set Curves"
      "?key \<noteq> []" "length ?key < 256"
      and sg: "if SKE_SignatureAlgorithm m = sig_Anonymous then SKE_HashAlgorithm m = 0 \<and> SKE_Signature m = []
         else SKE_Signature m \<noteq> [] \<and> length (SKE_Signature m) < 65536 \<and>
           (\<exists>w. sh_Unmarshal w = Ok \<lparr>sh_Hash = SKE_HashAlgorithm m, sh_Signature = SKE_SignatureAlgorithm m\<rparr>)"
      using 1(2) False unfolding ServerKeyExchange_wf_def by simp_all
    have ty: "?ty \<noteq> 0" using ec(2) by (auto simp: CurveTypes_def)
    define kx where "kx = [?ty] @ be16 (SKE_NamedCurve m) @ [of_nat (length ?key)] @ ?key"
    have lk: "length kx = 4 + length ?key" by (simp add: kx_def)
    obtain tail where tail: "b = out @ kx @ tail"
      "ske_signature (kx @ tail) (length kx) = Ok (SKE_HashAlgorithm m, SKE_SignatureAlgorithm m, SKE_Signature m)"
    proof (cases "SKE_SignatureAlgorithm m = sig_Anonymous")
      case True
      then have "b = out @ kx @ []"
        using 1(3) sg ec ty by (simp add: ServerKeyExchange_Marshal_def Let_def out_def kx_def)
      moreover have "ske_signature (kx @ []) (length kx) = Ok (SKE_HashAlgorithm m, SKE_SignatureAlgorithm m, SKE_Signature m)"
        using sg True by (simp add: ske_signature_def)
      ultimately show thesis by (rule that)
    next
      case anon: False
      define a where "a = \<lparr>sh_Hash = SKE_HashAlgorithm m, sh_Signature = SKE_SignatureAlgorithm m\<rparr>"
      obtain w where w: "sh_Unmarshal w = Ok a" "SKE_Signature m \<noteq> []" "length (SKE_Signature m) < 65536"
        using sg anon by (auto simp: a_def)
      have "SKE_HashAlgorithm m \<noteq> 0" using sh_Unmarshal_Ok(1) [OF w(1)] by (simp add: a_def)
      then have "b = out @ kx @ sh_Marshal a @ prefixed16 (SKE_Signature m)"
        using 1(3) anon w(2) ec(4) ty by (simp add: ServerKeyExchange_Marshal_def Let_def out_def kx_def a_def)
      moreover have "ske_signature (kx @ sh_Marshal a @ prefixed16 (SKE_Signature m)) (length kx) =
          Ok (SKE_HashAlgorithm m, SKE_SignatureAlgorithm m, SKE_Signature m)"
        using ske_signature_read [OF w(3,1)] by (simp add: a_def)
      ultimately show thesis by (rule that)
    qed
    define d where "d = kx @ tail"
    have "u16_at d 1 = Ok (SKE_NamedCurve m)" "at d 0 = Ok ?ty" "at d 3 = Ok (of_nat (length ?key))"
      "slice_from d 1 = Ok (drop 1 d)" "slice d 4 (4 + length ?key) = Ok ?key"
      using u16_at_offset [of 1 "[?ty]"] at_offset [of 3 "[?ty] @ be16 (SKE_NamedCurve m)"]
      by (simp_all add: d_def kx_def slice_from_def slice_def)
    note rd = this unat_of_nat_8 [OF ec(5)] tail(2) [folded d_def, unfolded lk]
    have ld: "length d \<ge> 4 + length ?key" by (simp add: d_def lk)
    have "length (out @ d) \<ge> 2" using ld by simp
    moreover have "alg \<noteq> KeyExchangeAlgorithmNone" using has_not_none [of alg] ec(1) by blast
    moreover have "b = out @ d" by (simp add: tail(1) d_def)
    moreover have "d \<noteq> []" using ld by auto
    ultimately show ?thesis
      using hint [of d] rd ld ec False wf(1) by (simp add: ServerKeyExchange_Unmarshal_def Let_def)
  qed
next
  case (2 data)
  have none: "alg \<noteq> KeyExchangeAlgorithmNone" if "ske_panics alg data" using that has_not_none [of alg] by (simp add: ske_panics_def)
  have short: "\<not> length data < 2" if "ske_panics alg data"
    using that by (cases "u16_at data 0") (auto simp: ske_panics_def)
  show ?case
  proof (cases "ske_panics alg data")
    case True
    then have "ske_hint alg data = Panic" by (simp add: ske_hint_Panic)
    then show ?thesis using True none short by (simp add: ServerKeyExchange_Unmarshal_def)
  next
    case False
    have "ServerKeyExchange_Unmarshal alg data \<noteq> Panic"
      unfolding ServerKeyExchange_Unmarshal_def Let_def case_prod_beta
      by (intro no_panic_intros) (auto simp: ske_hint_Panic False ske_signature_no_panic slice_from_def Suc_le_eq split: if_splits)
    then show ?thesis using False by simp
  qed
qed

section \<open>The handshake protocol\<close>

primrec Message_wf :: "'b cryptobyte \<Rightarrow> KeyExchangeAlgorithm \<Rightarrow> Message \<Rightarrow> bool" where
  "Message_wf cb alg (MClientHello m) = ClientHello_wf cb m"
| "Message_wf cb alg (MServerHello m) = ServerHello_wf cb m"
| "Message_wf cb alg (MHelloVerifyRequest m) = True"
| "Message_wf cb alg (MEncryptedExtensions m) = exts_wf cb m"
| "Message_wf cb alg (MCertificate m) = Certificate_wf m"
| "Message_wf cb alg (MServerKeyExchange m) = ServerKeyExchange_wf alg m"
| "Message_wf cb alg (MCertificateRequest m) = CertificateRequest_wf m"
| "Message_wf cb alg MServerHelloDone = True"
| "Message_wf cb alg (MCertificateVerify m) = CertificateVerify_wf m"
| "Message_wf cb alg (MClientKeyExchange m) = ClientKeyExchange_wf alg m"
| "Message_wf cb alg (MFinished m) = True"

definition msg_panics :: "KeyExchangeAlgorithm \<Rightarrow> Type \<Rightarrow> bytes \<Rightarrow> bool" where
  "msg_panics alg t data \<longleftrightarrow>
     t = TypeServerKeyExchange \<and> ske_panics alg data \<or> t = TypeClientKeyExchange \<and> cke_panics alg data"

interpretation message: msg_codec "documented cb" "Message_Marshal cb" "Message_Unmarshal cb alg t"
  "\<lambda>m. Message_wf cb alg m \<and> Message_Type m = t" "msg_panics alg t" for cb alg t
proof (unfold_locales, goal_cases)
  case (1 m b)
  then show ?case
    by (cases m)
      (auto simp: Message_Unmarshal_def client_hello.roundtrip server_hello.roundtrip hello_verify_request.roundtrip
        encrypted_extensions.roundtrip certificate.roundtrip server_key_exchange.roundtrip certificate_request.roundtrip
        certificate_verify.roundtrip client_key_exchange.roundtrip)
next
  case (2 data)
  then show ?case
    by (simp add: Message_Unmarshal_def msg_panics_def client_hello.panic_iff server_hello.panic_iff hello_verify_request.panic_iff
        encrypted_extensions.panic_iff certificate.panic_iff server_key_exchange.panic_iff certificate_request.panic_iff
        certificate_verify.panic_iff client_key_exchange.panic_iff)
qed

definition hs_Header_wf :: "hs_Header \<Rightarrow> bool" where
  "hs_Header_wf h \<longleftrightarrow> unat (hs_Length h) < 2 ^ 24 \<and> unat (hs_FragmentOffset h) < 2 ^ 24 \<and> unat (hs_FragmentLength h) < 2 ^ 24"

lemma length_hs_Header: "length (hs_Header_Marshal h) = HeaderLength"
  by (simp add: hs_Header_Marshal_def HeaderLength_def)

lemma hs_Header_read:
  assumes "hs_Header_wf h"
  shows "hs_Header_Unmarshal (hs_Header_Marshal h @ r) = Ok h"
    "at (hs_Header_Marshal h @ r) 0 = Ok (hs_Type h)"
    "gmap BigEndianUint24 (slice_from (hs_Header_Marshal h @ r) 1) = Ok (hs_Length h)"
proof -
  let ?d = "hs_Header_Marshal h @ r"
  define a b c e where "a = PutBigEndianUint24 (hs_Length h)" and "b = be16 (hs_MessageSequence h)"
    and "c = PutBigEndianUint24 (hs_FragmentOffset h)" and "e = PutBigEndianUint24 (hs_FragmentLength h)"
  have d: "?d = hs_Type h # a @ b @ c @ e @ r" by (simp add: hs_Header_Marshal_def a_def b_def c_def e_def)
  have wf: "BigEndianUint24 (a @ r) = hs_Length h" "BigEndianUint24 (c @ r) = hs_FragmentOffset h"
      "BigEndianUint24 (e @ r) = hs_FragmentLength h" for r
    using assms by (simp_all add: hs_Header_wf_def a_def c_def e_def)
  have lens: "length a = 3" "length b = 2" "length c = 3" "length e = 3" by (simp_all add: a_def b_def c_def e_def)
  show t: "at ?d 0 = Ok (hs_Type h)" by (simp add: d)
  have s1: "slice_from ?d 1 = Ok (a @ b @ c @ e @ r)" by (simp add: d slice_from_def)
  then show "gmap BigEndianUint24 (slice_from ?d 1) = Ok (hs_Length h)" by (simp add: wf)
  have "u16_at ?d 4 = Ok (hs_MessageSequence h)"
    using u16_at_offset [of 4 "hs_Type h # a" "hs_MessageSequence h" "c @ e @ r"] by (simp add: d lens b_def)
  moreover have "slice_from ?d 6 = Ok (c @ e @ r)"
    using slice_from_offset [of 6 "hs_Type h # a @ b" "c @ e @ r"] by (simp add: d lens)
  moreover have "slice_from ?d 9 = Ok (e @ r)"
    using slice_from_offset [of 9 "hs_Type h # a @ b @ c" "e @ r"] by (simp add: d lens)
  ultimately show "hs_Header_Unmarshal ?d = Ok h"
    using t s1 length_hs_Header [of h] by (simp add: hs_Header_Unmarshal_def wf)
qed

text \<open>The body of a message that is whole: its length is the one that the header declares twice.\<close>

definition whole :: "bytes \<Rightarrow> bool" where
  "whole data \<longleftrightarrow> HeaderLength \<le> length data \<and> BigEndianUint24 (drop 1 data) = of_nat (length data - HeaderLength) \<and>
     BigEndianUint24 (drop 9 data) = of_nat (length data - HeaderLength)"

lemma handshake_panics:
  assumes "documented cb"
  shows "Handshake_Unmarshal cb alg data = Panic \<longleftrightarrow> whole data \<and> msg_panics alg (hd data) (drop HeaderLength data)"
proof (cases "length data < HeaderLength")
  case True
  then show ?thesis by (simp add: Handshake_Unmarshal_def hs_Header_Unmarshal_def whole_def)
next
  case False
  obtain seq where seq: "u16_at data 4 = Ok seq"
    using False by (cases "u16_at data 4") (auto simp: HeaderLength_def)
  have "data \<noteq> []" using False by (auto simp: HeaderLength_def)
  then have "at data 0 = Ok (hd data)" using False by (simp add: at_def hd_conv_nth)
  moreover have "slice_from data 1 = Ok (drop 1 data)" "slice_from data 6 = Ok (drop 6 data)" "slice_from data 9 = Ok (drop 9 data)"
      "slice_from data HeaderLength = Ok (drop HeaderLength data)"
    using False by (simp_all add: slice_from_def HeaderLength_def)
  ultimately show ?thesis
    using False seq
    by (auto simp: Handshake_Unmarshal_def hs_Header_Unmarshal_def whole_def Let_def gbind_Panic_iff message.panic_iff [OF assms])
qed

lemma handshake_roundtrip:
  assumes "documented cb" "h_Message h = Some m" "Message_wf cb (h_KeyExchangeAlgorithm h) m"
    and "Handshake_Marshal cb h = Ok (b, h')" "length b < 2 ^ 24 + HeaderLength"
  shows "Handshake_Unmarshal cb (h_KeyExchangeAlgorithm h) b = Ok h'"
proof -
  let ?alg = "h_KeyExchangeAlgorithm h"
  obtain msg hdr where off: "hs_FragmentOffset (h_Header h) = 0" and msg: "Message_Marshal cb m = Ok msg"
    and hdr: "hdr = (h_Header h)\<lparr>hs_Length := of_nat (length msg), hs_FragmentLength := of_nat (length msg), hs_Type := Message_Type m\<rparr>"
    and b: "b = hs_Header_Marshal hdr @ msg" and h': "h' = h\<lparr>h_Header := hdr\<rparr>"
    using assms(2,4) by (auto simp: Handshake_Marshal_def gbind_Ok_iff Let_def split: if_splits)
  have len: "length msg < 2 ^ 24" using assms(5) by (simp add: b length_hs_Header)
  have "hs_Header_wf hdr" using off len unat_of_nat_24 [OF len] by (simp add: hs_Header_wf_def hdr)
  note rd = hs_Header_read [OF this, of msg, folded b]
  have "Message_Unmarshal cb ?alg (Message_Type m) msg = Ok m"
    by (rule message.roundtrip [OF assms(1) _ msg]) (simp add: assms(3))
  moreover have "slice_from b HeaderLength = Ok msg"
    using slice_from_offset [of HeaderLength "hs_Header_Marshal hdr" msg] by (simp add: b length_hs_Header)
  moreover have "length b - HeaderLength = length msg" by (simp add: b length_hs_Header)
  moreover obtain d1 where "slice_from b 1 = Ok d1" "BigEndianUint24 d1 = of_nat (length msg)"
    using rd(3) by (auto simp: gmap_Ok_iff hdr)
  ultimately show ?thesis
    using rd(1,2) assms(2) by (cases h) (simp add: Handshake_Unmarshal_def hdr h')
qed

section \<open>Properties\<close>

text \<open> C15. A handshake message that is well-formed for the key exchange in use, encoded with its header, is decoded to
  the same message and header, for all eleven message types: hellos with all their extensions, certificates,
  signed or anonymous key exchanges with or without an identity hint, requests, signatures and finished.\<close>

theorem Handshake_roundtrip:
  assumes "documented cb" "h_Message h = Some m" "Message_wf cb (h_KeyExchangeAlgorithm h) m"
    and "Handshake_Marshal cb h = Ok (b, h')" "length b < 2 ^ 24 + HeaderLength"
  shows "Handshake_Unmarshal cb (h_KeyExchangeAlgorithm h) b = Ok h'"
  using assms by (rule handshake_roundtrip)

theorem Handshake_roundtrip_witness:
  "Handshake_Unmarshal plain_cryptobyte KeyExchangeAlgorithmEcdhe
     [3, 0, 0, 5, 0, 7, 0, 0, 0, 0, 0, 5, 0xfe, 0xfd, 2, 8, 9] =
   Ok \<lparr>h_Header = \<lparr>hs_Type = 3, hs_Length = 5, hs_MessageSequence = 7, hs_FragmentOffset = 0, hs_FragmentLength = 5\<rparr>,
       h_Message = Some (MHelloVerifyRequest \<lparr>HVR_Version = Version1_2, HVR_Cookie = [8, 9]\<rparr>),
       h_KeyExchangeAlgorithm = KeyExchangeAlgorithmEcdhe\<rparr>"
  using Handshake_roundtrip [OF documented_plain, of
      "\<lparr>h_Header = \<lparr>hs_Type = 0, hs_Length = 0, hs_MessageSequence = 7, hs_FragmentOffset = 0, hs_FragmentLength = 0\<rparr>,
        h_Message = Some (MHelloVerifyRequest \<lparr>HVR_Version = Version1_2, HVR_Cookie = [8, 9]\<rparr>),
        h_KeyExchangeAlgorithm = KeyExchangeAlgorithmEcdhe\<rparr>"]
  by (simp add: Handshake_Marshal_def HelloVerifyRequest_Marshal_def Version1_2_def hs_Header_Marshal_def
      PutBigEndianUint24_def be16_def HeaderLength_def drop_bit_eq_div)

text \<open> C17. What a peer has to send to make the handshake decoder panic: a whole message whose body is either a server
  key exchange, under a PSK key exchange, that declares and has a hint of 65534 or 65535 bytes (the end of the hint's
  slice is computed in 16 bits), or a client key exchange, under a PSK and ECDHE key exchange, whose identity is all
  there is of it.  All other input, of any length, gives a message or an error.\<close>

theorem Handshake_panics:
  assumes "documented cb"
  shows "Handshake_Unmarshal cb alg data = Panic \<longleftrightarrow>
    whole data \<and> (hd data = TypeServerKeyExchange \<and> ske_panics alg (drop HeaderLength data) \<or>
      hd data = TypeClientKeyExchange \<and> cke_panics alg (drop HeaderLength data))"
  using handshake_panics [OF assms] by (simp add: msg_panics_def)

theorem Handshake_panics_witness:
  "Handshake_Unmarshal plain_cryptobyte (KeyExchangeAlgorithmPsk OR KeyExchangeAlgorithmEcdhe)
     [16, 0, 0, 3, 0, 0, 0, 0, 0, 0, 0, 3, 0, 1, 65] = Panic"
  using Handshake_panics [OF documented_plain, of "KeyExchangeAlgorithmPsk OR KeyExchangeAlgorithmEcdhe"
      "[16, 0, 0, 3, 0, 0, 0, 0, 0, 0, 0, 3, 0, 1, 65]"]
  by (simp add: whole_def HeaderLength_def cke_panics_def u16_at_0 word16_def word32_def kx_algs)

end
