(* ===== verification/Dtls_Fragment.thy ===== *)
theory Dtls_Fragment
  imports Dtls_Handshake_Codec "HOL-Library.AList"
begin

unbundle bit_operations_syntax

text \<open>
  The buffer in which handshake messages are put together again, \<open>src/dtls/fragment_buffer.go\<close>.  A push may fail
  after it has stored some of the fragments of a record, so it returns the buffer along with its result; a pop may
  dereference a nil pointer, which is a panic.  The maps of the code are association lists, whose lengths are known.
\<close>

section \<open>The buffer\<close>

definition fragmentBufferMaxSize :: int where "fragmentBufferMaxSize = 2000000"
definition fragmentBufferMaxCount :: int where "fragmentBufferMaxCount = 1000"

record fragment =
  recordLayerHeader :: Header
  handshakeHeader :: hs_Header
  frag_data :: bytes

record fragments =
  fragmentByOffset :: "(u32 \<times> fragment) list"
  fragmentsLength :: u32
  handshakeLength :: u32

record fragmentBuffer =
  cache :: "(u16 \<times> fragments) list"
  currentMessageSequenceNumber :: u16
  totalBufferSize :: int
  totalFragmentCount :: int

definition newFragmentBuffer :: fragmentBuffer where
  "newFragmentBuffer = \<lparr>cache = [], currentMessageSequenceNumber = 0, totalBufferSize = 0, totalFragmentCount = 0\<rparr>"

definition fb_size :: "fragmentBuffer \<Rightarrow> int" where
  "fb_size f = totalBufferSize f"

text \<open>One fragment that is neither cut short nor of a message that has been assembled already.\<close>

definition store_fragment :: "Header \<Rightarrow> hs_Header \<Rightarrow> bytes \<Rightarrow> fragmentBuffer \<Rightarrow> fragmentBuffer" where
  "store_fragment rh hh body f =
     (let seq = hs_MessageSequence hh;
          messageFragments =
            (case map_of (cache f) seq of
               Some frs \<Rightarrow> frs
             | None \<Rightarrow> \<lparr>fragmentByOffset = [], fragmentsLength = 0, handshakeLength = hs_Length hh\<rparr>);
          frag = \<lparr>recordLayerHeader = rh, handshakeHeader = hh, frag_data = body\<rparr> in
      if map_of (fragmentByOffset messageFragments) (hs_FragmentOffset hh) = None then
        f\<lparr>cache := AList.update seq
            (messageFragments\<lparr>fragmentByOffset := fragmentByOffset messageFragments @ [(hs_FragmentOffset hh, frag)],
               fragmentsLength := fragmentsLength messageFragments + hs_FragmentLength hh\<rparr>) (cache f),
          totalBufferSize := totalBufferSize f + int (unat (hs_FragmentLength hh)),
          totalFragmentCount := totalFragmentCount f + 1\<rparr>
      else f\<lparr>cache := AList.update seq messageFragments (cache f)\<rparr>)"

lemma BigEndianUint24_lt: "unat (BigEndianUint24 d) < 2 ^ 24"
proof (cases d rule: BigEndianUint24.cases)
  case (1 a b c r)
  have "\<not> bit (word32 0 a b c) n" if "24 \<le> n" for n
    using that bit_imp_le_length [of a "n - 16"] bit_imp_le_length [of b "n - 8"] bit_imp_le_length [of c n]
    by (auto simp: word32_def bit_simps)
  then have "take_bit 24 (word32 0 a b c) = word32 0 a b c"
    by (intro bit_word_eqI) (auto simp: bit_take_bit_iff not_less [symmetric])
  then have "take_bit 24 (unat (word32 0 a b c)) = unat (word32 0 a b c)"
    by (metis unsigned_take_bit_eq)
  then show ?thesis by (simp add: 1 take_bit_nat_eq_self_iff)
qed simp_all

lemma hs_Header_Unmarshal_lt:
  assumes "hs_Header_Unmarshal d = Ok h"
  shows "unat (hs_Length h) < 2 ^ 24" "unat (hs_FragmentOffset h) < 2 ^ 24" "unat (hs_FragmentLength h) < 2 ^ 24"
  using assms BigEndianUint24_lt by (auto simp: hs_Header_Unmarshal_def gbind_Ok_iff split: if_splits)

lemma unat_end: "unat (of_nat HeaderLength + w) = HeaderLength + unat w" if "unat (w :: u32) < 2 ^ 24"
proof -
  have "of_nat HeaderLength + w = of_nat (HeaderLength + unat w)" by simp
  moreover have "HeaderLength + unat w < 2 ^ LENGTH(32)" using that by (simp add: HeaderLength_def)
  ultimately show ?thesis by (metis of_nat_inverse)
qed

lemma HeaderLength_pos: "0 < HeaderLength"
  by (simp add: HeaderLength_def)

function push_loop :: "Header \<Rightarrow> bytes \<Rightarrow> bool \<Rightarrow> fragmentBuffer \<Rightarrow> fragmentBuffer \<times> (bool \<times> bool) go" where
  "push_loop rh buf isRetransmit f =
     (if buf = [] then (f, Ok (True, isRetransmit))
      else
        (case hs_Header_Unmarshal buf of
           Fail e \<Rightarrow> (f, Fail e)
         | Panic \<Rightarrow> (f, Panic)
         | Ok hh \<Rightarrow>
             let isRetransmit = (hs_FragmentOffset hh = 0 \<and> hs_MessageSequence hh < currentMessageSequenceNumber f);
                 end = unat (of_nat HeaderLength + hs_FragmentLength hh) in
             if end > length buf then (f, Fail ErrBufferTooSmall)
             else if hs_MessageSequence hh < currentMessageSequenceNumber f
             then push_loop rh (drop end buf) isRetransmit f
             else push_loop rh (drop end buf) isRetransmit
                    (store_fragment rh hh (take (end - HeaderLength) (drop HeaderLength buf)) f)))"
  by pat_completeness auto

termination
  by (relation "measure (\<lambda>(_, buf, _, _). length buf)")
    (auto dest!: hs_Header_Unmarshal_lt(3) simp: unat_end HeaderLength_pos intro!: diff_less)

declare push_loop.simps [simp del]

definition fb_push :: "fragmentBuffer \<Rightarrow> bytes \<Rightarrow> fragmentBuffer \<times> (bool \<times> bool) go" where
  "fb_push f buf =
     (if fb_size f + int (length buf) \<ge> fragmentBufferMaxSize \<or> totalFragmentCount f \<ge> fragmentBufferMaxCount
      then (f, Fail ErrFragmentBufferOverflow)
      else
        (case Header_Unmarshal [] buf of
           Fail e \<Rightarrow> (f, Fail e)
         | Panic \<Rightarrow> (f, Panic)
         | Ok rh \<Rightarrow>
             if Header_ContentType rh \<noteq> ContentTypeHandshake then (f, Ok (False, False))
             else
               (case slice_from buf FixedHeaderSize of
                  Ok buf \<Rightarrow> push_loop rh buf False f
                | Fail e \<Rightarrow> (f, Fail e)
                | Panic \<Rightarrow> (f, Panic))))"

text \<open>The \<open>n\<close> rounds that are left of the loop of \<open>pop\<close>.\<close>

fun pop_loop :: "fragments \<Rightarrow> nat \<Rightarrow> u32 \<Rightarrow> bytes \<Rightarrow> bytes option" where
  "pop_loop frags 0 targetOffset rawMessage = Some rawMessage"
| "pop_loop frags (Suc n) targetOffset rawMessage =
     (if targetOffset < handshakeLength frags then
        (case map_of (fragmentByOffset frags) targetOffset of
           Some frag \<Rightarrow>
             pop_loop frags n (hs_FragmentOffset (handshakeHeader frag) + hs_FragmentLength (handshakeHeader frag))
               (rawMessage @ frag_data frag)
         | None \<Rightarrow> None)
      else Some rawMessage)"

definition fb_pop :: "fragmentBuffer \<Rightarrow> ((bytes \<times> u16) option \<times> fragmentBuffer) go" where
  "fb_pop f =
     (case map_of (cache f) (currentMessageSequenceNumber f) of
        None \<Rightarrow> Ok (None, f)
      | Some frags \<Rightarrow>
          if fragmentsLength frags \<noteq> handshakeLength frags then Ok (None, f)
          else
            (case pop_loop frags (length (fragmentByOffset frags)) 0 [] of
               None \<Rightarrow> Ok (None, f)
             | Some rawMessage \<Rightarrow>
                 if unat (handshakeLength frags) \<noteq> length rawMessage then Ok (None, f)
                 else
                   (case map_of (fragmentByOffset frags) 0 of
                      None \<Rightarrow> Panic
                    | Some first \<Rightarrow>
                        let firstHeader = (handshakeHeader first)\<lparr>hs_FragmentOffset := 0,
                              hs_FragmentLength := hs_Length (handshakeHeader first)\<rparr> in
                        Ok (Some (hs_Header_Marshal firstHeader @ rawMessage, Epoch (recordLayerHeader first)),
                            f\<lparr>totalBufferSize := totalBufferSize f - int (unat (fragmentsLength frags)),
                              totalFragmentCount := totalFragmentCount f - int (length (fragmentByOffset frags)),
                              cache := AList.delete (currentMessageSequenceNumber f) (cache f),
                              currentMessageSequenceNumber := currentMessageSequenceNumber f + 1\<rparr>))))"

section \<open>The invariant\<close>

definition stored_bytes :: "fragments \<Rightarrow> nat" where
  "stored_bytes frs = sum_list (map (\<lambda>(_, fr). length (frag_data fr)) (fragmentByOffset frs))"

definition frags_ok :: "u16 \<Rightarrow> fragments \<Rightarrow> bool" where
  "frags_ok seq frs \<longleftrightarrow> distinct (map fst (fragmentByOffset frs)) \<and> unat (fragmentsLength frs) = stored_bytes frs \<and>
     (\<forall>(off, fr) \<in> set (fragmentByOffset frs).
        hs_FragmentOffset (handshakeHeader fr) = off \<and> hs_MessageSequence (handshakeHeader fr) = seq \<and>
        unat (hs_FragmentLength (handshakeHeader fr)) = length (frag_data fr))"

text \<open>
  The two totals are those of the fragments that are stored, no fragment of a message that has been assembled is, and
  the size is within its limit.
\<close>

definition fb_inv :: "fragmentBuffer \<Rightarrow> bool" where
  "fb_inv f \<longleftrightarrow> distinct (map fst (cache f)) \<and>
     (\<forall>(seq, frs) \<in> set (cache f). frags_ok seq frs \<and> currentMessageSequenceNumber f \<le> seq) \<and>
     totalBufferSize f = int (sum_list (map (\<lambda>(_, frs). stored_bytes frs) (cache f))) \<and>
     totalFragmentCount f = int (sum_list (map (\<lambda>(_, frs). length (fragmentByOffset frs)) (cache f))) \<and>
     totalBufferSize f < fragmentBufferMaxSize"

inductive fb_reachable :: "fragmentBuffer \<Rightarrow> bool" where
  fb_new: "fb_reachable newFragmentBuffer"
| fb_pushed: "fb_reachable f \<Longrightarrow> fb_reachable (fst (fb_push f buf))"
| fb_popped: "\<lbrakk>fb_reachable f; fb_pop f = Ok (r, f')\<rbrakk> \<Longrightarrow> fb_reachable f'"

lemma sum_list_update:
  fixes g :: "'v \<Rightarrow> nat"
  assumes "distinct (map fst al)"
  shows "sum_list (map (\<lambda>(_, v). g v) (AList.update k v al)) + (case map_of al k of None \<Rightarrow> 0 | Some w \<Rightarrow> g w) =
    sum_list (map (\<lambda>(_, v). g v) al) + g v"
  using assms by (induction al) (auto split: option.splits)

lemma sum_list_delete:
  fixes g :: "'v \<Rightarrow> nat"
  assumes "distinct (map fst al)" "map_of al k = Some v"
  shows "sum_list (map (\<lambda>(_, v). g v) (AList.delete k al)) + g v = sum_list (map (\<lambda>(_, v). g v) al)"
  using assms
proof (induction al)
  case (Cons a al)
  show ?case
  proof (cases "fst a = k")
    case True
    then have "k \<notin> fst ` set al" using Cons.prems by auto
    then have "AList.delete k al = al" by (auto simp: AList.delete_eq filter_id_conv rev_image_eqI)
    then show ?thesis using True Cons.prems by (cases a) (auto simp: AList.delete_eq)
  next
    case False
    then show ?thesis using Cons by (cases a) (auto simp: AList.delete_eq)
  qed
qed simp

lemma set_update_subset: "set (AList.update k v al) \<subseteq> insert (k, v) (set al)"
  by (induction al) auto

lemma stored_le:
  assumes "distinct (map fst (cache f))" "map_of (cache f) seq = Some frs"
  shows "stored_bytes frs \<le> sum_list (map (\<lambda>(_, frs). stored_bytes frs) (cache f))"
  using sum_list_delete [OF assms, of stored_bytes] by linarith

text \<open>The message fragments that a new fragment is added to.\<close>

definition entry :: "fragmentBuffer \<Rightarrow> hs_Header \<Rightarrow> fragments" where
  "entry f hh =
     (case map_of (cache f) (hs_MessageSequence hh) of
        Some frs \<Rightarrow> frs
      | None \<Rightarrow> \<lparr>fragmentByOffset = [], fragmentsLength = 0, handshakeLength = hs_Length hh\<rparr>)"

definition add_fragment :: "Header \<Rightarrow> hs_Header \<Rightarrow> bytes \<Rightarrow> fragments \<Rightarrow> fragments" where
  "add_fragment rh hh body frs =
     frs\<lparr>fragmentByOffset := fragmentByOffset frs @
           [(hs_FragmentOffset hh, \<lparr>recordLayerHeader = rh, handshakeHeader = hh, frag_data = body\<rparr>)],
         fragmentsLength := fragmentsLength frs + hs_FragmentLength hh\<rparr>"

lemma store_fragment_alt:
  "store_fragment rh hh body f =
     (if map_of (fragmentByOffset (entry f hh)) (hs_FragmentOffset hh) = None then
        f\<lparr>cache := AList.update (hs_MessageSequence hh) (add_fragment rh hh body (entry f hh)) (cache f),
          totalBufferSize := totalBufferSize f + int (unat (hs_FragmentLength hh)),
          totalFragmentCount := totalFragmentCount f + 1\<rparr>
      else f\<lparr>cache := AList.update (hs_MessageSequence hh) (entry f hh) (cache f)\<rparr>)"
  by (simp only: store_fragment_def entry_def add_fragment_def Let_def)

lemma add_fragment_ok:
  assumes "frags_ok seq frs" "hs_MessageSequence hh = seq" "unat (hs_FragmentLength hh) = length body"
    and "map_of (fragmentByOffset frs) (hs_FragmentOffset hh) = None" "stored_bytes frs + length body < 2 ^ 32"
  shows "frags_ok seq (add_fragment rh hh body frs)" "stored_bytes (add_fragment rh hh body frs) = stored_bytes frs + length body"
proof -
  show st: "stored_bytes (add_fragment rh hh body frs) = stored_bytes frs + length body"
    by (simp add: stored_bytes_def add_fragment_def)
  have "unat (fragmentsLength frs + hs_FragmentLength hh) = stored_bytes frs + length body"
    using assms(1,3,5) unat_add_lem [of "fragmentsLength frs" "hs_FragmentLength hh"] by (simp add: frags_ok_def)
  moreover have "hs_FragmentOffset hh \<notin> fst ` set (fragmentByOffset frs)" using assms(4) by (simp add: map_of_eq_None_iff)
  ultimately show "frags_ok seq (add_fragment rh hh body frs)"
    using assms(1,2,3) st by (auto simp: frags_ok_def add_fragment_def)
qed

lemma entry_ok:
  assumes "fb_inv f"
  shows "frags_ok (hs_MessageSequence hh) (entry f hh)"
  using assms map_of_SomeD [of "cache f" "hs_MessageSequence hh"]
  by (auto simp: entry_def fb_inv_def frags_ok_def stored_bytes_def split: option.splits)

lemma same_totals: "f\<lparr>cache := c, totalBufferSize := totalBufferSize f, totalFragmentCount := totalFragmentCount f\<rparr> = f\<lparr>cache := c\<rparr>"
  by (cases f) simp

lemma store_fragment_inv:
  assumes inv: "fb_inv f" and len: "unat (hs_FragmentLength hh) = length body"
    and room: "totalBufferSize f + int (length body) < fragmentBufferMaxSize"
    and new: "\<not> hs_MessageSequence hh < currentMessageSequenceNumber f"
  shows "fb_inv (store_fragment rh hh body f)"
    "totalBufferSize (store_fragment rh hh body f) \<le> totalBufferSize f + int (length body)"
    "currentMessageSequenceNumber (store_fragment rh hh body f) = currentMessageSequenceNumber f"
proof -
  let ?seq = "hs_MessageSequence hh" and ?e = "entry f hh" and ?n = "add_fragment rh hh body (entry f hh)"
  have d: "distinct (map fst (cache f))"
    and ok: "\<And>s frs. (s, frs) \<in> set (cache f) \<Longrightarrow> frags_ok s frs \<and> currentMessageSequenceNumber f \<le> s"
    and size: "totalBufferSize f = int (sum_list (map (\<lambda>(_, frs). stored_bytes frs) (cache f)))"
    and cnt: "totalFragmentCount f = int (sum_list (map (\<lambda>(_, frs). length (fragmentByOffset frs)) (cache f)))"
    using inv unfolding fb_inv_def by auto
  note e = entry_ok [OF inv, of hh]
  have small: "stored_bytes ?e + length body < 2 ^ 32"
    using stored_le [OF d, of ?seq] size room
    by (auto simp: entry_def fragmentBufferMaxSize_def stored_bytes_def split: option.splits)
  have upd: "fb_inv (f\<lparr>cache := AList.update ?seq frs (cache f), totalBufferSize := totalBufferSize f + int k,
      totalFragmentCount := totalFragmentCount f + int j\<rparr>)"
    if frs: "frags_ok ?seq frs" "stored_bytes frs = stored_bytes ?e + k"
      "length (fragmentByOffset frs) = length (fragmentByOffset ?e) + j" "k \<le> length body" for frs k j
  proof -
    have "sum_list (map (\<lambda>(_, frs). stored_bytes frs) (AList.update ?seq frs (cache f))) =
        sum_list (map (\<lambda>(_, frs). stored_bytes frs) (cache f)) + k"
      using sum_list_update [OF d, of stored_bytes ?seq frs] frs(2)
      by (auto simp: entry_def stored_bytes_def split: option.splits)
    moreover have "sum_list (map (\<lambda>(_, frs). length (fragmentByOffset frs)) (AList.update ?seq frs (cache f))) =
        sum_list (map (\<lambda>(_, frs). length (fragmentByOffset frs)) (cache f)) + j"
      using sum_list_update [OF d, of "\<lambda>frs. length (fragmentByOffset frs)" ?seq frs] frs(3)
      by (auto simp: entry_def split: option.splits)
    moreover have "frags_ok s v \<and> currentMessageSequenceNumber f \<le> s" if "(s, v) \<in> set (AList.update ?seq frs (cache f))" for s v
      using that set_update_subset [of ?seq frs "cache f"] ok frs(1) new by auto
    ultimately show ?thesis
      using size cnt d room frs(4) by (auto simp: fb_inv_def distinct_update)
  qed
  show "fb_inv (store_fragment rh hh body f)"
  proof (cases "map_of (fragmentByOffset ?e) (hs_FragmentOffset hh) = None")
    case True
    note a = add_fragment_ok [OF e refl len True small, of rh]
    then have "fb_inv (f\<lparr>cache := AList.update ?seq ?n (cache f), totalBufferSize := totalBufferSize f + int (length body),
        totalFragmentCount := totalFragmentCount f + int 1\<rparr>)"
      by (intro upd) (simp_all add: add_fragment_def)
    then show ?thesis using True len by (simp add: store_fragment_alt)
  next
    case False
    have "fb_inv (f\<lparr>cache := AList.update ?seq ?e (cache f), totalBufferSize := totalBufferSize f + int 0,
        totalFragmentCount := totalFragmentCount f + int 0\<rparr>)"
      by (intro upd) (simp_all add: e)
    then show ?thesis using False by (auto simp: store_fragment_alt same_totals)
  qed
  show "totalBufferSize (store_fragment rh hh body f) \<le> totalBufferSize f + int (length body)"
    "currentMessageSequenceNumber (store_fragment rh hh body f) = currentMessageSequenceNumber f"
    using len by (simp_all add: store_fragment_alt)
qed

lemma hs_Header_no_panic: "hs_Header_Unmarshal d \<noteq> Panic"
  by (auto simp: hs_Header_Unmarshal_def gbind_Panic_iff HeaderLength_def)

lemma push_loop_inv:
  "\<lbrakk>fb_inv f; totalBufferSize f + int (length buf) < fragmentBufferMaxSize\<rbrakk> \<Longrightarrow>
    fb_inv (fst (push_loop rh buf ir f)) \<and> snd (push_loop rh buf ir f) \<noteq> Panic"
proof (induction "length buf" arbitrary: buf ir f rule: less_induct)
  case less
  show ?case
  proof (cases "hs_Header_Unmarshal buf")
    case (Ok hh)
    note lt = hs_Header_Unmarshal_lt(3) [OF Ok]
    define e where "e = HeaderLength + unat (hs_FragmentLength hh)"
    have end_eq: "unat (of_nat HeaderLength + hs_FragmentLength hh) = e" using unat_end [OF lt] by (simp only: e_def)
    show ?thesis
    proof (cases "buf = [] \<or> e > length buf")
      case True
      then show ?thesis
        using less.prems Ok by (subst (1 2) push_loop.simps) (auto simp: Let_def end_eq simp del: of_nat_add)
    next
      case False
      define body where "body = take (e - HeaderLength) (drop HeaderLength buf)"
      have shorter: "length (drop e buf) < length buf" using False by (auto simp: e_def HeaderLength_def)
      have lb: "length body = unat (hs_FragmentLength hh)" "e = HeaderLength + length body"
        using False by (auto simp: body_def e_def)
      let ?ir = "hs_FragmentOffset hh = 0 \<and> hs_MessageSequence hh < currentMessageSequenceNumber f"
      show ?thesis
      proof (cases "hs_MessageSequence hh < currentMessageSequenceNumber f")
        case True
        have "push_loop rh buf ir f = push_loop rh (drop e buf) ?ir f"
          using False True by (subst push_loop.simps) (simp add: Ok end_eq)
        then show ?thesis using less.hyps [OF shorter less.prems(1)] less.prems(2) by simp
      next
        case new: False
        have eq: "push_loop rh buf ir f = push_loop rh (drop e buf) ?ir (store_fragment rh hh body f)"
          using False new by (subst push_loop.simps) (simp add: Ok end_eq body_def)
        have "length body \<le> length buf" using False lb(2) by simp
        then have room: "totalBufferSize f + int (length body) < fragmentBufferMaxSize" using less.prems(2) by linarith
        note st = store_fragment_inv [OF less.prems(1) lb(1) [symmetric] room new, of rh]
        have "int (length (drop e buf)) + int (length body) \<le> int (length buf)" using False lb(2) by simp
        then have "totalBufferSize (store_fragment rh hh body f) + int (length (drop e buf)) < fragmentBufferMaxSize"
          using st(2) less.prems(2) by linarith
        then show ?thesis unfolding eq by (rule less.hyps [OF shorter st(1)])
      qed
    qed
  next
    case (Fail err)
    then show ?thesis using less.prems by (subst (1 2) push_loop.simps) simp
  next
    case Panic
    then show ?thesis by (simp add: hs_Header_no_panic)
  qed
qed

lemma fb_push_inv:
  assumes "fb_inv f"
  shows "fb_inv (fst (fb_push f buf))" "snd (fb_push f buf) \<noteq> Panic"
proof -
  have short: "\<not> length buf < FixedHeaderSize" if "Header_Unmarshal [] buf = Ok rh" for rh
    using that by (auto simp: Header_Unmarshal_def)
  have loop: "fb_inv (fst (push_loop rh (drop FixedHeaderSize buf) False f)) \<and> snd (push_loop rh (drop FixedHeaderSize buf) False f) \<noteq> Panic"
    if "fb_size f + int (length buf) < fragmentBufferMaxSize" for rh
    by (rule push_loop_inv [OF assms]) (use that in \<open>simp add: fb_size_def\<close>)
  show "fb_inv (fst (fb_push f buf))" "snd (fb_push f buf) \<noteq> Panic"
    using assms loop short Header_Unmarshal_no_panic [of "[]" buf]
    by (auto simp: fb_push_def slice_from_def not_le split: go.splits)
qed

lemma fb_pop_inv:
  assumes inv: "fb_inv f" and pop: "fb_pop f = Ok (r, f')"
  shows "fb_inv f'"
proof (cases "r = None")
  case True
  then have "f' = f" using pop by (auto simp: fb_pop_def Let_def split: option.splits if_splits)
  then show ?thesis using inv by simp
next
  case False
  let ?cur = "currentMessageSequenceNumber f"
  obtain frs where frs: "map_of (cache f) ?cur = Some frs"
    and f': "f' = f\<lparr>totalBufferSize := totalBufferSize f - int (unat (fragmentsLength frs)),
      totalFragmentCount := totalFragmentCount f - int (length (fragmentByOffset frs)),
      cache := AList.delete ?cur (cache f), currentMessageSequenceNumber := ?cur + 1\<rparr>"
    using pop False by (auto simp: fb_pop_def Let_def simp del: of_nat_unat split: option.splits if_splits)
  have d: "distinct (map fst (cache f))"
    and ok: "\<And>s frs. (s, frs) \<in> set (cache f) \<Longrightarrow> frags_ok s frs \<and> ?cur \<le> s"
    and size: "totalBufferSize f = int (sum_list (map (\<lambda>(_, frs). stored_bytes frs) (cache f)))"
    and cnt: "totalFragmentCount f = int (sum_list (map (\<lambda>(_, frs). length (fragmentByOffset frs)) (cache f)))"
    and small: "totalBufferSize f < fragmentBufferMaxSize"
    using inv unfolding fb_inv_def by auto
  have fl: "unat (fragmentsLength frs) = stored_bytes frs" using ok [OF map_of_SomeD [OF frs]] by (simp add: frags_ok_def)
  have "frags_ok s v \<and> ?cur + 1 \<le> s" if "(s, v) \<in> set (AList.delete ?cur (cache f))" for s v
  proof -
    have sv: "(s, v) \<in> set (cache f)" "s \<noteq> ?cur" using that by (auto simp: AList.delete_eq)
    then have "?cur < s" using ok by force
    then show ?thesis using ok [OF sv(1)] by (simp add: inc_le)
  qed
  then show ?thesis
    using size cnt d small fl sum_list_delete [OF d frs, of stored_bytes]
      sum_list_delete [OF d frs, of "\<lambda>frs. length (fragmentByOffset frs)"]
    by (auto simp: fb_inv_def f' distinct_delete)
qed

lemma fb_reachable_inv: "fb_reachable f \<Longrightarrow> fb_inv f"
proof (induction rule: fb_reachable.induct)
  case fb_new
  then show ?case by (simp add: fb_inv_def newFragmentBuffer_def fragmentBufferMaxSize_def)
next
  case (fb_pushed f buf)
  then show ?case by (simp add: fb_push_inv)
next
  case (fb_popped f r f')
  then show ?case by (simp add: fb_pop_inv)
qed

section \<open>Reassembly\<close>

text \<open>A message cut into pieces, each at its offset, and the header of the fragment that carries a piece.\<close>

fun pieces :: "nat \<Rightarrow> bytes list \<Rightarrow> (nat \<times> bytes) list" where
  "pieces off [] = []"
| "pieces off (c # cs) = (off, c) # pieces (off + length c) cs"

definition piece_header :: "Type \<Rightarrow> nat \<Rightarrow> u16 \<Rightarrow> nat \<times> bytes \<Rightarrow> hs_Header" where
  "piece_header t len seq p =
     \<lparr>hs_Type = t, hs_Length = of_nat len, hs_MessageSequence = seq, hs_FragmentOffset = of_nat (fst p),
      hs_FragmentLength = of_nat (length (snd p))\<rparr>"

text \<open>The first 13 bytes of a handshake record of epoch \<open>e\<close>.\<close>

definition handshake_record :: "u16 \<Rightarrow> bytes \<Rightarrow> bool" where
  "handshake_record e hb \<longleftrightarrow> (\<exists>h. Header_Marshal h = Ok hb \<and> Header_Version h \<in> {Version1_0, Version1_2} \<and>
     Header_ContentType h = ContentTypeHandshake \<and> ConnectionID h = [] \<and> Epoch h = e)"

definition piece_record :: "Type \<Rightarrow> nat \<Rightarrow> u16 \<Rightarrow> bytes \<times> nat \<times> bytes \<Rightarrow> bytes" where
  "piece_record t len seq = (\<lambda>(hb, p). hb @ hs_Header_Marshal (piece_header t len seq p) @ snd p)"

lemma pieces_bounds: "(n, c) \<in> set (pieces off cs) \<Longrightarrow> off \<le> n \<and> n + length c \<le> off + length (concat cs) \<and> c \<in> set cs"
  by (induction cs arbitrary: off) fastforce+

lemma pieces_offsets: "\<lbrakk>p \<in> set (pieces off cs); q \<in> set (pieces off cs); fst p = fst q; [] \<notin> set cs\<rbrakk> \<Longrightarrow> p = q"
proof (induction cs arbitrary: off)
  case (Cons c cs)
  have "off < n" if "(n, d) \<in> set (pieces (off + length c) cs)" for n d
    using pieces_bounds [OF that] Cons.prems(4) by (cases c) auto
  then show ?case using Cons.prems Cons.IH [of "off + length c"] by (cases p; cases q) fastforce
qed simp

lemma pieces_distinct: "[] \<notin> set cs \<Longrightarrow> distinct (pieces off cs)"
proof (induction cs arbitrary: off)
  case (Cons c cs)
  have "(off, c) \<notin> set (pieces (off + length c) cs)"
    using pieces_bounds [of off c "off + length c" cs] Cons.prems by (cases c) auto
  then show ?case using Cons by simp
qed simp

lemma pieces_sum: "sum_list (map (\<lambda>(_, c). length c) (pieces off cs)) = length (concat cs)"
  by (induction cs arbitrary: off) auto

lemma of_nat_u32_inj: "\<lbrakk>(of_nat m :: u32) = of_nat n; m < 2 ^ 24; n < 2 ^ 24\<rbrakk> \<Longrightarrow> m = n"
  by (metis unat_of_nat_24)

lemma fb_push_piece:
  assumes hb: "handshake_record e hb" and len: "fst p + length (snd p) \<le> len" "len < 2 ^ 24"
    and new: "\<not> seq < currentMessageSequenceNumber f"
    and room: "totalBufferSize f + int (length (piece_record t len seq (hb, p))) < fragmentBufferMaxSize"
      "totalFragmentCount f < fragmentBufferMaxCount"
  obtains h where "fb_push f (piece_record t len seq (hb, p)) =
      (store_fragment h (piece_header t len seq p) (snd p) f, Ok (True, False))" "Epoch h = e"
proof -
  let ?hh = "piece_header t len seq p" and ?b = "piece_record t len seq (hb, p)"
  obtain h where h: "Header_Marshal h = Ok hb" "Header_Version h \<in> {Version1_0, Version1_2}"
    "Header_ContentType h = ContentTypeHandshake" "ConnectionID h = []" "Epoch h = e"
    using hb unfolding handshake_record_def by blast
  have hd: "Header_Unmarshal [] (hb @ r) = Ok h" for r
    by (rule Header_Unmarshal_Marshal [OF h(1,2)]) (simp add: h content_types)
  have lhb: "length hb = FixedHeaderSize"
    using h(1,4) by (auto simp: Header_Marshal_def FixedHeaderSize_def split: if_splits)
  have small: "fst p < 2 ^ 24" "length (snd p) < 2 ^ 24" using len by simp_all
  have wf: "hs_Header_wf ?hh"
    using len(2) small unat_of_nat_24 [OF len(2)] unat_of_nat_24 [OF small(1)] unat_of_nat_24 [OF small(2)]
    by (simp add: hs_Header_wf_def piece_header_def)
  have fl: "unat (hs_FragmentLength ?hh) = length (snd p)" by (simp add: piece_header_def unat_of_nat_24 [OF small(2)])
  have "unat (of_nat HeaderLength + hs_FragmentLength ?hh) = HeaderLength + length (snd p)"
    using unat_end [of "hs_FragmentLength ?hh"] fl small(2) by simp
  moreover have "hs_MessageSequence ?hh = seq" by (simp add: piece_header_def)
  moreover have "length (hs_Header_Marshal ?hh) = HeaderLength" by (rule length_hs_Header)
  moreover have "hs_Header_Marshal ?hh \<noteq> []" by (simp add: hs_Header_Marshal_def)
  ultimately have "push_loop h (hs_Header_Marshal ?hh @ snd p) False f =
      push_loop h [] False (store_fragment h ?hh (snd p) f)"
    using new by (subst push_loop.simps) (simp add: hs_Header_read(1) [OF wf])
  also have "\<dots> = (store_fragment h ?hh (snd p) f, Ok (True, False))" by (subst push_loop.simps) simp
  finally have "fb_push f ?b = (store_fragment h ?hh (snd p) f, Ok (True, False))"
    using room hd h(3) lhb by (simp add: fb_push_def fb_size_def piece_record_def slice_from_def)
  then show thesis using h(5) that by blast
qed

definition piece_fragment :: "Type \<Rightarrow> nat \<Rightarrow> u16 \<Rightarrow> u16 \<Rightarrow> nat \<times> bytes \<Rightarrow> fragment \<Rightarrow> bool" where
  "piece_fragment t len seq e p fr \<longleftrightarrow>
     handshakeHeader fr = piece_header t len seq p \<and> frag_data fr = snd p \<and> Epoch (recordLayerHeader fr) = e"

text \<open>Of the message with the current sequence number the buffer has the pieces in \<open>D\<close>.\<close>

definition assembling :: "Type \<Rightarrow> nat \<Rightarrow> u16 \<Rightarrow> u16 \<Rightarrow> (nat \<times> bytes) set \<Rightarrow> fragmentBuffer \<Rightarrow> bool" where
  "assembling t len seq e D f \<longleftrightarrow> fb_inv f \<and> currentMessageSequenceNumber f = seq \<and>
     (case map_of (cache f) seq of
        None \<Rightarrow> D = {}
      | Some frs \<Rightarrow> handshakeLength frs = of_nat len \<and>
          (\<forall>off fr. (off, fr) \<in> set (fragmentByOffset frs) \<longrightarrow>
             (\<exists>p \<in> D. off = of_nat (fst p) \<and> piece_fragment t len seq e p fr)) \<and>
          (\<forall>p \<in> D. map_of (fragmentByOffset frs) (of_nat (fst p)) \<noteq> None))"

lemma assembling_step:
  assumes as: "assembling t len seq e D f" and h: "Epoch h = e" and len: "fst p + length (snd p) \<le> len" "len < 2 ^ 24"
    and room: "totalBufferSize f + int (length (snd p)) < fragmentBufferMaxSize"
  shows "assembling t len seq e (insert p D) (store_fragment h (piece_header t len seq p) (snd p) f)"
proof -
  let ?hh = "piece_header t len seq p" and ?f = "store_fragment h (piece_header t len seq p) (snd p) f"
  have inv: "fb_inv f" and cur: "currentMessageSequenceNumber f = seq" using as by (simp_all add: assembling_def)
  have hh: "hs_MessageSequence ?hh = seq" "hs_FragmentOffset ?hh = of_nat (fst p)" "hs_Length ?hh = of_nat len"
    by (simp_all add: piece_header_def)
  have "length (snd p) < 2 ^ 24" using len by simp
  then have fl: "unat (hs_FragmentLength ?hh) = length (snd p)" using unat_of_nat_24 by (simp add: piece_header_def)
  note st = store_fragment_inv [OF inv fl room, of h, unfolded hh cur, simplified]
  define frs where "frs = entry f ?hh"
  have frs: "handshakeLength frs = of_nat len"
      "\<And>off fr. (off, fr) \<in> set (fragmentByOffset frs) \<Longrightarrow> \<exists>p \<in> D. off = of_nat (fst p) \<and> piece_fragment t len seq e p fr"
      "\<And>p. p \<in> D \<Longrightarrow> map_of (fragmentByOffset frs) (of_nat (fst p)) \<noteq> None"
    using as by (auto simp: assembling_def frs_def entry_def hh split: option.splits)
  define frs' where "frs' = (if map_of (fragmentByOffset frs) (of_nat (fst p)) = None then add_fragment h ?hh (snd p) frs else frs)"
  have "cache ?f = AList.update seq frs' (cache f)" by (simp add: store_fragment_alt hh frs'_def frs_def)
  then have m: "map_of (cache ?f) seq = Some frs'" by (simp add: update_conv')
  have A: "handshakeLength frs' = of_nat len" by (simp add: frs'_def frs(1) add_fragment_def)
  have B: "\<exists>q \<in> insert p D. off = of_nat (fst q) \<and> piece_fragment t len seq e q fr"
    if "(off, fr) \<in> set (fragmentByOffset frs')" for off fr
    using that frs(2) [of off fr] h by (auto simp: frs'_def add_fragment_def hh piece_fragment_def split: if_splits)
  have C: "map_of (fragmentByOffset frs') (of_nat (fst q)) \<noteq> None" if "q \<in> insert p D" for q
    using that frs(3) [of q] by (auto simp: frs'_def add_fragment_def hh map_add_def split: option.splits)
  show ?thesis unfolding assembling_def m option.case by (intro conjI allI impI ballI st(1,3) A B C)
qed

lemma assembling_all:
  assumes "\<forall>(hb, p) \<in> set ds. handshake_record e hb \<and> fst p + length (snd p) \<le> len" "len < 2 ^ 24"
  shows "\<lbrakk>assembling t len seq e D f;
      totalBufferSize f + int (sum_list (map (length \<circ> piece_record t len seq) ds)) < fragmentBufferMaxSize;
      totalFragmentCount f + int (length ds) \<le> fragmentBufferMaxCount\<rbrakk> \<Longrightarrow>
    assembling t len seq e (D \<union> snd ` set ds) (fold (\<lambda>b f. fst (fb_push f b)) (map (piece_record t len seq) ds) f)"
  using assms(1)
proof (induction ds arbitrary: D f)
  case (Cons d ds)
  obtain hb p where d: "d = (hb, p)" by (cases d)
  have hb: "handshake_record e hb" and p: "fst p + length (snd p) \<le> len" using Cons.prems(4) by (auto simp: d)
  have cur: "currentMessageSequenceNumber f = seq" and inv: "fb_inv f" using Cons.prems(1) by (simp_all add: assembling_def)
  obtain h where push: "fb_push f (piece_record t len seq (hb, p)) =
      (store_fragment h (piece_header t len seq p) (snd p) f, Ok (True, False))" and h: "Epoch h = e"
    using fb_push_piece [OF hb p assms(2), of seq f t] Cons.prems(2,3) cur by (auto simp: d)
  let ?f = "store_fragment h (piece_header t len seq p) (snd p) f"
  have le: "length (snd p) \<le> length (piece_record t len seq (hb, p))" by (simp add: piece_record_def)
  then have room: "totalBufferSize f + int (length (snd p)) < fragmentBufferMaxSize" using Cons.prems(2) by (simp add: d)
  have "length (snd p) < 2 ^ 24" using p assms(2) by simp
  then have fl: "unat (hs_FragmentLength (piece_header t len seq p)) = length (snd p)" using unat_of_nat_24 by (simp add: piece_header_def)
  have "\<not> hs_MessageSequence (piece_header t len seq p) < currentMessageSequenceNumber f" by (simp add: piece_header_def cur)
  note st = store_fragment_inv [OF inv fl room this, of h]
  have "totalFragmentCount ?f \<le> totalFragmentCount f + 1" by (simp add: store_fragment_alt)
  then have "assembling t len seq e (insert p D \<union> snd ` set ds) (fold (\<lambda>b f. fst (fb_push f b)) (map (piece_record t len seq) ds) ?f)"
    using Cons.prems(2,3,4) st(2) le
    by (intro Cons.IH assembling_step [OF Cons.prems(1) h p assms(2) room]) (auto simp: d)
  then show ?case by (simp add: d push)
qed simp

lemma pop_loop_pieces:
  assumes "handshakeLength frs = of_nat len" "len < 2 ^ 24"
  shows "\<lbrakk>\<forall>p \<in> set (pieces off cs). \<exists>fr. map_of (fragmentByOffset frs) (of_nat (fst p)) = Some fr \<and> piece_fragment t len seq e p fr;
      off + length (concat cs) = len; [] \<notin> set cs; length cs \<le> k\<rbrakk> \<Longrightarrow>
    pop_loop frs k (of_nat off) raw = Some (raw @ concat cs)"
proof (induction cs arbitrary: off k raw)
  case Nil
  then show ?case using assms(1) by (cases k) simp_all
next
  case (Cons c cs)
  obtain k' where k: "k = Suc k'" using Cons.prems(4) by (cases k) simp_all
  obtain fr where fr: "map_of (fragmentByOffset frs) (of_nat off) = Some fr" "piece_fragment t len seq e (off, c) fr"
    using Cons.prems(1) by force
  have "off < len" using Cons.prems(2,3) by (cases c) auto
  then have "(of_nat off :: u32) < of_nat len"
    using assms(2) unat_of_nat_24 [of off] unat_of_nat_24 [of len] by (simp add: word_less_nat_alt)
  moreover have "pop_loop frs k' (of_nat (off + length c)) (raw @ c) = Some ((raw @ c) @ concat cs)"
    by (rule Cons.IH) (use Cons.prems k in auto)
  moreover have "handshakeHeader fr = piece_header t len seq (off, c)" "frag_data fr = c"
    using fr(2) by (simp_all add: piece_fragment_def)
  ultimately show ?case by (simp add: k fr(1) assms(1) piece_header_def)
qed

lemma assembled_pop:
  assumes as: "assembling t len seq e (set (pieces 0 cs)) f" and cs: "[] \<notin> set cs" "cs \<noteq> []" and len: "len = length (concat cs)" "len < 2 ^ 24"
  obtains f' where "fb_pop f = Ok (Some (hs_Header_Marshal (piece_header t len seq (0, concat cs)) @ concat cs, e), f')"
    "currentMessageSequenceNumber f' = seq + 1" "map_of (cache f') seq = None"
proof -
  have inv: "fb_inv f" and cur: "currentMessageSequenceNumber f = seq" using as by (simp_all add: assembling_def)
  have ne: "set (pieces 0 cs) \<noteq> {}" using cs(2) by (cases cs) simp_all
  obtain frs where some: "map_of (cache f) seq = Some frs"
    using as ne by (cases "map_of (cache f) seq") (simp_all add: assembling_def)
  then have frs: "map_of (cache f) seq = Some frs" "handshakeLength frs = of_nat len"
      "\<And>off fr. (off, fr) \<in> set (fragmentByOffset frs) \<Longrightarrow> \<exists>p \<in> set (pieces 0 cs). off = of_nat (fst p) \<and> piece_fragment t len seq e p fr"
      "\<And>p. p \<in> set (pieces 0 cs) \<Longrightarrow> map_of (fragmentByOffset frs) (of_nat (fst p)) \<noteq> None"
    using as by (simp_all add: assembling_def)
  have ok: "frags_ok seq frs" using inv map_of_SomeD [OF frs(1)] by (auto simp: fb_inv_def)
  have lt: "fst p < 2 ^ 24" if "p \<in> set (pieces 0 cs)" for p
    using pieces_bounds [of "fst p" "snd p" 0 cs] that len by simp
  have at: "\<exists>fr. map_of (fragmentByOffset frs) (of_nat (fst p)) = Some fr \<and> piece_fragment t len seq e p fr"
    if p: "p \<in> set (pieces 0 cs)" for p
  proof -
    obtain fr where fr: "map_of (fragmentByOffset frs) (of_nat (fst p)) = Some fr" using frs(4) [OF p] by auto
    obtain q where q: "q \<in> set (pieces 0 cs)" "(of_nat (fst p) :: u32) = of_nat (fst q)" "piece_fragment t len seq e q fr"
      using frs(3) [OF map_of_SomeD [OF fr]] by blast
    then have "fst p = fst q" using of_nat_u32_inj lt p by blast
    then have "p = q" using pieces_offsets [OF p q(1)] cs(1) by blast
    then show ?thesis using fr q(3) by blast
  qed
  define view where "view = map (\<lambda>(off, fr). (unat off, frag_data fr)) (fragmentByOffset frs)"
  have "distinct (map fst (fragmentByOffset frs))" using ok by (simp add: frags_ok_def)
  then have "distinct (map fst view)" unfolding view_def map_map comp_def
    by (simp add: distinct_map inj_on_def case_prod_beta word_unat_eq_iff)
  then have dv: "distinct view" by (simp add: distinct_map)
  have "set view = set (pieces 0 cs)"
  proof
    show "set view \<subseteq> set (pieces 0 cs)"
    proof
      fix v assume "v \<in> set view"
      then obtain off fr where v: "(off, fr) \<in> set (fragmentByOffset frs)" "v = (unat off, frag_data fr)" by (auto simp: view_def)
      then obtain p where p: "p \<in> set (pieces 0 cs)" "off = of_nat (fst p)" "frag_data fr = snd p"
        using frs(3) [OF v(1)] by (auto simp: piece_fragment_def)
      then have "v = p" using v(2) unat_of_nat_24 [OF lt [OF p(1)]] by simp
      then show "v \<in> set (pieces 0 cs)" using p(1) by simp
    qed
    show "set (pieces 0 cs) \<subseteq> set view"
    proof
      fix p assume p: "p \<in> set (pieces 0 cs)"
      obtain fr where fr: "map_of (fragmentByOffset frs) (of_nat (fst p)) = Some fr" "frag_data fr = snd p"
        using at [OF p] by (auto simp: piece_fragment_def)
      then have "(unat (of_nat (fst p) :: u32), frag_data fr) \<in> set view" using map_of_SomeD [OF fr(1)] by (force simp: view_def)
      then show "p \<in> set view" using fr(2) unat_of_nat_24 [OF lt [OF p]] by simp
    qed
  qed
  then have perm: "mset view = mset (pieces 0 cs)" using dv pieces_distinct [OF cs(1)] by (simp add: set_eq_iff_mset_eq_distinct)
  have "stored_bytes frs = sum_list (map (\<lambda>(_, c). length c) view)"
    by (simp add: stored_bytes_def view_def comp_def case_prod_unfold)
  also have "\<dots> = sum_list (map (\<lambda>(_, c). length c) (pieces 0 cs))" using perm by (metis mset_map sum_mset_sum_list)
  finally have bytes: "stored_bytes frs = len" by (simp add: pieces_sum len)
  then have fl: "fragmentsLength frs = of_nat len" using ok unat_of_nat_24 [OF len(2)] by (simp add: frags_ok_def word_unat_eq_iff)
  have "length (fragmentByOffset frs) = length (pieces 0 cs)" using perm by (metis length_map size_mset view_def)
  moreover have "length (pieces off cs) = length cs" for off by (induction cs arbitrary: off) simp_all
  ultimately have n: "length cs \<le> length (fragmentByOffset frs)" by simp
  have raw: "pop_loop frs (length (fragmentByOffset frs)) 0 [] = Some (concat cs)"
    using pop_loop_pieces [OF frs(2) len(2), of 0 cs t seq e "length (fragmentByOffset frs)" "[]"] at n cs(1) len(1) by simp
  obtain c cs' where c: "cs = c # cs'" using cs(2) by (cases cs) simp_all
  obtain first where first: "map_of (fragmentByOffset frs) 0 = Some first" "piece_fragment t len seq e (0, c) first"
    using at [of "(0, c)"] by (auto simp: c)
  then have hh: "(handshakeHeader first)\<lparr>hs_FragmentOffset := 0, hs_FragmentLength := hs_Length (handshakeHeader first)\<rparr> =
      piece_header t len seq (0, concat cs)" "Epoch (recordLayerHeader first) = e"
    by (simp_all add: piece_fragment_def piece_header_def len(1))
  define f' where "f' = f\<lparr>totalBufferSize := totalBufferSize f - int (unat (fragmentsLength frs)),
      totalFragmentCount := totalFragmentCount f - int (length (fragmentByOffset frs)),
      cache := AList.delete (currentMessageSequenceNumber f) (cache f),
      currentMessageSequenceNumber := currentMessageSequenceNumber f + 1\<rparr>"
  have "fb_pop f = Ok (Some (hs_Header_Marshal (piece_header t len seq (0, concat cs)) @ concat cs, e), f')"
    unfolding fb_pop_def
    by (simp only: cur frs(1) option.case fl frs(2) raw unat_of_nat_24 [OF len(2)] first(1) Let_def hh if_False f'_def)
      (simp add: len(1))
  moreover have "currentMessageSequenceNumber f' = seq + 1" "map_of (cache f') seq = None"
    by (simp_all add: f'_def cur delete_conv')
  ultimately show thesis by (rule that)
qed

section \<open>The nil pointer\<close>

lemma fb_pop_Panic:
  "fb_pop f = Panic \<longleftrightarrow>
     (\<exists>frs. map_of (cache f) (currentMessageSequenceNumber f) = Some frs \<and> fragmentsLength frs = 0 \<and> handshakeLength frs = 0 \<and>
        map_of (fragmentByOffset frs) 0 = None)"
proof (cases "map_of (cache f) (currentMessageSequenceNumber f)")
  case None
  then show ?thesis by (simp add: fb_pop_def)
next
  case (Some frs)
  show ?thesis
  proof (cases "map_of (fragmentByOffset frs) 0 = None")
    case True
    have "pop_loop frs n 0 [] = (if handshakeLength frs = 0 \<or> n = 0 then Some [] else None)" for n
      using True by (cases n) (simp_all add: word_gt_0)
    then show ?thesis using Some True by (auto simp: fb_pop_def unat_eq_0)
  next
    case False
    then obtain first where "map_of (fragmentByOffset frs) 0 = Some first" by auto
    then show ?thesis using Some by (auto simp: fb_pop_def Let_def split: option.split)
  qed
qed

text \<open>The first record of a connection: an empty fragment, at an offset, of an empty message.\<close>

definition crash_record :: bytes where
  "crash_record = [22, 0xfe, 0xfd, 0, 0, 0, 0, 0, 0, 0, 0, 0, 12, 14, 0, 0, 0, 0, 0, 0, 0, 5, 0, 0, 0]"

definition crash_prefix :: bytes where
  "crash_prefix = take 13 crash_record"

definition crash_header :: Header where
  "crash_header = \<lparr>Header_ContentType = 22, ContentLen = 12, Header_Version = \<lparr>Major = 0xfe, Minor = 0xfd\<rparr>, Epoch = 0,
     SequenceNumber = 0, ConnectionID = []\<rparr>"

definition crash_fragment :: hs_Header where
  "crash_fragment = \<lparr>hs_Type = 14, hs_Length = 0, hs_MessageSequence = 0, hs_FragmentOffset = 5, hs_FragmentLength = 0\<rparr>"

lemma crash_push:
  "fb_push newFragmentBuffer crash_record = (store_fragment crash_header crash_fragment [] newFragmentBuffer, Ok (True, False))"
proof -
  have rh: "Header_Unmarshal [] crash_record = Ok crash_header"
    by (simp add: crash_record_def crash_header_def Header_Unmarshal_def FixedHeaderSize_def at_def slice_def u16_at_def slice_from_def
        word16_def word64_def Version_Equal_def Version1_2_def content_types)
  have hh: "hs_Header_Unmarshal (drop 13 crash_record) = Ok crash_fragment"
    by (simp add: crash_record_def crash_fragment_def hs_Header_Unmarshal_def HeaderLength_def at_def u16_at_def slice_from_def
        word16_def word32_def)
  have "push_loop crash_header (drop 13 crash_record) False newFragmentBuffer =
      push_loop crash_header [] False (store_fragment crash_header crash_fragment [] newFragmentBuffer)"
    by (subst push_loop.simps)
      (simp add: hh, simp add: crash_record_def crash_fragment_def newFragmentBuffer_def HeaderLength_def)
  also have "\<dots> = (store_fragment crash_header crash_fragment [] newFragmentBuffer, Ok (True, False))"
    by (subst push_loop.simps) simp
  finally show ?thesis
    using rh by (simp add: fb_push_def fb_size_def newFragmentBuffer_def fragmentBufferMaxSize_def fragmentBufferMaxCount_def
        slice_from_def FixedHeaderSize_def crash_header_def content_types) (simp add: crash_record_def)
qed

section \<open>Properties\<close>

text \<open> C4. A message whose body was cut into pieces comes out of the buffer whole.  The fragments may arrive in any order
  and any number of times, each in a record of its own, as long as every piece arrives, no message of that sequence
  number was begun before, and the limits of the buffer are not reached.  \<open>pop\<close> then returns the message with the header
  of an unfragmented one, and goes on to the next sequence number.\<close>

theorem Fragments_reassembled:
  assumes "fb_reachable f" "currentMessageSequenceNumber f = seq" "map_of (cache f) seq = None"
    and "[] \<notin> set cs" "cs \<noteq> []" "length (concat cs) < 2 ^ 24"
    and "snd ` set ds = set (pieces 0 cs)" "\<forall>(hb, p) \<in> set ds. handshake_record e hb"
    and "totalBufferSize f + int (sum_list (map (length \<circ> piece_record t (length (concat cs)) seq) ds)) < fragmentBufferMaxSize"
    and "totalFragmentCount f + int (length ds) \<le> fragmentBufferMaxCount"
  shows "\<exists>f'. fb_pop (fold (\<lambda>b f. fst (fb_push f b)) (map (piece_record t (length (concat cs)) seq) ds) f) =
      Ok (Some (hs_Header_Marshal (piece_header t (length (concat cs)) seq (0, concat cs)) @ concat cs, e), f') \<and>
    currentMessageSequenceNumber f' = seq + 1 \<and> map_of (cache f') seq = None"
proof -
  let ?len = "length (concat cs)"
  have "assembling t ?len seq e {} f" using fb_reachable_inv [OF assms(1)] assms(2,3) by (simp add: assembling_def)
  moreover have "fst p + length (snd p) \<le> ?len" if "(hb, p) \<in> set ds" for hb p
  proof -
    have "p \<in> set (pieces 0 cs)" using that assms(7) by force
    then show ?thesis using pieces_bounds [of "fst p" "snd p" 0 cs] by simp
  qed
  ultimately have "assembling t ?len seq e ({} \<union> snd ` set ds) (fold (\<lambda>b f. fst (fb_push f b)) (map (piece_record t ?len seq) ds) f)"
    using assms(6,8,9,10) by (intro assembling_all) auto
  then have "assembling t ?len seq e (set (pieces 0 cs)) (fold (\<lambda>b f. fst (fb_push f b)) (map (piece_record t ?len seq) ds) f)"
    by (simp add: assms(7))
  then show ?thesis by (rule assembled_pop [OF _ assms(4,5) refl assms(6)]) blast
qed

theorem Fragments_reassembled_witness:
  "\<exists>f'. fb_pop (fold (\<lambda>b f. fst (fb_push f b)) (map (piece_record 1 3 0) [(crash_prefix, 2, [9]), (crash_prefix, 0, [7, 8]), (crash_prefix, 2, [9])])
      newFragmentBuffer) = Ok (Some ([1, 0, 0, 3, 0, 0, 0, 0, 0, 0, 0, 3, 7, 8, 9], 0), f')"
proof -
  let ?cs = "[[7, 8], [9]] :: bytes list"
  have "handshake_record 0 crash_prefix"
    unfolding handshake_record_def
    by (rule exI [of _ crash_header])
      (simp add: crash_header_def crash_prefix_def crash_record_def Header_Marshal_def MaxSequenceNumber_def Version1_2_def content_types be16_def
        PutBigEndianUint48_def be64_def drop_bit_eq_div)
  then have "\<exists>f'. fb_pop (fold (\<lambda>b f. fst (fb_push f b))
      (map (piece_record 1 (length (concat ?cs)) 0) [(crash_prefix, 2, [9]), (crash_prefix, 0, [7, 8]), (crash_prefix, 2, [9])])
      newFragmentBuffer) =
    Ok (Some (hs_Header_Marshal (piece_header 1 (length (concat ?cs)) 0 (0, concat ?cs)) @ concat ?cs, 0), f') \<and>
      currentMessageSequenceNumber f' = 0 + 1 \<and> map_of (cache f') 0 = None"
    by (intro Fragments_reassembled [OF fb_new])
      (auto simp: newFragmentBuffer_def fragmentBufferMaxSize_def fragmentBufferMaxCount_def piece_record_def crash_prefix_def crash_record_def
        length_hs_Header HeaderLength_def)
  moreover have len: "length (concat ?cs) = 3" by simp
  ultimately show ?thesis
    unfolding len by (auto simp: piece_header_def hs_Header_Marshal_def PutBigEndianUint24_def be16_def drop_bit_eq_div)
qed

text \<open> C30. In every state that pushes and pops of any data lead to, the size and the count that the buffer keeps are those
  of the fragments it stores, which are filed under their offsets and sequence numbers and belong to messages that are
  not assembled yet, and less than two million bytes are stored.\<close>

theorem Fragment_buffer_invariant:
  assumes "fb_reachable f"
  shows "fb_inv f"
  using assms by (rule fb_reachable_inv)

theorem Fragment_buffer_invariant_witness: "fb_inv (fst (fb_push newFragmentBuffer crash_record))"
  by (rule Fragment_buffer_invariant [OF fb_pushed [OF fb_new]])

text \<open> C18. The buffer panics, on a nil pointer, when the message to pop is empty and its fragments are at other offsets
  than 0.  One record that arrives first on a connection is enough: \<open>push\<close> accepts it, and the \<open>pop\<close> that follows in
  \<open>handleIncomingPacket\<close> panics.\<close>

theorem Fragment_buffer_crash:
  "\<exists>buf f. length buf = 25 \<and> fb_push newFragmentBuffer buf = (f, Ok (True, False)) \<and> fb_pop f = Panic"
proof (intro exI conjI)
  show "length crash_record = 25" by (simp add: crash_record_def)
  show "fb_push newFragmentBuffer crash_record = (store_fragment crash_header crash_fragment [] newFragmentBuffer, Ok (True, False))"
    by (rule crash_push)
  show "fb_pop (store_fragment crash_header crash_fragment [] newFragmentBuffer) = Panic"
    by (simp add: fb_pop_Panic store_fragment_def newFragmentBuffer_def crash_fragment_def)
qed

end
