(* ===== verification/Broker_Http.thy ===== *)
theory Broker_Http
  imports Broker_Runs Amp Go_Bytes
begin

text \<open>
  The HTTP front ends of the broker: \<open>src/broker/http.go\<close> and \<open>src/broker/amp.go\<close>.  A handler reads its request, calls an operation of the broker and writes a response.  The
  operation is an argument, a function from the argument of the call to its reply; the transition system of the
  theory \<open>Broker\<close> says which replies there are.  A handler that panics has no response.  A response has the
  headers that the handler sets.  A write to a client that has gone away fails; the handlers only log that.
\<close>

section \<open>HTTP\<close>

text \<open>What reading the body of a request gives is an error or all of the body.\<close>

record 'h request =
  Method :: string
  URL_Path :: string
  req_Body :: "err + string"
  Get_Header :: "string \<Rightarrow> string"
  req_Headers :: 'h
  req_RemoteAddr :: string

record response =
  StatusCode :: nat
  resp_Headers :: "(string \<times> string) list"
  resp_Body :: string

abbreviation (input) StatusOK :: nat where "StatusOK \<equiv> 200"
abbreviation (input) StatusBadRequest :: nat where "StatusBadRequest \<equiv> 400"
abbreviation (input) StatusNotFound :: nat where "StatusNotFound \<equiv> 404"
abbreviation (input) StatusInternalServerError :: nat where "StatusInternalServerError \<equiv> 500"
abbreviation (input) StatusServiceUnavailable :: nat where "StatusServiceUnavailable \<equiv> 503"
abbreviation (input) StatusGatewayTimeout :: nat where "StatusGatewayTimeout \<equiv> 504"

definition readLimit :: nat where "readLimit = 100000"

text \<open>\<open>io.ReadAll(http.MaxBytesReader(w, r.Body, n))\<close>.\<close>

definition ReadAll_limited :: "nat \<Rightarrow> err + string \<Rightarrow> err + string" where
  "ReadAll_limited n body =
     (case body of
        Inl e \<Rightarrow> Inl e
      | Inr b \<Rightarrow> if length b > n then Inl (Err ''http: request body too large'') else Inr b)"

definition WriteHeader :: "nat \<Rightarrow> response" where
  "WriteHeader status = \<lparr>StatusCode = status, resp_Headers = [], resp_Body = []\<rparr>"

definition http_Write :: "string \<Rightarrow> response" where
  "http_Write body = \<lparr>StatusCode = StatusOK, resp_Headers = [], resp_Body = body\<rparr>"

text \<open>The functions of \<open>realclientip\<close> that \<open>GetClientIp\<close> calls.\<close>

record ('s, 'h) realclientip =
  chain_ClientIP :: "'s list \<Rightarrow> 'h \<Rightarrow> string \<Rightarrow> string"
  NewLeftmostNonPrivateStrategy :: "string \<Rightarrow> 's"
  RemoteAddrStrategy :: 's

definition client_ip :: "('s, 'h) realclientip \<Rightarrow> 'h request \<Rightarrow> string" where
  "client_ip rc r =
     GetClientIp (chain_ClientIP rc) (NewLeftmostNonPrivateStrategy rc) (RemoteAddrStrategy rc) (req_Headers r) (req_RemoteAddr r)"

section \<open>The handlers\<close>

definition cors :: "(string \<times> string) list" where
  "cors = [(''Access-Control-Allow-Origin'', ''*''), (''Access-Control-Allow-Headers'', ''Origin, X-Session-ID'')]"

text \<open>\<open>ServeHTTP\<close> of \<open>SnowflakeHandler\<close> and of \<open>MetricsHandler\<close>.\<close>

definition ServeHTTP :: "('h request \<Rightarrow> response go) \<Rightarrow> 'h request \<Rightarrow> response go" where
  "ServeHTTP handle r =
     gmap (\<lambda>w. w\<lparr>resp_Headers := cors @ resp_Headers w\<rparr>)
       (if Method r = ''OPTIONS'' then Ok (http_Write []) else handle r)"

definition robotsTxtHandler :: "'h request \<Rightarrow> response go" where
  "robotsTxtHandler r =
     Ok ((http_Write (''User-agent: *'' @ [ch 10] @ ''Disallow: /'' @ [ch 10]))\<lparr>
           resp_Headers := [(''Content-Type'', ''text/plain; charset=utf-8'')]\<rparr>)"

text \<open>\<open>file\<close> is an error when the file cannot be opened, or what can be read of it.\<close>

definition metricsHandler :: "string \<Rightarrow> (string \<Rightarrow> err + string) \<Rightarrow> 'h request \<Rightarrow> response go" where
  "metricsHandler metricsFilename file r =
     (let plain = (''Content-Type'', ''text/plain; charset=utf-8'');
          notFound = \<lparr>StatusCode = StatusNotFound, resp_Headers = [plain, (''X-Content-Type-Options'', ''nosniff'')],
            resp_Body = ''404 page not found'' @ [ch 10]\<rparr> in
      if metricsFilename = [] then Ok notFound
      else
        (case file metricsFilename of
           Inl _ \<Rightarrow> Ok notFound
         | Inr text \<Rightarrow> Ok ((http_Write text)\<lparr>resp_Headers := [plain]\<rparr>)))"

definition debugHandler :: "string list \<Rightarrow> 'h BrokerContext \<Rightarrow> 'r request \<Rightarrow> response go" where
  "debugHandler order ctx r = Ok (http_Write (Debug order ctx))"

text \<open>The \<open>switch\<close> over the error of a proxy's call.\<close>

definition proxy_response :: "reply \<Rightarrow> response" where
  "proxy_response rep =
     (case rep of
        (None, response) \<Rightarrow> http_Write response
      | (Some e, _) \<Rightarrow>
          if e = ErrBadRequest then WriteHeader StatusBadRequest else WriteHeader StatusInternalServerError)"

definition proxyPolls :: "('s, 'h) realclientip \<Rightarrow> (Arg \<Rightarrow> reply) \<Rightarrow> 'h request \<Rightarrow> response go" where
  "proxyPolls rc ipc_ProxyPolls r =
     (case ReadAll_limited readLimit (req_Body r) of
        Inl _ \<Rightarrow> Ok (WriteHeader StatusBadRequest)
      | Inr body \<Rightarrow>
          Ok (proxy_response (ipc_ProxyPolls
            \<lparr>Body = body, RemoteAddr = client_ip rc r, Rendezvous = [], Context = None\<rparr>)))"

text \<open>\<open>Context\<close> is the time at which the call is cancelled, \<open>deadline\<close>.\<close>

definition clientOffers :: "('s, 'h) realclientip \<Rightarrow> nat \<Rightarrow> (Arg \<Rightarrow> reply) \<Rightarrow> 'h request \<Rightarrow> response go" where
  "clientOffers rc deadline ipc_ClientOffers r =
     (case ReadAll_limited readLimit (req_Body r) of
        Inl _ \<Rightarrow> Ok (WriteHeader StatusBadRequest)
      | Inr body \<Rightarrow>
          (let isLegacy = (length body > 0 \<and> body ! 0 = CHR ''{'');
               shim = (if isLegacy
                 then fst (EncodeClientPollRequest
                   \<lparr>poll_Offer = body, poll_NAT = Get_Header r ''Snowflake-NAT-Type'', poll_Fingerprint = []\<rparr>)
                 else Inr body) in
           case shim of
             Inl _ \<Rightarrow> Ok (WriteHeader StatusInternalServerError)
           | Inr body \<Rightarrow>
               (case ipc_ClientOffers
                  \<lparr>Body = body, RemoteAddr = client_ip rc r, Rendezvous = RendezvousHttp, Context = Some deadline\<rparr> of
                  (Some _, _) \<Rightarrow> Ok (WriteHeader StatusInternalServerError)
                | (None, response) \<Rightarrow>
                    if isLegacy then
                      (case DecodeClientPollResponse response of
                         Inl _ \<Rightarrow> Ok (WriteHeader StatusInternalServerError)
                       | Inr resp \<Rightarrow>
                           if poll_Error resp = [] then Ok (http_Write (poll_Answer resp))
                           else if poll_Error resp = StrNoProxies then Ok (WriteHeader StatusServiceUnavailable)
                           else if poll_Error resp = StrTimedOut then Ok (WriteHeader StatusGatewayTimeout)
                           else Panic)
                    else Ok (http_Write response))))"

definition bytes_Contains :: "string \<Rightarrow> string \<Rightarrow> bool" where
  "bytes_Contains s sub = (\<exists>i \<le> length s. HasPrefix (drop i s) sub)"

definition validateSDP :: "string \<Rightarrow> err option" where
  "validateSDP sdp = (if \<not> bytes_Contains sdp ''a=candidate'' then Some (Err ''SDP contains no candidate'') else None)"

definition proxyAnswers :: "('s, 'h) realclientip \<Rightarrow> (Arg \<Rightarrow> reply) \<Rightarrow> 'h request \<Rightarrow> response go" where
  "proxyAnswers rc ipc_ProxyAnswers r =
     (case ReadAll_limited readLimit (req_Body r) of
        Inl _ \<Rightarrow> Ok (WriteHeader StatusBadRequest)
      | Inr body \<Rightarrow>
          if validateSDP body \<noteq> None then Ok (WriteHeader StatusBadRequest)
          else
            Ok (proxy_response (ipc_ProxyAnswers
              \<lparr>Body = body, RemoteAddr = client_ip rc r, Rendezvous = [], Context = None\<rparr>)))"

text \<open>The deferred \<open>Close\<close> of the encoder runs whether or not the write fails.\<close>

definition ampClientOffers :: "('s, 'h) realclientip \<Rightarrow> nat \<Rightarrow> (Arg \<Rightarrow> reply) \<Rightarrow> 'h request \<Rightarrow> response go" where
  "ampClientOffers rc deadline ipc_ClientOffers r =
     (let path = TrimPrefix (URL_Path r) ''/amp/client/'' in
      if path = URL_Path r then Ok (WriteHeader StatusInternalServerError)
      else
        (case (case DecodePath path of
                 Inr encPollReq \<Rightarrow>
                   ipc_ClientOffers \<lparr>Body = encPollReq, RemoteAddr = client_ip rc r, Rendezvous = RendezvousAmpCache,
                                     Context = Some deadline\<rparr>
               | Inl _ \<Rightarrow>
                   (case ClientPollResponse_EncodePollResponse \<lparr>poll_Answer = [], poll_Error = ''cannot decode URL path''\<rparr> of
                      Inl e \<Rightarrow> (Some e, [])
                    | Inr response \<Rightarrow> (None, response))) of
           (Some _, _) \<Rightarrow> Ok (WriteHeader StatusInternalServerError)
         | (None, response) \<Rightarrow>
             (let w = (\<lambda>out. \<lparr>StatusCode = StatusOK,
                    resp_Headers = [(''Content-Type'', ''text/html''), (''Cache-Control'', ''max-age=15'')],
                    resp_Body = wout out\<rparr>) in
              case NewArmorEncoder (bytes_Buffer []) of
                (Inl _, out) \<Rightarrow> Ok (w out)
              | (Inr enc, _) \<Rightarrow> Ok (w (ee_w (ae_element (snd (armor_Close (snd (armor_Write enc response))))))))))"

section \<open>Lemmas\<close>

text \<open>What the broker answers to a request that it refuses at once reaches the client as it is.\<close>

lemma Decode_client_error:
  assumes "valid_utf8 msg" "msg \<noteq> []"
  shows "\<exists>data. client_error msg = (None, data) \<and>
    DecodeClientPollResponse data = Inr \<lparr>poll_Answer = [], poll_Error = msg\<rparr>"
proof -
  have "json_Unmarshal ClientPollResponse_fields (json_print (JObj [(''error'', JStr msg)]))
      \<lparr>poll_Answer = [], poll_Error = []\<rparr> = Inr \<lparr>poll_Answer = [], poll_Error = msg\<rparr>"
    using assms by (simp add: Unmarshal_Marshal ClientPollResponse_fields_def decode_simps valid_utf8_def del: json_print.simps)
  with assms(2) show ?thesis
    by (simp add: client_error_def sendClientResponse_def ClientPollResponse_EncodePollResponse_def json_Marshal_def
        DecodeClientPollResponse_def del: json_print.simps)
qed

text \<open>The request that a legacy offer is turned into, when the offer is no session description.\<close>

lemma shim_malformed:
  assumes "valid_utf8 body" "body \<noteq> []" "DeserializeSessionDescription body = Inl e"
  shows "\<exists>data. fst (EncodeClientPollRequest \<lparr>poll_Offer = body, poll_NAT = natt, poll_Fingerprint = []\<rparr>) = Inr data \<and>
    DecodeClientPollRequest data = Inl (Errorf ''malformed session description: '' e)"
proof -
  let ?ms = "[(''offer'', JStr body), (''nat'', JStr natt), (''fingerprint'', JStr defaultBridgeFingerprint)]"
  have "json_Unmarshal ClientPollRequest_fields (json_print (JObj ?ms))
          \<lparr>poll_Offer = [], poll_NAT = [], poll_Fingerprint = []\<rparr> =
        Inr \<lparr>poll_Offer = body, poll_NAT = to_valid natt, poll_Fingerprint = to_valid defaultBridgeFingerprint\<rparr>"
    using assms(1)
    by (simp add: Unmarshal_Marshal ClientPollRequest_fields_def decode_simps valid_utf8_def del: json_print.simps)
  with assms(2,3) show ?thesis
    by (simp add: EncodeClientPollRequest_def json_Marshal_def DecodeClientPollRequest_def split_newline_version Let_def
        del: json_print.simps)
qed

lemma ampClientOffers_armor:
  assumes "DecodePath path = Inr data" "URL_Path r = ''/amp/client/'' @ path"
    and "ipc \<lparr>Body = data, RemoteAddr = client_ip rc r, Rendezvous = RendezvousAmpCache, Context = Some deadline\<rparr> = (None, response)"
    and "armor_encode [response] = Inr doc"
  shows "\<exists>w. ampClientOffers rc deadline ipc r = Ok w \<and> StatusCode w = StatusOK \<and> resp_Body w = doc"
  using assms TrimPrefix_append [of "''/amp/client/''" path]
  by (auto simp: ampClientOffers_def armor_encode_def Let_def simp del: TrimPrefix_append split: prod.splits sum.splits option.splits)

section \<open>Properties\<close>

text \<open> C22. A body that begins with a brace and is no session description, posted to the client endpoint, makes the
  handler panic: the broker answers the request it is turned into with an error message that the switch over the
  known messages does not have.  The reply to a request that \<open>ClientOffers\<close> refuses at once does not depend on the
  other goroutines; \<open>Error\<close> gives the message of an error and \<open>fmt.Errorf\<close> puts its text before that of the
  error it wraps.\<close>

theorem legacy_offer_panics:
  assumes "Method r \<noteq> ''OPTIONS''" "req_Body r = Inr body" "length body \<le> readLimit" "HasPrefix body ''{''"
    and "valid_utf8 body" "DeserializeSessionDescription body = Inl e"
    and "\<And>arg rep. ClientOffers_begin Error arg ctx = Inl rep \<Longrightarrow> ipc arg = rep"
    and "\<And>p e. Error (Errorf p e) = p @ Error e" "valid_utf8 (''malformed session description: '' @ Error e)"
  shows "ServeHTTP (clientOffers rc deadline ipc) r = Panic"
proof -
  obtain cs where body: "body = CHR ''{'' # cs" using assms(4) by (auto simp: HasPrefix_iff)
  obtain data where data: "DecodeClientPollRequest data = Inl (Errorf ''malformed session description: '' e)"
      "fst (EncodeClientPollRequest
        \<lparr>poll_Offer = body, poll_NAT = Get_Header r ''Snowflake-NAT-Type'', poll_Fingerprint = []\<rparr>) = Inr data"
    using shim_malformed [OF assms(5) _ assms(6)] body by blast
  obtain resp where resp: "client_error (''malformed session description: '' @ Error e) = (None, resp)"
      "DecodeClientPollResponse resp = Inr \<lparr>poll_Answer = [], poll_Error = ''malformed session description: '' @ Error e\<rparr>"
    using Decode_client_error [OF assms(9)] by auto
  have "ipc \<lparr>Body = data, RemoteAddr = client_ip rc r, Rendezvous = RendezvousHttp, Context = Some deadline\<rparr> = (None, resp)"
    by (rule assms(7)) (use resp(1) in \<open>simp add: ClientOffers_begin_def data(1) assms(8)\<close>)
  then have "clientOffers rc deadline ipc r = Panic"
    using data(2) resp(2) assms(2,3)
    by (simp add: clientOffers_def ReadAll_limited_def body StrNoProxies_def StrTimedOut_def)
  then show ?thesis using assms(1) by (simp add: ServeHTTP_def)
qed

text \<open>The theorem for the body \<open>{\<close>.\<close>

lemma brace_malformed: "DeserializeSessionDescription ''{'' = Inl json_SyntaxError"
  by (simp add: DeserializeSessionDescription_def json_Unmarshal_map_def json_parse_def parse_value.simps skip_ws_def)

fun sample_Error :: "err \<Rightarrow> string" where
  "sample_Error (Errorf p e) = p @ sample_Error e"
| "sample_Error _ = ''unexpected end of JSON input''"

definition sample_ipc :: "Arg \<Rightarrow> reply" where
  "sample_ipc arg =
     (case ClientOffers_begin sample_Error arg (NewBrokerContext [] :: unit BrokerContext) of
        Inl rep \<Rightarrow> rep | Inr _ \<Rightarrow> (Some ErrInternal, []))"

definition sample_request :: "unit request" where
  "sample_request = \<lparr>Method = ''POST'', URL_Path = ''/client'', req_Body = Inr ''{'', Get_Header = (\<lambda>_. []),
     req_Headers = (), req_RemoteAddr = []\<rparr>"

definition sample_realclientip :: "(string, unit) realclientip" where
  "sample_realclientip =
     \<lparr>chain_ClientIP = (\<lambda>_ _ addr. addr), NewLeftmostNonPrivateStrategy = id, RemoteAddrStrategy = []\<rparr>"

theorem legacy_offer_panics_witness:
  "ServeHTTP (clientOffers sample_realclientip 5 sample_ipc) sample_request = Panic"
proof (rule legacy_offer_panics)
  show "DeserializeSessionDescription ''{'' = Inl json_SyntaxError" by (rule brace_malformed)
  show "ClientOffers_begin sample_Error arg (NewBrokerContext [] :: unit BrokerContext) = Inl rep \<Longrightarrow> sample_ipc arg = rep" for arg rep
    by (simp add: sample_ipc_def)
qed (simp_all add: sample_request_def readLimit_def HasPrefix_def valid_utf8_def ascii_def)

end
