(* ===== verification/Go_Url.thy ===== *)
theory Go_Url
  imports Go_Net
begin

text \<open>
  What the sources use of Go's packages \<open>net/url\<close> and \<open>path\<close>: the URL with its parser and printer, the escaping
  of its parts, the resolution of a relative path, and \<open>path.Join\<close>.
\<close>

section \<open>Strings\<close>

text \<open>\<open>strings.Cut\<close> at a byte: before, after, found.\<close>

definition strings_Cut :: "string \<Rightarrow> char \<Rightarrow> string \<times> string \<times> bool" where
  "strings_Cut s c =
     (case dropWhile (\<lambda>d. d \<noteq> c) s of
        [] \<Rightarrow> (s, [], False)
      | _ # rest \<Rightarrow> (takeWhile (\<lambda>d. d \<noteq> c) s, rest, True))"

definition to_lower :: "char \<Rightarrow> char" where
  "to_lower c = (if 65 \<le> code c \<and> code c \<le> 90 then ch (code c + 32) else c)"

definition is_letter :: "char \<Rightarrow> bool" where
  "is_letter c \<longleftrightarrow> 65 \<le> code c \<and> code c \<le> 90 \<or> 97 \<le> code c \<and> code c \<le> 122"

definition is_dec :: "char \<Rightarrow> bool" where
  "is_dec c \<longleftrightarrow> 48 \<le> code c \<and> code c \<le> 57"

section \<open>Escaping\<close>

datatype encoding = encodePath | encodePathSegment | encodeHost | encodeZone | encodeUserPassword | encodeFragment

definition shouldEscape :: "char \<Rightarrow> encoding \<Rightarrow> bool" where
  "shouldEscape c mode =
     (if is_letter c \<or> is_dec c then False
      else if (mode = encodeHost \<or> mode = encodeZone) \<and> c \<in> set (''!$&()*+,;=:[]<>'' @ [ch 39, ch 34]) then False
      else if c \<in> set ''-_.~'' then False
      else if c \<in> set ''$&+,/:;=?@'' \<and> mode \<noteq> encodeHost \<and> mode \<noteq> encodeZone then
        (case mode of
           encodePath \<Rightarrow> c = CHR ''?''
         | encodePathSegment \<Rightarrow> c \<in> set ''/;,?''
         | encodeUserPassword \<Rightarrow> c \<in> set ''@/?:''
         | _ \<Rightarrow> False)
      else if mode = encodeFragment \<and> c \<in> set ''!()*'' then False
      else True)"

definition upper_hex :: "nat \<Rightarrow> char" where
  "upper_hex n = (if n < 10 then ch (48 + n) else ch (55 + n))"

definition escape :: "encoding \<Rightarrow> string \<Rightarrow> string" where
  "escape mode s =
     concat (map (\<lambda>c. if shouldEscape c mode
                      then [CHR ''%'', upper_hex (code c div 16), upper_hex (code c mod 16)] else [c]) s)"

definition EscapeError :: err where "EscapeError = Err ''invalid URL escape''"
definition InvalidHostError :: err where "InvalidHostError = Err ''invalid character in host name''"

fun unescape :: "encoding \<Rightarrow> string \<Rightarrow> err + string" where
  "unescape mode [] = Inr []"
| "unescape mode (c # s) =
     (if c = CHR ''%'' then
        (case s of
           a # b # rest \<Rightarrow>
             (case (hex_val a, hex_val b) of
                (Some x, Some y) \<Rightarrow>
                  if mode = encodeHost \<and> x < 8 \<and> \<not> (a = CHR ''2'' \<and> b = CHR ''5'') then Inl EscapeError
                  else if mode = encodeZone \<and> \<not> (a = CHR ''2'' \<and> b = CHR ''5'') \<and> ch (x * 16 + y) \<noteq> CHR '' '' \<and>
                          shouldEscape (ch (x * 16 + y)) encodeHost then Inl EscapeError
                  else (case unescape mode rest of Inl e \<Rightarrow> Inl e | Inr t \<Rightarrow> Inr (ch (x * 16 + y) # t))
              | _ \<Rightarrow> Inl EscapeError)
         | _ \<Rightarrow> Inl EscapeError)
      else if (mode = encodeHost \<or> mode = encodeZone) \<and> code c < 128 \<and> shouldEscape c mode then Inl InvalidHostError
      else (case unescape mode s of Inl e \<Rightarrow> Inl e | Inr t \<Rightarrow> Inr (c # t)))"

definition validEncoded :: "encoding \<Rightarrow> string \<Rightarrow> bool" where
  "validEncoded mode s \<longleftrightarrow> (\<forall>c \<in> set s. c \<in> set (ch 39 # ''!$&()*+,;=:@[]%'') \<or> \<not> shouldEscape c mode)"

abbreviation PathEscape :: "string \<Rightarrow> string" where "PathEscape \<equiv> escape encodePathSegment"
abbreviation PathUnescape :: "string \<Rightarrow> err + string" where "PathUnescape \<equiv> unescape encodePathSegment"

section \<open>URLs\<close>

record URL =
  Scheme :: string
  Opaque :: string
  User :: "(string \<times> string option) option"
  Host :: string
  Path :: string
  RawPath :: string
  OmitHost :: bool
  ForceQuery :: bool
  RawQuery :: string
  Fragment :: string
  RawFragment :: string

definition empty_URL :: URL where
  "empty_URL = \<lparr>Scheme = [], Opaque = [], User = None, Host = [], Path = [], RawPath = [], OmitHost = False,
     ForceQuery = False, RawQuery = [], Fragment = [], RawFragment = []\<rparr>"

definition setPath :: "string \<Rightarrow> URL \<Rightarrow> err + URL" where
  "setPath p u =
     (case unescape encodePath p of
        Inl e \<Rightarrow> Inl e
      | Inr path \<Rightarrow> Inr (u\<lparr>Path := path, RawPath := if p = escape encodePath path then [] else p\<rparr>))"

definition EscapedPath :: "URL \<Rightarrow> string" where
  "EscapedPath u =
     (if RawPath u \<noteq> [] \<and> validEncoded encodePath (RawPath u) \<and> unescape encodePath (RawPath u) = Inr (Path u)
      then RawPath u
      else if Path u = ''*'' then ''*''
      else escape encodePath (Path u))"

definition setFragment :: "string \<Rightarrow> URL \<Rightarrow> err + URL" where
  "setFragment f u =
     (case unescape encodeFragment f of
        Inl e \<Rightarrow> Inl e
      | Inr frag \<Rightarrow> Inr (u\<lparr>Fragment := frag, RawFragment := if f = escape encodeFragment frag then [] else f\<rparr>))"

definition EscapedFragment :: "URL \<Rightarrow> string" where
  "EscapedFragment u =
     (if RawFragment u \<noteq> [] \<and> validEncoded encodeFragment (RawFragment u) \<and>
         unescape encodeFragment (RawFragment u) = Inr (Fragment u)
      then RawFragment u else escape encodeFragment (Fragment u))"

subsection \<open>Hosts\<close>

definition validOptionalPort :: "string \<Rightarrow> bool" where
  "validOptionalPort port =
     (case port of [] \<Rightarrow> True | c # ds \<Rightarrow> c = CHR '':'' \<and> list_all is_dec ds)"

definition splitHostPort :: "string \<Rightarrow> string \<times> string" where
  "splitHostPort hostPort =
     (let (host, port) =
        (case split_last (CHR '':'') hostPort of
           Some (h, p) \<Rightarrow> if list_all is_dec p then (h, p) else (hostPort, [])
         | None \<Rightarrow> (hostPort, [])) in
      (if HasPrefix host ''['' \<and> HasSuffix host '']'' then butlast (tl host) else host, port))"

abbreviation Hostname :: "URL \<Rightarrow> string" where "Hostname u \<equiv> fst (splitHostPort (Host u))"
abbreviation Port :: "URL \<Rightarrow> string" where "Port u \<equiv> snd (splitHostPort (Host u))"

definition JoinHostPort :: "string \<Rightarrow> string \<Rightarrow> string" where
  "JoinHostPort host port = (if CHR '':'' \<in> set host then ''['' @ host @ '']:'' @ port else host @ '':'' @ port)"

definition parse_host_plain :: "string \<Rightarrow> err + string" where
  "parse_host_plain host =
     (case split_last (CHR '':'') host of
        Some (_, p) \<Rightarrow> if list_all is_dec p then unescape encodeHost host else Inl (Err ''invalid port after host'')
      | None \<Rightarrow> unescape encodeHost host)"

text \<open>The index of the first \<open>%25\<close>.\<close>

fun zone_index :: "string \<Rightarrow> nat option" where
  "zone_index s = (case s of [] \<Rightarrow> None | _ # t \<Rightarrow> if HasPrefix s ''%25'' then Some 0 else map_option Suc (zone_index t))"

declare zone_index.simps [simp del]

definition parseHost :: "string \<Rightarrow> err + string" where
  "parseHost host =
     (if HasPrefix host ''['' then
        (case split_last (CHR '']'') host of
           None \<Rightarrow> Inl (Err ''missing ']' in host'')
         | Some (before, colonPort) \<Rightarrow>
             if \<not> validOptionalPort colonPort then Inl (Err ''invalid port after host'')
             else
               (case zone_index before of
                  None \<Rightarrow> unescape encodeHost host
                | Some zone \<Rightarrow>
                    (case (unescape encodeHost (take zone host), unescape encodeZone (drop zone before),
                           unescape encodeHost (drop (length before) host)) of
                       (Inr h1, Inr h2, Inr h3) \<Rightarrow> Inr (h1 @ h2 @ h3)
                     | (Inl e, _) \<Rightarrow> Inl e
                     | (_, Inl e, _) \<Rightarrow> Inl e
                     | (_, _, Inl e) \<Rightarrow> Inl e)))
      else parse_host_plain host)"

definition validUserinfo :: "string \<Rightarrow> bool" where
  "validUserinfo s \<longleftrightarrow> (\<forall>c \<in> set s. is_letter c \<or> is_dec c \<or> c \<in> set (ch 39 # ''-._:~!$&()*+,;=%@''))"

definition parseAuthority :: "string \<Rightarrow> err + (string \<times> string option) option \<times> string" where
  "parseAuthority authority =
     (case split_last (CHR ''@'') authority of
        None \<Rightarrow> (case parseHost authority of Inl e \<Rightarrow> Inl e | Inr host \<Rightarrow> Inr (None, host))
      | Some (userinfo, h) \<Rightarrow>
          (case parseHost h of
             Inl e \<Rightarrow> Inl e
           | Inr host \<Rightarrow>
               if \<not> validUserinfo userinfo then Inl (Err ''net/url: invalid userinfo'')
               else
                 (case strings_Cut userinfo (CHR '':'') of
                    (username, password, found) \<Rightarrow>
                      (case (unescape encodeUserPassword username, unescape encodeUserPassword password) of
                         (Inr n, Inr p) \<Rightarrow> Inr (Some (n, if found then Some p else None), host)
                       | (Inl e, _) \<Rightarrow> Inl e
                       | (_, Inl e) \<Rightarrow> Inl e))))"

subsection \<open>Parsing and printing\<close>

text \<open>\<open>getScheme\<close>: the scheme and the rest.\<close>

fun getScheme_at :: "string \<Rightarrow> string \<Rightarrow> string \<Rightarrow> err + string \<times> string" where
  "getScheme_at rawURL acc [] = Inr ([], rawURL)"
| "getScheme_at rawURL acc (c # s) =
     (if is_letter c then getScheme_at rawURL (acc @ [c]) s
      else if is_dec c \<or> c \<in> set ''+-.'' then if acc = [] then Inr ([], rawURL) else getScheme_at rawURL (acc @ [c]) s
      else if c = CHR '':'' then if acc = [] then Inl (Err ''missing protocol scheme'') else Inr (acc, s)
      else Inr ([], rawURL))"

definition parse_rest :: "URL \<Rightarrow> string \<Rightarrow> err + URL" where
  "parse_rest u rest =
     (if \<not> HasPrefix rest ''/'' \<and> Scheme u \<noteq> [] then Inr (u\<lparr>Opaque := rest\<rparr>)
      else if \<not> HasPrefix rest ''/'' \<and> CHR '':'' \<in> set (fst (strings_Cut rest (CHR ''/''))) then
        Inl (Err ''first path segment in URL cannot contain colon'')
      else if (Scheme u \<noteq> [] \<or> \<not> HasPrefix rest ''///'') \<and> HasPrefix rest ''//'' then
        (let authority = takeWhile (\<lambda>c. c \<noteq> CHR ''/'') (drop 2 rest);
             path = dropWhile (\<lambda>c. c \<noteq> CHR ''/'') (drop 2 rest) in
         case parseAuthority authority of
           Inl e \<Rightarrow> Inl e
         | Inr (user, host) \<Rightarrow> setPath path (u\<lparr>User := user, Host := host\<rparr>))
      else if Scheme u \<noteq> [] \<and> HasPrefix rest ''/'' then setPath rest (u\<lparr>OmitHost := True\<rparr>)
      else setPath rest u)"

definition parse_url :: "string \<Rightarrow> err + URL" where
  "parse_url rawURL =
     (if \<exists>c \<in> set rawURL. code c < 32 \<or> code c = 127 then Inl (Err ''net/url: invalid control character in URL'')
      else if rawURL = ''*'' then Inr (empty_URL\<lparr>Path := ''*''\<rparr>)
      else
        (case getScheme_at rawURL [] rawURL of
           Inl e \<Rightarrow> Inl e
         | Inr (scheme, rest) \<Rightarrow>
             (let u = empty_URL\<lparr>Scheme := map to_lower scheme\<rparr> in
              if HasSuffix rest ''?'' \<and> count_list rest (CHR ''?'') = 1
              then parse_rest (u\<lparr>ForceQuery := True\<rparr>) (butlast rest)
              else (case strings_Cut rest (CHR ''?'') of (rest, q, _) \<Rightarrow> parse_rest (u\<lparr>RawQuery := q\<rparr>) rest))))"

definition url_Parse :: "string \<Rightarrow> err + URL" where
  "url_Parse rawURL =
     (case strings_Cut rawURL (CHR ''#'') of
        (u, frag, _) \<Rightarrow>
          (case parse_url u of
             Inl e \<Rightarrow> Inl (Errorf ''parse: '' e)
           | Inr url \<Rightarrow>
               if frag = [] then Inr url
               else (case setFragment frag url of Inl e \<Rightarrow> Inl (Errorf ''parse: '' e) | Inr url \<Rightarrow> Inr url)))"

definition Userinfo_String :: "string \<times> string option \<Rightarrow> string" where
  "Userinfo_String ui =
     (case ui of (n, p) \<Rightarrow>
        escape encodeUserPassword n @ (case p of None \<Rightarrow> [] | Some p \<Rightarrow> '':'' @ escape encodeUserPassword p))"

definition URL_String :: "URL \<Rightarrow> string" where
  "URL_String u =
     (let scheme = (if Scheme u \<noteq> [] then Scheme u @ '':'' else []);
          authority =
            (if (Scheme u \<noteq> [] \<or> Host u \<noteq> [] \<or> User u \<noteq> None) \<and> \<not> (OmitHost u \<and> Host u = [] \<and> User u = None) then
               (if Host u \<noteq> [] \<or> Path u \<noteq> [] \<or> User u \<noteq> None then ''//'' else []) @
               (case User u of None \<Rightarrow> [] | Some ui \<Rightarrow> Userinfo_String ui @ ''@'') @ escape encodeHost (Host u)
             else []);
          path = EscapedPath u;
          slash = (if path \<noteq> [] \<and> \<not> HasPrefix path ''/'' \<and> Host u \<noteq> [] then ''/'' else []);
          before = scheme @ authority @ slash;
          dot = (if before = [] \<and> CHR '':'' \<in> set (fst (strings_Cut path (CHR ''/''))) then ''./'' else []) in
      (if Opaque u \<noteq> [] then scheme @ Opaque u else before @ dot @ path) @
      (if ForceQuery u \<or> RawQuery u \<noteq> [] then ''?'' @ RawQuery u else []) @
      (if Fragment u \<noteq> [] then ''#'' @ EscapedFragment u else []))"

subsection \<open>References\<close>

text \<open>The elements of a path; \<open>dst\<close> is what \<open>resolvePath\<close> has written after its leading slash.\<close>

fun split_slash :: "string \<Rightarrow> string list" where
  "split_slash [] = [[]]"
| "split_slash (c # s) =
     (if c = CHR ''/'' then [] # split_slash s
      else (case split_slash s of e # es \<Rightarrow> (c # e) # es | [] \<Rightarrow> [[c]]))"

fun resolve_elems :: "string \<Rightarrow> bool \<Rightarrow> string list \<Rightarrow> string" where
  "resolve_elems dst first [] = dst"
| "resolve_elems dst first (elem # es) =
     (if elem = ''.'' then resolve_elems dst False es
      else if elem = ''..'' then
        (case split_last (CHR ''/'') dst of
           None \<Rightarrow> resolve_elems [] True es
         | Some (before, _) \<Rightarrow> resolve_elems before first es)
      else resolve_elems (dst @ (if first then [] else ''/'') @ elem) False es)"

definition resolvePath :: "string \<Rightarrow> string \<Rightarrow> string" where
  "resolvePath base ref =
     (let full =
        (if ref = [] then base
         else if hd ref \<noteq> CHR ''/'' then
           (case split_last (CHR ''/'') base of None \<Rightarrow> ref | Some (before, _) \<Rightarrow> before @ ''/'' @ ref)
         else ref) in
      if full = [] then []
      else
        (let es = split_slash full;
             r = ''/'' @ resolve_elems [] True es @ (if last es = ''.'' \<or> last es = ''..'' then ''/'' else []) in
         if HasPrefix r ''//'' then tl r else r))"

text \<open>
  \<open>ResolveReference\<close> for a reference that has nothing but a path, which is the only kind the sources use; an
  error of \<open>setPath\<close> is ignored.
\<close>

definition ResolveReference_path :: "URL \<Rightarrow> string \<Rightarrow> URL" where
  "ResolveReference_path u path =
     (let ref = empty_URL\<lparr>Path := path\<rparr>;
          url = ref\<lparr>Scheme := Scheme u, Host := Host u, User := User u\<rparr> in
      case setPath (resolvePath (EscapedPath u) (EscapedPath ref)) url of Inl _ \<Rightarrow> url | Inr url \<Rightarrow> url)"

section \<open>Paths\<close>

text \<open>\<open>path.Clean\<close>: \<open>out\<close> has the elements kept so far, the last one first.\<close>

fun clean_elems :: "bool \<Rightarrow> string list \<Rightarrow> string list \<Rightarrow> string list" where
  "clean_elems rooted out [] = rev out"
| "clean_elems rooted out (e # es) =
     (if e = [] \<or> e = ''.'' then clean_elems rooted out es
      else if e = ''..'' then
        (case out of
           o' # out' \<Rightarrow> if o' = ''..'' then clean_elems rooted (''..'' # out) es else clean_elems rooted out' es
         | [] \<Rightarrow> if rooted then clean_elems rooted [] es else clean_elems rooted [''..''] es)
      else clean_elems rooted (e # out) es)"

definition path_Clean :: "string \<Rightarrow> string" where
  "path_Clean path =
     (let rooted = HasPrefix path ''/'';
          es = clean_elems rooted [] (split_slash path);
          joined = concat (map (\<lambda>(i, e). if i = 0 then e else ''/'' @ e) (enumerate 0 es)) in
      if rooted then ''/'' @ joined else if joined = [] then ''.'' else joined)"

definition path_Join :: "string list \<Rightarrow> string" where
  "path_Join elem =
     (case filter (\<lambda>e. e \<noteq> []) elem of
        [] \<Rightarrow> []
      | e # es \<Rightarrow> path_Clean (e @ concat (map (\<lambda>e. ''/'' @ e) es)))"

section \<open>Lemmas\<close>

text \<open>The characters of host names and of the paths that the sources build need no escape.\<close>

definition host_char :: "char \<Rightarrow> bool" where
  "host_char c \<longleftrightarrow> is_letter c \<or> is_dec c \<or> c \<in> set ''-.''"

definition path_char :: "char \<Rightarrow> bool" where
  "path_char c \<longleftrightarrow> is_letter c \<or> is_dec c \<or> c \<in> set ''-._/''"

lemma host_char_special [simp]:
  "host_char c \<Longrightarrow> c \<noteq> CHR ''%'' \<and> c \<noteq> CHR ''/'' \<and> c \<noteq> CHR '':'' \<and> c \<noteq> CHR ''@'' \<and> c \<noteq> CHR ''['' \<and> c \<noteq> CHR ''?'' \<and> c \<noteq> CHR ''#'' \<and>
    32 \<le> code c \<and> code c \<noteq> 127"
  by (auto simp: host_char_def is_letter_def is_dec_def)

lemma path_char_special [simp]:
  "path_char c \<Longrightarrow> c \<noteq> CHR ''%'' \<and> c \<noteq> CHR ''?'' \<and> c \<noteq> CHR ''#'' \<and> c \<noteq> CHR ''*'' \<and> 32 \<le> code c \<and> code c \<noteq> 127"
  by (auto simp: path_char_def is_letter_def is_dec_def)

lemma not_percent [simp]: "\<not> host_char (CHR ''%'')" "\<not> path_char (CHR ''%'')"
  by (simp_all add: host_char_def path_char_def is_letter_def is_dec_def)

lemma shouldEscape_host [simp]: "host_char c \<Longrightarrow> \<not> shouldEscape c mode"
  by (auto simp: host_char_def shouldEscape_def)

lemma shouldEscape_path [simp]: "path_char c \<Longrightarrow> \<not> shouldEscape c encodePath"
  by (auto simp: path_char_def shouldEscape_def)

lemma escape_id: "\<forall>c \<in> set s. \<not> shouldEscape c mode \<Longrightarrow> escape mode s = s"
  by (induction s) (simp_all add: escape_def)

lemma unescape_id:
  "\<forall>c \<in> set s. c \<noteq> CHR ''%'' \<and> (mode = encodeHost \<or> mode = encodeZone \<longrightarrow> \<not> shouldEscape c mode) \<Longrightarrow> unescape mode s = Inr s"
  by (induction s) auto

lemma split_last_None: "c \<notin> set s \<Longrightarrow> split_last c s = None"
  by (simp add: split_last_def)

lemma strings_Cut_None: "c \<notin> set s \<Longrightarrow> strings_Cut s c = (s, [], False)"
proof -
  assume "c \<notin> set s"
  then have "dropWhile (\<lambda>d. d \<noteq> c) s = []" by (auto simp: dropWhile_eq_Nil_conv)
  then show ?thesis by (simp only: strings_Cut_def list.case)
qed

lemma getScheme_letters:
  "\<forall>c \<in> set s. is_letter c \<Longrightarrow> s \<noteq> [] \<or> acc \<noteq> [] \<Longrightarrow> getScheme_at raw acc (s @ CHR '':'' # rest) = Inr (acc @ s, rest)"
  by (induction s arbitrary: acc) (auto simp: is_letter_def is_dec_def)

text \<open>URLs with such a host and path; the parser reads back what the printer prints.\<close>

definition plain_url :: "URL \<Rightarrow> bool" where
  "plain_url u \<longleftrightarrow>
     (Scheme u = ''http'' \<or> Scheme u = ''https'') \<and> Opaque u = [] \<and> User u = None \<and>
     Host u \<noteq> [] \<and> list_all host_char (Host u) \<and> list_all path_char (Path u) \<and>
     (RawPath u = [] \<or> RawPath u = Path u) \<and> \<not> OmitHost u \<and> \<not> ForceQuery u \<and> RawQuery u = [] \<and> Fragment u = [] \<and> RawFragment u = []"

lemma plain_EscapedPath: "list_all path_char (Path u) \<Longrightarrow> RawPath u = [] \<or> RawPath u = Path u \<Longrightarrow> EscapedPath u = Path u"
  by (auto simp: EscapedPath_def escape_id list_all_iff)

lemma plain_setPath: "list_all path_char p \<Longrightarrow> setPath p u = Inr (u\<lparr>Path := p, RawPath := []\<rparr>)"
  by (simp add: setPath_def unescape_id escape_id list_all_iff)

lemma plain_parseAuthority: "list_all host_char h \<Longrightarrow> parseAuthority h = Inr (None, h)"
proof -
  assume h: "list_all host_char h"
  then have "CHR '':'' \<notin> set h" "CHR ''@'' \<notin> set h" "CHR ''['' \<notin> set h" unfolding list_all_iff using host_char_special by blast+
  moreover from this(3) have "\<not> HasPrefix h ''[''" by (auto simp: HasPrefix_iff)
  moreover have "unescape encodeHost h = Inr h" using h by (intro unescape_id) (simp add: list_all_iff)
  ultimately show ?thesis by (simp add: parseAuthority_def parseHost_def parse_host_plain_def split_last_None)
qed

lemma Parse_String:
  assumes "plain_url u" "HasPrefix (Path u) ''/''"
  shows "url_Parse (URL_String u) = Inr (u\<lparr>RawPath := []\<rparr>)"
proof -
  have u: "Scheme u = ''http'' \<or> Scheme u = ''https''" "Opaque u = []" "User u = None" "Host u \<noteq> []"
      "list_all host_char (Host u)" "list_all path_char (Path u)" "RawPath u = [] \<or> RawPath u = Path u"
      "\<not> OmitHost u" "\<not> ForceQuery u" "RawQuery u = []" "Fragment u = []" "RawFragment u = []"
    using assms(1) by (simp_all add: plain_url_def)
  obtain p where p: "Path u = CHR ''/'' # p" using assms(2) by (auto simp: HasPrefix_iff)
  let ?rest = "''//'' @ Host u @ Path u"
  have str: "URL_String u = Scheme u @ CHR '':'' # ?rest"
    using u p assms(2) plain_EscapedPath [of u]
    by (auto simp: URL_String_def Let_def escape_id list_all_iff)
  have scheme: "\<forall>c \<in> set (Scheme u). is_letter c" "Scheme u \<noteq> []" "map to_lower (Scheme u) = Scheme u"
    using u(1) by (auto simp: is_letter_def to_lower_def)
  let ?ok = "\<lambda>c. c \<noteq> CHR ''#'' \<and> c \<noteq> CHR ''?'' \<and> \<not> (code c < 32 \<or> code c = 127)"
  have "?ok c" if "host_char c" for c using host_char_special [OF that] by linarith
  moreover have "?ok c" if "path_char c" for c using path_char_special [OF that] by linarith
  moreover have "list_all ?ok (Scheme u)" using u(1) by auto
  ultimately have "list_all ?ok (Scheme u @ CHR '':'' # ?rest)"
    using u(5,6) by (simp add: list_all_append list.pred_mono_strong)
  then have all: "\<forall>c \<in> set (Scheme u @ CHR '':'' # ?rest). ?ok c" by (simp only: list_all_iff)
  have chars: "CHR ''#'' \<notin> set (Scheme u @ CHR '':'' # ?rest)" "CHR ''?'' \<notin> set ?rest"
      "\<not> (\<exists>c \<in> set (Scheme u @ CHR '':'' # ?rest). code c < 32 \<or> code c = 127)"
    subgoal using all by blast
    subgoal using all by auto
    subgoal using all by blast
    done
  then have "\<not> HasSuffix ?rest ''?''"
    by (metis HasSuffix_iff in_set_conv_decomp)
  then have "parse_url (Scheme u @ CHR '':'' # ?rest) = parse_rest (empty_URL\<lparr>Scheme := Scheme u\<rparr>) ?rest"
    using chars scheme u(1) getScheme_letters [of "Scheme u" "[]" "Scheme u @ CHR '':'' # ?rest" ?rest]
    by (simp add: parse_url_def strings_Cut_None empty_URL_def)
  also have "\<dots> = setPath (Path u) (empty_URL\<lparr>Scheme := Scheme u, User := None, Host := Host u\<rparr>)"
  proof -
    have "takeWhile (\<lambda>c. c \<noteq> CHR ''/'') (Host u @ Path u) = Host u" "dropWhile (\<lambda>c. c \<noteq> CHR ''/'') (Host u @ Path u) = Path u"
      using u(5) p by (simp_all add: list_all_iff takeWhile_append2 dropWhile_append2)
    then show ?thesis
      using scheme(2) plain_parseAuthority [OF u(5)] by (simp add: parse_rest_def HasPrefix_def)
  qed
  also have "\<dots> = Inr (u\<lparr>RawPath := []\<rparr>)"
    using u plain_setPath [OF u(6)] by (cases u) (simp add: empty_URL_def)
  finally show ?thesis
    using str chars by (simp add: url_Parse_def strings_Cut_None)
qed

subsection \<open>Elements of paths\<close>

text \<open>A path made of elements that are neither empty nor dots.\<close>

definition slashed :: "string list \<Rightarrow> string" where
  "slashed es = concat (map (\<lambda>e. CHR ''/'' # e) es)"

definition path_elem :: "string \<Rightarrow> bool" where
  "path_elem e \<longleftrightarrow> e \<noteq> [] \<and> e \<noteq> ''.'' \<and> e \<noteq> ''..'' \<and> CHR ''/'' \<notin> set e"

lemma split_slash_elem: "CHR ''/'' \<notin> set e \<Longrightarrow> split_slash (e @ CHR ''/'' # s) = e # split_slash s" "CHR ''/'' \<notin> set e \<Longrightarrow> split_slash e = [e]"
  by (induction e) auto

lemma split_slash_slashed: "\<forall>e \<in> set es. CHR ''/'' \<notin> set e \<Longrightarrow> split_slash (slashed es) = [] # es"
proof (induction es)
  case (Cons e es)
  then have "split_slash (e @ slashed es) = e # es"
    by (cases es) (simp_all add: slashed_def split_slash_elem)
  then show ?case by (simp add: slashed_def)
qed (simp add: slashed_def)

lemma resolve_elems_plain:
  "\<forall>e \<in> set es. e \<noteq> ''.'' \<and> e \<noteq> ''..'' \<Longrightarrow> resolve_elems dst False es = dst @ slashed es"
  by (induction es arbitrary: dst) (simp_all add: slashed_def)

lemma resolvePath_root:
  assumes "es \<noteq> []" "\<forall>e \<in> set es. path_elem e" "base = [] \<or> base = ''/''"
  shows "resolvePath base (tl (slashed es)) = slashed es"
proof -
  obtain e es' where es: "es = e # es'" using assms(1) by (cases es) auto
  then have ref: "tl (slashed es) = e @ slashed es'" "slashed es = CHR ''/'' # e @ slashed es'" by (simp_all add: slashed_def)
  have "path_elem e" using assms(2) es by simp
  then have e: "e \<noteq> []" "CHR ''/'' \<notin> set e" by (simp_all add: path_elem_def)
  then have hd: "hd (e @ slashed es') \<noteq> CHR ''/''" using hd_in_set [of e] by (metis hd_append2)
  have dots: "\<forall>e \<in> set es. e \<noteq> ''.'' \<and> e \<noteq> ''..'' \<and> CHR ''/'' \<notin> set e" using assms(2) by (auto simp: path_elem_def)
  have "last es \<noteq> ''.''" "last es \<noteq> ''..''" using bspec [OF dots last_in_set [OF assms(1)]] by simp_all
  have split2: "split_slash (slashed es) = [] # es" using dots by (simp add: split_slash_slashed)
  then have split: "split_slash (e @ slashed es') = e # es'" unfolding ref(2) using es by simp
  have dots': "\<forall>e \<in> set es'. e \<noteq> ''.'' \<and> e \<noteq> ''..''" "\<forall>e \<in> set es. e \<noteq> ''.'' \<and> e \<noteq> ''..''" "e \<noteq> ''.''" "e \<noteq> ''..''"
    using dots es by simp_all
  have resolve: "resolve_elems [] True (e # es') = e @ slashed es'" "resolve_elems [] True ([] # es) = slashed es"
    using dots'(3,4) resolve_elems_plain [OF dots'(1), of e] resolve_elems_plain [OF dots'(2), of "[]"] by simp_all
  have no_dots: "last (e # es') \<noteq> ''.''" "last (e # es') \<noteq> ''..''" "last ([] # es) \<noteq> ''.''" "last ([] # es) \<noteq> ''..''"
    using \<open>last es \<noteq> ''.''\<close> \<open>last es \<noteq> ''..''\<close> assms(1) unfolding es by simp_all
  have prefix: "\<not> HasPrefix (CHR ''/'' # e @ slashed es') ''//''" "HasPrefix (CHR ''/'' # slashed es) ''//''"
    using e by (cases e, auto simp add: HasPrefix_def ref(2))
  have slash: "split_last (CHR ''/'') ''/'' = Some ([], [])" "split_last (CHR ''/'') [] = None" by (simp_all add: split_last_def)
  have ne: "e @ slashed es' \<noteq> []" "slashed es \<noteq> []" using e(1) ref(2) by simp_all
  from assms(3) show ?thesis
  proof
    assume base: "base = []"
    show ?thesis
      unfolding resolvePath_def ref(1) base slash
      using ne(1) hd by (simp add: Let_def split resolve(1) no_dots(1,2) prefix(1) ref(2) del: append_is_Nil_conv last.simps resolve_elems.simps split_slash.simps)
  next
    assume base: "base = ''/''"
    have "[] @ ''/'' @ e @ slashed es' = slashed es" using ref(2) by simp
    then show ?thesis
      unfolding resolvePath_def ref(1) base slash
      using ne hd by (simp add: Let_def split2 resolve(2) no_dots(3,4) prefix(2) del: append_is_Nil_conv last.simps resolve_elems.simps split_slash.simps)
  qed
qed

lemma clean_elems_plain:
  "\<forall>e \<in> set es. e \<noteq> ''.'' \<and> e \<noteq> ''..'' \<Longrightarrow> clean_elems rooted out es = rev out @ filter (\<lambda>e. e \<noteq> []) es"
  by (induction es arbitrary: out) simp_all

lemma join_elems:
  "concat (map (\<lambda>(i, e). if i = 0 then e else ''/'' @ e) (enumerate 0 es)) = tl (slashed es)"
proof (cases es)
  case (Cons e es')
  have "concat (map (\<lambda>(i, e). if i = 0 then e else ''/'' @ e) (enumerate (Suc n) es')) = slashed es'" for n
    by (induction es' arbitrary: n) (simp_all add: slashed_def)
  from this [of 0] show ?thesis by (simp add: Cons slashed_def)
qed (simp add: slashed_def)

lemma path_Clean_slashed:
  assumes "es \<noteq> []" "\<forall>e \<in> set es. e \<noteq> ''.'' \<and> e \<noteq> ''..'' \<and> CHR ''/'' \<notin> set e" "filter (\<lambda>e. e \<noteq> []) es \<noteq> []"
  shows "path_Clean (slashed es) = slashed (filter (\<lambda>e. e \<noteq> []) es)"
proof -
  have rooted: "HasPrefix (slashed es) ''/''" using assms(1) by (cases es) (simp_all add: slashed_def HasPrefix_def)
  have split: "split_slash (slashed es) = [] # es" using assms(2) by (simp add: split_slash_slashed)
  have clean: "clean_elems True [] ([] # es) = filter (\<lambda>e. e \<noteq> []) es"
    using clean_elems_plain [of es True "[]"] assms(2) by simp
  have "''/'' @ tl (slashed (filter (\<lambda>e. e \<noteq> []) es)) = slashed (filter (\<lambda>e. e \<noteq> []) es)"
    using assms(3) by (cases "filter (\<lambda>e. e \<noteq> []) es") (simp_all add: slashed_def)
  then show ?thesis
    by (simp only: path_Clean_def Let_def rooted split clean join_elems if_True)
qed

lemma slashed_append: "slashed (es @ fs) = slashed es @ slashed fs"
  by (simp add: slashed_def)

end
