(* ===== verification/Go_Addr.thy ===== *)
theory Go_Addr
  imports Json Go_Url
begin

text \<open>How Go prints addresses: \<open>IP.String\<close> and \<open>TCPAddr.String\<close> of the package \<open>net\<close>.\<close>

fun strings_Join :: "string \<Rightarrow> string list \<Rightarrow> string" where
  "strings_Join sep [] = []"
| "strings_Join sep [x] = x"
| "strings_Join sep (x # xs) = x @ sep @ strings_Join sep xs"

fun hex_number :: "nat \<Rightarrow> string" where
  "hex_number n = (if n < 16 then [hex_digit n] else hex_number (n div 16) @ [hex_digit (n mod 16)])"

declare hex_number.simps [simp del]

text \<open>The eight groups of an IPv6 address; the first longest run of at least two zero groups is left out.\<close>

definition v6_groups :: "IP \<Rightarrow> nat list" where
  "v6_groups ip = map (\<lambda>i. unat (ip ! (2 * i)) * 256 + unat (ip ! (2 * i + 1))) [0..<8]"

definition zero_run :: "nat list \<Rightarrow> nat \<times> nat" where
  "zero_run g =
     fold (\<lambda>i (start, len). let l = length (takeWhile (\<lambda>n. n = 0) (drop i g)) in
             if 2 \<le> l \<and> len < l then (i, l) else (start, len)) [0..<8] (8, 0)"

definition string6 :: "IP \<Rightarrow> string" where
  "string6 ip =
     (let g = v6_groups ip; hex = (\<lambda>gs. strings_Join '':'' (map hex_number gs)) in
      case zero_run g of (start, len) \<Rightarrow>
        if len = 0 then hex g else hex (take start g) @ ''::'' @ hex (drop (start + len) g))"

definition IP_String :: "IP \<Rightarrow> string" where
  "IP_String ip =
     (if ip = [] then ''<nil>''
      else if length ip \<noteq> 4 \<and> length ip \<noteq> 16 then
        CHR ''?'' # concat (map (\<lambda>b. [hex_digit (unat b div 16), hex_digit (unat b mod 16)]) ip)
      else
        (case To4 ip of
           Some p4 \<Rightarrow> strings_Join ''.'' (map (\<lambda>b. dec (unat b)) p4)
         | None \<Rightarrow> string6 ip))"

text \<open>A TCP address without a zone.\<close>

definition TCPAddr_String :: "IP \<Rightarrow> nat \<Rightarrow> string" where
  "TCPAddr_String ip port = JoinHostPort (if ip = [] then [] else IP_String ip) (dec port)"

end
