(* ===== verification/Broker_Sqs.thy ===== *)
theory Broker_Sqs
  imports Broker_Http Go_Addr
begin

text \<open>
  The front end of the broker on a message queue service, \<open>src/broker/sqs.go\<close>.  The client of the service is an
  argument: a record of its operations on a state, which is that of the service.  A goroutine of
  \<open>PollAndHandleMessages\<close> handles one message and deletes it.
\<close>

section \<open>Model\<close>

record types_Message =
  MessageAttributes :: "string \<rightharpoonup> string option"
  message_Body :: "string option"
  ReceiptHandle :: "string option"

text \<open>The attributes of a queue are a map; \<open>NextToken\<close> is a pointer.\<close>

record 's SQSClient =
  ReceiveMessage :: "string \<Rightarrow> nat \<Rightarrow> nat \<Rightarrow> 's \<Rightarrow> (err + types_Message list) \<times> 's"
  ListQueues :: "string \<Rightarrow> nat \<Rightarrow> string option \<Rightarrow> 's \<Rightarrow> (err + string list \<times> string option) \<times> 's"
  GetQueueAttributes :: "string \<Rightarrow> string \<Rightarrow> 's \<Rightarrow> (err + (string \<rightharpoonup> string)) \<times> 's"
  DeleteQueue :: "string \<Rightarrow> 's \<Rightarrow> err option \<times> 's"
  CreateQueue :: "string \<Rightarrow> (string \<times> string) list \<Rightarrow> 's \<Rightarrow> (err + string) \<times> 's"
  SendMessage :: "string \<Rightarrow> string \<Rightarrow> (string \<rightharpoonup> string option) \<Rightarrow> 's \<Rightarrow> err option \<times> 's"
  GetQueueUrl :: "string \<Rightarrow> 's \<Rightarrow> (err + string) \<times> 's"
  DeleteMessage :: "string \<Rightarrow> string option \<Rightarrow> 's \<Rightarrow> 's"

text \<open>Durations are in nanoseconds.\<close>

definition cleanupThreshold :: int where "cleanupThreshold = - 2 * 60 * 1000000000"

record 's sqsHandler =
  sqs_client :: "'s SQSClient"
  handler_SQSQueueURL :: string
  cleanupInterval :: int

definition newSQSHandler :: "'s SQSClient \<Rightarrow> string \<Rightarrow> 's \<Rightarrow> (err + 's sqsHandler) \<times> 's" where
  "newSQSHandler client sqsQueueName s =
     (case CreateQueue client sqsQueueName [(''MessageRetentionPeriod'', dec 300)] s of
        (Inl e, s) \<Rightarrow> (Inl e, s)
      | (Inr url, s) \<Rightarrow>
          (Inr \<lparr>sqs_client = client, handler_SQSQueueURL = url, cleanupInterval = 30 * 1000000000\<rparr>, s))"

text \<open>One round of the loop of \<open>pollMessages\<close>: the messages that it sends to its channel.\<close>

definition pollMessages :: "'s sqsHandler \<Rightarrow> 's \<Rightarrow> types_Message list \<times> 's" where
  "pollMessages r s =
     (case ReceiveMessage (sqs_client r) (handler_SQSQueueURL r) 10 15 s of
        (Inl _, s) \<Rightarrow> ([], s)
      | (Inr messages, s) \<Rightarrow> (messages, s))"

subsection \<open>Cleaning up\<close>

text \<open>The loop over the pages of the list of queues ends when the service gives no further token, or fails.\<close>

partial_function (option) list_client_queues ::
  "'s SQSClient \<Rightarrow> string list \<Rightarrow> string option \<Rightarrow> 's \<Rightarrow> (string list \<times> 's) option" where
  "list_client_queues client queueURLsList nextToken s =
     (case ListQueues client ''snowflake-client-'' 1000 nextToken s of
        (Inl _, s) \<Rightarrow> Some (queueURLsList, s)
      | (Inr (urls, token), s) \<Rightarrow>
          if token = None then Some (queueURLsList @ urls, s)
          else list_client_queues client (queueURLsList @ urls) token s)"

text \<open>
  \<open>time.Unix(sec, 0).Before(cutoff)\<close>.  A \<open>Time\<close> keeps its seconds since the year 1 in an \<open>int64\<close>, so the
  sum wraps; \<open>now\<close> is in nanoseconds since 1970.
\<close>

definition unixToInternal :: int where "unixToInternal = 62135596800"

definition Unix_Before :: "int \<Rightarrow> int \<Rightarrow> bool" where
  "Unix_Before sec cutoff \<longleftrightarrow>
     int64 (sec + unixToInternal) < cutoff div 1000000000 + unixToInternal \<or>
     int64 (sec + unixToInternal) = cutoff div 1000000000 + unixToInternal \<and> 0 < cutoff mod 1000000000"

definition stale_queue :: "int \<Rightarrow> (string \<rightharpoonup> string) \<Rightarrow> bool" where
  "stale_queue now attributes =
     (case ParseInt64 (case attributes ''LastModifiedTimestamp'' of Some v \<Rightarrow> v | None \<Rightarrow> []) of
        None \<Rightarrow> False
      | Some lastModified \<Rightarrow> Unix_Before lastModified (now + cleanupThreshold))"

fun delete_stale :: "'s SQSClient \<Rightarrow> int \<Rightarrow> string list \<Rightarrow> nat \<Rightarrow> 's \<Rightarrow> nat \<times> 's" where
  "delete_stale client now [] numDeleted s = (numDeleted, s)"
| "delete_stale client now (queueURL # urls) numDeleted s =
     (if \<not> bytes_Contains queueURL ''snowflake-client-'' then delete_stale client now urls numDeleted s
      else
        (case GetQueueAttributes client queueURL ''LastModifiedTimestamp'' s of
           (Inl _, s) \<Rightarrow> delete_stale client now urls numDeleted s
         | (Inr attributes, s) \<Rightarrow>
             if stale_queue now attributes then
               (case DeleteQueue client queueURL s of
                  (Some _, s) \<Rightarrow> delete_stale client now urls numDeleted s
                | (None, s) \<Rightarrow> delete_stale client now urls (numDeleted + 1) s)
             else delete_stale client now urls numDeleted s))"

text \<open>One tick of \<open>cleanupClientQueues\<close>; \<open>None\<close> when the list of queues has no end.\<close>

definition cleanupClientQueues :: "'s sqsHandler \<Rightarrow> int \<Rightarrow> 's \<Rightarrow> (nat \<times> 's) option" where
  "cleanupClientQueues r now s =
     map_option (\<lambda>(urls, s). delete_stale (sqs_client r) now urls 0 s) (list_client_queues (sqs_client r) [] None s)"

subsection \<open>Messages\<close>

definition best_guess_addr ::
  "(('c \<Rightarrow> 'c \<Rightarrow> bool) \<Rightarrow> 'c list \<Rightarrow> 'c list) \<Rightarrow> ('a, 'm, 'd, 'c) pion \<Rightarrow> string \<Rightarrow> string" where
  "best_guess_addr sort_Slice P encPollReq =
     (case DecodeClientPollRequest encPollReq of
        Inl _ \<Rightarrow> []
      | Inr req \<Rightarrow>
          (case DeserializeSessionDescription (poll_Offer req) of
             Inl _ \<Rightarrow> []
           | Inr sdp \<Rightarrow>
               (case GetCandidateAddrs sort_Slice P (sd_SDP sdp) of
                  [] \<Rightarrow> []
                | addr # _ \<Rightarrow> IP_String addr)))"

text \<open>A message without a body is a nil pointer, which the handler follows.\<close>

definition handleMessage ::
  "(('c \<Rightarrow> 'c \<Rightarrow> bool) \<Rightarrow> 'c list \<Rightarrow> 'c list) \<Rightarrow> ('a, 'm, 'd, 'c) pion \<Rightarrow> 's sqsHandler \<Rightarrow> nat \<Rightarrow>
   (Arg \<Rightarrow> reply) \<Rightarrow> types_Message \<Rightarrow> 's \<Rightarrow> unit go \<times> 's" where
  "handleMessage sort_Slice P r deadline ipc_ClientOffers message s =
     (case Option.bind (MessageAttributes message ''ClientID'') id of
        None \<Rightarrow> (Ok (), s)
      | Some clientID \<Rightarrow>
          (case CreateQueue (sqs_client r) (''snowflake-client-'' @ clientID) [] s of
             (Inl _, s) \<Rightarrow> (Ok (), s)
           | (Inr answerSQSURL, s) \<Rightarrow>
               (case message_Body message of
                  None \<Rightarrow> (Panic, s)
                | Some encPollReq \<Rightarrow>
                    (case ipc_ClientOffers
                       \<lparr>Body = encPollReq, RemoteAddr = best_guess_addr sort_Slice P encPollReq,
                        Rendezvous = RendezvousSqs, Context = Some deadline\<rparr> of
                       (Some _, _) \<Rightarrow> (Ok (), s)
                     | (None, response) \<Rightarrow> (Ok (), snd (SendMessage (sqs_client r) answerSQSURL response Map.empty s))))))"

definition deleteMessage :: "'s sqsHandler \<Rightarrow> types_Message \<Rightarrow> 's \<Rightarrow> 's" where
  "deleteMessage r message = DeleteMessage (sqs_client r) (handler_SQSQueueURL r) (ReceiptHandle message)"

definition handle_and_delete ::
  "(('c \<Rightarrow> 'c \<Rightarrow> bool) \<Rightarrow> 'c list \<Rightarrow> 'c list) \<Rightarrow> ('a, 'm, 'd, 'c) pion \<Rightarrow> 's sqsHandler \<Rightarrow> nat \<Rightarrow>
   (Arg \<Rightarrow> reply) \<Rightarrow> types_Message \<Rightarrow> 's \<Rightarrow> unit go \<times> 's" where
  "handle_and_delete sort_Slice P r deadline ipc_ClientOffers message s =
     (case handleMessage sort_Slice P r deadline ipc_ClientOffers message s of
        (Ok _, s) \<Rightarrow> (Ok (), deleteMessage r message s)
      | failed \<Rightarrow> failed)"

section \<open>What a cleanup deletes\<close>

text \<open>
  The behaviour of the service that the cleanup relies on: \<open>queues\<close> gives the queues of a state with the time of
  their last change, in seconds since 1970.  Attributes are those of the queue, and a deletion removes one queue.
\<close>

definition queue_service :: "'s SQSClient \<Rightarrow> ('s \<Rightarrow> string \<rightharpoonup> nat) \<Rightarrow> bool" where
  "queue_service client queues \<longleftrightarrow>
     (\<forall>url s. case GetQueueAttributes client url ''LastModifiedTimestamp'' s of
        (Inl _, s') \<Rightarrow> queues s' = queues s \<and> queues s url = None
      | (Inr attributes, s') \<Rightarrow>
          queues s' = queues s \<and>
          (\<exists>t. queues s url = Some t \<and> t < 2 ^ 62 \<and> attributes ''LastModifiedTimestamp'' = Some (dec t))) \<and>
     (\<forall>url s. case DeleteQueue client url s of
        (_, s') \<Rightarrow> queues s' = (queues s)(url := None))"

definition stale_at :: "int \<Rightarrow> nat \<Rightarrow> bool" where
  "stale_at now t \<longleftrightarrow> int t * 1000000000 < now - 120 * 1000000000"

lemma before_div_mod:
  fixes t x k :: int
  assumes "0 < k"
  shows "t < x div k \<or> t = x div k \<and> 0 < x mod k \<longleftrightarrow> t * k < x"
proof -
  define q r where "q = x div k" and "r = x mod k"
  have x: "x = q * k + r" "0 \<le> r" "r < k" using assms by (simp_all add: q_def r_def)
  consider "t < q" | "t = q" | "q < t" by linarith
  then show ?thesis
  proof cases
    case 1
    then have "(t + 1) * k \<le> q * k" using assms by (intro mult_right_mono) simp_all
    then have "t * k < x" using x assms by (simp add: algebra_simps)
    with 1 show ?thesis by (simp add: q_def)
  next
    case 2
    then show ?thesis using x by (simp add: q_def [symmetric] r_def [symmetric])
  next
    case 3
    then have "(q + 1) * k \<le> t * k" using assms by (intro mult_right_mono) simp_all
    then have "\<not> t * k < x" using x by (simp add: algebra_simps)
    with 3 show ?thesis by (simp add: q_def)
  qed
qed

lemma int64_id: "- (2 ^ 63) \<le> n \<Longrightarrow> n < 2 ^ 63 \<Longrightarrow> int64 n = n"
  unfolding int64_def sint_sbintrunc' by (rule signed_take_bit_int_eq_self) simp_all

lemma Unix_Before_nat: "t < 2 ^ 62 \<Longrightarrow> Unix_Before (int t) (now + cleanupThreshold) \<longleftrightarrow> stale_at now t"
proof -
  assume "t < 2 ^ 62"
  then have "int t < 2 ^ 62" by (metis of_nat_less_iff of_nat_numeral of_nat_power)
  then have "int64 (int t + unixToInternal) = int t + unixToInternal"
    by (intro int64_id) (simp_all add: unixToInternal_def)
  then have "Unix_Before (int t) (now + cleanupThreshold) \<longleftrightarrow> int t * 1000000000 < now + cleanupThreshold"
    by (simp add: Unix_Before_def before_div_mod)
  then show ?thesis by (simp add: stale_at_def cleanupThreshold_def)
qed

lemma stale_queue_nat:
  "t < 2 ^ 62 \<Longrightarrow> attributes ''LastModifiedTimestamp'' = Some (dec t) \<Longrightarrow> stale_queue now attributes \<longleftrightarrow> stale_at now t"
  using Unix_Before_nat [of t now] by (simp add: stale_queue_def ParseInt64_dec)

text \<open>A cleanup deletes the listed client queues that were not changed in the last two minutes, and no other queue.\<close>

lemma delete_stale_exact:
  assumes "queue_service client queues"
  shows "queues (snd (delete_stale client now urls n s)) =
    (\<lambda>url. if url \<in> set urls \<and> bytes_Contains url ''snowflake-client-'' \<and> (\<exists>t. queues s url = Some t \<and> stale_at now t)
           then None else queues s url)"
proof (induction urls arbitrary: n s)
  case (Cons url urls)
  obtain a s1 where attrs: "GetQueueAttributes client url ''LastModifiedTimestamp'' s = (a, s1)" by fastforce
  obtain d s2 where del: "DeleteQueue client url s1 = (d, s2)" by fastforce
  have *: "case (a, s1) of
        (Inl _, s') \<Rightarrow> queues s' = queues s \<and> queues s url = None
      | (Inr attributes, s') \<Rightarrow>
          queues s' = queues s \<and>
          (\<exists>t. queues s url = Some t \<and> t < 2 ^ 62 \<and> attributes ''LastModifiedTimestamp'' = Some (dec t))"
    using assms [unfolded queue_service_def, THEN conjunct1, THEN spec [of _ url], THEN spec [of _ s]] unfolding attrs .
  have s1: "queues s1 = queues s" and a: "\<forall>e. a = Inl e \<longrightarrow> queues s url = None"
      "\<forall>m. a = Inr m \<longrightarrow> (\<exists>t. queues s url = Some t \<and> (stale_queue now m \<longleftrightarrow> stale_at now t))"
    using * by (cases a; auto simp: stale_queue_nat)+
  have s2: "queues s2 = (queues s)(url := None)"
    using assms [unfolded queue_service_def, THEN conjunct2, THEN spec [of _ url], THEN spec [of _ s1]] unfolding del s1 by simp
  show ?case
    using Cons.IH a s1 s2 attrs del
    by (cases a; cases d) (auto simp: fun_eq_iff)
qed simp

end
