(* ===== verification/Go_Sha256.thy ===== *)
theory Go_Sha256
  imports Json_String "HOL-Library.Word"
begin

text \<open>\<open>sha256.Sum256\<close> and \<open>hmac.New(sha256.New, key)\<close> of Go's standard library.\<close>

unbundle bit_operations_syntax

type_synonym w32 = "32 word"

definition sha_k :: "w32 list" where
  "sha_k =
    [0x428a2f98, 0x71374491, 0xb5c0fbcf, 0xe9b5dba5, 0x3956c25b, 0x59f111f1, 0x923f82a4, 0xab1c5ed5,
     0xd807aa98, 0x12835b01, 0x243185be, 0x550c7dc3, 0x72be5d74, 0x80deb1fe, 0x9bdc06a7, 0xc19bf174,
     0xe49b69c1, 0xefbe4786, 0x0fc19dc6, 0x240ca1cc, 0x2de92c6f, 0x4a7484aa, 0x5cb0a9dc, 0x76f988da,
     0x983e5152, 0xa831c66d, 0xb00327c8, 0xbf597fc7, 0xc6e00bf3, 0xd5a79147, 0x06ca6351, 0x14292967,
     0x27b70a85, 0x2e1b2138, 0x4d2c6dfc, 0x53380d13, 0x650a7354, 0x766a0abb, 0x81c2c92e, 0x92722c85,
     0xa2bfe8a1, 0xa81a664b, 0xc24b8b70, 0xc76c51a3, 0xd192e819, 0xd6990624, 0xf40e3585, 0x106aa070,
     0x19a4c116, 0x1e376c08, 0x2748774c, 0x34b0bcb5, 0x391c0cb3, 0x4ed8aa4a, 0x5b9cca4f, 0x682e6ff3,
     0x748f82ee, 0x78a5636f, 0x84c87814, 0x8cc70208, 0x90befffa, 0xa4506ceb, 0xbef9a3f7, 0xc67178f2]"

definition sha_init :: "w32 list" where
  "sha_init = [0x6a09e667, 0xbb67ae85, 0x3c6ef372, 0xa54ff53a, 0x510e527f, 0x9b05688c, 0x1f83d9ab, 0x5be0cd19]"

definition rotr :: "nat \<Rightarrow> w32 \<Rightarrow> w32" where
  "rotr n x = drop_bit n x OR push_bit (32 - n) x"

definition sha_words :: "bytes \<Rightarrow> w32 list" where
  "sha_words bs = map (\<lambda>i. fold (\<lambda>j w. push_bit 8 w OR ucast (bs ! (4 * i + j))) [0..<4] 0) [0..<length bs div 4]"

definition sha_schedule :: "w32 list \<Rightarrow> w32 list" where
  "sha_schedule w16 =
     fold (\<lambda>i w.
       let s0 = rotr 7 (w ! (i - 15)) XOR rotr 18 (w ! (i - 15)) XOR drop_bit 3 (w ! (i - 15));
           s1 = rotr 17 (w ! (i - 2)) XOR rotr 19 (w ! (i - 2)) XOR drop_bit 10 (w ! (i - 2))
       in w @ [w ! (i - 16) + s0 + w ! (i - 7) + s1]) [16..<64] w16"

definition sha_round :: "w32 \<times> w32 \<Rightarrow> w32 list \<Rightarrow> w32 list" where
  "sha_round kw v =
     (case (kw, v) of
        ((k, w), [a, b, c, d, e, f, g, h]) \<Rightarrow>
          (let s1 = rotr 6 e XOR rotr 11 e XOR rotr 25 e;
               c1 = (e AND f) XOR (NOT e AND g);
               t1 = h + s1 + c1 + k + w;
               s0 = rotr 2 a XOR rotr 13 a XOR rotr 22 a;
               maj = (a AND b) XOR (a AND c) XOR (b AND c)
           in [t1 + (s0 + maj), a, b, c, d + t1, e, f, g])
      | _ \<Rightarrow> v)"

definition sha_block :: "bytes \<Rightarrow> w32 list \<Rightarrow> w32 list" where
  "sha_block b h = map2 (+) h (fold sha_round (zip sha_k (sha_schedule (sha_words b))) h)"

definition be_bytes :: "nat \<Rightarrow> nat \<Rightarrow> bytes" where
  "be_bytes k n = map (\<lambda>i. word_of_nat (n div 256 ^ (k - 1 - i))) [0..<k]"

definition sha_pad :: "bytes \<Rightarrow> bytes" where
  "sha_pad bs = bs @ [0x80] @ replicate ((119 - length bs mod 64) mod 64) 0 @ be_bytes 8 (8 * length bs)"

definition Sum256 :: "bytes \<Rightarrow> bytes" where
  "Sum256 bs =
     (let p = sha_pad bs;
          h = fold (\<lambda>i. sha_block (take 64 (drop (64 * i) p))) [0..<length p div 64] sha_init
      in concat (map (\<lambda>w. be_bytes 4 (unat w)) h))"

lemma Sum256_length: "length (Sum256 bs) = 32"
proof -
  have round: "length v = 8 \<Longrightarrow> length (sha_round kw v) = 8" for kw v
    by (auto simp: sha_round_def Let_def split: prod.splits list.splits)
  have rounds: "length v = 8 \<Longrightarrow> length (fold sha_round kws v) = 8" for kws v
    by (induction kws arbitrary: v) (simp_all add: round)
  have block: "length v = 8 \<Longrightarrow> length (sha_block b v) = 8" for b v
    by (simp add: sha_block_def rounds)
  have blocks: "length v = 8 \<Longrightarrow> length (fold (\<lambda>i. sha_block (f i)) ns v) = 8" for f ns v
    by (induction ns arbitrary: v) (simp_all add: block)
  have "length (fold (\<lambda>i. sha_block (take 64 (drop (64 * i) p))) ns sha_init) = 8" for p ns
    by (rule blocks) (simp add: sha_init_def)
  then show ?thesis
    by (simp add: Sum256_def Let_def be_bytes_def length_concat comp_def sum_list_triv)
qed

text \<open>The code of a message under a key.\<close>

definition hmac_sha256 :: "bytes \<Rightarrow> bytes \<Rightarrow> bytes" where
  "hmac_sha256 key msg =
     (let k = (if length key > 64 then Sum256 key else key);
          k = k @ replicate (64 - length k) 0 in
      Sum256 (map (\<lambda>b. b XOR 0x5c) k @ Sum256 (map (\<lambda>b. b XOR 0x36) k @ msg)))"

end
