(* ===== verification/Amp_Cache.thy ===== *)
theory Amp_Cache
  imports Go_Url Go_Sha256 Base64
begin

text \<open>
  The addresses of documents in an AMP cache, \<open>src/common/amp/cache.go\<close>.  The functions of the package \<open>idna\<close>
  are an argument.
\<close>

section \<open>Model\<close>

record idna =
  ToUnicode :: "string \<Rightarrow> err + string"
  ToASCII :: "string \<Rightarrow> err + string"

definition domainPrefixBasic :: "idna \<Rightarrow> string \<Rightarrow> err + string" where
  "domainPrefixBasic idna domain =
     (case ToUnicode idna domain of
        Inl e \<Rightarrow> Inl e
      | Inr prefix \<Rightarrow>
          (let prefix = concat (map (\<lambda>c. if c = CHR ''-'' then ''--'' else [c]) prefix);
               prefix = map (\<lambda>c. if c = CHR ''.'' then CHR ''-'' else c) prefix;
               prefix = (if length prefix \<ge> 4 \<and> prefix ! 2 = CHR ''-'' \<and> prefix ! 3 = CHR ''-''
                         then ''0-'' @ prefix @ ''-0'' else prefix) in
           ToASCII idna prefix))"

text \<open>The encoding of \<open>base32\<close> without padding: five bits at a time, the last group filled up with zero bits.\<close>

definition base32_alphabet :: string where
  "base32_alphabet = ''abcdefghijklmnopqrstuvwxyz234567''"

definition bits_of_byte :: "byte \<Rightarrow> bool list" where
  "bits_of_byte b = map (\<lambda>i. bit b (7 - i)) [0..<8]"

definition bits_value :: "bool list \<Rightarrow> nat" where
  "bits_value bs = foldl (\<lambda>n b. 2 * n + of_bool b) 0 bs"

fun base32_groups :: "bool list \<Rightarrow> string" where
  "base32_groups (a # b # c # d # e # bs) = base32_alphabet ! bits_value [a, b, c, d, e] # base32_groups bs"
| "base32_groups [] = []"
| "base32_groups bs = [base32_alphabet ! bits_value (take 5 (bs @ replicate 4 False))]"

definition fallbackBase32Encoding :: "bytes \<Rightarrow> string" where
  "fallbackBase32Encoding bs = base32_groups (concat (map bits_of_byte bs))"

definition string_bytes :: "string \<Rightarrow> bytes" where
  "string_bytes s = map (\<lambda>c. word_of_nat (code c)) s"

definition domainPrefixFallback :: "string \<Rightarrow> string" where
  "domainPrefixFallback domain = fallbackBase32Encoding (Sum256 (string_bytes domain))"

definition domainPrefix :: "idna \<Rightarrow> string \<Rightarrow> string" where
  "domainPrefix idna domain =
     (case domainPrefixBasic idna domain of
        Inr prefix \<Rightarrow> if length prefix \<le> 63 then prefix else domainPrefixFallback domain
      | Inl _ \<Rightarrow> domainPrefixFallback domain)"

definition CacheURL :: "idna \<Rightarrow> URL \<Rightarrow> URL \<Rightarrow> string \<Rightarrow> err + URL" where
  "CacheURL idna pubURL cacheURL contentType =
     (let resultHost = domainPrefix idna (Hostname pubURL) @ ''.'' @ Hostname cacheURL;
          resultHost = (if Port cacheURL \<noteq> [] then JoinHostPort resultHost (Port cacheURL) else resultHost) in
      if contentType = [] then Inl (Err ''invalid content type'')
      else if Scheme pubURL \<noteq> ''http'' \<and> Scheme pubURL \<noteq> ''https'' then Inl (Err ''invalid scheme in publisher URL'')
      else if User pubURL \<noteq> None then Inl (Err ''publisher URL may not contain userinfo'')
      else if Port pubURL \<noteq> [] \<and> (Scheme pubURL \<noteq> ''http'' \<or> Port pubURL \<noteq> ''80'') \<and>
              (Scheme pubURL \<noteq> ''https'' \<or> Port pubURL \<noteq> ''443'') then
        Inl (Err ''publisher URL port is not the default for scheme'')
      else if Hostname pubURL = [] then Inl (Err ''invalid host in publisher URL'')
      else
        (let resultRawPath =
               path_Join ([EscapedPath cacheURL, PathEscape contentType] @
                 (if Scheme pubURL = ''https'' then [''s''] else []) @
                 [PathEscape (Hostname pubURL), EscapedPath pubURL]) in
         case PathUnescape resultRawPath of
           Inl e \<Rightarrow> Inl e
         | Inr resultPath \<Rightarrow>
             if RawQuery cacheURL \<noteq> [] then Inl (Err ''cache URL may not contain a query'')
             else if Fragment cacheURL \<noteq> [] then Inl (Err ''cache URL may not contain a fragment'')
             else
               Inr (empty_URL\<lparr>Scheme := Scheme cacheURL, User := User cacheURL, Host := resultHost, Path := resultPath,
                      RawPath := resultRawPath, RawQuery := RawQuery pubURL, Fragment := Fragment pubURL\<rparr>)))"

section \<open>Lemmas\<close>

lemma base32_groups_length: "length (base32_groups bs) = (length bs + 4) div 5"
  by (induction bs rule: base32_groups.induct) auto

lemma fallback_length: "length (domainPrefixFallback domain) = 52"
proof -
  have "length (concat (map bits_of_byte bs)) = 8 * length bs" for bs
    by (induction bs) (simp_all add: bits_of_byte_def)
  then show ?thesis
    by (simp add: domainPrefixFallback_def fallbackBase32Encoding_def base32_groups_length Sum256_length)
qed

text \<open>A prefix is always short enough for a DNS label.\<close>

lemma domainPrefix_label: "length (domainPrefix idna domain) \<le> 63"
  by (auto simp: domainPrefix_def fallback_length split: sum.splits)

text \<open>The address of a document of a publisher in a cache: the path names the publisher and its path.\<close>

lemma splitHostPort_plain: "list_all host_char h \<Longrightarrow> splitHostPort h = (h, [])"
proof -
  assume h: "list_all host_char h"
  then have "CHR '':'' \<notin> set h" "CHR ''['' \<notin> set h" unfolding list_all_iff using host_char_special by blast+
  moreover from this(2) have "\<not> HasPrefix h ''[''" by (auto simp: HasPrefix_iff)
  ultimately show ?thesis by (simp add: splitHostPort_def split_last_None)
qed

lemma CacheURL_plain:
  assumes "plain_url pub" "Scheme pub = ''https''" "Path pub = slashed es" "es \<noteq> []" "\<forall>e \<in> set es. path_elem e"
    and "path_elem (Host pub)" "plain_url cache" "Path cache = ''/''"
  shows "CacheURL idna pub cache ''c'' =
    Inr (empty_URL\<lparr>Scheme := Scheme cache, Host := domainPrefix idna (Host pub) @ ''.'' @ Host cache,
      Path := slashed ([''c'', ''s'', Host pub] @ es), RawPath := slashed ([''c'', ''s'', Host pub] @ es)\<rparr>)"
proof -
  have h: "list_all host_char (Host pub)" "list_all host_char (Host cache)" "list_all path_char (slashed es)"
    using assms(1,3,7) by (simp_all add: plain_url_def)
  have host: "splitHostPort (Host pub) = (Host pub, [])" "splitHostPort (Host cache) = (Host cache, [])"
    using h by (simp_all add: splitHostPort_plain)
  have esc: "PathEscape (Host pub) = Host pub" using h(1) by (intro escape_id) (simp add: list_all_iff)
  have path: "EscapedPath pub = slashed es" "EscapedPath cache = ''/''"
    using assms(1,3,7,8) plain_EscapedPath [of pub] plain_EscapedPath [of cache] by (simp_all add: plain_url_def)
  have "path_Join [''/'', ''c'', ''s'', Host pub, slashed es] = path_Clean (slashed ([[], ''c'', ''s'', Host pub, []] @ es))"
    using assms(4,6) by (cases es) (simp_all add: path_Join_def slashed_def path_elem_def)
  also have "\<dots> = slashed (filter (\<lambda>e. e \<noteq> []) ([[], ''c'', ''s'', Host pub, []] @ es))"
    by (rule path_Clean_slashed) (use assms(5,6) in \<open>auto simp: path_elem_def\<close>)
  also have "filter (\<lambda>e. e \<noteq> []) ([[], ''c'', ''s'', Host pub, []] @ es) = [''c'', ''s'', Host pub] @ es"
    using assms(5,6) by (simp add: path_elem_def filter_id_conv)
  finally have join: "path_Join [''/'', ''c'', ''s'', Host pub, slashed es] = slashed ([''c'', ''s'', Host pub] @ es)" .
  have "CHR ''%'' \<notin> set (Host pub)" "CHR ''%'' \<notin> set (slashed es)"
    using h not_percent unfolding list_all_iff by blast+
  moreover from this(1) have "CHR ''%'' \<notin> set (slashed [''c'', ''s'', Host pub])" by (simp add: slashed_def)
  ultimately have "CHR ''%'' \<notin> set (slashed ([''c'', ''s'', Host pub] @ es))"
    unfolding slashed_append set_append Un_iff by blast
  then have "PathUnescape (slashed ([''c'', ''s'', Host pub] @ es)) = Inr (slashed ([''c'', ''s'', Host pub] @ es))"
    by (intro unescape_id) auto
  moreover have "PathEscape ''c'' = ''c''" by (simp add: escape_def shouldEscape_def is_letter_def)
  ultimately show ?thesis
    using assms(1,2,6,7) join
    by (simp add: CacheURL_def Let_def host esc path plain_url_def path_elem_def empty_URL_def)
qed

end
