(* ===== verification/Rendezvous.thy ===== *)
theory Rendezvous
  imports Broker_Sqs Amp_Cache
begin

text \<open>
  How a client reaches the broker: \<open>src/client/lib/rendezvous.go\<close> with the three methods in
  \<open>rendezvous_http.go\<close>, \<open>rendezvous_ampcache.go\<close> and \<open>rendezvous_sqs.go\<close>, and the credentials of
  \<open>src/common/sqscreds/lib/sqs_creds.go\<close>.  An HTTP transport is an argument, a function from requests to responses.
\<close>

section \<open>HTTP from the client's side\<close>

record http_Request =
  hr_Method :: string
  hr_URL :: URL
  hr_Host :: string
  hr_Body :: string

text \<open>The body is what arrives, and the error that ends it when that is not the end of the body.\<close>

record http_Response =
  hs_StatusCode :: nat
  hs_Location :: string
  hs_Body :: string
  hs_err :: "err option"

definition removeEmptyPort :: "string \<Rightarrow> string" where
  "removeEmptyPort host =
     (case split_last (CHR '':'') host of
        Some (_, p) \<Rightarrow> if CHR '']'' \<in> set p then host else TrimSuffix host '':''
      | None \<Rightarrow> host)"

definition http_NewRequest :: "string \<Rightarrow> string \<Rightarrow> string \<Rightarrow> err + http_Request" where
  "http_NewRequest meth url body =
     (case url_Parse url of
        Inl e \<Rightarrow> Inl e
      | Inr u \<Rightarrow>
          (let u = u\<lparr>Host := removeEmptyPort (Host u)\<rparr> in
           Inr \<lparr>hr_Method = meth, hr_URL = u, hr_Host = Host u, hr_Body = body\<rparr>))"

section \<open>The methods\<close>

definition client_readLimit :: nat where "client_readLimit = 100000"

definition brokerErrorUnexpected :: err where "brokerErrorUnexpected = Err ''unexpected error, no answer''"

text \<open>\<open>pick n\<close> is the random number below \<open>n\<close>.\<close>

definition domain_front :: "(nat \<Rightarrow> nat) \<Rightarrow> string list \<Rightarrow> http_Request \<Rightarrow> http_Request" where
  "domain_front pick fronts req =
     (if fronts \<noteq> [] then
        req\<lparr>hr_Host := Host (hr_URL req), hr_URL := (hr_URL req)\<lparr>Host := fronts ! pick (length fronts)\<rparr>\<rparr>
      else req)"

definition limitedRead :: "string \<Rightarrow> err option \<Rightarrow> nat \<Rightarrow> string \<times> err option" where
  "limitedRead body e limit =
     (if length body > limit then (take limit body, Some io_ErrUnexpectedEOF) else (body, e))"

record httpRendezvous =
  http_brokerURL :: URL
  http_fronts :: "string list"

definition newHTTPRendezvous :: "string \<Rightarrow> string list \<Rightarrow> err + httpRendezvous" where
  "newHTTPRendezvous broker fronts =
     (case url_Parse broker of
        Inl e \<Rightarrow> Inl e
      | Inr brokerURL \<Rightarrow> Inr \<lparr>http_brokerURL = brokerURL, http_fronts = fronts\<rparr>)"

definition http_Exchange ::
  "(http_Request \<Rightarrow> err + http_Response) \<Rightarrow> (nat \<Rightarrow> nat) \<Rightarrow> httpRendezvous \<Rightarrow> string \<Rightarrow> string go" where
  "http_Exchange RoundTrip pick r encPollReq =
     (let reqURL = ResolveReference_path (http_brokerURL r) ''client'' in
      case http_NewRequest ''POST'' (URL_String reqURL) encPollReq of
        Inl e \<Rightarrow> Fail e
      | Inr req \<Rightarrow>
          (case RoundTrip (domain_front pick (http_fronts r) req) of
             Inl e \<Rightarrow> Fail e
           | Inr resp \<Rightarrow>
               if hs_StatusCode resp \<noteq> StatusOK then Fail brokerErrorUnexpected
               else
                 (case limitedRead (hs_Body resp) (hs_err resp) client_readLimit of
                    (_, Some e) \<Rightarrow> Fail e
                  | (p, None) \<Rightarrow> Ok p)))"

record ampCacheRendezvous =
  amp_brokerURL :: URL
  amp_cacheURL :: "URL option"
  amp_fronts :: "string list"

definition newAMPCacheRendezvous :: "string \<Rightarrow> string \<Rightarrow> string list \<Rightarrow> err + ampCacheRendezvous" where
  "newAMPCacheRendezvous broker cache fronts =
     (case url_Parse broker of
        Inl e \<Rightarrow> Inl e
      | Inr brokerURL \<Rightarrow>
          (case (if cache \<noteq> [] then map_sum id Some (url_Parse cache) else Inr None) of
             Inl e \<Rightarrow> Inl e
           | Inr cacheURL \<Rightarrow> Inr \<lparr>amp_brokerURL = brokerURL, amp_cacheURL = cacheURL, amp_fronts = fronts\<rparr>))"

text \<open>
  \<open>tokens\<close> is the tokenizer of the package \<open>html\<close>, which ends with the error of the reader.  It reads at most one
  byte more than the limit.  \<open>resp.Location\<close> fails when there is no such header or it is no URL.
\<close>

definition amp_Exchange ::
  "(http_Request \<Rightarrow> err + http_Response) \<Rightarrow> (nat \<Rightarrow> nat) \<Rightarrow> idna \<Rightarrow> (string \<Rightarrow> err \<Rightarrow> html_token list) \<Rightarrow> string \<Rightarrow>
   ampCacheRendezvous \<Rightarrow> string \<Rightarrow> string go" where
  "amp_Exchange RoundTrip pick idna tokens cacheBreaker r encPollReq =
     (let reqURL = ResolveReference_path (amp_brokerURL r) (''amp/client/'' @ EncodePath cacheBreaker encPollReq) in
      case (case amp_cacheURL r of Some cache \<Rightarrow> CacheURL idna reqURL cache ''c'' | None \<Rightarrow> Inr reqURL) of
        Inl e \<Rightarrow> Fail e
      | Inr reqURL \<Rightarrow>
          (case http_NewRequest ''GET'' (URL_String reqURL) [] of
             Inl e \<Rightarrow> Fail e
           | Inr req \<Rightarrow>
               (case RoundTrip (domain_front pick (amp_fronts r) req) of
                  Inl e \<Rightarrow> Fail e
                | Inr resp \<Rightarrow>
                    if hs_StatusCode resp \<noteq> StatusOK then Fail brokerErrorUnexpected
                    else if hs_Location resp \<noteq> [] \<and> (\<exists>u. url_Parse (hs_Location resp) = Inr u) then Fail brokerErrorUnexpected
                    else
                      (let limit = client_readLimit + 1;
                           e = (if length (hs_Body resp) \<ge> limit then io_EOF
                                else case hs_err resp of Some e \<Rightarrow> e | None \<Rightarrow> io_EOF) in
                       case armor_decode (tokens (take limit (hs_Body resp)) e) of
                         Inl e \<Rightarrow> Fail e
                       | Inr encPollResp \<Rightarrow>
                           if length (hs_Body resp) \<ge> limit then Fail io_ErrUnexpectedEOF else Ok encPollResp))))"

record AwsCreds =
  AwsAccessKeyId :: string
  AwsSecretKey :: string

definition AwsCreds_fields :: "AwsCreds fields" where
  "AwsCreds_fields =
     [(''aws-access-key-id'', set_string (\<lambda>s r. r\<lparr>AwsAccessKeyId := s\<rparr>)),
      (''aws-secret-key'', set_string (\<lambda>s r. r\<lparr>AwsSecretKey := s\<rparr>))]"

definition AwsCreds_Base64 :: "AwsCreds \<Rightarrow> err + string" where
  "AwsCreds_Base64 awsCreds =
     (case json_Marshal [(''aws-access-key-id'', JStr (AwsAccessKeyId awsCreds)), (''aws-secret-key'', JStr (AwsSecretKey awsCreds))] of
        Inl e \<Rightarrow> Inl e
      | Inr jsonData \<Rightarrow> Inr (b64_encode False jsonData))"

definition AwsCredsFromBase64 :: "string \<Rightarrow> err + AwsCreds" where
  "AwsCredsFromBase64 base64Str =
     (case b64_decode False base64Str of
        Inl e \<Rightarrow> Inl e
      | Inr jsonData \<Rightarrow> json_Unmarshal AwsCreds_fields jsonData \<lparr>AwsAccessKeyId = [], AwsSecretKey = []\<rparr>)"

record 's sqsRendezvous =
  rz_sqsClient :: "'s SQSClient"
  rz_sqsURL :: URL
  rz_numRetries :: nat

text \<open>
  The regular expression \<open>^sqs\.([\w-]+)\.amazonaws\.com$\<close>.  A process that ends with \<open>log.Fatal\<close> gives \<open>Panic\<close>;
  \<open>NewFromConfig\<close> is the library's constructor of a client for the credentials and the region.
\<close>

definition sqs_region :: "string \<Rightarrow> string option" where
  "sqs_region hostName =
     (if HasPrefix hostName ''sqs.'' \<and> HasSuffix (drop 4 hostName) ''.amazonaws.com'' then
        (let region = TrimSuffix (drop 4 hostName) ''.amazonaws.com'' in
         if region \<noteq> [] \<and> list_all (\<lambda>c. is_letter c \<or> is_dec c \<or> c = CHR ''_'' \<or> c = CHR ''-'') region then Some region else None)
      else None)"

definition newSQSRendezvous ::
  "(AwsCreds \<Rightarrow> string \<Rightarrow> err + 's SQSClient) \<Rightarrow> string \<Rightarrow> string \<Rightarrow> 's sqsRendezvous go" where
  "newSQSRendezvous NewFromConfig sqsQueue sqsCredsStr =
     (case url_Parse sqsQueue of
        Inl e \<Rightarrow> Fail e
      | Inr sqsURL \<Rightarrow>
          (case AwsCredsFromBase64 sqsCredsStr of
             Inl e \<Rightarrow> Fail e
           | Inr sqsCreds \<Rightarrow>
               (case sqs_region (Hostname sqsURL) of
                  None \<Rightarrow> Panic
                | Some region \<Rightarrow>
                    (case NewFromConfig sqsCreds region of
                       Inl _ \<Rightarrow> Panic
                     | Inr client \<Rightarrow> Ok \<lparr>rz_sqsClient = client, rz_sqsURL = sqsURL, rz_numRetries = 5\<rparr>))))"

text \<open>The two loops of \<open>Exchange\<close>; \<open>prev\<close> is the error of the last attempt, or the URL.\<close>

fun response_queue :: "'s SQSClient \<Rightarrow> string \<Rightarrow> nat \<Rightarrow> err + string option \<Rightarrow> 's \<Rightarrow> (err + string option) \<times> 's" where
  "response_queue client name 0 prev s = (prev, s)"
| "response_queue client name (Suc n) prev s =
     (case GetQueueUrl client name s of
        (Inl e, s) \<Rightarrow> response_queue client name n (Inl e) s
      | (Inr url, s) \<Rightarrow> (Inr (Some url), s))"

fun receive_answer :: "'s SQSClient \<Rightarrow> string \<Rightarrow> nat \<Rightarrow> 's \<Rightarrow> string go \<times> 's" where
  "receive_answer client url 0 s = (Ok [], s)"
| "receive_answer client url (Suc n) s =
     (case ReceiveMessage client url 1 20 s of
        (Inl e, s) \<Rightarrow> (Fail e, s)
      | (Inr [], s) \<Rightarrow> receive_answer client url n s
      | (Inr (m # _), s) \<Rightarrow> (case message_Body m of None \<Rightarrow> (Panic, s) | Some b \<Rightarrow> (Ok b, s)))"

text \<open>
  \<open>ident\<close> is the random bytes.  Without retries the URL is a nil pointer, which the library refuses as a missing
  parameter; there are five.
\<close>

definition sqs_Exchange :: "'s sqsRendezvous \<Rightarrow> string \<Rightarrow> string \<Rightarrow> 's \<Rightarrow> string go \<times> 's" where
  "sqs_Exchange r ident encPollReq s =
     (let sqsClientID = hex_EncodeToString ident in
      case SendMessage (rz_sqsClient r) (URL_String (rz_sqsURL r)) encPollReq [''ClientID'' \<mapsto> Some sqsClientID] s of
        (Some e, s) \<Rightarrow> (Fail e, s)
      | (None, s) \<Rightarrow>
          (case response_queue (rz_sqsClient r) (''snowflake-client-'' @ sqsClientID) (rz_numRetries r) (Inr None) s of
             (Inl e, s) \<Rightarrow> (Fail e, s)
           | (Inr None, s) \<Rightarrow> (Fail (Err ''missing required field, QueueUrl''), s)
           | (Inr (Some url), s) \<Rightarrow> receive_answer (rz_sqsClient r) url (rz_numRetries r) s))"

section \<open>The broker channel\<close>

record BrokerChannel =
  Exchange :: "string \<Rightarrow> string go"
  keepLocalAddresses :: bool
  bc_natType :: string
  BridgeFingerprint :: string

definition preparePollRequest ::
  "(SessionDescription \<Rightarrow> err + string) \<Rightarrow> SessionDescription \<Rightarrow> string \<Rightarrow> string \<Rightarrow> err + string" where
  "preparePollRequest marshal offer natt bridgeFingerprint =
     (case SerializeSessionDescription marshal offer of
        Inl e \<Rightarrow> Inl e
      | Inr offerSDP \<Rightarrow>
          fst (EncodeClientPollRequest \<lparr>poll_Offer = offerSDP, poll_NAT = natt, poll_Fingerprint = bridgeFingerprint\<rparr>))"

definition Negotiate ::
  "(SessionDescription \<Rightarrow> err + string) \<Rightarrow> BrokerChannel \<Rightarrow> SessionDescription \<Rightarrow> string \<Rightarrow> SessionDescription go" where
  "Negotiate marshal bc offer natTypeToSend =
     (case preparePollRequest marshal offer natTypeToSend (BridgeFingerprint bc) of
        Inl e \<Rightarrow> Fail e
      | Inr encReq \<Rightarrow>
          gbind (Exchange bc encReq) (\<lambda>encResp.
            case DecodeClientPollResponse encResp of
              Inl e \<Rightarrow> Fail e
            | Inr resp \<Rightarrow>
                if poll_Error resp \<noteq> [] then Fail (Err (poll_Error resp))
                else (case DeserializeSessionDescription (poll_Answer resp) of Inl e \<Rightarrow> Fail e | Inr desc \<Rightarrow> Ok desc)))"

definition SetNATType :: "string \<Rightarrow> BrokerChannel \<Rightarrow> BrokerChannel" where
  "SetNATType natt bc = bc\<lparr>bc_natType := natt\<rparr>"

definition GetNATType :: "BrokerChannel \<Rightarrow> string" where
  "GetNATType bc = bc_natType bc"

text \<open>The NAT policy is its one flag.\<close>

record NATPolicy =
  assumedUnrestrictedNATAndFailedToConnect :: bool

definition NATTypeToSend :: "NATPolicy \<Rightarrow> string \<Rightarrow> string" where
  "NATTypeToSend p actualNatType =
     (if \<not> assumedUnrestrictedNATAndFailedToConnect p \<and> actualNatType = NATUnknown then NATUnrestricted
      else actualNatType)"

definition NATPolicy_Success :: "string \<Rightarrow> string \<Rightarrow> NATPolicy \<Rightarrow> NATPolicy" where
  "NATPolicy_Success actualNATType sentNATType p = p"

definition NATPolicy_Failure :: "string \<Rightarrow> string \<Rightarrow> NATPolicy \<Rightarrow> NATPolicy" where
  "NATPolicy_Failure actualNATType sentNATType p =
     (if actualNATType = NATUnknown \<and> sentNATType = NATUnrestricted
      then p\<lparr>assumedUnrestrictedNATAndFailedToConnect := True\<rparr> else p)"

section \<open>Configuration\<close>

text \<open>The transport that a method gets: the settings of the one for HTTP, perhaps wrapped by the library \<open>utls\<close>.\<close>

record http_Transport =
  tr_MinVersion :: nat
  tr_Proxy :: "URL option"
  ResponseHeaderTimeout :: int

definition createBrokerTransport :: "URL option \<Rightarrow> http_Transport" where
  "createBrokerTransport proxy =
     \<lparr>tr_MinVersion = 0x0304, tr_Proxy = proxy, ResponseHeaderTimeout = 15 * 1000000000\<rparr>"

record ClientConfig =
  BrokerURL :: string
  AmpCacheURL :: string
  SQSQueueURL :: string
  SQSCredsStr :: string
  FrontDomain :: string
  FrontDomains :: "string list"
  ICEAddresses :: "string list"
  KeepLocalAddresses :: bool
  cfg_Max :: int
  UTLSClientID :: string
  UTLSRemoveSNI :: bool
  cfg_BridgeFingerprint :: string
  CommunicationProxy :: "URL option"
  CovertDTLSConfig :: string
  CovertDTLSFingerprint :: string

text \<open>
  \<open>utls\<close> gives the transport of a client identifier, or the error of an unknown one.  \<open>sqs\<close>, \<open>amp\<close> and
  \<open>http\<close> make the \<open>Exchange\<close> of a method over a transport.
\<close>

definition newBrokerChannelFromConfig ::
  "(string \<Rightarrow> err + (bool \<Rightarrow> http_Transport \<Rightarrow> 't)) \<Rightarrow> (http_Transport \<Rightarrow> 't) \<Rightarrow>
   (AwsCreds \<Rightarrow> string \<Rightarrow> err + 's SQSClient) \<Rightarrow>
   ('t \<Rightarrow> 's sqsRendezvous \<Rightarrow> string \<Rightarrow> string go) \<Rightarrow> ('t \<Rightarrow> ampCacheRendezvous \<Rightarrow> string \<Rightarrow> string go) \<Rightarrow>
   ('t \<Rightarrow> httpRendezvous \<Rightarrow> string \<Rightarrow> string go) \<Rightarrow> ClientConfig \<Rightarrow> BrokerChannel go" where
  "newBrokerChannelFromConfig utls direct NewFromConfig sqs amp http config =
     (let tr = createBrokerTransport (CommunicationProxy config);
          brokerTransport =
            (if UTLSClientID config \<noteq> [] then
               (case utls (UTLSClientID config) of
                  Inl e \<Rightarrow> Fail (Errorf ''unable to create broker channel: '' e)
                | Inr mk \<Rightarrow> Ok (mk (UTLSRemoveSNI config) tr))
             else Ok (direct tr)) in
      gbind brokerTransport (\<lambda>t.
      gbind
        (if SQSQueueURL config \<noteq> [] then
           if AmpCacheURL config \<noteq> [] \<or> BrokerURL config \<noteq> [] then Panic
           else if SQSCredsStr config = [] then Panic
           else gmap (sqs t) (newSQSRendezvous NewFromConfig (SQSQueueURL config) (SQSCredsStr config))
         else if AmpCacheURL config \<noteq> [] \<and> BrokerURL config \<noteq> [] then
           (case newAMPCacheRendezvous (BrokerURL config) (AmpCacheURL config) (FrontDomains config) of
              Inl e \<Rightarrow> Fail e | Inr r \<Rightarrow> Ok (amp t r))
         else if BrokerURL config \<noteq> [] then
           (case newHTTPRendezvous (BrokerURL config) (FrontDomains config) of
              Inl e \<Rightarrow> Fail e | Inr r \<Rightarrow> Ok (http t r))
         else Panic)
        (\<lambda>exchange. Ok \<lparr>Exchange = exchange, keepLocalAddresses = KeepLocalAddresses config, bc_natType = NATUnknown,
           BridgeFingerprint = cfg_BridgeFingerprint config\<rparr>)))"

section \<open>The exchange through an AMP cache\<close>

text \<open>The elements of the path of a request.\<close>

definition amp_elems :: "string \<Rightarrow> string \<Rightarrow> string list" where
  "amp_elems cacheBreaker data = [''amp'', ''client'', CHR ''0'' # b64_encode True cacheBreaker, b64_encode True data]"

lemma slashed_amp_elems: "slashed (amp_elems cb data) = CHR ''/'' # ''amp/client/'' @ EncodePath cb data"
  by (simp add: slashed_def amp_elems_def EncodePath_def)

lemma b64_url_set: "c \<in> set (b64_encode True s) \<Longrightarrow> path_char c \<and> c \<noteq> CHR ''/'' \<and> c \<noteq> CHR ''.''"
  using b64_ok_encode [of c True s]
  by (auto simp: b64_ok_def url_char_def path_char_def is_letter_def is_dec_def)

lemma amp_elems_ok: "data \<noteq> [] \<Longrightarrow> \<forall>e \<in> set (amp_elems cb data). path_elem e" "list_all path_char (slashed (amp_elems cb data))"
proof -
  have no: "CHR ''/'' \<notin> set (b64_encode True s)" "CHR ''.'' \<notin> set (b64_encode True s)" for s
    using b64_url_set by blast+
  have "b64_encode True data \<noteq> ''.''" "b64_encode True data \<noteq> ''..''" using no(2) [of data] by auto
  then show "data \<noteq> [] \<Longrightarrow> \<forall>e \<in> set (amp_elems cb data). path_elem e"
    using no(1) by (simp add: amp_elems_def path_elem_def b64_encode_Nil)
  have "list_all path_char (b64_encode True s)" for s using b64_url_set by (simp add: list_all_iff)
  then show "list_all path_char (slashed (amp_elems cb data))"
    by (simp add: slashed_amp_elems EncodePath_def path_char_def is_letter_def is_dec_def)
qed

text \<open>A broker whose handlers are at the root of a host.\<close>

definition root_url :: "URL \<Rightarrow> bool" where
  "root_url u \<longleftrightarrow> plain_url u \<and> Scheme u = ''https'' \<and> RawPath u = [] \<and> (Path u = [] \<or> Path u = ''/'') \<and> path_elem (Host u)"

lemma amp_request_url:
  assumes "root_url u" "data \<noteq> []"
  shows "ResolveReference_path u (''amp/client/'' @ EncodePath cb data) = u\<lparr>Path := slashed (amp_elems cb data), RawPath := []\<rparr>"
proof -
  let ?es = "amp_elems cb data"
  have u: "plain_url u" "RawPath u = []" "Path u = [] \<or> Path u = ''/''" using assms(1) by (auto simp: root_url_def)
  have ref: "''amp/client/'' @ EncodePath cb data = tl (slashed ?es)" by (simp add: slashed_amp_elems)
  have "list_all path_char (slashed ?es)" by (rule amp_elems_ok(2))
  then have chars: "list_all path_char (tl (slashed ?es))" by (simp add: slashed_amp_elems)
  have "EscapedPath (empty_URL\<lparr>Path := tl (slashed ?es)\<rparr>) = tl (slashed ?es)"
    using chars by (intro trans [OF plain_EscapedPath]) (simp_all add: empty_URL_def)
  moreover have "EscapedPath u = Path u" using u by (intro plain_EscapedPath) (simp_all add: plain_url_def)
  moreover have "resolvePath (Path u) (tl (slashed ?es)) = slashed ?es"
    by (rule resolvePath_root) (use amp_elems_ok(1) [OF assms(2)] u in \<open>simp_all add: amp_elems_def\<close>)
  ultimately have "ResolveReference_path u (tl (slashed ?es)) =
      empty_URL\<lparr>Scheme := Scheme u, Host := Host u, User := User u, Path := slashed ?es, RawPath := []\<rparr>"
    using plain_setPath [OF amp_elems_ok(2)] by (simp add: ResolveReference_path_def Let_def)
  also have "\<dots> = u\<lparr>Path := slashed ?es, RawPath := []\<rparr>"
    using u(1) by (cases u) (simp add: plain_url_def empty_URL_def)
  finally show ?thesis unfolding ref .
qed

lemma NewRequest_plain:
  assumes "plain_url u" "HasPrefix (Path u) ''/''"
  shows "http_NewRequest meth (URL_String u) body =
    Inr \<lparr>hr_Method = meth, hr_URL = u\<lparr>RawPath := []\<rparr>, hr_Host = Host u, hr_Body = body\<rparr>"
proof -
  have "CHR '':'' \<notin> set (Host u)" using assms(1) host_char_special unfolding plain_url_def list_all_iff by blast
  then have "removeEmptyPort (Host u) = Host u" by (simp add: removeEmptyPort_def split_last_None)
  then show ?thesis by (simp add: http_NewRequest_def Parse_String [OF assms])
qed

text \<open>
  What the exchange relies on.  An AMP cache answers a request for a document of a publisher with what the publisher
  answers; the publisher is the broker, which \<open>origin\<close> asks; the tokenizer finds the elements of an armored document.
\<close>

definition through_cache :: "(http_Request \<Rightarrow> err + http_Response) \<Rightarrow> string \<Rightarrow> (string \<Rightarrow> err + http_Response) \<Rightarrow> bool" where
  "through_cache RoundTrip host origin \<longleftrightarrow>
     (\<forall>req p. hr_Method req = ''GET'' \<longrightarrow> Path (hr_URL req) = slashed [''c'', ''s'', host] @ p \<longrightarrow> RoundTrip req = origin p)"

definition amp_origin :: "('s, 'h) realclientip \<Rightarrow> nat \<Rightarrow> (Arg \<Rightarrow> reply) \<Rightarrow> 'h request \<Rightarrow> string \<Rightarrow> err + http_Response" where
  "amp_origin rc deadline ipc r path =
     (case ampClientOffers rc deadline ipc (r\<lparr>URL_Path := path\<rparr>) of
        Ok w \<Rightarrow> Inr \<lparr>hs_StatusCode = StatusCode w, hs_Location = [], hs_Body = resp_Body w, hs_err = None\<rparr>
      | Fail e \<Rightarrow> Inl e
      | Panic \<Rightarrow> Inl io_EOF)"

definition tokenizes :: "(string \<Rightarrow> err \<Rightarrow> html_token list) \<Rightarrow> bool" where
  "tokenizes tokens \<longleftrightarrow>
     (\<exists>pre post. (\<forall>t \<in> set (pre @ post). neutral t) \<and>
        (\<forall>es. (\<forall>e \<in> set es. text_ok e) \<longrightarrow>
           tokens (boilerplateStart @ concat (map wrap es) @ boilerplateEnd) io_EOF =
             pre @ concat (map wrap_tokens es) @ post @ [ErrorToken io_EOF]))"

lemma tokenizes_decode:
  assumes "tokenizes tokens" "armor_encode ps = Inr doc"
  shows "armor_decode (tokens doc io_EOF) = Inr (concat ps)"
proof -
  obtain pre post where "\<forall>t \<in> set (pre @ post). neutral t"
      "\<And>es. \<forall>e \<in> set es. text_ok e \<Longrightarrow> tokens (boilerplateStart @ concat (map wrap es) @ boilerplateEnd) io_EOF =
             pre @ concat (map wrap_tokens es) @ post @ [ErrorToken io_EOF]"
    using assms(1) unfolding tokenizes_def by blast
  then show ?thesis
    using armor_decode_encode [of "\<lambda>doc. tokens doc io_EOF" pre post ps] assms(2) by simp
qed

lemma cache_url:
  assumes "root_url u" "plain_url cache" "Path cache = ''/''" "list_all host_char (domainPrefix idna (Host u))" "data \<noteq> []"
  shows "\<exists>v. CacheURL idna (u\<lparr>Path := slashed (amp_elems cb data), RawPath := []\<rparr>) cache ''c'' = Inr v \<and> plain_url v \<and>
    Path v = slashed [''c'', ''s'', Host u] @ slashed (amp_elems cb data)"
proof -
  let ?pub = "u\<lparr>Path := slashed (amp_elems cb data), RawPath := []\<rparr>"
  let ?es = "[''c'', ''s'', Host u] @ amp_elems cb data"
  have u: "plain_url u" "Scheme u = ''https''" "path_elem (Host u)" "list_all host_char (Host u)"
    using assms(1) by (simp_all add: root_url_def plain_url_def)
  have pub: "plain_url ?pub" using u(1) amp_elems_ok(2) by (simp add: plain_url_def)
  have "CacheURL idna ?pub cache ''c'' =
      Inr (empty_URL\<lparr>Scheme := Scheme cache, Host := domainPrefix idna (Host u) @ ''.'' @ Host cache, Path := slashed ?es, RawPath := slashed ?es\<rparr>)"
    using CacheURL_plain [OF pub, of "amp_elems cb data" cache idna] u assms(2,3) amp_elems_ok(1) [OF assms(5)]
    by (simp add: amp_elems_def)
  moreover have "list_all path_char (slashed [''c'', ''s'', Host u])"
  proof -
    have "list_all path_char (Host u)" using u(4) by (rule list.pred_mono_strong) (auto simp: host_char_def path_char_def)
    then show ?thesis by (simp add: slashed_def) (simp add: path_char_def is_letter_def)
  qed
  ultimately show ?thesis
    using assms(2,4) amp_elems_ok(2) by (simp add: plain_url_def slashed_append empty_URL_def host_char_def del: append.simps)
qed

lemma amp_Exchange_delivers:
  assumes "root_url (amp_brokerURL r)" "amp_cacheURL r = Some cache" "plain_url cache" "Path cache = ''/''"
    and "list_all host_char (domainPrefix idna (Host (amp_brokerURL r)))" "data \<noteq> []"
    and "through_cache RoundTrip (Host (amp_brokerURL r)) (amp_origin rc deadline ipc req)" "tokenizes tokens"
    and "ipc \<lparr>Body = data, RemoteAddr = client_ip rc req, Rendezvous = RendezvousAmpCache, Context = Some deadline\<rparr> = (None, response)"
    and "armor_encode [response] = Inr doc" "length doc \<le> client_readLimit"
  shows "amp_Exchange RoundTrip pick idna tokens cb r data = Ok response"
proof -
  obtain v where v: "CacheURL idna ((amp_brokerURL r)\<lparr>Path := slashed (amp_elems cb data), RawPath := []\<rparr>) cache ''c'' = Inr v"
      "plain_url v" "Path v = slashed [''c'', ''s'', Host (amp_brokerURL r)] @ slashed (amp_elems cb data)"
    using cache_url [OF assms(1,3-6)] by blast
  have "HasPrefix (Path v) ''/''" by (simp add: v(3) slashed_def HasPrefix_def)
  note req = NewRequest_plain [OF v(2) this, of "''GET''" "[]"]
  have path: "slashed (amp_elems cb data) = ''/amp/client/'' @ EncodePath cb data" by (simp add: slashed_amp_elems)
  have "client_ip rc (req\<lparr>URL_Path := p\<rparr>) = client_ip rc req" for p by (simp add: client_ip_def)
  then obtain w where w: "ampClientOffers rc deadline ipc (req\<lparr>URL_Path := ''/amp/client/'' @ EncodePath cb data\<rparr>) = Ok w"
      "StatusCode w = StatusOK" "resp_Body w = doc"
    using ampClientOffers_armor [OF DecodePath_EncodePath, of "req\<lparr>URL_Path := ''/amp/client/'' @ EncodePath cb data\<rparr>" cb data
        ipc rc deadline response doc] assms(9,10) by auto
  have "RoundTrip (domain_front pick (amp_fronts r) \<lparr>hr_Method = ''GET'', hr_URL = v\<lparr>RawPath := []\<rparr>, hr_Host = Host v, hr_Body = []\<rparr>) =
      amp_origin rc deadline ipc req (''/amp/client/'' @ EncodePath cb data)"
    using assms(7) v(3) unfolding through_cache_def path [symmetric] by (simp add: domain_front_def)
  also have "\<dots> = Inr \<lparr>hs_StatusCode = StatusOK, hs_Location = [], hs_Body = doc, hs_err = None\<rparr>"
    unfolding amp_origin_def w(1) by (simp add: w)
  finally show ?thesis
    unfolding amp_Exchange_def amp_request_url [OF assms(1,6)] Let_def
    using tokenizes_decode [OF assms(8,10)] assms(2,11) by (simp add: v(1) req)
qed

text \<open>A reply with an answer, as the client decodes it.\<close>

lemma Decode_answer:
  assumes "valid_utf8 answer" "answer \<noteq> []"
  shows "\<exists>data. sendClientResponse \<lparr>poll_Answer = answer, poll_Error = []\<rparr> = (None, data) \<and>
    DecodeClientPollResponse data = Inr \<lparr>poll_Answer = answer, poll_Error = []\<rparr>"
proof -
  have "json_Unmarshal ClientPollResponse_fields (json_print (JObj [(''answer'', JStr answer)]))
      \<lparr>poll_Answer = [], poll_Error = []\<rparr> = Inr \<lparr>poll_Answer = answer, poll_Error = []\<rparr>"
    using assms by (simp add: Unmarshal_Marshal ClientPollResponse_fields_def decode_simps valid_utf8_def del: json_print.simps)
  with assms(2) show ?thesis
    by (simp add: sendClientResponse_def ClientPollResponse_EncodePollResponse_def json_Marshal_def
        DecodeClientPollResponse_def del: json_print.simps)
qed

lemma quote_ascii: "ascii s \<Longrightarrow> ascii (quote_body s)"
proof (induction s)
  case (Cons c cs)
  have "ascii (esc_ascii c)" if "code c < 128"
  proof -
    have "code (hex_digit n) < 128" if "n < 16" for n using that by (auto simp: hex_digit_def)
    then show ?thesis using that by (simp add: esc_ascii_def ascii_def Let_def)
  qed
  with Cons show ?case by (subst quote_body.simps) (simp add: ascii_def)
qed (simp add: quote_body.simps ascii_def)

lemma pion_json_ascii: "ascii (sd_SDP desc) \<Longrightarrow> ascii (json_print (pion_json desc))"
  by (cases "sd_Type desc") (simp_all add: pion_json_def json_quote_def ascii_def quote_ascii [unfolded ascii_def])

lemma ascii_valid: "ascii s \<Longrightarrow> valid_utf8 s"
  by (simp add: valid_utf8_def)

lemma pion_json_nonempty: "json_print (pion_json desc) \<noteq> []"
  by (simp add: pion_json_def)


text \<open>The theorem for a small answer, with the tokenizer of the theory \<open>Amp\<close> and names that need no Punycode.\<close>

definition sample_answer :: SessionDescription where
  "sample_answer = \<lparr>sd_Type = SDPTypeAnswer, sd_SDP = ''v=0''\<rparr>"

definition sample_broker :: URL where
  "sample_broker = empty_URL\<lparr>Scheme := ''https'', Host := ''broker.example'', Path := ''/''\<rparr>"

definition sample_cache :: URL where
  "sample_cache = empty_URL\<lparr>Scheme := ''https'', Host := ''cdn.example'', Path := ''/''\<rparr>"

definition sample_idna :: idna where
  "sample_idna = \<lparr>ToUnicode = Inr, ToASCII = Inr\<rparr>"

definition sample_offers :: "Arg \<Rightarrow> reply" where
  "sample_offers arg = sendClientResponse \<lparr>poll_Answer = json_print (pion_json sample_answer), poll_Error = []\<rparr>"

definition sample_RoundTrip :: "http_Request \<Rightarrow> err + http_Response" where
  "sample_RoundTrip req =
     amp_origin sample_realclientip 5 sample_offers sample_request
       (drop (length (slashed [''c'', ''s'', Host sample_broker])) (Path (hr_URL req)))"


end
