(* ===== verification/Tunnel.thy ===== *)
theory Tunnel
  imports Encapsulation Client_Map Client_ID_Map Go_Addr Go_Sha256
begin

text \<open>
  Packets between a client and the server.  The client writes them to the stream of a snowflake
  (\<open>src/client/lib/turbotunnel.go\<close>, and the preamble in \<open>newSession\<close> of \<open>src/client/lib/snowflake.go\<close>);
  the server takes them from the stream of a WebSocket (\<open>src/server/lib/http.go\<close>) and puts them into the
  queues of \<open>src/common/turbotunnel/queuepacketconn.go\<close>, from which its packets go back.
\<close>

section \<open>Model\<close>

definition Token :: bytes where
  "Token = [0x12, 0x93, 0x60, 0x5d, 0x27, 0x81, 0x75, 0xf5]"

definition errClosedPacketConn :: err where
  "errClosedPacketConn = Err ''operation on closed connection''"

definition OpError :: "string \<Rightarrow> err \<Rightarrow> err" where
  "OpError op e = Errorf (op @ '' '') e"

subsection \<open>QueuePacketConn\<close>

text \<open>
  The error is stored before the channel \<open>closed\<close> is closed, so the two are one field.  The buffers of the pool
  are made with the capacity \<open>mtu\<close> and none of another capacity gets into it; a packet is a copy of its first
  \<open>mtu\<close> bytes.
\<close>

record 'a QueuePacketConn =
  qpc_clients :: "'a clientMapInner"
  qpc_recvQueue :: "(bytes \<times> 'a) list"
  qpc_closed :: "err option"
  qpc_mtu :: nat

definition NewQueuePacketConn :: "nat \<Rightarrow> 'a QueuePacketConn" where
  "NewQueuePacketConn mtu = \<lparr>qpc_clients = NewClientMap, qpc_recvQueue = [], qpc_closed = None, qpc_mtu = mtu\<rparr>"

definition QueueIncoming :: "bytes \<Rightarrow> 'a \<Rightarrow> 'a QueuePacketConn \<Rightarrow> 'a QueuePacketConn" where
  "QueueIncoming p addr c =
     (if qpc_closed c \<noteq> None then c
      else if length (qpc_recvQueue c) < queueSize then c\<lparr>qpc_recvQueue := qpc_recvQueue c @ [(take (qpc_mtu c) p, addr)]\<rparr>
      else c)"

text \<open>An operation that may block.\<close>

datatype 'r blocking = Blocks | Returns 'r

definition qpc_ReadFrom :: "nat \<Rightarrow> 'a QueuePacketConn \<Rightarrow> (err + bytes \<times> 'a) blocking \<times> 'a QueuePacketConn" where
  "qpc_ReadFrom plen c =
     (case qpc_closed c of
        Some e \<Rightarrow> (Returns (Inl (OpError ''read'' e)), c)
      | None \<Rightarrow>
          (case qpc_recvQueue c of
             [] \<Rightarrow> (Blocks, c)
           | (packet, addr) # q \<Rightarrow> (Returns (Inr (take plen packet, addr)), c\<lparr>qpc_recvQueue := q\<rparr>)))"

text \<open>A send on a closed channel panics, which is \<open>None\<close>; \<open>now\<close> is the time of the call.\<close>

definition qpc_WriteTo :: "bytes \<Rightarrow> 'a \<Rightarrow> int \<Rightarrow> 'a QueuePacketConn \<Rightarrow> ((err + nat) \<times> 'a QueuePacketConn) option" where
  "qpc_WriteTo p addr now c =
     (case qpc_closed c of
        Some e \<Rightarrow> Some (Inl (OpError ''write'' e), c)
      | None \<Rightarrow>
          (case cm_SendQueue addr now (qpc_clients c) of
             None \<Rightarrow> None
           | Some (q, m) \<Rightarrow>
               (let buf = take (qpc_mtu c) p; ch = chans m q in
                if ch_closed ch then None
                else if length (ch_buf ch) < ch_cap ch then
                  Some (Inr (length buf), c\<lparr>qpc_clients := m\<lparr>chans := (chans m)(q := ch\<lparr>ch_buf := ch_buf ch @ [buf]\<rparr>)\<rparr>\<rparr>)
                else Some (Inr (length p), c\<lparr>qpc_clients := m\<rparr>))))"

text \<open>\<open><-c.OutgoingQueue(addr)\<close>: a packet, or nothing when the queue is closed and empty.\<close>

definition receive_outgoing :: "'a \<Rightarrow> int \<Rightarrow> 'a QueuePacketConn \<Rightarrow> (bytes option blocking \<times> 'a QueuePacketConn) option" where
  "receive_outgoing addr now c =
     (case cm_SendQueue addr now (qpc_clients c) of
        None \<Rightarrow> None
      | Some (q, m) \<Rightarrow>
          (case ch_buf (chans m q) of
             p # ps \<Rightarrow> Some (Returns (Some p), c\<lparr>qpc_clients := m\<lparr>chans := (chans m)(q := (chans m q)\<lparr>ch_buf := ps\<rparr>)\<rparr>\<rparr>)
           | [] \<Rightarrow> Some (if ch_closed (chans m q) then Returns None else Blocks, c\<lparr>qpc_clients := m\<rparr>)))"

definition qpc_closeWithError :: "err option \<Rightarrow> 'a QueuePacketConn \<Rightarrow> err option \<times> 'a QueuePacketConn" where
  "qpc_closeWithError e c =
     (case qpc_closed c of
        None \<Rightarrow> (None, c\<lparr>qpc_closed := Some (case e of None \<Rightarrow> errClosedPacketConn | Some e \<Rightarrow> e)\<rparr>)
      | Some e \<Rightarrow> (Some (OpError ''close'' e), c))"

definition qpc_Close :: "'a QueuePacketConn \<Rightarrow> err option \<times> 'a QueuePacketConn" where
  "qpc_Close = qpc_closeWithError None"

subsection \<open>The client's connection\<close>

text \<open>
  \<open>bufio.Writer\<close> collects what \<open>WriteData\<close> writes and \<open>Flush\<close> passes it on; how it divides a long packet makes
  no difference to a connection that takes bytes until it fails.
\<close>

definition flush_data :: "writer \<Rightarrow> bytes \<Rightarrow> err option \<times> writer" where
  "flush_data w p =
     (case WriteData (bytes_Buffer []) p of
        ((_, Some e), _) \<Rightarrow> (Some e, w)
      | ((_, None), bw) \<Rightarrow> (case Write w (wout bw) of ((_, e), w) \<Rightarrow> (e, w)))"

definition encapsulation_WriteTo :: "writer \<Rightarrow> bytes \<Rightarrow> (nat \<times> err option) \<times> writer" where
  "encapsulation_WriteTo w p =
     (case flush_data w p of
        (Some e, w) \<Rightarrow> ((0, Some e), w)
      | (None, w) \<Rightarrow> ((length p, None), w))"

definition encapsulation_ReadFrom :: "reader \<Rightarrow> nat \<Rightarrow> (bytes \<times> err option) \<times> reader" where
  "encapsulation_ReadFrom r plen =
     (case ReadData r plen of
        ((p, e), r) \<Rightarrow> ((p, if e = Some io_ErrShortBuffer then None else e), r))"

text \<open>
  The function \<open>dialContext\<close> of \<open>newSession\<close>: what it writes to a snowflake before the first packet.  There is no
  snowflake when the collection has ended.
\<close>

definition paddingSize :: "byte \<Rightarrow> int" where
  "paddingSize randomByte = 1900 + uint randomByte mod 200"

definition dialContext :: "writer option \<Rightarrow> ClientID \<Rightarrow> byte \<Rightarrow> err + writer" where
  "dialContext snowflake clientID randomByte =
     (case snowflake of
        None \<Rightarrow> Inl (Err ''handler: Received invalid Snowflake'')
      | Some conn \<Rightarrow>
          (case WritePadding (bytes_Buffer (Token @ clientID)) (paddingSize randomByte) of
             None \<Rightarrow> Inl (Err ''negative'')
           | Some ((_, Some e), _) \<Rightarrow> Inl e
           | Some ((_, None), buf) \<Rightarrow>
               (case Write conn (wout buf) of
                  ((_, Some e), _) \<Rightarrow> Inl e
                | ((_, None), conn) \<Rightarrow> Inr conn)))"

subsection \<open>The server\<close>

definition clientIDAddrMapCapacity :: nat where "clientIDAddrMapCapacity = 98304"

record httpHandler =
  pconns :: "ClientID QueuePacketConn list"
  clientIDLookupKey :: bytes

definition newHTTPHandler :: "nat \<Rightarrow> nat \<Rightarrow> bytes \<Rightarrow> httpHandler" where
  "newHTTPHandler numInstances mtu key =
     \<lparr>pconns = replicate numInstances (NewQueuePacketConn mtu), clientIDLookupKey = key\<rparr>"

text \<open>\<open>Sum(b)\<close> appends the code of what was written, which is nothing, to its argument.\<close>

definition LittleEndian_Uint64 :: "bytes \<Rightarrow> nat" where
  "LittleEndian_Uint64 s = (\<Sum>i < 8. unat (s ! i) * 256 ^ i)"

definition lookup_index :: "httpHandler \<Rightarrow> ClientID \<Rightarrow> nat" where
  "lookup_index handler clientID =
     (let s = clientID @ hmac_sha256 (clientIDLookupKey handler) [] in
      LittleEndian_Uint64 s mod length (pconns handler))"

definition lookupPacketConn :: "httpHandler \<Rightarrow> ClientID \<Rightarrow> ClientID QueuePacketConn" where
  "lookupPacketConn handler clientID = pconns handler ! lookup_index handler clientID"

definition clientAddr :: "string \<Rightarrow> string" where
  "clientAddr clientIPParam =
     (if clientIPParam = [] then []
      else
        (case ParseIP clientIPParam of
           None \<Rightarrow> []
         | Some clientIP \<Rightarrow> if IsUnspecified clientIP then [] else TCPAddr_String clientIP 1))"

text \<open>
  The read loop of \<open>turbotunnelMode\<close>: the packets it passes on, until the stream ends or makes no sense.  A stream
  that fails with \<open>io.ErrShortBuffer\<close> itself would keep the loop running, which is \<open>None\<close>.
\<close>

partial_function (option) read_packets :: "reader \<Rightarrow> bytes list option" where
  "read_packets r =
     (case ReadData r 2048 of
        ((p, e), r') \<Rightarrow>
          if e = None \<or> e = Some io_ErrShortBuffer then Option.bind (read_packets r') (\<lambda>ps. Some (p # ps)) else Some [])"

text \<open>The write loop: the packets that come from the outgoing queue, until the connection fails.\<close>

fun write_packets :: "writer \<Rightarrow> bytes list \<Rightarrow> err option \<times> writer" where
  "write_packets w [] = (None, w)"
| "write_packets w (p # ps) =
     (case flush_data w p of
        (Some e, w) \<Rightarrow> (Some e, w)
      | (None, w) \<Rightarrow> write_packets w ps)"

text \<open>What \<open>turbotunnelMode\<close> does with the stream of a client, and what it remembers of its address.\<close>

definition turbotunnelMode ::
  "reader \<Rightarrow> string \<Rightarrow> httpHandler \<Rightarrow> string clientIDMap \<Rightarrow> (err option \<times> httpHandler \<times> string clientIDMap) option" where
  "turbotunnelMode conn addr handler ids =
     (case ReadFull conn 8 of
        ((_, Some e), _) \<Rightarrow> Some (Some (Errorf ''reading ClientID: '' e), handler, ids)
      | ((clientID, None), conn) \<Rightarrow>
          (let ids = cid_Set ids clientID (Some addr); i = lookup_index handler clientID in
           map_option (\<lambda>ps.
             (None, handler\<lparr>pconns := (pconns handler)[i := fold (\<lambda>p. QueueIncoming p clientID) ps (lookupPacketConn handler clientID)]\<rparr>, ids))
             (read_packets conn)))"

definition server_ServeHTTP ::
  "err + reader \<Rightarrow> string \<Rightarrow> httpHandler \<Rightarrow> string clientIDMap \<Rightarrow> (err option \<times> httpHandler \<times> string clientIDMap) option" where
  "server_ServeHTTP ws clientIPParam handler ids =
     (case ws of
        Inl e \<Rightarrow> Some (Some e, handler, ids)
      | Inr conn \<Rightarrow>
          (case ReadFull conn (length Token) of
             ((_, Some e), _) \<Rightarrow> Some (Some e, handler, ids)
           | ((token, None), conn) \<Rightarrow>
               if token = Token then turbotunnelMode conn (clientAddr clientIPParam) handler ids
               else Some (None, handler, ids)))"

section \<open>Lemmas\<close>

subsection \<open>The queues\<close>

lemma queue_incoming_all:
  assumes "qpc_closed c = None"
  shows "fold (\<lambda>p. QueueIncoming p addr) ps c =
    c\<lparr>qpc_recvQueue := qpc_recvQueue c @
      map (\<lambda>p. (take (qpc_mtu c) p, addr)) (take (queueSize - length (qpc_recvQueue c)) ps)\<rparr>"
  using assms
proof (induction ps arbitrary: c)
  case (Cons p ps)
  show ?case
  proof (cases "length (qpc_recvQueue c) < queueSize")
    case True
    then have "queueSize - length (qpc_recvQueue c) = Suc (queueSize - Suc (length (qpc_recvQueue c)))" by simp
    with Cons True show ?thesis by (simp add: QueueIncoming_def)
  next
    case False
    with Cons show ?thesis by (simp add: QueueIncoming_def)
  qed
qed simp

text \<open>The packets that wait for a client, and what every operation keeps of them.\<close>

definition outgoing :: "'a QueuePacketConn \<Rightarrow> 'a \<Rightarrow> bytes list" where
  "outgoing c addr =
     (case cm_view (qpc_clients c) addr of None \<Rightarrow> [] | Some (_, q) \<Rightarrow> ch_buf (chans (qpc_clients c) q))"

definition qpc_wf :: "'a QueuePacketConn \<Rightarrow> bool" where
  "qpc_wf c \<longleftrightarrow> cm_wf (qpc_clients c) \<and>
     (\<forall>a t q. cm_view (qpc_clients c) a = Some (t, q) \<longrightarrow> ch_cap (chans (qpc_clients c) q) = queueSize)"

lemma qpc_wf_new: "qpc_wf (NewQueuePacketConn mtu)"
  by (simp add: qpc_wf_def NewQueuePacketConn_def cm_wf_def index_wf_def queues_wf_def heapn_def NewClientMap_def cm_view_def)

lemma view_queue_inj:
  assumes "cm_wf m" "cm_view m a = Some (t, q)" "cm_view m b = Some (u, q)"
  shows "a = b"
proof -
  have ix: "index_wf m" "distinct (map SendQueue (byAge m))" using assms(1) by (simp_all add: cm_wf_def queues_wf_def)
  obtain i where i: "i < length (byAge m)" "a = Addr (byAge m ! i)" "(t, q) = (LastSeen (byAge m ! i), SendQueue (byAge m ! i))"
    by (rule view_in_byAge [OF ix(1) assms(2)])
  obtain j where j: "j < length (byAge m)" "b = Addr (byAge m ! j)" "(u, q) = (LastSeen (byAge m ! j), SendQueue (byAge m ! j))"
    by (rule view_in_byAge [OF ix(1) assms(3)])
  have "map SendQueue (byAge m) ! i = map SendQueue (byAge m) ! j" using i j by simp
  then have "i = j" using ix(2) i(1) j(1) by (simp only: nth_eq_iff_index_eq length_map)
  with i j show ?thesis by simp
qed

text \<open>Replacing the contents of the queue of one client.\<close>

lemma set_queue:
  assumes "qpc_wf c" "cm_SendQueue addr now (qpc_clients c) = Some (q, m)"
  shows "ch_buf (chans m q) = outgoing c addr" "\<not> ch_closed (chans m q)" "ch_cap (chans m q) = queueSize"
    and "qpc_wf (c\<lparr>qpc_clients := m\<lparr>chans := (chans m)(q := (chans m q)\<lparr>ch_buf := ps\<rparr>)\<rparr>\<rparr>)"
    and "outgoing (c\<lparr>qpc_clients := m\<lparr>chans := (chans m)(q := (chans m q)\<lparr>ch_buf := ps\<rparr>)\<rparr>\<rparr>) = (outgoing c)(addr := ps)"
    and "chans m = (chans m)(q := (chans m q)\<lparr>ch_buf := outgoing c addr\<rparr>)"
proof -
  let ?old = "cm_view (qpc_clients c)" and ?m = "m\<lparr>chans := (chans m)(q := (chans m q)\<lparr>ch_buf := ps\<rparr>)\<rparr>"
  have wf: "cm_wf (qpc_clients c)" using assms(1) by (simp add: qpc_wf_def)
  have S: "cm_wf m" "cm_view m = ?old(addr \<mapsto> (now, q))" "\<not> ch_closed (chans m q)"
    "case ?old addr of
       Some (_, q') \<Rightarrow> q = q' \<and> chans m = chans (qpc_clients c)
     | None \<Rightarrow> (\<forall>a t. ?old a \<noteq> Some (t, q)) \<and> ch_buf (chans m q) = [] \<and> ch_cap (chans m q) = 512 \<and>
         (\<forall>q'. q' \<noteq> q \<longrightarrow> chans m q' = chans (qpc_clients c) q')"
    using cm_SendQueue_spec [OF wf, of addr now] assms(2) by auto
  show buf: "ch_buf (chans m q) = outgoing c addr" using S(4) by (auto simp: outgoing_def split: option.splits)
  show cap: "ch_cap (chans m q) = queueSize"
    using S(4) assms(1) by (auto simp: qpc_wf_def queueSize_def split: option.splits)
  show "\<not> ch_closed (chans m q)" by (fact S(3))
  show "chans m = (chans m)(q := (chans m q)\<lparr>ch_buf := outgoing c addr\<rparr>)"
    by (simp add: fun_eq_iff buf [symmetric])
  have other: "chans m q' = chans (qpc_clients c) q' \<and> q' \<noteq> q" if "?old a = Some (t, q')" "a \<noteq> addr" for a t q'
  proof (cases "?old addr")
    case None
    with S(4) have n: "\<forall>a t. ?old a \<noteq> Some (t, q)" "\<forall>q'. q' \<noteq> q \<longrightarrow> chans m q' = chans (qpc_clients c) q'" by simp_all
    with that(1) have "q' \<noteq> q" by blast
    with n(2) show ?thesis by blast
  next
    case (Some e)
    obtain u q2 where e: "?old addr = Some (u, q2)" using Some by (cases e) simp
    with S(4) have q: "q = q2" "chans m = chans (qpc_clients c)" by simp_all
    have "q' \<noteq> q2" using view_queue_inj [OF wf that(1)] e that(2) by blast
    with q show ?thesis by simp
  qed
  have view: "cm_view ?m = cm_view m" by (simp add: cm_view_def)
  have "cm_wf ?m" using S(1) by (auto simp: cm_wf_def index_wf_def queues_wf_def)
  moreover have "ch_cap (chans ?m q') = queueSize" if "cm_view ?m a = Some (t, q')" for a t q'
  proof (cases "a = addr")
    case True
    with that cap show ?thesis by (simp add: view S(2))
  next
    case False
    with that have "?old a = Some (t, q')" by (simp add: view S(2))
    with other [OF this False] assms(1) show ?thesis by (simp add: qpc_wf_def)
  qed
  ultimately show "qpc_wf (c\<lparr>qpc_clients := ?m\<rparr>)" by (simp add: qpc_wf_def)
  have "outgoing (c\<lparr>qpc_clients := ?m\<rparr>) a = outgoing c a" if "a \<noteq> addr" for a
  proof (cases "?old a")
    case (Some e)
    obtain t q' where "e = (t, q')" by (cases e)
    with Some other [of a t q'] that show ?thesis by (simp add: outgoing_def view S(2))
  qed (use that in \<open>simp add: outgoing_def view S(2)\<close>)
  moreover have "outgoing (c\<lparr>qpc_clients := ?m\<rparr>) addr = ps" by (simp add: outgoing_def view S(2))
  ultimately show "outgoing (c\<lparr>qpc_clients := ?m\<rparr>) = (outgoing c)(addr := ps)" by (simp add: fun_eq_iff)
qed

lemma SendQueue_some: "qpc_wf c \<Longrightarrow> \<exists>q m. cm_SendQueue addr now (qpc_clients c) = Some (q, m)"
  using cm_SendQueue_spec [of "qpc_clients c" addr now] by (auto simp: qpc_wf_def)

lemma qpc_WriteTo_spec:
  assumes "qpc_wf c" "qpc_closed c = None"
  shows "\<exists>n c'. qpc_WriteTo p addr now c = Some (Inr n, c') \<and> qpc_wf c' \<and> qpc_closed c' = None \<and> qpc_mtu c' = qpc_mtu c \<and>
    outgoing c' = (outgoing c)(addr := if length (outgoing c addr) < queueSize then outgoing c addr @ [take (qpc_mtu c) p] else outgoing c addr)"
proof -
  obtain q m where q: "cm_SendQueue addr now (qpc_clients c) = Some (q, m)" using SendQueue_some [OF assms(1)] by blast
  note s = set_queue [OF assms(1) q]
  show ?thesis
  proof (cases "length (outgoing c addr) < queueSize")
    case True
    with q assms(2) s(1-3) s(4,5) [of "outgoing c addr @ [take (qpc_mtu c) p]"] show ?thesis
      by (simp add: qpc_WriteTo_def Let_def)
  next
    case False
    have "m\<lparr>chans := (chans m)(q := (chans m q)\<lparr>ch_buf := outgoing c addr\<rparr>)\<rparr> = m" by (simp add: s(6) [symmetric])
    with False q assms(2) s(1-3) s(4,5) [of "outgoing c addr"] show ?thesis by (simp add: qpc_WriteTo_def Let_def)
  qed
qed

lemma receive_outgoing_spec:
  assumes "qpc_wf c"
  shows "\<exists>c'. receive_outgoing addr now c = Some (case outgoing c addr of [] \<Rightarrow> Blocks | p # _ \<Rightarrow> Returns (Some p), c') \<and>
    qpc_wf c' \<and> outgoing c' = (outgoing c)(addr := tl (outgoing c addr))"
proof -
  obtain q m where q: "cm_SendQueue addr now (qpc_clients c) = Some (q, m)" using SendQueue_some [OF assms] by blast
  note s = set_queue [OF assms q]
  show ?thesis
  proof (cases "outgoing c addr")
    case Nil
    have "m\<lparr>chans := (chans m)(q := (chans m q)\<lparr>ch_buf := outgoing c addr\<rparr>)\<rparr> = m" by (simp add: s(6) [symmetric])
    with Nil q s(1-3) s(4,5) [of "outgoing c addr"] show ?thesis by (simp add: receive_outgoing_def)
  next
    case (Cons p ps)
    with q s(1-3) s(4,5) [of ps] show ?thesis by (simp add: receive_outgoing_def)
  qed
qed

subsection \<open>Streams\<close>

text \<open>What writing packets appends to a stream: one chunk for each.\<close>

definition chunks_for :: "bytes list \<Rightarrow> (nat \<times> chunk) list \<Rightarrow> bool" where
  "chunks_for ps cs \<longleftrightarrow> list_all2 (\<lambda>p c. \<exists>k. c = (k, Data p) \<and> prefix_fits k (int (length p))) ps cs"

lemma flush_data_unlimited:
  assumes "length p < 1048576" "wroom w = None"
  shows "\<exists>k. prefix_fits k (int (length p)) \<and> flush_data w p = (None, w\<lparr>wout := wout w @ encode_chunk (k, Data p)\<rparr>)"
proof -
  have "wroom (bytes_Buffer []) = None" by (simp add: bytes_Buffer_def)
  from WriteData_unlimited [OF assms(1) this] obtain k where "prefix_fits k (int (length p))"
      "WriteData (bytes_Buffer []) p = ((length (encode_chunk (k, Data p)), None),
        (bytes_Buffer [])\<lparr>wout := wout (bytes_Buffer []) @ encode_chunk (k, Data p)\<rparr>)" by blast
  then show ?thesis
    using assms(2) by (intro exI [of _ k]) (simp add: flush_data_def bytes_Buffer_def Write_def)
qed

lemma WriteTo_all:
  assumes "\<forall>p \<in> set ps. length p < 1048576" "wroom w = None"
  shows "\<exists>cs. chunks_for ps cs \<and> fold (\<lambda>p w. snd (encapsulation_WriteTo w p)) ps w = w\<lparr>wout := wout w @ encode_stream cs\<rparr>"
  using assms
proof (induction ps arbitrary: w)
  case (Cons p ps)
  obtain k where k: "prefix_fits k (int (length p))" "flush_data w p = (None, w\<lparr>wout := wout w @ encode_chunk (k, Data p)\<rparr>)"
    using flush_data_unlimited [of p w] Cons.prems by auto
  obtain cs where "chunks_for ps cs"
      "fold (\<lambda>p w. snd (encapsulation_WriteTo w p)) ps (w\<lparr>wout := wout w @ encode_chunk (k, Data p)\<rparr>) =
        w\<lparr>wout := wout w @ encode_chunk (k, Data p) @ encode_stream cs\<rparr>"
    using Cons.IH [of "w\<lparr>wout := wout w @ encode_chunk (k, Data p)\<rparr>"] Cons.prems by auto
  then show ?case
    using k by (intro exI [of _ "(k, Data p) # cs"]) (simp add: chunks_for_def encapsulation_WriteTo_def)
qed (auto simp: chunks_for_def)

lemma write_packets_all:
  assumes "\<forall>p \<in> set ps. length p < 1048576" "wroom w = None"
  shows "\<exists>cs. chunks_for ps cs \<and> write_packets w ps = (None, w\<lparr>wout := wout w @ encode_stream cs\<rparr>)"
  using assms
proof (induction ps arbitrary: w)
  case (Cons p ps)
  obtain k where k: "prefix_fits k (int (length p))" "flush_data w p = (None, w\<lparr>wout := wout w @ encode_chunk (k, Data p)\<rparr>)"
    using flush_data_unlimited [of p w] Cons.prems by auto
  obtain cs where "chunks_for ps cs"
      "write_packets (w\<lparr>wout := wout w @ encode_chunk (k, Data p)\<rparr>) ps =
        (None, w\<lparr>wout := wout w @ encode_chunk (k, Data p) @ encode_stream cs\<rparr>)"
    using Cons.IH [of "w\<lparr>wout := wout w @ encode_chunk (k, Data p)\<rparr>"] Cons.prems by auto
  then show ?case
    using k by (intro exI [of _ "(k, Data p) # cs"]) (simp add: chunks_for_def)
qed (auto simp: chunks_for_def)

lemma ReadData_chunk':
  "prefix_fits k (int (length d)) \<Longrightarrow> rdata r = encode_chunk (k, Data d) @ rest \<Longrightarrow>
    ReadData r plen = ((take plen d, if length d \<le> plen then None else Some io_ErrShortBuffer), r\<lparr>rdata := rest\<rparr>)"
  using ReadData_chunk [of k d rest "rerr r" plen] by (cases r) simp

lemma read_packets_chunks:
  assumes "chunks_for ps cs" "rdata r = encode_stream cs" "rerr r \<noteq> io_ErrShortBuffer"
  shows "read_packets r = Some (map (take 2048) ps)"
  using assms unfolding chunks_for_def
proof (induction ps cs arbitrary: r rule: list_all2_induct)
  case Nil
  then show ?case by (simp add: read_packets.simps [of r] ReadData_end)
next
  case (Cons p ps c cs)
  then obtain k where k: "c = (k, Data p)" "prefix_fits k (int (length p))" by blast
  have "read_packets (r\<lparr>rdata := encode_stream cs\<rparr>) = Some (map (take 2048) ps)"
    using Cons.IH [of "r\<lparr>rdata := encode_stream cs\<rparr>"] Cons.prems by simp
  with k Cons.prems ReadData_chunk' [OF k(2), of r "encode_stream cs" 2048] show ?case
    by (subst read_packets.simps) simp
qed

lemma read_packets_padding:
  assumes "all_padding cs" "rdata r = encode_stream cs @ s"
  shows "read_packets r = read_packets (r\<lparr>rdata := s\<rparr>)"
  by (subst (1 2) read_packets.simps) (simp add: ReadData_skip_padding [OF assms])

lemma dialContext_unlimited:
  assumes "wroom conn = None"
  shows "\<exists>cs. all_padding cs \<and> dialContext (Some conn) clientID b = Inr (conn\<lparr>wout := wout conn @ Token @ clientID @ encode_stream cs\<rparr>)"
proof -
  have n: "0 \<le> paddingSize b" by (simp add: paddingSize_def)
  have "wroom (bytes_Buffer (Token @ clientID)) = None" by (simp add: bytes_Buffer_def)
  then obtain cs where "all_padding cs" "padding_loop (bytes_Buffer (Token @ clientID)) (paddingSize b) 0 =
      ((0 + nat (paddingSize b), None), (bytes_Buffer (Token @ clientID))\<lparr>wout := wout (bytes_Buffer (Token @ clientID)) @ encode_stream cs\<rparr>)"
    using padding_loop_unlimited [OF n, of "bytes_Buffer (Token @ clientID)" 0] by blast
  then show ?thesis
    using assms n by (intro exI [of _ cs]) (simp add: dialContext_def WritePadding_def bytes_Buffer_def Write_def)
qed

text \<open>The read loop ends on every stream that does not fail with \<open>io.ErrShortBuffer\<close> itself.\<close>

lemma read_more_err: "read_more i m n r = (Inl e, r') \<Longrightarrow> e = ErrTooLong \<or> e = io_ErrUnexpectedEOF \<or> e = rerr r"
proof (induction i m n r rule: read_more.induct)
  case (1 i m n r)
  then show ?case
    by (cases "read_byte r") (auto simp: read_more.simps [of i] read_byte_def split: if_splits list.splits)
qed

lemma read_more_rerr: "read_more i m n r = (x, r') \<Longrightarrow> rerr r' = rerr r"
proof (induction i m n r rule: read_more.induct)
  case (1 i m n r)
  then show ?case
    by (cases "read_byte r") (auto simp: read_more.simps [of i] read_byte_def split: if_splits list.splits)
qed

lemma ReadData_progress:
  "ReadData r plen = ((p, e), r') \<Longrightarrow> e = None \<or> e = Some io_ErrShortBuffer \<Longrightarrow> rerr r \<noteq> io_ErrShortBuffer \<Longrightarrow>
    length (rdata r') < length (rdata r) \<and> rerr r' = rerr r"
proof (induction "length (rdata r)" arbitrary: r rule: less_induct)
  case less
  show ?case
  proof (cases "read_byte r")
    case (Inl err)
    then show ?thesis using less.prems by (auto simp: ReadData.simps [of r] read_byte_def split: list.splits)
  next
    case (Inr q)
    obtain b r1 where rb: "read_byte r = Inr (b, r1)" using Inr by (cases q) auto
    then have r1: "length (rdata r1) < length (rdata r)" "rerr r1 = rerr r" by (auto simp: read_byte_def split: list.splits)
    obtain x r2 where rm: "read_more 0 (b AND 0x40 \<noteq> 0) (uint (b AND 0x3f)) r1 = (x, r2)" by fastforce
    have r2: "length (rdata r2) < length (rdata r)" "rerr r2 = rerr r"
      using r1 read_more_length [OF rm] read_more_rerr [OF rm] by simp_all
    show ?thesis
    proof (cases x)
      case (Inl err)
      then have "err = ErrTooLong \<or> err = io_ErrUnexpectedEOF \<or> err = rerr r" using read_more_err rm r1(2) by metis
      with Inl less.prems rb rm show ?thesis by (auto simp: ReadData.simps [of r] ErrTooLong_def)
    next
      case (Inr n)
      have disc: "length (rdata t) < length (rdata r)" "rerr t = rerr r" if "DiscardN r2 k = (err, t)" for k err t
        using DiscardN_length [OF that] that r2 by (auto simp: DiscardN_def split: if_splits)
      consider "b AND 0x80 \<noteq> 0" | "b AND 0x80 = 0" "0 < n" | "b AND 0x80 = 0" "\<not> 0 < n" by blast
      then show ?thesis
      proof cases
        case 1
        with less.prems rb rm Inr r2 show ?thesis
          by (auto simp: ReadData.simps [of r] ReadFull_def DiscardN_def split: if_splits)
      next
        case 2
        obtain err t where t: "DiscardN r2 (nat n) = (err, t)" by fastforce
        show ?thesis
        proof (cases err)
          case None
          then have "ReadData t plen = ((p, e), r')" using 2 less.prems(1) rb rm Inr t by (simp add: ReadData.simps [of r])
          with less.hyps [OF disc(1) [OF t] this] disc [OF t] less.prems(2,3) show ?thesis by simp
        next
          case (Some err')
          with t have "err' = rerr r" using r2 by (auto simp: DiscardN_def split: if_splits)
          with Some 2 less.prems rb rm Inr t show ?thesis by (auto simp: ReadData.simps [of r] split: if_splits)
        qed
      next
        case 3
        then have "ReadData r2 plen = ((p, e), r')" using less.prems(1) rb rm Inr by (simp add: ReadData.simps [of r])
        with less.hyps [OF r2(1) this] r2 less.prems(2,3) show ?thesis by simp
      qed
    qed
  qed
qed

lemma read_packets_terminates: "rerr r \<noteq> io_ErrShortBuffer \<Longrightarrow> \<exists>ps. read_packets r = Some ps"
proof (induction "length (rdata r)" arbitrary: r rule: less_induct)
  case less
  obtain p e r' where d: "ReadData r 2048 = ((p, e), r')" by (metis prod.exhaust)
  show ?case
  proof (cases "e = None \<or> e = Some io_ErrShortBuffer")
    case True
    with ReadData_progress [OF d] less.prems less.hyps [of r'] obtain ps where "read_packets r' = Some ps" by auto
    with d True show ?thesis by (subst read_packets.simps) auto
  qed (use d in \<open>subst read_packets.simps, auto\<close>)
qed

subsection \<open>Sequences of operations\<close>

fun send_all :: "bytes list \<Rightarrow> 'a \<Rightarrow> int \<Rightarrow> 'a QueuePacketConn \<Rightarrow> 'a QueuePacketConn option" where
  "send_all [] addr now c = Some c"
| "send_all (p # ps) addr now c = Option.bind (qpc_WriteTo p addr now c) (\<lambda>(_, c). send_all ps addr now c)"

fun receive_all :: "nat \<Rightarrow> 'a \<Rightarrow> int \<Rightarrow> 'a QueuePacketConn \<Rightarrow> (bytes list \<times> 'a QueuePacketConn) option" where
  "receive_all 0 addr now c = Some ([], c)"
| "receive_all (Suc n) addr now c =
     (case receive_outgoing addr now c of
        Some (Returns (Some p), c) \<Rightarrow> map_option (\<lambda>(ps, c). (p # ps, c)) (receive_all n addr now c)
      | _ \<Rightarrow> None)"

fun read_all :: "nat \<Rightarrow> reader \<Rightarrow> nat \<Rightarrow> bytes list option" where
  "read_all 0 r plen = Some []"
| "read_all (Suc n) r plen =
     (case encapsulation_ReadFrom r plen of
        ((p, None), r) \<Rightarrow> map_option ((#) p) (read_all n r plen)
      | ((_, Some _), _) \<Rightarrow> None)"

lemma send_all_outgoing:
  assumes "qpc_wf c" "qpc_closed c = None" "length (outgoing c addr) + length ps \<le> queueSize"
  shows "\<exists>c'. send_all ps addr now c = Some c' \<and> qpc_wf c' \<and>
    outgoing c' = (outgoing c)(addr := outgoing c addr @ map (take (qpc_mtu c)) ps)"
  using assms
proof (induction ps arbitrary: c)
  case (Cons p ps)
  obtain n c1 where c1: "qpc_WriteTo p addr now c = Some (Inr n, c1)" "qpc_wf c1" "qpc_closed c1 = None" "qpc_mtu c1 = qpc_mtu c"
      "outgoing c1 = (outgoing c)(addr := outgoing c addr @ [take (qpc_mtu c) p])"
    using qpc_WriteTo_spec [OF Cons.prems(1,2), of p addr now] Cons.prems(3) by auto
  with Cons.IH [OF c1(2,3)] Cons.prems(3) show ?case by (auto simp: fun_eq_iff)
qed (auto simp: fun_eq_iff)

lemma receive_all_outgoing:
  assumes "qpc_wf c" "outgoing c addr = ps @ qs"
  shows "\<exists>c'. receive_all (length ps) addr now c = Some (ps, c') \<and> qpc_wf c' \<and> outgoing c' = (outgoing c)(addr := qs)"
  using assms
proof (induction ps arbitrary: c)
  case (Cons p ps)
  obtain c1 where c1: "receive_outgoing addr now c = Some (Returns (Some p), c1)" "qpc_wf c1" "outgoing c1 = (outgoing c)(addr := ps @ qs)"
    using receive_outgoing_spec [OF Cons.prems(1), of addr now] Cons.prems(2) by auto
  with Cons.IH [OF c1(2)] show ?case by (auto simp: fun_eq_iff)
qed (auto simp: fun_eq_iff)

lemma read_all_chunks:
  assumes "chunks_for ps cs" "rdata r = encode_stream cs @ rest"
  shows "read_all (length ps) r plen = Some (map (take plen) ps)"
  using assms unfolding chunks_for_def
proof (induction ps cs arbitrary: r rule: list_all2_induct)
  case (Cons p ps c cs)
  then obtain k where k: "c = (k, Data p)" "prefix_fits k (int (length p))" by blast
  have "read_all (length ps) (r\<lparr>rdata := encode_stream cs @ rest\<rparr>) plen = Some (map (take plen) ps)"
    using Cons.IH [of "r\<lparr>rdata := encode_stream cs @ rest\<rparr>"] Cons.prems by simp
  with k Cons.prems ReadData_chunk' [OF k(2), of r "encode_stream cs @ rest" plen] show ?case
    by (simp add: encapsulation_ReadFrom_def)
qed simp

section \<open>Properties\<close>

text \<open> C3. The packets that a client writes to a snowflake arrive at the server in order, tagged with the client's
  identifier: the stream that begins with the token, the identifier and the padding, and goes on with the encapsulated
  packets, fills the receive queue of the connection that serves the client with the packets, each cut to 2048 bytes and
  to the connection's packet size, up to the capacity of the queue.\<close>

theorem tunnel_upstream:
  assumes "wroom conn = None" "wout conn = []" "length clientID = 8" "\<forall>p \<in> set ps. length p < 1048576"
    and "dialContext (Some conn) clientID b = Inr w" "pconns handler \<noteq> []"
    and "qpc_closed (lookupPacketConn handler clientID) = None"
    and "e \<noteq> io_ErrShortBuffer"
  shows "\<exists>handler' ids'.
    server_ServeHTTP (Inr \<lparr>rdata = wout (fold (\<lambda>p w. snd (encapsulation_WriteTo w p)) ps w), rerr = e\<rparr>) param handler ids =
      Some (None, handler', ids') \<and>
    lookupPacketConn handler' clientID = (lookupPacketConn handler clientID)\<lparr>qpc_recvQueue :=
      qpc_recvQueue (lookupPacketConn handler clientID) @
      map (\<lambda>p. (take (qpc_mtu (lookupPacketConn handler clientID)) (take 2048 p), clientID))
        (take (queueSize - length (qpc_recvQueue (lookupPacketConn handler clientID))) ps)\<rparr>"
proof -
  let ?c = "lookupPacketConn handler clientID"
  obtain pad where pad: "all_padding pad" "w = conn\<lparr>wout := Token @ clientID @ encode_stream pad\<rparr>"
    using dialContext_unlimited [OF assms(1), of clientID b] assms(2,5) by auto
  then have "wroom w = None" using assms(1) by simp
  then obtain cs where "chunks_for ps cs" "fold (\<lambda>p w. snd (encapsulation_WriteTo w p)) ps w = w\<lparr>wout := wout w @ encode_stream cs\<rparr>"
    using WriteTo_all [OF assms(4)] by blast
  then have cs: "chunks_for ps cs"
      "wout (fold (\<lambda>p w. snd (encapsulation_WriteTo w p)) ps w) = Token @ clientID @ encode_stream pad @ encode_stream cs"
    using pad(2) by simp_all
  let ?r = "\<lparr>rdata = encode_stream pad @ encode_stream cs, rerr = e\<rparr>"
  have packets: "read_packets ?r = Some (map (take 2048) ps)"
    using read_packets_padding [OF pad(1), of ?r "encode_stream cs"] read_packets_chunks [OF cs(1), of "\<lparr>rdata = encode_stream cs, rerr = e\<rparr>"] assms(8)
    by simp
  have i: "lookup_index handler clientID < length (pconns handler)" using assms(6) by (simp add: lookup_index_def Let_def)
  let ?handler' = "handler\<lparr>pconns := (pconns handler)[lookup_index handler clientID := fold (\<lambda>p. QueueIncoming p clientID) (map (take 2048) ps) ?c]\<rparr>"
  have "lookup_index ?handler' clientID = lookup_index handler clientID" by (simp add: lookup_index_def)
  then have "lookupPacketConn ?handler' clientID = fold (\<lambda>p. QueueIncoming p clientID) (map (take 2048) ps) ?c"
    using i by (simp add: lookupPacketConn_def)
  also have "\<dots> = ?c\<lparr>qpc_recvQueue := qpc_recvQueue ?c @
      map (\<lambda>p. (take (qpc_mtu ?c) (take 2048 p), clientID)) (take (queueSize - length (qpc_recvQueue ?c)) ps)\<rparr>"
    by (simp only: queue_incoming_all [OF assms(7)] take_map map_map comp_def)
  finally show ?thesis
    using packets assms(3) cs(2)
    by (intro exI [of _ ?handler'] exI [of _ "cid_Set ids clientID (Some (clientAddr param))"])
      (simp add: server_ServeHTTP_def turbotunnelMode_def ReadFull_def Token_def)
qed



text \<open>Which connection serves a client does not depend on the secret key, but on the identifier alone.\<close>

theorem lookup_ignores_key:
  assumes "length clientID = 8"
  shows "lookup_index (handler\<lparr>clientIDLookupKey := key\<rparr>) clientID = LittleEndian_Uint64 clientID mod length (pconns handler)"
  using assms by (simp add: lookup_index_def LittleEndian_Uint64_def nth_append)


theorem tunnel_upstream_witness:
  "\<exists>handler' ids' w.
    dialContext (Some (bytes_Buffer [])) [1, 0, 0, 0, 0, 0, 0, 0] 5 = Inr w \<and>
    server_ServeHTTP (Inr \<lparr>rdata = wout (fold (\<lambda>p w. snd (encapsulation_WriteTo w p)) [[1, 2], [3]] w), rerr = io_EOF\<rparr>)
      ''192.0.2.1'' (newHTTPHandler 2 1400 []) (newClientIDMap clientIDAddrMapCapacity) = Some (None, handler', ids') \<and>
    qpc_recvQueue (lookupPacketConn handler' [1, 0, 0, 0, 0, 0, 0, 0]) =
      [([1, 2], [1, 0, 0, 0, 0, 0, 0, 0]), ([3], [1, 0, 0, 0, 0, 0, 0, 0])]"
proof -
  let ?id = "[1, 0, 0, 0, 0, 0, 0, 0] :: bytes" and ?h = "newHTTPHandler 2 1400 []"
  have "wroom (bytes_Buffer []) = None" by (simp add: bytes_Buffer_def)
  then obtain w where w: "dialContext (Some (bytes_Buffer [])) ?id 5 = Inr w" using dialContext_unlimited by blast
  have "lookup_index ?h ?id < 2" by (simp add: lookup_index_def newHTTPHandler_def Let_def)
  then have c: "lookupPacketConn ?h ?id = NewQueuePacketConn 1400"
    by (simp add: lookupPacketConn_def newHTTPHandler_def)
  from w show ?thesis
    using tunnel_upstream [where conn = "bytes_Buffer []" and clientID = ?id and ps = "[[1, 2], [3]]" and b = 5 and w = w
        and handler = ?h and e = io_EOF and param = "''192.0.2.1''" and ids = "newClientIDMap clientIDAddrMapCapacity"]
    unfolding c by (auto simp: bytes_Buffer_def newHTTPHandler_def NewQueuePacketConn_def queueSize_def)
qed

end
