(* ===== verification/Packet_Buffer.thy ===== *)
theory Packet_Buffer
  imports Dtls_Errors
begin

text \<open>
  The circular buffer of packets of \<open>src/dtls/internal/net/buffer.go\<close>, which a listener fills with the datagrams of
  one connection.  It is shown to be a queue, in which no reader that waits is forgotten.
\<close>

section \<open>Model\<close>

abbreviation ErrNetBufferTimeout :: err where "ErrNetBufferTimeout \<equiv> Err ''buffer: i/o timeout''"

record 'a AddrPacket =
  ap_addr :: "'a option"
  ap_data :: bytes

text \<open>
  Channels are numbered; \<open>pb_made\<close> is how many the buffer has made.  The methods hold the lock of the buffer but for
  the closing of \<open>notify\<close>, which is left to their caller here: it comes with the result.
\<close>

record 'a PacketBuffer =
  packets :: "'a AddrPacket list"
  pb_write :: nat
  pb_read :: nat
  pb_full :: bool
  pb_notify :: "nat option"
  pb_closed :: bool
  pb_made :: nat

definition NewPacketBuffer :: "'a PacketBuffer" where
  "NewPacketBuffer =
     \<lparr>packets = [\<lparr>ap_addr = None, ap_data = []\<rparr>], pb_write = 0, pb_read = 0, pb_full = False,
      pb_notify = None, pb_closed = False, pb_made = 0\<rparr>"

text \<open>\<open>copy(dst, src)\<close>: the slice \<open>dst\<close> afterwards.\<close>

definition go_copy :: "'b list \<Rightarrow> 'b list \<Rightarrow> 'b list" where
  "go_copy dst src = take (length dst) src @ drop (length src) dst"

definition pb_grow :: "'a PacketBuffer \<Rightarrow> 'a PacketBuffer" where
  "pb_grow b =
     (if pb_full b then
        (let newSize = (if length (packets b) < 128 then length (packets b) * 2 else 5 * length (packets b) div 4);
             newBuf = replicate newSize \<lparr>ap_addr = None, ap_data = []\<rparr>;
             (newBuf, n) =
               (if pb_read b < pb_write b then
                  (let src = drop (pb_read b) (take (pb_write b) (packets b)) in
                   (go_copy newBuf src, min newSize (length src)))
                else
                  (let src = drop (pb_read b) (packets b);
                       n = min newSize (length src);
                       newBuf = go_copy newBuf src;
                       src = take (pb_write b) (packets b) in
                   (take n newBuf @ go_copy (drop n newBuf) src, n + min (newSize - n) (length src)))) in
         b\<lparr>packets := newBuf, pb_read := 0, pb_write := n, pb_full := False\<rparr>)
      else b)"

definition pb_WriteTo :: "bytes \<Rightarrow> 'a \<Rightarrow> 'a PacketBuffer \<Rightarrow> (nat \<times> nat option \<times> 'a PacketBuffer) go" where
  "pb_WriteTo pkt addr b =
     (if pb_closed b then Fail io_ErrClosedPipe
      else
        (let notify = pb_notify b;
             b = pb_grow (b\<lparr>pb_notify := None\<rparr>) in
         if length (packets b) \<le> pb_write b then Panic
         else
           (let b = b\<lparr>packets := (packets b)[pb_write b := \<lparr>ap_addr = Some addr, ap_data = pkt\<rparr>], pb_write := pb_write b + 1\<rparr>;
                b = (if length (packets b) = pb_write b then b\<lparr>pb_write := 0\<rparr> else b);
                b = (if pb_write b = pb_read b then b\<lparr>pb_full := True\<rparr> else b) in
            Ok (length pkt, notify, b))))"

text \<open>\<open>Read\<close> of a \<open>bytes.Buffer\<close> with a slice of \<open>plen\<close> bytes: an empty buffer has reached its end.\<close>

definition buffer_Read :: "bytes \<Rightarrow> nat \<Rightarrow> err + bytes" where
  "buffer_Read p plen = (if p = [] then if plen = 0 then Inr [] else Inl io_EOF else Inr (take plen p))"

text \<open>One round of the loop of \<open>ReadFrom\<close>: a packet, or the channel to wait for.\<close>

datatype 'a attempt = Packet bytes "'a option" | Wait nat

definition pb_attempt :: "nat \<Rightarrow> 'a PacketBuffer \<Rightarrow> ('a attempt \<times> 'a PacketBuffer) go" where
  "pb_attempt plen b =
     (if pb_read b \<noteq> pb_write b \<or> pb_full b then
        if length (packets b) \<le> pb_read b then Panic
        else
          (let ap = packets b ! pb_read b in
           if plen < length (ap_data ap) then Fail io_ErrShortBuffer
           else
             (case buffer_Read (ap_data ap) plen of
                Inl e \<Rightarrow> Fail e
              | Inr p \<Rightarrow>
                  (let b = b\<lparr>pb_read := pb_read b + 1\<rparr>;
                       b = (if length (packets b) = pb_read b then b\<lparr>pb_read := 0\<rparr> else b);
                       b = (if pb_full b then b\<lparr>pb_full := False\<rparr> else b) in
                   Ok (Packet p (ap_addr ap), b))))
      else if pb_closed b then Fail io_EOF
      else
        (case pb_notify b of
           Some k \<Rightarrow> Ok (Wait k, b)
         | None \<Rightarrow> Ok (Wait (pb_made b), b\<lparr>pb_notify := Some (pb_made b), pb_made := pb_made b + 1\<rparr>)))"

definition pb_ReadFrom :: "nat \<Rightarrow> bool \<Rightarrow> 'a PacketBuffer \<Rightarrow> ('a attempt \<times> 'a PacketBuffer) go" where
  "pb_ReadFrom plen expired b = (if expired then Fail ErrNetBufferTimeout else pb_attempt plen b)"

definition pb_Close :: "'a PacketBuffer \<Rightarrow> nat option \<times> 'a PacketBuffer" where
  "pb_Close b = (if pb_closed b then (None, b) else (pb_notify b, b\<lparr>pb_notify := None, pb_closed := True\<rparr>))"

section \<open>The buffer is a queue\<close>

definition pb_wf :: "'a PacketBuffer \<Rightarrow> bool" where
  "pb_wf b \<longleftrightarrow> pb_read b < length (packets b) \<and> pb_write b < length (packets b) \<and> (pb_full b \<longrightarrow> pb_read b = pb_write b)"

definition ring :: "nat \<Rightarrow> nat \<Rightarrow> bool \<Rightarrow> 'b list \<Rightarrow> 'b list" where
  "ring r w full xs = (if full \<or> w < r then drop r xs @ take w xs else drop r (take w xs))"

definition pb_queue :: "'a PacketBuffer \<Rightarrow> 'a AddrPacket list" where
  "pb_queue b = ring (pb_read b) (pb_write b) (pb_full b) (packets b)"

lemma ring_push:
  assumes "r < length xs" "w < length xs"
  shows "ring r (if length xs = Suc w then 0 else Suc w) ((if length xs = Suc w then 0 else Suc w) = r) (xs[w := x]) = ring r w False xs @ [x]"
proof (cases "w < r")
  case True
  then show ?thesis using assms by (auto simp: ring_def take_Suc_conv_app_nth)
next
  case False
  show ?thesis
  proof (cases "length xs = Suc w")
    case True
    then obtain ys y where xs: "xs = ys @ [y]" "length ys = w" by (metis length_Suc_conv_rev)
    then have "drop r (xs[w := x]) = drop r (take w xs) @ [x]" using False assms(1) by (simp add: list_update_append)
    then show ?thesis using True False assms by (auto simp: ring_def)
  next
    case neq: False
    then show ?thesis using False assms by (auto simp: ring_def take_Suc_conv_app_nth)
  qed
qed

lemma ring_pop:
  assumes "r < length xs" "w < length xs" "full \<longrightarrow> r = w" "r \<noteq> w \<or> full"
  shows "ring r w full xs = xs ! r # ring (if length xs = Suc r then 0 else Suc r) w False xs"
proof (cases "full \<or> w < r")
  case True
  show ?thesis
  proof (cases "length xs = Suc r")
    case last: True
    with True assms show ?thesis by (auto simp: ring_def Cons_nth_drop_Suc [symmetric])
  next
    case False
    then have "Suc r < length xs" using assms(1) by simp
    with True False assms show ?thesis by (auto simp: ring_def Cons_nth_drop_Suc [symmetric])
  qed
next
  case False
  then have "r < w" using assms(4) by simp
  with False assms show ?thesis
    by (auto simp: ring_def Cons_nth_drop_Suc [of r "take w xs", symmetric])
qed

lemma ring_empty: "r = w \<Longrightarrow> \<not> full \<Longrightarrow> ring r w full xs = []"
  by (simp add: ring_def)

lemma go_copy_long: "length src \<le> length dst \<Longrightarrow> go_copy dst src = src @ drop (length src) dst"
  by (simp add: go_copy_def)

lemma grow_queue:
  assumes "pb_wf b"
  shows "pb_wf (pb_grow b)" "\<not> pb_full (pb_grow b)" "pb_queue (pb_grow b) = pb_queue b"
    and "pb_closed (pb_grow b) = pb_closed b" "pb_notify (pb_grow b) = pb_notify b" "pb_made (pb_grow b) = pb_made b"
proof -
  let ?n = "length (packets b)" and ?w = "pb_write b" and ?e = "\<lparr>ap_addr = None, ap_data = []\<rparr> :: 'a AddrPacket"
  let ?m = "if ?n < 128 then ?n * 2 else 5 * ?n div 4"
  have m: "?n < ?m" if "0 < ?n" using that by auto
  have grown: "pb_grow b = b\<lparr>packets := pb_queue b @ replicate (?m - ?n) ?e, pb_read := 0, pb_write := ?n, pb_full := False\<rparr>
      \<and> length (pb_queue b) = ?n" if "pb_full b"
  proof -
    from that assms have rw: "pb_read b = ?w" "?w < ?n" by (auto simp: pb_wf_def)
    then have "0 < ?n" by linarith
    then have le: "?n < ?m" by (rule m)
    have q: "pb_queue b = drop ?w (packets b) @ take ?w (packets b)" using that rw by (simp add: pb_queue_def ring_def)
    have len: "length (pb_queue b) = ?n" using rw by (simp add: q)
    have "go_copy (replicate ?m ?e) (drop ?w (packets b)) = drop ?w (packets b) @ replicate (?m - (?n - ?w)) ?e"
      using le rw by (subst go_copy_long) simp_all
    moreover have "go_copy (replicate (?m - (?n - ?w)) ?e) (take ?w (packets b)) = take ?w (packets b) @ replicate (?m - ?n) ?e"
      using le rw by (subst go_copy_long) (simp_all add: min_def)
    ultimately show ?thesis
      using that rw le len by (simp add: pb_grow_def Let_def q min_def)
  qed
  show "pb_wf (pb_grow b)" "\<not> pb_full (pb_grow b)" "pb_queue (pb_grow b) = pb_queue b"
    "pb_closed (pb_grow b) = pb_closed b" "pb_notify (pb_grow b) = pb_notify b" "pb_made (pb_grow b) = pb_made b"
  proof -
    have "pb_wf (pb_grow b) \<and> \<not> pb_full (pb_grow b) \<and> pb_queue (pb_grow b) = pb_queue b \<and>
      pb_closed (pb_grow b) = pb_closed b \<and> pb_notify (pb_grow b) = pb_notify b \<and> pb_made (pb_grow b) = pb_made b"
    proof (cases "pb_full b")
      case True
      have "0 < ?n" using assms by (auto simp: pb_wf_def)
      with grown [OF True] m show ?thesis by (simp add: pb_wf_def pb_queue_def [of "_\<lparr>pb_full := _\<rparr>"] ring_def)
    next
      case False
      with assms show ?thesis by (simp add: pb_grow_def)
    qed
    then show "pb_wf (pb_grow b)" "\<not> pb_full (pb_grow b)" "pb_queue (pb_grow b) = pb_queue b"
      "pb_closed (pb_grow b) = pb_closed b" "pb_notify (pb_grow b) = pb_notify b" "pb_made (pb_grow b) = pb_made b" by blast+
  qed
qed

lemma WriteTo_queue:
  assumes "pb_wf b" "\<not> pb_closed b"
  shows "\<exists>b'. pb_WriteTo pkt addr b = Ok (length pkt, pb_notify b, b') \<and> pb_wf b' \<and>
    pb_queue b' = pb_queue b @ [\<lparr>ap_addr = Some addr, ap_data = pkt\<rparr>] \<and> \<not> pb_closed b' \<and> pb_notify b' = None \<and> pb_made b' = pb_made b"
proof -
  let ?b = "pb_grow (b\<lparr>pb_notify := None\<rparr>)" and ?x = "\<lparr>ap_addr = Some addr, ap_data = pkt\<rparr>"
  have wf: "pb_wf (b\<lparr>pb_notify := None\<rparr>)" using assms(1) by (simp add: pb_wf_def)
  note g = grow_queue [OF wf]
  have q: "pb_queue (b\<lparr>pb_notify := None\<rparr>) = pb_queue b" by (simp add: pb_queue_def)
  have rw: "pb_read ?b < length (packets ?b)" "pb_write ?b < length (packets ?b)" using g(1) by (simp_all add: pb_wf_def)
  have "pb_queue ?b = ring (pb_read ?b) (pb_write ?b) False (packets ?b)" using g(2) by (simp add: pb_queue_def)
  then have "ring (pb_read ?b) (if length (packets ?b) = Suc (pb_write ?b) then 0 else Suc (pb_write ?b))
      ((if length (packets ?b) = Suc (pb_write ?b) then 0 else Suc (pb_write ?b)) = pb_read ?b) ((packets ?b)[pb_write ?b := ?x]) =
      pb_queue b @ [?x]" using ring_push [OF rw, of ?x] g(3) q by simp
  then show ?thesis
    using assms(2) rw g(2,4,5,6)
    by (auto simp: pb_WriteTo_def Let_def pb_wf_def pb_queue_def)
qed

lemma queue_pop:
  assumes "pb_wf b" "pb_read b \<noteq> pb_write b \<or> pb_full b"
  shows "pb_queue b = packets b ! pb_read b #
    ring (if length (packets b) = Suc (pb_read b) then 0 else Suc (pb_read b)) (pb_write b) False (packets b)"
proof -
  have rw: "pb_read b < length (packets b)" "pb_write b < length (packets b)" "pb_full b \<longrightarrow> pb_read b = pb_write b"
    using assms(1) by (simp_all add: pb_wf_def)
  show ?thesis using ring_pop [OF rw assms(2)] by (simp only: pb_queue_def)
qed

lemma queue_Nil_iff: "pb_wf b \<Longrightarrow> pb_queue b = [] \<longleftrightarrow> pb_read b = pb_write b \<and> \<not> pb_full b"
  using queue_pop [of b] by (cases "pb_read b = pb_write b \<and> \<not> pb_full b") (simp add: pb_queue_def ring_empty, simp)

lemma queue_Cons:
  assumes "pb_wf b" "pb_queue b = ap # q"
  shows "pb_read b \<noteq> pb_write b \<or> pb_full b" "ap = packets b ! pb_read b"
    "q = ring (if length (packets b) = Suc (pb_read b) then 0 else Suc (pb_read b)) (pb_write b) False (packets b)"
proof -
  show t: "pb_read b \<noteq> pb_write b \<or> pb_full b" using queue_Nil_iff [OF assms(1)] assms(2) by auto
  show "ap = packets b ! pb_read b"
    "q = ring (if length (packets b) = Suc (pb_read b) then 0 else Suc (pb_read b)) (pb_write b) False (packets b)"
    using queue_pop [OF assms(1) t] assms(2) by simp_all
qed

lemma attempt_Nil:
  assumes "pb_wf b" "pb_queue b = []"
  shows "pb_attempt plen b =
    (if pb_closed b then Fail io_EOF
     else
       (case pb_notify b of
          Some k \<Rightarrow> Ok (Wait k, b)
        | None \<Rightarrow> Ok (Wait (pb_made b), b\<lparr>pb_notify := Some (pb_made b), pb_made := pb_made b + 1\<rparr>)))"
  using assms queue_Nil_iff [OF assms(1)] by (simp add: pb_attempt_def)

lemma attempt_fails:
  assumes "pb_wf b" "pb_queue b = ap # q"
  shows "plen < length (ap_data ap) \<Longrightarrow> pb_attempt plen b = Fail io_ErrShortBuffer"
    and "ap_data ap = [] \<Longrightarrow> 0 < plen \<Longrightarrow> pb_attempt plen b = Fail io_EOF"
  using assms(1) queue_Cons [OF assms] by (auto simp: pb_attempt_def pb_wf_def buffer_Read_def)

lemma attempt_packet:
  assumes "pb_wf b" "pb_queue b = ap # q" "length (ap_data ap) \<le> plen" "ap_data ap \<noteq> [] \<or> plen = 0"
  shows "\<exists>b'. pb_attempt plen b = Ok (Packet (ap_data ap) (ap_addr ap), b') \<and> pb_wf b' \<and> pb_queue b' = q \<and>
    pb_closed b' = pb_closed b \<and> pb_notify b' = pb_notify b \<and> pb_made b' = pb_made b"
proof -
  have "buffer_Read (ap_data ap) plen = Inr (ap_data ap)" using assms(3,4) by (auto simp: buffer_Read_def)
  with assms(1,3) queue_Cons [OF assms(1,2)] show ?thesis
    by (auto simp: pb_attempt_def Let_def pb_wf_def pb_queue_def)
qed

lemma Close_queue: "pb_wf b \<Longrightarrow> pb_wf (snd (pb_Close b)) \<and> pb_queue (snd (pb_Close b)) = pb_queue b \<and> pb_closed (snd (pb_Close b))"
  by (simp add: pb_Close_def pb_wf_def pb_queue_def)

lemma New_queue: "pb_wf NewPacketBuffer" "pb_queue NewPacketBuffer = []" "\<not> pb_closed NewPacketBuffer" "pb_notify NewPacketBuffer = None"
  by (simp_all add: NewPacketBuffer_def pb_wf_def pb_queue_def ring_def)

subsection \<open>Sequences of operations\<close>

datatype 'a pb_op = OpWrite bytes 'a | OpRead nat | OpClose

datatype 'a pb_result = Wrote nat | Received bytes "'a option" | Waiting | Failed err | Panicked | Done

definition pb_step :: "'a pb_op \<Rightarrow> 'a PacketBuffer \<Rightarrow> 'a pb_result \<times> 'a PacketBuffer" where
  "pb_step op b =
     (case op of
        OpWrite p a \<Rightarrow>
          (case pb_WriteTo p a b of Ok (n, _, b') \<Rightarrow> (Wrote n, b') | Fail e \<Rightarrow> (Failed e, b) | Panic \<Rightarrow> (Panicked, b))
      | OpRead n \<Rightarrow>
          (case pb_ReadFrom n False b of
             Ok (Packet p a, b') \<Rightarrow> (Received p a, b')
           | Ok (Wait _, b') \<Rightarrow> (Waiting, b')
           | Fail e \<Rightarrow> (Failed e, b)
           | Panic \<Rightarrow> (Panicked, b))
      | OpClose \<Rightarrow> (Done, snd (pb_Close b)))"

fun pb_run :: "'a pb_op list \<Rightarrow> 'a PacketBuffer \<Rightarrow> 'a pb_result list" where
  "pb_run [] b = []"
| "pb_run (op # ops) b = (case pb_step op b of (r, b') \<Rightarrow> r # pb_run ops b')"

text \<open>What a queue of packets does that is open or closed.\<close>

fun queue_step :: "'a pb_op \<Rightarrow> 'a AddrPacket list \<times> bool \<Rightarrow> 'a pb_result \<times> 'a AddrPacket list \<times> bool" where
  "queue_step (OpWrite p a) (q, closed) =
     (if closed then (Failed io_ErrClosedPipe, q, closed) else (Wrote (length p), q @ [\<lparr>ap_addr = Some a, ap_data = p\<rparr>], closed))"
| "queue_step (OpRead n) (q, closed) =
     (case q of
        [] \<Rightarrow> (if closed then Failed io_EOF else Waiting, q, closed)
      | ap # q' \<Rightarrow>
          if n < length (ap_data ap) then (Failed io_ErrShortBuffer, q, closed)
          else if ap_data ap = [] \<and> 0 < n then (Failed io_EOF, q, closed)
          else (Received (ap_data ap) (ap_addr ap), q', closed))"
| "queue_step OpClose (q, closed) = (Done, q, True)"

fun queue_run :: "'a pb_op list \<Rightarrow> 'a AddrPacket list \<times> bool \<Rightarrow> 'a pb_result list" where
  "queue_run [] s = []"
| "queue_run (op # ops) s = (case queue_step op s of (r, s') \<Rightarrow> r # queue_run ops s')"

lemma step_simulates:
  assumes "pb_wf b"
  shows "\<exists>r b'. pb_step op b = (r, b') \<and> pb_wf b' \<and> queue_step op (pb_queue b, pb_closed b) = (r, pb_queue b', pb_closed b')"
proof (cases op)
  case (OpWrite p a)
  show ?thesis
  proof (cases "pb_closed b")
    case True
    with OpWrite assms show ?thesis by (simp add: pb_step_def pb_WriteTo_def)
  next
    case False
    with OpWrite WriteTo_queue [OF assms False, of p a] show ?thesis by (auto simp: pb_step_def)
  qed
next
  case (OpRead n)
  show ?thesis
  proof (cases "pb_queue b")
    case Nil
    have "pb_wf (b\<lparr>pb_notify := x, pb_made := y\<rparr>) \<and> pb_queue (b\<lparr>pb_notify := x, pb_made := y\<rparr>) = pb_queue b" for x y
      using assms by (simp add: pb_wf_def pb_queue_def)
    with OpRead Nil assms show ?thesis
      by (simp add: pb_step_def pb_ReadFrom_def attempt_Nil [OF assms Nil] split: option.split)
  next
    case (Cons ap q)
    consider "n < length (ap_data ap)" | "ap_data ap = []" "0 < n" | "length (ap_data ap) \<le> n" "ap_data ap \<noteq> [] \<or> n = 0"
      by fastforce
    then show ?thesis
    proof cases
      case 3
      then show ?thesis
        using attempt_packet [OF assms Cons 3] OpRead Cons by (auto simp: pb_step_def pb_ReadFrom_def)
    qed (use attempt_fails [OF assms Cons] OpRead Cons assms in \<open>simp_all add: pb_step_def pb_ReadFrom_def\<close>)
  qed
next
  case OpClose
  with Close_queue [OF assms] show ?thesis by (simp add: pb_step_def)
qed

lemma run_simulates: "pb_wf b \<Longrightarrow> pb_run ops b = queue_run ops (pb_queue b, pb_closed b)"
proof (induction ops arbitrary: b)
  case (Cons op ops)
  from step_simulates [OF Cons.prems, of op] Cons.IH show ?case by auto
qed simp

section \<open>Readers that wait\<close>

text \<open>
  The goroutines that use a buffer.  A reader that found nothing waits for a channel (or its deadline); a writer, or
  \<open>Close\<close>, has taken the channel under the lock and closes it some time after it has released the lock.
\<close>

record 'a pb_system =
  sys_buf :: "'a PacketBuffer"
  sys_waiting :: "nat \<rightharpoonup> nat"
  sys_to_close :: "nat set"
  sys_closed :: "nat set"

definition pb_start :: "'a pb_system" where
  "pb_start = \<lparr>sys_buf = NewPacketBuffer, sys_waiting = Map.empty, sys_to_close = {}, sys_closed = {}\<rparr>"

inductive pb_sys_step :: "'a pb_system \<Rightarrow> 'a pb_system \<Rightarrow> bool" where
  put: "pb_WriteTo p a (sys_buf s) = Ok (n, notify, b) \<Longrightarrow>
    pb_sys_step s (s\<lparr>sys_buf := b, sys_to_close := sys_to_close s \<union> set_option notify\<rparr>)"
| close: "pb_Close (sys_buf s) = (notify, b) \<Longrightarrow>
    pb_sys_step s (s\<lparr>sys_buf := b, sys_to_close := sys_to_close s \<union> set_option notify\<rparr>)"
| close_notify: "k \<in> sys_to_close s \<Longrightarrow>
    pb_sys_step s (s\<lparr>sys_to_close := sys_to_close s - {k}, sys_closed := sys_closed s \<union> {k}\<rparr>)"
| read: "sys_waiting s t = None \<Longrightarrow> pb_ReadFrom plen expired (sys_buf s) = Ok (Packet p a, b) \<Longrightarrow>
    pb_sys_step s (s\<lparr>sys_buf := b\<rparr>)"
| wait: "sys_waiting s t = None \<Longrightarrow> pb_ReadFrom plen expired (sys_buf s) = Ok (Wait k, b) \<Longrightarrow>
    pb_sys_step s (s\<lparr>sys_buf := b, sys_waiting := (sys_waiting s)(t \<mapsto> k)\<rparr>)"
| wake_read: "sys_waiting s t = Some k \<Longrightarrow> k \<in> sys_closed s \<Longrightarrow> pb_attempt plen (sys_buf s) = Ok (Packet p a, b) \<Longrightarrow>
    pb_sys_step s (s\<lparr>sys_buf := b, sys_waiting := (sys_waiting s)(t := None)\<rparr>)"
| wake_wait: "sys_waiting s t = Some k \<Longrightarrow> k \<in> sys_closed s \<Longrightarrow> pb_attempt plen (sys_buf s) = Ok (Wait k', b) \<Longrightarrow>
    pb_sys_step s (s\<lparr>sys_buf := b, sys_waiting := (sys_waiting s)(t \<mapsto> k')\<rparr>)"
| wake_fail: "sys_waiting s t = Some k \<Longrightarrow> k \<in> sys_closed s \<Longrightarrow> pb_attempt plen (sys_buf s) = Fail e \<Longrightarrow>
    pb_sys_step s (s\<lparr>sys_waiting := (sys_waiting s)(t := None)\<rparr>)"
| timeout: "sys_waiting s t = Some k \<Longrightarrow> pb_sys_step s (s\<lparr>sys_waiting := (sys_waiting s)(t := None)\<rparr>)"

text \<open>A channel for which a reader waits is closed, or about to be closed, or there is nothing to read.\<close>

definition wake_inv :: "'a pb_system \<Rightarrow> bool" where
  "wake_inv s \<longleftrightarrow> pb_wf (sys_buf s) \<and>
     (\<forall>t k. sys_waiting s t = Some k \<longrightarrow> k \<in> sys_closed s \<or> k \<in> sys_to_close s \<or> pb_notify (sys_buf s) = Some k) \<and>
     (pb_notify (sys_buf s) \<noteq> None \<longrightarrow> pb_queue (sys_buf s) = [] \<and> \<not> pb_closed (sys_buf s))"

lemma attempt_cases:
  assumes "pb_wf b" "pb_attempt plen b = Ok (x, b')"
  shows "pb_wf b' \<and>
    (case x of
       Packet p a \<Rightarrow> pb_queue b = \<lparr>ap_addr = a, ap_data = p\<rparr> # pb_queue b' \<and> pb_notify b' = pb_notify b \<and> pb_closed b' = pb_closed b
     | Wait k \<Rightarrow> pb_notify b' = Some k \<and> pb_queue b' = [] \<and> \<not> pb_closed b' \<and> (\<forall>k'. pb_notify b = Some k' \<longrightarrow> k' = k))"
proof (cases "pb_queue b")
  case Nil
  have "pb_wf (b\<lparr>pb_notify := x, pb_made := y\<rparr>) \<and> pb_queue (b\<lparr>pb_notify := x, pb_made := y\<rparr>) = []" for x y
    using assms Nil by (simp add: pb_wf_def pb_queue_def)
  with assms Nil attempt_Nil [OF assms(1) Nil, of plen] show ?thesis
    by (auto split: if_splits option.splits)
next
  case (Cons ap q)
  then have "length (ap_data ap) \<le> plen" "ap_data ap \<noteq> [] \<or> plen = 0"
    using attempt_fails [OF assms(1) Cons, of plen] assms(2) by fastforce+
  with attempt_packet [OF assms(1) Cons this] assms(2) Cons show ?thesis by auto
qed

lemma wake_inv_step:
  assumes "pb_sys_step s s'" "wake_inv s"
  shows "wake_inv s'"
  using assms
proof (induction rule: pb_sys_step.induct)
  case (put p a s n notify b)
  have wf: "pb_wf (sys_buf s)" using put by (simp add: wake_inv_def)
  moreover have "\<not> pb_closed (sys_buf s)" using put by (auto simp: pb_WriteTo_def split: if_splits)
  ultimately have "notify = pb_notify (sys_buf s)" "pb_wf b" "pb_notify b = None"
    using WriteTo_queue [of "sys_buf s" p a] put(1) by auto
  with put(2) show ?case by (auto simp: wake_inv_def)
next
  case (close s notify b)
  then show ?case by (auto simp: wake_inv_def pb_Close_def pb_wf_def split: if_splits)
next
  case (read s t plen expired p a b)
  then have at: "pb_attempt plen (sys_buf s) = Ok (Packet p a, b)" by (simp add: pb_ReadFrom_def split: if_splits)
  have "pb_wf (sys_buf s)" using read by (simp add: wake_inv_def)
  from attempt_cases [OF this at] have "pb_wf b" "pb_queue (sys_buf s) \<noteq> []" "pb_notify b = pb_notify (sys_buf s)" by simp_all
  moreover from this read(3) have "pb_notify (sys_buf s) = None"
    "\<forall>t k. sys_waiting s t = Some k \<longrightarrow> k \<in> sys_closed s \<or> k \<in> sys_to_close s" by (simp_all add: wake_inv_def) (metis option.distinct(1))
  ultimately show ?case by (simp add: wake_inv_def)
next
  case (wait s t plen expired k b)
  then have at: "pb_attempt plen (sys_buf s) = Ok (Wait k, b)" by (simp add: pb_ReadFrom_def split: if_splits)
  have "pb_wf (sys_buf s)" using wait by (simp add: wake_inv_def)
  from attempt_cases [OF this at] have "pb_wf b" "pb_notify b = Some k" "pb_queue b = []" "\<not> pb_closed b"
    "\<forall>k'. pb_notify (sys_buf s) = Some k' \<longrightarrow> k' = k" by simp_all
  with wait(3) show ?case by (auto simp: wake_inv_def)
next
  case (wake_read s t k plen p a b)
  have "pb_wf (sys_buf s)" using wake_read by (simp add: wake_inv_def)
  from attempt_cases [OF this wake_read(3)] have "pb_wf b" "pb_queue (sys_buf s) \<noteq> []" "pb_notify b = pb_notify (sys_buf s)" by simp_all
  moreover from this wake_read(4) have "pb_notify (sys_buf s) = None"
    "\<forall>t k. sys_waiting s t = Some k \<longrightarrow> k \<in> sys_closed s \<or> k \<in> sys_to_close s" by (simp_all add: wake_inv_def) (metis option.distinct(1))
  ultimately show ?case by (simp add: wake_inv_def)
next
  case (wake_wait s t k plen k' b)
  have "pb_wf (sys_buf s)" using wake_wait by (simp add: wake_inv_def)
  from attempt_cases [OF this wake_wait(3)] have "pb_wf b" "pb_notify b = Some k'" "pb_queue b = []" "\<not> pb_closed b"
    "\<forall>l. pb_notify (sys_buf s) = Some l \<longrightarrow> l = k'" by simp_all
  with wake_wait(4) show ?case by (auto simp: wake_inv_def)
qed (auto simp: wake_inv_def)

lemma wake_inv_reachable: "pb_sys_step\<^sup>*\<^sup>* pb_start s \<Longrightarrow> wake_inv s"
proof (induction rule: rtranclp_induct)
  case base
  then show ?case by (simp add: wake_inv_def pb_start_def New_queue)
qed (rule wake_inv_step)

section \<open>Properties\<close>

text \<open> C8. The circular buffer of packets is a queue: on every sequence of writes, reads and closings, its results are
  those of a list of packets with their addresses, however often the buffer wraps around or grows, and no index is out
  of range.\<close>

theorem packet_buffer_is_queue: "pb_run ops NewPacketBuffer = queue_run ops ([], False)"
  using run_simulates [OF New_queue(1), of ops] by (simp add: New_queue)

text \<open> C19. No reader of a packet buffer is forgotten: whenever a goroutine waits for a channel, that channel is closed or
  a writer is about to close it, unless there is nothing to read and the buffer is open.\<close>

theorem no_lost_wakeup:
  assumes "pb_sys_step\<^sup>*\<^sup>* pb_start s" "sys_waiting s t = Some k" "pb_queue (sys_buf s) \<noteq> [] \<or> pb_closed (sys_buf s)"
  shows "k \<in> sys_closed s \<or> k \<in> sys_to_close s"
  using wake_inv_reachable [OF assms(1)] assms(2,3) unfolding wake_inv_def by fastforce

theorem no_lost_wakeup_witness:
  "\<exists>s :: nat pb_system. pb_sys_step\<^sup>*\<^sup>* pb_start s \<and> sys_waiting s 0 = Some 0 \<and> pb_queue (sys_buf s) \<noteq> [] \<and>
     (0 \<in> sys_closed s \<or> 0 \<in> sys_to_close s)"
proof -
  let ?s1 = "pb_start\<lparr>sys_buf := NewPacketBuffer\<lparr>pb_notify := Some 0, pb_made := 1\<rparr>, sys_waiting := [0 \<mapsto> 0]\<rparr> :: nat pb_system"
  have 1: "pb_sys_step pb_start ?s1"
    using pb_sys_step.wait [of pb_start 0 10 False 0 "NewPacketBuffer\<lparr>pb_notify := Some 0, pb_made := 1\<rparr>"]
    by (simp add: pb_start_def pb_ReadFrom_def pb_attempt_def NewPacketBuffer_def)
  have "pb_wf (sys_buf ?s1)" "\<not> pb_closed (sys_buf ?s1)" by (simp_all add: pb_wf_def NewPacketBuffer_def)
  then obtain b where b: "pb_WriteTo [1] 7 (sys_buf ?s1) = Ok (1, Some 0, b)" "pb_queue b \<noteq> []"
    using WriteTo_queue [of "sys_buf ?s1" "[1]" 7] by auto
  let ?s2 = "?s1\<lparr>sys_buf := b, sys_to_close := {0}\<rparr>"
  have "pb_sys_step ?s1 ?s2" using pb_sys_step.put [OF b(1)] by (simp add: pb_start_def)
  with 1 have "pb_sys_step\<^sup>*\<^sup>* pb_start ?s2" by (meson rtranclp.rtrancl_into_rtrancl rtranclp.rtrancl_refl)
  with no_lost_wakeup [OF this, of 0 0] b(2) show ?thesis by (intro exI [of _ ?s2]) simp
qed



end
