(* ===== verification/Udp_Listener.thy ===== *)
theory Udp_Listener
  imports Packet_Buffer "HOL-Library.AList"
begin

text \<open>
  The listener of \<open>src/dtls/internal/net/udp/packet_conn.go\<close>, which divides the datagrams of one socket among
  connections: by an identifier in the datagram, if there is one, and by the remote address otherwise.
\<close>

section \<open>Model\<close>

abbreviation ErrUDPClosedListener :: err where "ErrUDPClosedListener \<equiv> Err ''udp: listener closed''"
abbreviation ErrUDPListenQueueExceeded :: err where "ErrUDPListenQueueExceeded \<equiv> Err ''udp: listen queue exceeded''"

text \<open>
  An address is its string.  Connections are pointers, numbers here, to the records in the store of the listener.
  The functions of the configuration are fields, as in the code.
\<close>

definition defaultListenBacklog :: nat where "defaultListenBacklog = 128"

record PacketConn =
  pc_raddr :: string
  pc_rmraddr :: bool
  pc_id :: "string option"
  pc_buffer :: "string PacketBuffer"
  pc_done :: bool
  pc_once :: bool

record listener =
  accepting :: bool
  acceptCh :: "nat list"
  l_backlog :: nat
  acceptFilter :: "(bytes \<Rightarrow> bool) option"
  datagramRouter :: "(bytes \<Rightarrow> string option) option"
  connIdentifier :: "(bytes \<Rightarrow> string option) option"
  l_conns :: "(string \<times> nat) list"
  connWG :: int
  l_store :: "nat \<Rightarrow> PacketConn"
  l_made :: nat

definition newPacketConn :: "string \<Rightarrow> PacketConn" where
  "newPacketConn raddr =
     \<lparr>pc_raddr = raddr, pc_rmraddr = False, pc_id = None, pc_buffer = NewPacketBuffer, pc_done = False, pc_once = False\<rparr>"

definition Listen ::
  "nat \<Rightarrow> (bytes \<Rightarrow> bool) option \<Rightarrow> (bytes \<Rightarrow> string option) option \<Rightarrow> (bytes \<Rightarrow> string option) option \<Rightarrow> listener" where
  "Listen Backlog flt router identifier =
     \<lparr>accepting = True, acceptCh = [], l_backlog = (if Backlog = 0 then defaultListenBacklog else Backlog),
      acceptFilter = flt, datagramRouter = router, connIdentifier = identifier, l_conns = [], connWG = 1,
      l_store = (\<lambda>_. newPacketConn []), l_made = 0\<rparr>"

text \<open>The connection of a datagram: that of its identifier, or else that of its remote address.\<close>

definition routed :: "string \<Rightarrow> bytes \<Rightarrow> listener \<Rightarrow> nat option" where
  "routed raddr buf l =
     (case (case datagramRouter l of
              None \<Rightarrow> None
            | Some router \<Rightarrow> (case router buf of None \<Rightarrow> None | Some i \<Rightarrow> map_of (l_conns l) i)) of
        Some conn \<Rightarrow> Some conn
      | None \<Rightarrow> map_of (l_conns l) raddr)"

text \<open>\<open>getConn\<close>: an error, or the connection if there is one (the second result, \<open>ok\<close>).\<close>

definition getConn :: "string \<Rightarrow> bytes \<Rightarrow> listener \<Rightarrow> (err + nat option) \<times> listener" where
  "getConn raddr buf l =
     (case routed raddr buf l of
        Some conn \<Rightarrow> (Inr (Some conn), l)
      | None \<Rightarrow>
          if \<not> accepting l then (Inl ErrUDPClosedListener, l)
          else if (case acceptFilter l of None \<Rightarrow> False | Some f \<Rightarrow> \<not> f buf) then (Inr None, l)
          else
            (let conn = l_made l;
                 l = l\<lparr>l_store := (l_store l)(conn := newPacketConn raddr), l_made := l_made l + 1\<rparr> in
             if length (acceptCh l) < l_backlog l then
               (Inr (Some conn), l\<lparr>acceptCh := acceptCh l @ [conn], l_conns := AList.update raddr conn (l_conns l)\<rparr>)
             else (Inl ErrUDPListenQueueExceeded, l)))"

definition set_conn :: "nat \<Rightarrow> (PacketConn \<Rightarrow> PacketConn) \<Rightarrow> listener \<Rightarrow> listener" where
  "set_conn c f l = l\<lparr>l_store := (l_store l)(c := f (l_store l c))\<rparr>"

text \<open>
  The methods of the listener and of a connection hold \<open>connLock\<close> for a part of what they do.  Each definition below is
  what a goroutine does between two points where others may come in.  What others do without the lock while a goroutine
  holds it (store \<open>accepting\<close> or \<open>id\<close>, receive from \<open>acceptCh\<close>) concerns a value that the part under the lock uses once,
  so that it comes before or after the whole part.

  \<open>readLoop\<close> looks the connection up under the lock (\<open>getConn\<close>) and then, without it, writes the datagram to the buffer
  of that connection.  A write to a closed buffer is an error that the loop ignores; \<open>None\<close> is a panic.
\<close>

definition readLoop_write :: "nat \<Rightarrow> string \<Rightarrow> bytes \<Rightarrow> listener \<Rightarrow> listener option" where
  "readLoop_write conn raddr buf l =
     (case pb_WriteTo buf raddr (pc_buffer (l_store l conn)) of
        Ok (_, _, b) \<Rightarrow> Some (set_conn conn (\<lambda>c. c\<lparr>pc_buffer := b\<rparr>) l)
      | Fail _ \<Rightarrow> Some l
      | Panic \<Rightarrow> None)"

text \<open>\<open>Accept\<close> receives a connection and then counts it.\<close>

definition Accept_receive :: "listener \<Rightarrow> (nat \<times> listener) option" where
  "Accept_receive l = (case acceptCh l of [] \<Rightarrow> None | c # cs \<Rightarrow> Some (c, l\<lparr>acceptCh := cs\<rparr>))"

definition Accept_add :: "listener \<Rightarrow> listener" where
  "Accept_add l = l\<lparr>connWG := connWG l + 1\<rparr>"

text \<open>Removing a connection from the table, under the lock.\<close>

definition forget :: "nat \<Rightarrow> listener \<Rightarrow> listener" where
  "forget c l =
     (let l = (case pc_id (l_store l c) of None \<Rightarrow> l | Some i \<Rightarrow> l\<lparr>l_conns := AList.delete i (l_conns l)\<rparr>) in
      if pc_rmraddr (l_store l c) then l
      else set_conn c (\<lambda>c. c\<lparr>pc_rmraddr := True\<rparr>) (l\<lparr>l_conns := AList.delete (pc_raddr (l_store l c)) (l_conns l)\<rparr>))"

text \<open>
  \<open>Close\<close> of the listener: it stops accepting, takes the lock, closes the connections that were not accepted one by one,
  and, after the lock, ends its own part in the count.
\<close>

definition Close_begin :: "listener \<Rightarrow> listener" where
  "Close_begin l = l\<lparr>accepting := False\<rparr>"

definition Close_drain :: "nat \<Rightarrow> listener \<Rightarrow> listener" where
  "Close_drain c l = forget c (set_conn c (\<lambda>c. c\<lparr>pc_done := True\<rparr>) l)"

definition Close_count :: "listener \<Rightarrow> listener" where
  "Close_count l = l\<lparr>connWG := connWG l - 1\<rparr>"

definition pc_ReadFrom :: "nat \<Rightarrow> bool \<Rightarrow> nat \<Rightarrow> listener \<Rightarrow> (string attempt \<times> listener) go" where
  "pc_ReadFrom plen expired c l =
     gmap (\<lambda>(a, b). (a, set_conn c (\<lambda>c. c\<lparr>pc_buffer := b\<rparr>) l)) (pb_ReadFrom plen expired (pc_buffer (l_store l c)))"

text \<open>
  Where a call of a method is: \<open>Accept\<close> before it counts the connection; \<open>WriteTo\<close> before it enters an identifier in the
  table, before it stores the identifier in the connection, before it asks whether the address is to be freed, and before
  it frees it; \<open>Close\<close> of a connection before it closes \<open>doneCh\<close>, before it takes the lock, and before it closes the buffer.
\<close>

datatype call =
    A_got nat
  | W_route nat string
  | W_id nat string
  | W_moved nat string
  | W_free nat
  | C_done nat
  | C_remove nat
  | C_buffer nat

text \<open>
  \<open>WriteTo\<close> loads the identifier of the connection first; when there is nothing more to do to the table, it goes on to the
  socket (\<open>None\<close>).
\<close>

definition WriteTo_load :: "bytes \<Rightarrow> string \<Rightarrow> nat \<Rightarrow> listener \<Rightarrow> call option" where
  "WriteTo_load payload addr c l =
     (case connIdentifier l of
        None \<Rightarrow> None
      | Some identifier \<Rightarrow>
          (case pc_id (l_store l c) of
             None \<Rightarrow> (case identifier payload of None \<Rightarrow> None | Some candidate \<Rightarrow> Some (W_route c candidate))
           | Some _ \<Rightarrow> Some (W_moved c addr)))"

definition WriteTo_route :: "nat \<Rightarrow> string \<Rightarrow> listener \<Rightarrow> listener" where
  "WriteTo_route c candidate l = l\<lparr>l_conns := AList.update candidate c (l_conns l)\<rparr>"

definition WriteTo_id :: "nat \<Rightarrow> string \<Rightarrow> listener \<Rightarrow> listener" where
  "WriteTo_id c candidate l = set_conn c (\<lambda>c. c\<lparr>pc_id := Some candidate\<rparr>) l"

definition WriteTo_moved :: "nat \<Rightarrow> string \<Rightarrow> listener \<Rightarrow> call option" where
  "WriteTo_moved c addr l =
     (if \<not> pc_rmraddr (l_store l c) \<and> addr \<noteq> pc_raddr (l_store l c) then Some (W_free c) else None)"

definition WriteTo_free :: "nat \<Rightarrow> listener \<Rightarrow> listener" where
  "WriteTo_free c l =
     set_conn c (\<lambda>c. c\<lparr>pc_rmraddr := True\<rparr>) (l\<lparr>l_conns := AList.delete (pc_raddr (l_store l c)) (l_conns l)\<rparr>)"

text \<open>\<open>Close\<close> of a connection, which runs once.\<close>

definition pc_Close_begin :: "nat \<Rightarrow> listener \<Rightarrow> listener" where
  "pc_Close_begin c l = set_conn c (\<lambda>c. c\<lparr>pc_once := True\<rparr>) (l\<lparr>connWG := connWG l - 1\<rparr>)"

definition pc_Close_done :: "nat \<Rightarrow> listener \<Rightarrow> listener" where
  "pc_Close_done c l = set_conn c (\<lambda>c. c\<lparr>pc_done := True\<rparr>) l"

definition pc_Close_buffer :: "nat \<Rightarrow> listener \<Rightarrow> listener" where
  "pc_Close_buffer c l = set_conn c (\<lambda>c. c\<lparr>pc_buffer := snd (pb_Close (pc_buffer c))\<rparr>) l"

section \<open>Runs\<close>

text \<open>
  The goroutines of a program that uses a listener: the read loop, the goroutine that closes the socket when the count is
  zero, one call of \<open>Close\<close> of the listener (the others wait for it and do nothing), and any number of calls on connections.
  A connection may be used once \<open>Accept\<close> has returned it.  \<open>u_closed\<close> are the connections whose \<open>Close\<close> has returned,
  \<open>u_removed\<close> those that \<open>Close\<close> (their own, or that of the listener) has taken out of the table.
  The steps leave out what only makes a goroutine wait or stop: the read loop may go on after the socket is closed, and
  \<open>Close\<close> does not wait for it.  What \<open>WriteTo\<close> does after its part in the table, to look at its deadline and to write to
  the socket, changes nothing here.
\<close>

datatype reader_pc = R_read | R_write nat string bytes

datatype closer_pc = L_open | L_begun | L_locked | L_unlocked | L_closed

record udp =
  u_l :: listener
  u_calls :: "nat \<rightharpoonup> call"
  u_reader :: reader_pc
  u_closer :: closer_pc
  u_accepted :: "nat set"
  u_removed :: "nat set"
  u_closed :: "nat set"
  u_socket_closed :: bool

definition udp_start :: "listener \<Rightarrow> udp" where
  "udp_start l =
     \<lparr>u_l = l, u_calls = Map.empty, u_reader = R_read, u_closer = L_open, u_accepted = {}, u_removed = {}, u_closed = {},
      u_socket_closed = False\<rparr>"

fun write_on :: "nat \<Rightarrow> call option \<Rightarrow> bool" where
  "write_on c (Some (W_route d _)) \<longleftrightarrow> d = c"
| "write_on c (Some (W_id d _)) \<longleftrightarrow> d = c"
| "write_on c (Some (W_moved d _)) \<longleftrightarrow> d = c"
| "write_on c (Some (W_free d)) \<longleftrightarrow> d = c"
| "write_on c _ \<longleftrightarrow> False"

text \<open>
  How the program uses a connection: its calls of \<open>WriteTo\<close> and \<open>Close\<close> do not overlap and none writes after closing; or
  calls overlap but no \<open>WriteTo\<close> begins after \<open>Close\<close> has begun; or without any restriction.
\<close>

datatype discipline = Serial | Overlap | Free

definition may_write :: "discipline \<Rightarrow> nat \<Rightarrow> udp \<Rightarrow> bool" where
  "may_write d c s \<longleftrightarrow>
     (case d of
        Serial \<Rightarrow> \<not> pc_once (l_store (u_l s) c) \<and> (\<forall>t. \<not> write_on c (u_calls s t))
      | Overlap \<Rightarrow> \<not> pc_once (l_store (u_l s) c)
      | Free \<Rightarrow> True)"

definition may_close :: "discipline \<Rightarrow> nat \<Rightarrow> udp \<Rightarrow> bool" where
  "may_close d c s \<longleftrightarrow> (d = Serial \<longrightarrow> (\<forall>t. \<not> write_on c (u_calls s t)))"

inductive u_step :: "discipline \<Rightarrow> udp \<Rightarrow> udp \<Rightarrow> bool" for d where
  lookup: "u_reader s = R_read \<Longrightarrow> u_closer s \<noteq> L_locked \<Longrightarrow> getConn raddr buf (u_l s) = (r, l') \<Longrightarrow>
    u_step d s (s\<lparr>u_l := l', u_reader := (case r of Inr (Some c) \<Rightarrow> R_write c raddr buf | _ \<Rightarrow> R_read)\<rparr>)"
| deliver: "u_reader s = R_write c raddr buf \<Longrightarrow> readLoop_write c raddr buf (u_l s) = Some l' \<Longrightarrow>
    u_step d s (s\<lparr>u_l := l', u_reader := R_read\<rparr>)"
| accept: "u_calls s t = None \<Longrightarrow> Accept_receive (u_l s) = Some (c, l') \<Longrightarrow>
    u_step d s (s\<lparr>u_l := l', u_calls := (u_calls s)(t \<mapsto> A_got c)\<rparr>)"
| accept_add: "u_calls s t = Some (A_got c) \<Longrightarrow>
    u_step d s (s\<lparr>u_l := Accept_add (u_l s), u_calls := (u_calls s)(t := None), u_accepted := insert c (u_accepted s)\<rparr>)"
| receive: "c \<in> u_accepted s \<Longrightarrow> pc_ReadFrom plen expired c (u_l s) = Ok (a, l') \<Longrightarrow> u_step d s (s\<lparr>u_l := l'\<rparr>)"
| send: "c \<in> u_accepted s \<Longrightarrow> u_calls s t = None \<Longrightarrow> may_write d c s \<Longrightarrow>
    u_step d s (s\<lparr>u_calls := (u_calls s)(t := WriteTo_load payload addr c (u_l s))\<rparr>)"
| send_route: "u_calls s t = Some (W_route c k) \<Longrightarrow> u_closer s \<noteq> L_locked \<Longrightarrow>
    u_step d s (s\<lparr>u_l := WriteTo_route c k (u_l s), u_calls := (u_calls s)(t \<mapsto> W_id c k)\<rparr>)"
| send_id: "u_calls s t = Some (W_id c k) \<Longrightarrow>
    u_step d s (s\<lparr>u_l := WriteTo_id c k (u_l s), u_calls := (u_calls s)(t := None)\<rparr>)"
| send_moved: "u_calls s t = Some (W_moved c addr) \<Longrightarrow>
    u_step d s (s\<lparr>u_calls := (u_calls s)(t := WriteTo_moved c addr (u_l s))\<rparr>)"
| send_free: "u_calls s t = Some (W_free c) \<Longrightarrow> u_closer s \<noteq> L_locked \<Longrightarrow>
    u_step d s (s\<lparr>u_l := WriteTo_free c (u_l s), u_calls := (u_calls s)(t := None)\<rparr>)"
| close_conn: "c \<in> u_accepted s \<Longrightarrow> u_calls s t = None \<Longrightarrow> \<not> pc_once (l_store (u_l s) c) \<Longrightarrow> may_close d c s \<Longrightarrow>
    u_step d s (s\<lparr>u_l := pc_Close_begin c (u_l s), u_calls := (u_calls s)(t \<mapsto> C_done c)\<rparr>)"
| close_conn_done: "u_calls s t = Some (C_done c) \<Longrightarrow>
    u_step d s (s\<lparr>u_l := pc_Close_done c (u_l s), u_calls := (u_calls s)(t \<mapsto> C_remove c)\<rparr>)"
| close_conn_remove: "u_calls s t = Some (C_remove c) \<Longrightarrow> u_closer s \<noteq> L_locked \<Longrightarrow>
    u_step d s (s\<lparr>u_l := forget c (u_l s), u_calls := (u_calls s)(t \<mapsto> C_buffer c), u_removed := insert c (u_removed s)\<rparr>)"
| close_conn_buffer: "u_calls s t = Some (C_buffer c) \<Longrightarrow>
    u_step d s (s\<lparr>u_l := pc_Close_buffer c (u_l s), u_calls := (u_calls s)(t := None), u_closed := insert c (u_closed s)\<rparr>)"
| close: "u_closer s = L_open \<Longrightarrow> u_step d s (s\<lparr>u_l := Close_begin (u_l s), u_closer := L_begun\<rparr>)"
| close_lock: "u_closer s = L_begun \<Longrightarrow> u_step d s (s\<lparr>u_closer := L_locked\<rparr>)"
| close_drain: "u_closer s = L_locked \<Longrightarrow> Accept_receive (u_l s) = Some (c, l') \<Longrightarrow>
    u_step d s (s\<lparr>u_l := Close_drain c l', u_removed := insert c (u_removed s)\<rparr>)"
| close_unlock: "u_closer s = L_locked \<Longrightarrow> acceptCh (u_l s) = [] \<Longrightarrow> u_step d s (s\<lparr>u_closer := L_unlocked\<rparr>)"
| close_count: "u_closer s = L_unlocked \<Longrightarrow> u_step d s (s\<lparr>u_l := Close_count (u_l s), u_closer := L_closed\<rparr>)"
| close_socket: "connWG (u_l s) = 0 \<Longrightarrow> u_step d s (s\<lparr>u_socket_closed := True\<rparr>)"

section \<open>Lemmas\<close>

lemma set_conn_simps [simp]:
  "l_conns (set_conn c f l) = l_conns l" "l_made (set_conn c f l) = l_made l" "acceptCh (set_conn c f l) = acceptCh l"
  "accepting (set_conn c f l) = accepting l" "connWG (set_conn c f l) = connWG l"
  "l_store (set_conn c f l) = (l_store l)(c := f (l_store l c))"
  by (simp_all add: set_conn_def)

lemma forget_simps [simp]:
  "l_made (forget c l) = l_made l" "acceptCh (forget c l) = acceptCh l" "connWG (forget c l) = connWG l"
  "pc_once (l_store (forget c l) e) = pc_once (l_store l e)" "pc_buffer (l_store (forget c l) e) = pc_buffer (l_store l e)"
  "pc_id (l_store (forget c l) e) = pc_id (l_store l e)" "pc_raddr (l_store (forget c l) e) = pc_raddr (l_store l e)"
  "e \<noteq> c \<Longrightarrow> l_store (forget c l) e = l_store l e"
  by (auto simp: forget_def Let_def split: option.split)

text \<open>After \<open>forget\<close> a connection is under no key of its own, and no entry is new.\<close>

lemma forget_entry:
  assumes "map_of (l_conns (forget c l)) k = Some e"
  shows "map_of (l_conns l) k = Some e" "pc_id (l_store l c) \<noteq> Some k" "pc_raddr (l_store l c) \<noteq> k \<or> pc_rmraddr (l_store l c)"
  using assms by (auto simp: forget_def Let_def delete_conv split: option.splits if_splits)

lemmas call_simps = readLoop_write_def Accept_receive_def Accept_add_def Close_begin_def Close_drain_def Close_count_def
  WriteTo_route_def WriteTo_id_def WriteTo_free_def pc_Close_begin_def pc_Close_done_def pc_Close_buffer_def

definition with_conn :: "string \<Rightarrow> listener \<Rightarrow> listener" where
  "with_conn raddr l = l\<lparr>l_store := (l_store l)(l_made l := newPacketConn raddr), l_made := l_made l + 1\<rparr>"

lemma with_conn_simps [simp]:
  "l_conns (with_conn raddr l) = l_conns l" "l_made (with_conn raddr l) = Suc (l_made l)" "acceptCh (with_conn raddr l) = acceptCh l"
  "connWG (with_conn raddr l) = connWG l" "l_store (with_conn raddr l) = (l_store l)(l_made l := newPacketConn raddr)"
  by (simp_all add: with_conn_def)

lemma newPacketConn_simps [simp]:
  "\<not> pc_once (newPacketConn raddr)" "pc_raddr (newPacketConn raddr) = raddr" "\<not> pc_rmraddr (newPacketConn raddr)"
  "pc_buffer (newPacketConn raddr) = NewPacketBuffer"
  by (simp_all add: newPacketConn_def)

lemma routed_entry: "routed raddr buf l = Some c \<Longrightarrow> \<exists>k. map_of (l_conns l) k = Some c"
  by (auto simp: routed_def split: option.splits)

lemma getConn_cases:
  obtains (found) c where "routed raddr buf l = Some c" "getConn raddr buf l = (Inr (Some c), l)"
  | (refused) r where "getConn raddr buf l = (r, l)" "\<forall>c. r \<noteq> Inr (Some c)"
  | (full) e where "getConn raddr buf l = (Inl e, with_conn raddr l)"
  | (new) "accepting l" "getConn raddr buf l =
      (Inr (Some (l_made l)), (with_conn raddr l)\<lparr>acceptCh := acceptCh l @ [l_made l], l_conns := AList.update raddr (l_made l) (l_conns l)\<rparr>)"
proof (cases "routed raddr buf l")
  case None
  consider "\<not> accepting l" | "accepting l" "case acceptFilter l of None \<Rightarrow> False | Some f \<Rightarrow> \<not> f buf"
    | "accepting l" "\<not> (case acceptFilter l of None \<Rightarrow> False | Some f \<Rightarrow> \<not> f buf)" "length (acceptCh l) < l_backlog l"
    | "accepting l" "\<not> (case acceptFilter l of None \<Rightarrow> False | Some f \<Rightarrow> \<not> f buf)" "\<not> length (acceptCh l) < l_backlog l" by blast
  then show thesis
  proof cases
    case 1
    with None have "getConn raddr buf l = (Inl ErrUDPClosedListener, l)" by (simp add: getConn_def)
    then show thesis by (rule refused) simp
  next
    case 2
    with None have "getConn raddr buf l = (Inr None, l)" by (simp add: getConn_def)
    then show thesis by (rule refused) simp
  next
    case 3
    with None show thesis by (intro new) (simp_all add: getConn_def with_conn_def Let_def)
  next
    case 4
    with None show thesis by (intro full) (simp add: getConn_def with_conn_def Let_def)
  qed
next
  case (Some c)
  then show thesis by (intro found) (simp_all add: getConn_def)
qed

lemma WriteTo_total:
  assumes "pb_wf b"
  shows "(\<exists>n k b'. pb_WriteTo p a b = Ok (n, k, b') \<and> pb_wf b') \<or> pb_WriteTo p a b = Fail io_ErrClosedPipe"
  using WriteTo_queue [OF assms, of p a] by (cases "pb_closed b") (auto simp: pb_WriteTo_def)

subsection \<open>What holds of every run\<close>

definition open_conns :: "udp \<Rightarrow> nat set" where
  "open_conns s = {c \<in> u_accepted s. \<not> pc_once (l_store (u_l s) c)}"

text \<open>
  A connection is in the queue of \<open>Accept\<close>, with one call of \<open>Accept\<close>, or accepted; the count is that of the listener
  and of the accepted connections that have not begun to close.
\<close>

definition base_inv :: "udp \<Rightarrow> bool" where
  "base_inv s \<longleftrightarrow>
     finite (u_accepted s) \<and> (\<forall>c \<in> u_accepted s. c < l_made (u_l s)) \<and>
     distinct (acceptCh (u_l s)) \<and>
     (\<forall>c \<in> set (acceptCh (u_l s)). c < l_made (u_l s) \<and> c \<notin> u_accepted s \<and> \<not> pc_once (l_store (u_l s) c)) \<and>
     (\<forall>t c. u_calls s t = Some (A_got c) \<longrightarrow>
        c < l_made (u_l s) \<and> c \<notin> u_accepted s \<and> c \<notin> set (acceptCh (u_l s)) \<and> \<not> pc_once (l_store (u_l s) c)) \<and>
     (\<forall>t t' c. u_calls s t = Some (A_got c) \<longrightarrow> u_calls s t' = Some (A_got c) \<longrightarrow> t = t') \<and>
     (\<forall>c < l_made (u_l s). pb_wf (pc_buffer (l_store (u_l s) c))) \<and>
     (\<forall>c raddr buf. u_reader s = R_write c raddr buf \<longrightarrow> c < l_made (u_l s)) \<and>
     (\<forall>k c. map_of (l_conns (u_l s)) k = Some c \<longrightarrow> c < l_made (u_l s)) \<and>
     (\<forall>t c. write_on c (u_calls s t) \<longrightarrow> c < l_made (u_l s)) \<and>
     connWG (u_l s) = (if u_closer s = L_closed then 0 else 1) + int (card (open_conns s))"

text \<open>A step that changes neither the queue of \<open>Accept\<close> nor the count, and closes no connection.\<close>

lemma base_frame:
  assumes "base_inv s"
    and "u_accepted s' = u_accepted s" "acceptCh (u_l s') = acceptCh (u_l s)" "l_made (u_l s') = l_made (u_l s)"
    and "\<And>c. pc_once (l_store (u_l s') c) = pc_once (l_store (u_l s) c)"
    and "\<And>t c. u_calls s' t = Some (A_got c) \<Longrightarrow> u_calls s t = Some (A_got c)"
    and "\<And>c. c < l_made (u_l s) \<Longrightarrow> pb_wf (pc_buffer (l_store (u_l s') c))"
    and "\<And>c raddr buf. u_reader s' = R_write c raddr buf \<Longrightarrow> c < l_made (u_l s)"
    and "\<And>k c. map_of (l_conns (u_l s')) k = Some c \<Longrightarrow> c < l_made (u_l s)"
    and "\<And>t c. write_on c (u_calls s' t) \<Longrightarrow> c < l_made (u_l s)"
    and "connWG (u_l s') = connWG (u_l s)" "u_closer s' = L_closed \<longleftrightarrow> u_closer s = L_closed"
  shows "base_inv s'"
proof -
  have "open_conns s' = open_conns s" using assms(2,5) by (simp add: open_conns_def)
  with assms show ?thesis unfolding base_inv_def by (simp (no_asm_simp)) (metis assms(6))
qed

lemma base_invD:
  assumes "base_inv s"
  shows "finite (u_accepted s)" "c \<in> u_accepted s \<Longrightarrow> c < l_made (u_l s)" "distinct (acceptCh (u_l s))"
    and "c \<in> set (acceptCh (u_l s)) \<Longrightarrow> c < l_made (u_l s) \<and> c \<notin> u_accepted s \<and> \<not> pc_once (l_store (u_l s) c)"
    and "u_calls s t = Some (A_got c) \<Longrightarrow>
      c < l_made (u_l s) \<and> c \<notin> u_accepted s \<and> c \<notin> set (acceptCh (u_l s)) \<and> \<not> pc_once (l_store (u_l s) c)"
    and "u_calls s t = Some (A_got c) \<Longrightarrow> u_calls s t' = Some (A_got c) \<Longrightarrow> t = t'"
    and "c < l_made (u_l s) \<Longrightarrow> pb_wf (pc_buffer (l_store (u_l s) c))"
    and "u_reader s = R_write c raddr buf \<Longrightarrow> c < l_made (u_l s)"
    and "map_of (l_conns (u_l s)) k = Some c \<Longrightarrow> c < l_made (u_l s)"
    and "write_on c (u_calls s t) \<Longrightarrow> c < l_made (u_l s)"
    and "connWG (u_l s) = (if u_closer s = L_closed then 0 else 1) + int (card (open_conns s))"
  using assms unfolding base_inv_def by blast+

lemma readLoop_write_total:
  assumes "base_inv s" "u_reader s = R_write c raddr buf"
  shows "\<exists>b. pb_wf b \<and> readLoop_write c raddr buf (u_l s) = Some (set_conn c (\<lambda>c. c\<lparr>pc_buffer := b\<rparr>) (u_l s))"
proof -
  have wf: "pb_wf (pc_buffer (l_store (u_l s) c))" using assms base_invD(7,8) by blast
  then have same: "set_conn c (\<lambda>x. x\<lparr>pc_buffer := pc_buffer (l_store (u_l s) c)\<rparr>) (u_l s) = u_l s" by (simp add: set_conn_def)
  from WriteTo_total [OF wf, of buf raddr] show ?thesis
  proof (elim disjE exE conjE)
    fix n k b' assume "pb_WriteTo buf raddr (pc_buffer (l_store (u_l s) c)) = Ok (n, k, b')" "pb_wf b'"
    then show ?thesis by (auto simp: readLoop_write_def)
  next
    assume "pb_WriteTo buf raddr (pc_buffer (l_store (u_l s) c)) = Fail io_ErrClosedPipe"
    with wf same show ?thesis by (intro exI [of _ "pc_buffer (l_store (u_l s) c)"]) (simp add: readLoop_write_def)
  qed
qed

lemma ReadFrom_buffer:
  assumes "pb_wf (pc_buffer (l_store l c))" "pc_ReadFrom plen expired c l = Ok (a, l')"
  shows "\<exists>b. pb_wf b \<and> l' = set_conn c (\<lambda>c. c\<lparr>pc_buffer := b\<rparr>) l"
proof -
  obtain b where b: "pb_attempt plen (pc_buffer (l_store l c)) = Ok (a, b)" "l' = set_conn c (\<lambda>c. c\<lparr>pc_buffer := b\<rparr>) l"
    using assms(2) by (auto simp: pc_ReadFrom_def gmap_Ok_iff pb_ReadFrom_def split: if_splits)
  from attempt_cases [OF assms(1) b(1)] have "pb_wf b" by simp
  with b(2) show ?thesis by blast
qed

lemma base_set_buffer:
  assumes "base_inv s" "pb_wf b" "r = R_read \<or> r = u_reader s"
  shows "base_inv (s\<lparr>u_l := set_conn c (\<lambda>c. c\<lparr>pc_buffer := b\<rparr>) (u_l s), u_reader := r\<rparr>)"
proof (rule base_frame [OF assms(1)])
  show "e < l_made (u_l s)" if "u_reader (s\<lparr>u_l := set_conn c (\<lambda>c. c\<lparr>pc_buffer := b\<rparr>) (u_l s), u_reader := r\<rparr>) = R_write e raddr buf"
    for e raddr buf
    using that assms(3) base_invD(8) [OF assms(1), of e raddr buf] by auto
qed (use assms(2) base_invD [OF assms(1)] in auto)

lemma base_write:
  assumes "base_inv s" "u_calls s t = q" "write_on c q" "\<And>e. write_on e q' \<Longrightarrow> e = c" "\<And>e. q' \<noteq> Some (A_got e)"
  shows "base_inv (s\<lparr>u_calls := (u_calls s)(t := q')\<rparr>)"
  by (rule base_frame [OF assms(1)]) (use assms base_invD [OF assms(1)] in \<open>auto split: if_splits\<close>)

lemma base_lookup:
  assumes "base_inv s" "getConn raddr buf (u_l s) = (r, l')"
  shows "base_inv (s\<lparr>u_l := l', u_reader := (case r of Inr (Some c) \<Rightarrow> R_write c raddr buf | _ \<Rightarrow> R_read)\<rparr>)"
proof -
  note I = base_invD [OF assms(1)]
  have wf: "\<forall>c < Suc (l_made (u_l s)). pb_wf (pc_buffer (((l_store (u_l s))(l_made (u_l s) := newPacketConn raddr)) c))"
    using I(7) by (auto simp: less_Suc_eq New_queue)
  have conn: "open_conns (s\<lparr>u_l := with_conn raddr (u_l s), u_reader := q\<rparr>) = open_conns s"
    "open_conns (s\<lparr>u_l := (with_conn raddr (u_l s))\<lparr>acceptCh := x, l_conns := y\<rparr>, u_reader := q\<rparr>) = open_conns s" for q x y
    using I(2) by (fastforce simp: open_conns_def)+
  show ?thesis
  proof (cases rule: getConn_cases [of raddr buf "u_l s"])
    case (found c)
    then have "c < l_made (u_l s)" using routed_entry I(9) by blast
    moreover have "l' = u_l s" "r = Inr (Some c)" using found(2) assms(2) by simp_all
    ultimately show ?thesis using assms(1) by (simp add: base_inv_def open_conns_def)
  next
    case (refused r')
    then have "l' = u_l s" "(case r of Inr (Some c) \<Rightarrow> R_write c raddr buf | _ \<Rightarrow> R_read) = R_read"
      using assms(2) by (auto split: sum.split option.split)
    then show ?thesis using assms(1) by (simp add: base_inv_def open_conns_def)
  next
    case (full e)
    then have "l' = with_conn raddr (u_l s)" "r = Inl e" using assms(2) by simp_all
    then show ?thesis
      using I wf conn(1) unfolding base_inv_def by (simp add: less_Suc_eq)
  next
    case new
    let ?l = "(with_conn raddr (u_l s))\<lparr>acceptCh := acceptCh (u_l s) @ [l_made (u_l s)], l_conns := AList.update raddr (l_made (u_l s)) (l_conns (u_l s))\<rparr>"
    have "l' = ?l" "r = Inr (Some (l_made (u_l s)))" using new(2) assms(2) by simp_all
    then show ?thesis
      using I wf conn(2) unfolding base_inv_def by (auto simp: less_Suc_eq update_conv)
  qed
qed

lemma Accept_receive_Some: "Accept_receive l = Some (c, l') \<Longrightarrow> \<exists>cs. acceptCh l = c # cs \<and> l' = l\<lparr>acceptCh := cs\<rparr>"
  by (auto simp: Accept_receive_def split: list.splits)

lemma base_inv_step: "u_step d s s' \<Longrightarrow> base_inv s \<Longrightarrow> base_inv s'"
proof (induction rule: u_step.induct)
  case (lookup s raddr buf r l')
  then show ?case by (intro base_lookup)
next
  case (deliver s c raddr buf l')
  then show ?case using readLoop_write_total [OF deliver(3,1)] base_set_buffer [OF deliver(3), of _ R_read c] by auto
next
  case (accept s t c l')
  obtain cs where cs: "acceptCh (u_l s) = c # cs" "l' = (u_l s)\<lparr>acceptCh := cs\<rparr>" using Accept_receive_Some accept(2) by blast
  note I = base_invD [OF accept(3)]
  have "open_conns (s\<lparr>u_l := l', u_calls := (u_calls s)(t \<mapsto> A_got c)\<rparr>) = open_conns s" by (simp add: open_conns_def cs(2))
  moreover have fresh: "u_calls s t' \<noteq> Some (A_got c)" for t' using I(5) [of t' c] cs(1) by auto
  ultimately show ?case using accept(3) cs unfolding base_inv_def by (auto split: if_splits)
next
  case (accept_add s t c)
  note I = base_invD [OF accept_add(2)]
  have c: "c < l_made (u_l s)" "c \<notin> u_accepted s" "c \<notin> set (acceptCh (u_l s))" "\<not> pc_once (l_store (u_l s) c)"
    using I(5) [OF accept_add(1)] by simp_all
  have "open_conns (s\<lparr>u_l := Accept_add (u_l s), u_calls := (u_calls s)(t := None), u_accepted := insert c (u_accepted s)\<rparr>) =
      insert c (open_conns s)" using c by (auto simp: open_conns_def Accept_add_def)
  moreover have "card (insert c (open_conns s)) = Suc (card (open_conns s))" using I(1) c(2) by (simp add: open_conns_def)
  ultimately show ?case
    using I c accept_add(1) unfolding base_inv_def by (auto simp: Accept_add_def split: if_splits)
next
  case (receive c s plen expired a l')
  have "pb_wf (pc_buffer (l_store (u_l s) c))" using base_invD(2,7) receive by blast
  from ReadFrom_buffer [OF this receive(2)] base_set_buffer [OF receive(3), of _ "u_reader s" c] show ?case by auto
next
  case (send c s t payload addr)
  note I = base_invD [OF send(4)]
  show ?case
    by (rule base_frame [OF send(4)])
      (use I send in \<open>auto simp: WriteTo_load_def split: if_splits option.splits\<close>)
next
  case (send_route s t c k)
  then have c: "c < l_made (u_l s)" using base_invD(10) [OF send_route(3), of c t] by simp
  show ?case
    by (rule base_frame [OF send_route(3)])
      (use base_invD [OF send_route(3)] c in \<open>auto simp: WriteTo_route_def update_conv split: if_splits\<close>)
next
  case (send_id s t c k)
  show ?case
    by (rule base_frame [OF send_id(2)]) (use base_invD [OF send_id(2)] in \<open>auto simp: WriteTo_id_def split: if_splits\<close>)
next
  case (send_moved s t c addr)
  then have c: "c < l_made (u_l s)" using base_invD(10) [OF send_moved(2), of c t] by simp
  show ?case
    by (rule base_frame [OF send_moved(2)])
      (use base_invD [OF send_moved(2)] c in \<open>auto simp: WriteTo_moved_def split: if_splits\<close>)
next
  case (send_free s t c)
  show ?case
    by (rule base_frame [OF send_free(3)])
      (use base_invD [OF send_free(3)] in \<open>auto simp: WriteTo_free_def delete_conv split: if_splits\<close>)
next
  case (close_conn c s t)
  note I = base_invD [OF close_conn(5)]
  let ?s = "s\<lparr>u_l := pc_Close_begin c (u_l s), u_calls := (u_calls s)(t \<mapsto> C_done c)\<rparr>"
  have "open_conns ?s = open_conns s - {c}" by (auto simp: open_conns_def pc_Close_begin_def)
  moreover have "c \<in> open_conns s" "finite (open_conns s)" using close_conn I(1) by (simp_all add: open_conns_def)
  ultimately have "int (card (open_conns ?s)) = int (card (open_conns s)) - 1" using card_Suc_Diff1 [of "open_conns s" c] by simp
  then show ?case
    using I close_conn(1,2) unfolding base_inv_def by (auto simp: pc_Close_begin_def split: if_splits)
next
  case (close_conn_done s t c)
  show ?case
    by (rule base_frame [OF close_conn_done(2)])
      (use base_invD [OF close_conn_done(2)] in \<open>auto simp: pc_Close_done_def split: if_splits\<close>)
next
  case (close_conn_remove s t c)
  have e: "e < l_made (u_l s)" if "map_of (l_conns (forget c (u_l s))) k = Some e" for k e
    using forget_entry(1) [OF that] base_invD(9) [OF close_conn_remove(3)] by blast
  show ?case
    by (rule base_frame [OF close_conn_remove(3)])
      (use e base_invD(7,8,10) [OF close_conn_remove(3)] in \<open>auto split: if_splits\<close>)
next
  case (close_conn_buffer s t c)
  show ?case
    by (rule base_frame [OF close_conn_buffer(2)])
      (use base_invD [OF close_conn_buffer(2)] in \<open>auto simp: pc_Close_buffer_def Close_queue split: if_splits\<close>)
next
  case (close_drain s c l')
  obtain cs where cs: "acceptCh (u_l s) = c # cs" "l' = (u_l s)\<lparr>acceptCh := cs\<rparr>" using Accept_receive_Some close_drain(2) by blast
  note I = base_invD [OF close_drain(3)]
  have e: "map_of (l_conns (u_l s)) k = Some e" if "map_of (l_conns (Close_drain c l')) k = Some e" for k e
    using forget_entry(1) [OF that [unfolded Close_drain_def]] by (simp add: cs(2))
  have same: "l_made (Close_drain c l') = l_made (u_l s)" "acceptCh (Close_drain c l') = cs" "connWG (Close_drain c l') = connWG (u_l s)"
    "\<And>e. pc_once (l_store (Close_drain c l') e) = pc_once (l_store (u_l s) e)"
    "\<And>e. pc_buffer (l_store (Close_drain c l') e) = pc_buffer (l_store (u_l s) e)"
    by (simp_all add: Close_drain_def cs(2))
  have "open_conns (s\<lparr>u_l := Close_drain c l', u_removed := insert c (u_removed s)\<rparr>) = open_conns s" by (simp add: open_conns_def same)
  then show ?case using close_drain(3) cs(1) e unfolding base_inv_def by (simp add: same) blast
next
  case (close_count s)
  then show ?case by (auto simp: base_inv_def open_conns_def Close_count_def)
qed (auto simp: base_inv_def open_conns_def Close_begin_def)

subsection \<open>What holds when calls do not overlap\<close>

fun close_on :: "nat \<Rightarrow> call option \<Rightarrow> bool" where
  "close_on c (Some (C_done e)) \<longleftrightarrow> e = c"
| "close_on c (Some (C_remove e)) \<longleftrightarrow> e = c"
| "close_on c (Some (C_buffer e)) \<longleftrightarrow> e = c"
| "close_on c _ \<longleftrightarrow> False"

text \<open>An entry of the table is under the identifier or the address of its connection, or a \<open>WriteTo\<close> is about to store it.\<close>

definition entry_ok :: "udp \<Rightarrow> string \<Rightarrow> nat \<Rightarrow> bool" where
  "entry_ok s k c \<longleftrightarrow> c \<notin> u_removed s \<and>
     (pc_id (l_store (u_l s) c) = Some k \<or> pc_raddr (l_store (u_l s) c) = k \<and> \<not> pc_rmraddr (l_store (u_l s) c) \<or>
      (\<exists>t. u_calls s t = Some (W_id c k)))"

definition route_inv :: "udp \<Rightarrow> bool" where
  "route_inv s \<longleftrightarrow>
     (\<forall>k c. map_of (l_conns (u_l s)) k = Some c \<longrightarrow> entry_ok s k c) \<and>
     (\<forall>t t' c. write_on c (u_calls s t) \<longrightarrow> write_on c (u_calls s t') \<longrightarrow> t = t') \<and>
     (\<forall>t c. write_on c (u_calls s t) \<longrightarrow> c \<in> u_accepted s \<and> \<not> pc_once (l_store (u_l s) c)) \<and>
     (\<forall>t c k. u_calls s t = Some (W_route c k) \<or> u_calls s t = Some (W_id c k) \<longrightarrow> pc_id (l_store (u_l s) c) = None) \<and>
     (\<forall>t c. close_on c (u_calls s t) \<longrightarrow> c < l_made (u_l s) \<and> pc_once (l_store (u_l s) c)) \<and>
     (\<forall>c \<in> u_removed s. c < l_made (u_l s) \<and>
        (pc_once (l_store (u_l s) c) \<or> c \<notin> u_accepted s \<and> c \<notin> set (acceptCh (u_l s)) \<and> (\<forall>t. u_calls s t \<noteq> Some (A_got c)))) \<and>
     (\<forall>t c. u_calls s t = Some (C_buffer c) \<longrightarrow> c \<in> u_removed s) \<and>
     u_closed s \<subseteq> u_removed s"

lemma route_invD:
  assumes "route_inv s"
  shows "map_of (l_conns (u_l s)) k = Some c \<Longrightarrow> entry_ok s k c"
    and "write_on c (u_calls s t) \<Longrightarrow> write_on c (u_calls s t') \<Longrightarrow> t = t'"
    and "write_on c (u_calls s t) \<Longrightarrow> c \<in> u_accepted s \<and> \<not> pc_once (l_store (u_l s) c)"
    and "u_calls s t = Some (W_route c k) \<Longrightarrow> pc_id (l_store (u_l s) c) = None"
    and "u_calls s t = Some (W_id c k) \<Longrightarrow> pc_id (l_store (u_l s) c) = None"
    and "close_on c (u_calls s t) \<Longrightarrow> c < l_made (u_l s) \<and> pc_once (l_store (u_l s) c)"
    and "c \<in> u_removed s \<Longrightarrow> c < l_made (u_l s) \<and>
        (pc_once (l_store (u_l s) c) \<or> c \<notin> u_accepted s \<and> c \<notin> set (acceptCh (u_l s)) \<and> (\<forall>t. u_calls s t \<noteq> Some (A_got c)))"
    and "u_calls s t = Some (C_buffer c) \<Longrightarrow> c \<in> u_removed s"
    and "c \<in> u_closed s \<Longrightarrow> c \<in> u_removed s"
  using assms unfolding route_inv_def by blast+

lemma route_invI:
  assumes "\<And>k c. map_of (l_conns (u_l s)) k = Some c \<Longrightarrow> entry_ok s k c"
    and "\<And>t t' c. write_on c (u_calls s t) \<Longrightarrow> write_on c (u_calls s t') \<Longrightarrow> t = t'"
    and "\<And>t c. write_on c (u_calls s t) \<Longrightarrow> c \<in> u_accepted s \<and> \<not> pc_once (l_store (u_l s) c)"
    and "\<And>t c k. u_calls s t = Some (W_route c k) \<or> u_calls s t = Some (W_id c k) \<Longrightarrow> pc_id (l_store (u_l s) c) = None"
    and "\<And>t c. close_on c (u_calls s t) \<Longrightarrow> c < l_made (u_l s) \<and> pc_once (l_store (u_l s) c)"
    and "\<And>c. c \<in> u_removed s \<Longrightarrow> c < l_made (u_l s) \<and>
        (pc_once (l_store (u_l s) c) \<or> c \<notin> u_accepted s \<and> c \<notin> set (acceptCh (u_l s)) \<and> (\<forall>t. u_calls s t \<noteq> Some (A_got c)))"
    and "\<And>t c. u_calls s t = Some (C_buffer c) \<Longrightarrow> c \<in> u_removed s"
    and "\<And>c. c \<in> u_closed s \<Longrightarrow> c \<in> u_removed s"
  shows "route_inv s"
  unfolding route_inv_def using assms by blast

text \<open>A connection that is written to has not been removed.\<close>

lemma writing_not_removed:
  assumes "route_inv s" "write_on c (u_calls s t)"
  shows "c \<notin> u_removed s"
  using route_invD(3) [OF assms] route_invD(7) [OF assms(1), of c] by blast

lemma route_buffer:
  assumes "route_inv s"
  shows "route_inv (s\<lparr>u_l := set_conn c (\<lambda>c. c\<lparr>pc_buffer := b\<rparr>) (u_l s), u_reader := r\<rparr>)"
proof -
  have "entry_ok (s\<lparr>u_l := set_conn c (\<lambda>c. c\<lparr>pc_buffer := b\<rparr>) (u_l s), u_reader := r\<rparr>) k e = entry_ok s k e" for k e
    by (simp add: entry_ok_def)
  with assms show ?thesis by (simp add: route_inv_def)
qed

lemma route_new:
  assumes "route_inv s" "base_inv s" "l_conns l' = l_conns (u_l s) \<or> l_conns l' = AList.update raddr (l_made (u_l s)) (l_conns (u_l s))"
    and "acceptCh l' = acceptCh (u_l s) \<or> acceptCh l' = acceptCh (u_l s) @ [l_made (u_l s)]"
    and "l_made l' = Suc (l_made (u_l s))" "l_store l' = (l_store (u_l s))(l_made (u_l s) := newPacketConn raddr)"
  shows "route_inv (s\<lparr>u_l := l', u_reader := q\<rparr>)"
proof -
  note B = base_invD [OF assms(2)] and R = route_invD [OF assms(1)]
  let ?n = "l_made (u_l s)" and ?s = "s\<lparr>u_l := l', u_reader := q\<rparr>"
  have st: "l_store l' e = l_store (u_l s) e" if "e < ?n" for e using that assms(6) by simp
  have rem: "e < ?n" if "e \<in> u_removed s" for e using R(7) [OF that] by blast
  have "entry_ok ?s k e" if "map_of (l_conns (u_l s)) k = Some e" for k e
    using R(1) [OF that] st [OF B(9) [OF that]] by (simp add: entry_ok_def)
  moreover have "entry_ok ?s raddr ?n" using rem assms(6) by (auto simp: entry_ok_def)
  ultimately have "\<forall>k e. map_of (l_conns l') k = Some e \<longrightarrow> entry_ok ?s k e"
    using assms(3) by (auto simp: update_conv split: if_splits)
  moreover have "\<forall>t e. write_on e (u_calls s t) \<longrightarrow> e \<in> u_accepted s \<and> \<not> pc_once (l_store l' e)"
    using R(3) B(10) st by metis
  moreover have "\<forall>t e k. u_calls s t = Some (W_route e k) \<or> u_calls s t = Some (W_id e k) \<longrightarrow> pc_id (l_store l' e) = None"
    using R(4,5) B(10) st write_on.simps(1,2) by metis
  moreover have "\<forall>t e. close_on e (u_calls s t) \<longrightarrow> e < l_made l' \<and> pc_once (l_store l' e)"
    using R(6) st assms(5) by (metis less_Suc_eq)
  moreover have "\<forall>e \<in> u_removed s. e < l_made l' \<and>
      (pc_once (l_store l' e) \<or> e \<notin> u_accepted s \<and> e \<notin> set (acceptCh l') \<and> (\<forall>t. u_calls s t \<noteq> Some (A_got e)))"
  proof
    fix e assume e: "e \<in> u_removed s"
    have "e \<in> set (acceptCh l') \<Longrightarrow> e \<in> set (acceptCh (u_l s))" using assms(4) rem [OF e] by auto
    with R(7) [OF e] st [OF rem [OF e]] rem [OF e] assms(5) show "e < l_made l' \<and>
      (pc_once (l_store l' e) \<or> e \<notin> u_accepted s \<and> e \<notin> set (acceptCh l') \<and> (\<forall>t. u_calls s t \<noteq> Some (A_got e)))" by auto
  qed
  ultimately show ?thesis using R(2,8,9) by (auto simp: route_inv_def)
qed

lemma route_lookup:
  assumes "route_inv s" "base_inv s" "getConn raddr buf (u_l s) = (r, l')"
  shows "route_inv (s\<lparr>u_l := l', u_reader := q\<rparr>)"
proof (cases rule: getConn_cases [of raddr buf "u_l s"])
  case (full e)
  then show ?thesis using assms(3) by (intro route_new [OF assms(1,2)]) auto
next
  case new
  then show ?thesis using assms(3) by (intro route_new [OF assms(1,2)]) auto
qed (use assms in \<open>auto simp: route_inv_def entry_ok_def\<close>)

text \<open>A step in which no call begins.\<close>

lemma route_callI:
  assumes "route_inv s"
    and "\<And>k c. map_of (l_conns (u_l s')) k = Some c \<Longrightarrow> entry_ok s' k c"
    and "\<And>t c. write_on c (u_calls s' t) \<Longrightarrow> write_on c (u_calls s t)"
    and "\<And>t c k. u_calls s' t = Some (W_route c k) \<or> u_calls s' t = Some (W_id c k) \<Longrightarrow> pc_id (l_store (u_l s') c) = None"
    and "\<And>t c. close_on c (u_calls s' t) \<Longrightarrow> close_on c (u_calls s t)"
    and "\<And>t c. u_calls s' t = Some (A_got c) \<Longrightarrow> u_calls s t = Some (A_got c)"
    and "\<And>t c. u_calls s' t = Some (C_buffer c) \<Longrightarrow> c \<in> u_removed s'"
    and "\<And>c. pc_once (l_store (u_l s') c) = pc_once (l_store (u_l s) c)"
    and "l_made (u_l s') = l_made (u_l s)" "set (acceptCh (u_l s')) \<subseteq> set (acceptCh (u_l s))" "u_accepted s' = u_accepted s"
    and "\<And>c. c \<in> u_removed s' \<Longrightarrow> c \<in> u_removed s \<or> c < l_made (u_l s) \<and>
      (pc_once (l_store (u_l s) c) \<or> c \<notin> u_accepted s \<and> c \<notin> set (acceptCh (u_l s')) \<and> (\<forall>t. u_calls s t \<noteq> Some (A_got c)))"
    and "\<And>c. c \<in> u_closed s' \<Longrightarrow> c \<in> u_removed s'"
  shows "route_inv s'"
proof (rule route_invI)
  note R = route_invD [OF assms(1)]
  show "t = t'" if "write_on c (u_calls s' t)" "write_on c (u_calls s' t')" for t t' c using assms(3) R(2) that by blast
  show "c \<in> u_accepted s' \<and> \<not> pc_once (l_store (u_l s') c)" if "write_on c (u_calls s' t)" for t c
    using R(3) [OF assms(3) [OF that]] assms(8,11) by simp
  show "c < l_made (u_l s') \<and> pc_once (l_store (u_l s') c)" if "close_on c (u_calls s' t)" for t c
    using R(6) [OF assms(5) [OF that]] assms(8,9) by simp
  show "c < l_made (u_l s') \<and> (pc_once (l_store (u_l s') c) \<or>
      c \<notin> u_accepted s' \<and> c \<notin> set (acceptCh (u_l s')) \<and> (\<forall>t. u_calls s' t \<noteq> Some (A_got c)))" if "c \<in> u_removed s'" for c
  proof -
    have "\<forall>t. u_calls s t \<noteq> Some (A_got c) \<Longrightarrow> \<forall>t. u_calls s' t \<noteq> Some (A_got c)" using assms(6) by blast
    with assms(12) [OF that] R(7) [of c] assms(8,9,10,11) show ?thesis by auto
  qed
qed (use assms(2,4,7,13) in auto)

lemma route_send_route:
  assumes "route_inv s" "u_calls s t = Some (W_route c k)"
  shows "route_inv (s\<lparr>u_l := WriteTo_route c k (u_l s), u_calls := (u_calls s)(t \<mapsto> W_id c k)\<rparr>)"
proof -
  let ?s = "s\<lparr>u_l := WriteTo_route c k (u_l s), u_calls := (u_calls s)(t \<mapsto> W_id c k)\<rparr>"
  note R = route_invD [OF assms(1)]
  have keep: "u_calls ?s t' = Some (W_id e k')" if "u_calls s t' = Some (W_id e k')" for t' e k'
    using that assms(2) by auto
  have ok: "entry_ok ?s k' e" if "entry_ok s k' e" for k' e
    using that keep unfolding entry_ok_def by (simp add: WriteTo_route_def del: fun_upd_apply) blast
  have "c \<notin> u_removed s" using writing_not_removed [OF assms(1), of c t] assms(2) by simp
  then have new: "entry_ok ?s k c" by (auto simp: entry_ok_def WriteTo_route_def)
  show ?thesis
  proof (rule route_callI [OF assms(1)])
    show "entry_ok ?s k' e" if "map_of (l_conns (u_l ?s)) k' = Some e" for k' e
      using that R(1) [of k' e] ok new by (auto simp: WriteTo_route_def update_conv split: if_splits)
    show "pc_id (l_store (u_l ?s) e) = None" if "u_calls ?s t' = Some (W_route e k') \<or> u_calls ?s t' = Some (W_id e k')" for t' e k'
      using that R(4) [OF assms(2)] R(4) [of t' e k'] R(5) [of t' e k'] by (auto simp: WriteTo_route_def split: if_splits)
  qed (use R assms(2) in \<open>auto simp: WriteTo_route_def split: if_splits\<close>)
qed

lemma route_send_id:
  assumes "route_inv s" "u_calls s t = Some (W_id c k)"
  shows "route_inv (s\<lparr>u_l := WriteTo_id c k (u_l s), u_calls := (u_calls s)(t := None)\<rparr>)"
proof -
  let ?s = "s\<lparr>u_l := WriteTo_id c k (u_l s), u_calls := (u_calls s)(t := None)\<rparr>"
  note R = route_invD [OF assms(1)]
  have w: "write_on c (u_calls s t)" using assms(2) by simp
  have other: "\<not> write_on c (u_calls s t')" if "t' \<noteq> t" for t' using R(2) [OF w] that by blast
  have ok: "entry_ok ?s k' e" if "entry_ok s k' e" for k' e
  proof (cases "e = c")
    case True
    have "k' = k" if "u_calls s t' = Some (W_id c k')" for t'
      using other [of t'] that assms(2) by (cases "t' = t") auto
    with True that R(5) [OF assms(2)] show ?thesis by (auto simp: entry_ok_def WriteTo_id_def)
  next
    case False
    have "t' \<noteq> t" if "u_calls s t' = Some (W_id e k')" for t' using that assms(2) False by auto
    with False that show ?thesis by (auto simp: entry_ok_def WriteTo_id_def)
  qed
  show ?thesis
  proof (rule route_callI [OF assms(1)])
    show "entry_ok ?s k' e" if "map_of (l_conns (u_l ?s)) k' = Some e" for k' e
      using that R(1) [of k' e] ok by (simp add: WriteTo_id_def)
    show "pc_id (l_store (u_l ?s) e) = None" if a: "u_calls ?s t' = Some (W_route e k') \<or> u_calls ?s t' = Some (W_id e k')" for t' e k'
    proof -
      have t': "t' \<noteq> t" "u_calls s t' = Some (W_route e k') \<or> u_calls s t' = Some (W_id e k')" using a by (auto split: if_splits)
      then have "e \<noteq> c" using other [of t'] by auto
      with t'(2) R(4,5) show ?thesis by (auto simp: WriteTo_id_def)
    qed
  qed (use R in \<open>auto simp: WriteTo_id_def split: if_splits\<close>)
qed

lemma route_send_free:
  assumes "route_inv s" "u_calls s t = Some (W_free c)"
  shows "route_inv (s\<lparr>u_l := WriteTo_free c (u_l s), u_calls := (u_calls s)(t := None)\<rparr>)"
proof -
  let ?s = "s\<lparr>u_l := WriteTo_free c (u_l s), u_calls := (u_calls s)(t := None)\<rparr>"
  note R = route_invD [OF assms(1)]
  have keep: "u_calls ?s t' = Some (W_id e k)" if "u_calls s t' = Some (W_id e k)" for t' e k
    using that assms(2) by auto
  have ok: "entry_ok ?s k e" if "map_of (l_conns (u_l ?s)) k = Some e" for k e
  proof -
    have k: "map_of (l_conns (u_l s)) k = Some e" "k \<noteq> pc_raddr (l_store (u_l s) c)"
      using that by (auto simp: WriteTo_free_def delete_conv split: if_splits)
    have "pc_id (l_store (u_l ?s) e) = pc_id (l_store (u_l s) e)" "pc_raddr (l_store (u_l ?s) e) = pc_raddr (l_store (u_l s) e)"
      "e \<noteq> c \<Longrightarrow> pc_rmraddr (l_store (u_l ?s) e) = pc_rmraddr (l_store (u_l s) e)" "u_removed ?s = u_removed s"
      by (simp_all add: WriteTo_free_def)
    with R(1) [OF k(1)] k(2) keep show ?thesis unfolding entry_ok_def by metis
  qed
  show ?thesis
    by (rule route_callI [OF assms(1)]) (use R ok in \<open>auto simp: WriteTo_free_def split: if_splits\<close>)
qed

lemma route_forget:
  assumes "route_inv s" "\<And>t. \<not> write_on c (u_calls s t)" "c < l_made (u_l s)"
    and "l_made l' = l_made (u_l s)" "l_conns l' = l_conns (u_l s)" "set (acceptCh l') \<subseteq> set (acceptCh (u_l s))"
    and same: "\<And>e. pc_id (l_store l' e) = pc_id (l_store (u_l s) e)" "\<And>e. pc_raddr (l_store l' e) = pc_raddr (l_store (u_l s) e)"
      "\<And>e. pc_rmraddr (l_store l' e) = pc_rmraddr (l_store (u_l s) e)" "\<And>e. pc_once (l_store l' e) = pc_once (l_store (u_l s) e)"
    and "pc_once (l_store (u_l s) c) \<or> c \<notin> u_accepted s \<and> c \<notin> set (acceptCh l') \<and> (\<forall>t. u_calls s t \<noteq> Some (A_got c))"
    and calls: "q = u_calls s \<or> (\<exists>t. u_calls s t = Some (C_remove c) \<and> q = (u_calls s)(t \<mapsto> C_buffer c))"
  shows "route_inv (s\<lparr>u_l := forget c l', u_calls := q, u_removed := insert c (u_removed s)\<rparr>)"
proof -
  let ?s = "s\<lparr>u_l := forget c l', u_calls := q, u_removed := insert c (u_removed s)\<rparr>"
  note R = route_invD [OF assms(1)]
  have q: "q t = Some (W_id e k) \<longleftrightarrow> u_calls s t = Some (W_id e k)" "q t = Some (W_route e k) \<longleftrightarrow> u_calls s t = Some (W_route e k)"
    "q t = Some (A_got e) \<longleftrightarrow> u_calls s t = Some (A_got e)" "write_on e (q t) \<longleftrightarrow> write_on e (u_calls s t)"
    "close_on e (q t) \<longleftrightarrow> close_on e (u_calls s t)" "q t = Some (C_buffer e) \<longrightarrow> u_calls s t = Some (C_buffer e) \<or> e = c" for t e k
    using calls by (auto split: if_splits)
  have ok: "entry_ok ?s k e" if "map_of (l_conns (u_l ?s)) k = Some e" for k e
  proof -
    have "map_of (l_conns (forget c l')) k = Some e" using that by simp
    note f = forget_entry [OF this]
    have ok: "entry_ok s k e" using f(1) R(1) assms(5) by simp
    have "e \<noteq> c"
    proof
      assume "e = c"
      then have "u_calls s t \<noteq> Some (W_id e k)" for t using assms(2) [of t] by auto
      with ok f(2,3) same \<open>e = c\<close> show False by (auto simp: entry_ok_def)
    qed
    with ok same show ?thesis by (simp add: entry_ok_def q)
  qed
  show ?thesis
  proof (rule route_callI [OF assms(1)])
    show "entry_ok ?s k e" if "map_of (l_conns (u_l ?s)) k = Some e" for k e by (rule ok [OF that])
    show "pc_id (l_store (u_l ?s) e) = None" if "u_calls ?s t = Some (W_route e k) \<or> u_calls ?s t = Some (W_id e k)" for t e k
      using that R(4,5) same(1) by (auto simp: q)
    show "e \<in> u_removed ?s" if "u_calls ?s t = Some (C_buffer e)" for t e using that q(6) R(8) by auto
  qed (use R(9) assms(3-6,11) same(4) in \<open>auto simp: q\<close>)
qed

lemma entry_call:
  assumes "entry_ok s k e" "\<And>k. u_calls s t \<noteq> Some (W_id e k)" "u_calls s' = (u_calls s)(t := q)" "u_removed s' = u_removed s"
    and "pc_id (l_store (u_l s') e) = pc_id (l_store (u_l s) e)" "pc_raddr (l_store (u_l s') e) = pc_raddr (l_store (u_l s) e)"
    and "pc_rmraddr (l_store (u_l s') e) = pc_rmraddr (l_store (u_l s) e)"
  shows "entry_ok s' k e"
proof -
  have "u_calls s' t' = Some (W_id e k)" if "u_calls s t' = Some (W_id e k)" for t' using that assms(2,3) by auto
  with assms(1,4-7) show ?thesis unfolding entry_ok_def by metis
qed

lemma route_inv_step: "u_step Serial s s' \<Longrightarrow> base_inv s \<Longrightarrow> route_inv s \<Longrightarrow> route_inv s'"
proof (induction rule: u_step.induct)
  case (lookup s raddr buf r l')
  then show ?case by (intro route_lookup)
next
  case (deliver s c raddr buf l')
  then show ?case using readLoop_write_total [OF deliver(3,1)] route_buffer [OF deliver(4), where c = c and r = R_read] by auto
next
  case (accept s t c l')
  obtain cs where cs: "acceptCh (u_l s) = c # cs" "l' = (u_l s)\<lparr>acceptCh := cs\<rparr>" using Accept_receive_Some accept(2) by blast
  note R = route_invD [OF accept(4)]
  have "\<not> pc_once (l_store (u_l s) c)" using base_invD(4) [OF accept(3), of c] cs(1) by simp
  then have "c \<notin> u_removed s" using R(7) [of c] cs(1) by auto
  moreover have "entry_ok (s\<lparr>u_l := l', u_calls := (u_calls s)(t \<mapsto> A_got c)\<rparr>) k e" if "entry_ok s k e" for k e
    by (rule entry_call [OF that, where t = t]) (use accept(1) in \<open>auto simp: cs(2)\<close>)
  ultimately show ?case using accept(1,4) cs unfolding route_inv_def by (auto split: if_splits)
next
  case (accept_add s t c)
  note R = route_invD [OF accept_add(3)]
  have "\<not> pc_once (l_store (u_l s) c)" using base_invD(5) [OF accept_add(2,1)] by simp
  then have "c \<notin> u_removed s" using R(7) [of c] accept_add(1) by auto
  moreover have "entry_ok (s\<lparr>u_l := Accept_add (u_l s), u_calls := (u_calls s)(t := None), u_accepted := insert c (u_accepted s)\<rparr>) k e"
    if "entry_ok s k e" for k e
    by (rule entry_call [OF that, where t = t]) (use accept_add(1) in \<open>auto simp: Accept_add_def\<close>)
  ultimately show ?case using accept_add(1,3) unfolding route_inv_def by (auto simp: Accept_add_def split: if_splits)
next
  case (receive c s plen expired a l')
  have "pb_wf (pc_buffer (l_store (u_l s) c))" using base_invD(2,7) receive by blast
  from ReadFrom_buffer [OF this receive(2)] route_buffer [OF receive(4), where c = c and r = "u_reader s"] show ?case by auto
next
  case (send_route s t c k)
  then show ?case by (intro route_send_route)
next
  case (send_id s t c k)
  then show ?case by (intro route_send_id)
next
  case (send_free s t c)
  then show ?case by (intro route_send_free)
next
  case (close_conn_remove s t c)
  note R = route_invD [OF close_conn_remove(4)]
  have c: "c < l_made (u_l s)" "pc_once (l_store (u_l s) c)" using R(6) [of c t] close_conn_remove(1) by simp_all
  show ?case
    by (rule route_forget [OF close_conn_remove(4)]) (use R(3) c close_conn_remove(1) in auto)
next
  case (close_drain s c l')
  obtain cs where cs: "acceptCh (u_l s) = c # cs" "l' = (u_l s)\<lparr>acceptCh := cs\<rparr>" using Accept_receive_Some close_drain(2) by blast
  note R = route_invD [OF close_drain(4)] and B = base_invD [OF close_drain(3)]
  have c: "c < l_made (u_l s)" "c \<notin> u_accepted s" "c \<notin> set cs" "u_calls s t \<noteq> Some (A_got c)" for t
    using B(3) B(4) [of c] B(5) [of t c] cs(1) by auto
  have "\<not> write_on c (u_calls s t)" for t using R(3) c(2) by blast
  then have "route_inv (s\<lparr>u_l := forget c (set_conn c (\<lambda>c. c\<lparr>pc_done := True\<rparr>) l'), u_calls := u_calls s, u_removed := insert c (u_removed s)\<rparr>)"
    by (intro route_forget [OF close_drain(4)]) (use c cs in auto)
  then show ?case by (simp add: Close_drain_def)
next
  case (close_conn c s t)
  note R = route_invD [OF close_conn(6)] and c = base_invD(2) [OF close_conn(5,1)]
  have nw: "\<not> write_on c (u_calls s t')" for t' using close_conn(4) by (simp add: may_close_def)
  have "entry_ok (s\<lparr>u_l := pc_Close_begin c (u_l s), u_calls := (u_calls s)(t \<mapsto> C_done c)\<rparr>) k e" if "entry_ok s k e" for k e
    by (rule entry_call [OF that, where t = t]) (use close_conn(2) in \<open>auto simp: pc_Close_begin_def\<close>)
  then show ?case
    using close_conn(2,6) nw c unfolding route_inv_def by (auto simp: pc_Close_begin_def split: if_splits)
next
  case (send c s t payload addr)
  note R = route_invD [OF send(5)]
  have m: "\<not> pc_once (l_store (u_l s) c)" "\<And>t. \<not> write_on c (u_calls s t)" using send(3) by (simp_all add: may_write_def)
  let ?w = "WriteTo_load payload addr c (u_l s)"
  have w: "write_on e ?w \<Longrightarrow> e = c" "\<not> close_on e ?w" "?w \<noteq> Some (A_got e)" "?w \<noteq> Some (C_buffer e)" "?w \<noteq> Some (W_id e k)"
    "?w = Some (W_route e k) \<Longrightarrow> pc_id (l_store (u_l s) e) = None" for e k
    by (auto simp: WriteTo_load_def split: option.splits)
  have ok: "entry_ok (s\<lparr>u_calls := (u_calls s)(t := ?w)\<rparr>) k e" if "entry_ok s k e" for k e
    by (rule entry_call [OF that, where t = t]) (use send(2) in \<open>auto\<close>)
  show ?case
    using send(1,5) m w ok unfolding route_inv_def by (auto split: if_splits)
next
  case (send_moved s t c addr)
  note R = route_invD [OF send_moved(3)]
  let ?w = "WriteTo_moved c addr (u_l s)"
  have w: "?w = None \<or> ?w = Some (W_free c)" by (simp add: WriteTo_moved_def)
  have ok: "entry_ok (s\<lparr>u_calls := (u_calls s)(t := ?w)\<rparr>) k e" if "entry_ok s k e" for k e
    by (rule entry_call [OF that, where t = t]) (use send_moved(1) in \<open>auto\<close>)
  show ?case
    by (rule route_callI [OF send_moved(3)]) (use R send_moved(1) w ok in \<open>auto split: if_splits\<close>)
next
  case (close_conn_done s t c)
  note R = route_invD [OF close_conn_done(3)]
  have ok: "entry_ok (s\<lparr>u_l := pc_Close_done c (u_l s), u_calls := (u_calls s)(t \<mapsto> C_remove c)\<rparr>) k e" if "entry_ok s k e" for k e
    by (rule entry_call [OF that, where t = t]) (use close_conn_done(1) in \<open>auto simp: pc_Close_done_def\<close>)
  show ?case
    by (rule route_callI [OF close_conn_done(3)]) (use R close_conn_done(1) ok in \<open>auto simp: pc_Close_done_def split: if_splits\<close>)
next
  case (close_conn_buffer s t c)
  note R = route_invD [OF close_conn_buffer(3)]
  have ok: "entry_ok (s\<lparr>u_l := pc_Close_buffer c (u_l s), u_calls := (u_calls s)(t := None), u_closed := insert c (u_closed s)\<rparr>) k e"
    if "entry_ok s k e" for k e
    by (rule entry_call [OF that, where t = t]) (use close_conn_buffer(1) in \<open>auto simp: pc_Close_buffer_def\<close>)
  show ?case
    by (rule route_callI [OF close_conn_buffer(3)])
      (use R close_conn_buffer(1) ok in \<open>auto simp: pc_Close_buffer_def split: if_splits\<close>)
qed (auto simp: route_inv_def entry_ok_def Close_begin_def Close_count_def)

lemma base_inv_reachable:
  assumes "(u_step d)\<^sup>*\<^sup>* (udp_start (Listen n flt router identifier)) s"
  shows "base_inv s"
  using assms
proof (induction rule: rtranclp_induct)
  case base
  then show ?case by (simp add: base_inv_def udp_start_def Listen_def open_conns_def)
qed (rule base_inv_step)

lemma route_inv_reachable:
  assumes "(u_step Serial)\<^sup>*\<^sup>* (udp_start (Listen n flt router identifier)) s"
  shows "route_inv s"
  using assms
proof (induction rule: rtranclp_induct)
  case base
  then show ?case by (simp add: route_inv_def udp_start_def Listen_def)
next
  case (step s s')
  then show ?case using route_inv_step base_inv_reachable by blast
qed

section \<open>Properties\<close>

text \<open> C12. A datagram is never routed to a connection whose \<open>Close\<close> has returned, whatever identifiers and addresses the
  datagrams carry and however the read loop, \<open>Accept\<close>, \<open>Close\<close> of the listener and the calls on different connections
  interleave, provided that the calls of \<open>WriteTo\<close> and \<open>Close\<close> on one connection do not overlap and no \<open>WriteTo\<close>
  follows its \<open>Close\<close>.\<close>

theorem route_to_open:
  assumes "(u_step Serial)\<^sup>*\<^sup>* (udp_start (Listen n flt router identifier)) s" "routed raddr buf (u_l s) = Some c"
  shows "c \<notin> u_closed s"
proof -
  have R: "route_inv s" by (rule route_inv_reachable [OF assms(1)])
  obtain k where "map_of (l_conns (u_l s)) k = Some c" using routed_entry [OF assms(2)] by blast
  from route_invD(1) [OF R this] route_invD(9) [OF R, of c] show ?thesis by (auto simp: entry_ok_def)
qed

text \<open> C40. The count of the users of the socket, however the calls interleave: it is never negative (so that \<open>Done\<close> does
  not panic), and it is zero, which closes the socket, exactly when \<open>Close\<close> of the listener has given up its part and every
  connection that \<open>Accept\<close> has counted has begun to close.  A connection that \<open>Accept\<close> has received and not yet counted is
  not among them.\<close>

theorem socket_count:
  assumes "(u_step d)\<^sup>*\<^sup>* (udp_start (Listen n flt router identifier)) s"
  shows "0 \<le> connWG (u_l s) \<and>
    (connWG (u_l s) = 0 \<longleftrightarrow> u_closer s = L_closed \<and> u_accepted s \<subseteq> {c. pc_once (l_store (u_l s) c)})"
proof -
  note B = base_invD [OF base_inv_reachable [OF assms]]
  have "finite (open_conns s)" using B(1) by (simp add: open_conns_def)
  then have "card (open_conns s) = 0 \<longleftrightarrow> u_accepted s \<subseteq> {c. pc_once (l_store (u_l s) c)}" by (auto simp: open_conns_def)
  with B(11) show ?thesis by auto
qed

text \<open>The read loop never panics when it writes a datagram to the buffer of a connection.\<close>

theorem readLoop_no_panic:
  assumes "(u_step d)\<^sup>*\<^sup>* (udp_start (Listen n flt router identifier)) s" "u_reader s = R_write c raddr buf"
  shows "\<exists>l'. readLoop_write c raddr buf (u_l s) = Some l'"
  using readLoop_write_total [OF base_inv_reachable [OF assms(1)] assms(2)] by blast

subsection \<open>Two races\<close>

text \<open>A listener with connection identifiers that has received a datagram, and the states of its first connection.\<close>

definition sample_listener :: listener where
  "sample_listener = Listen 0 None (Some (\<lambda>_. Some ''id'')) (Some (\<lambda>_. Some ''id''))"

definition sample_queued :: udp where
  "sample_queued = (udp_start sample_listener)\<lparr>
     u_l := sample_listener\<lparr>l_store := (l_store sample_listener)(0 := newPacketConn ''192.0.2.1:1''), l_made := 1,
       acceptCh := [0], l_conns := [(''192.0.2.1:1'', 0)]\<rparr>, u_reader := R_write 0 ''192.0.2.1:1'' [1]\<rparr>"

definition sample_received :: udp where
  "sample_received = sample_queued\<lparr>u_l := (u_l sample_queued)\<lparr>acceptCh := []\<rparr>, u_calls := [0 \<mapsto> A_got 0]\<rparr>"

definition sample_accepted :: udp where
  "sample_accepted = sample_received\<lparr>u_l := Accept_add (u_l sample_received), u_calls := Map.empty, u_accepted := {0}\<rparr>"

lemma sample_lookup: "u_step d (udp_start sample_listener) sample_queued"
  using u_step.lookup [of "udp_start sample_listener" "''192.0.2.1:1''" "[1]" "Inr (Some 0)" "u_l sample_queued" d]
  by (simp add: sample_queued_def udp_start_def getConn_def routed_def sample_listener_def Listen_def defaultListenBacklog_def)

lemma sample_accept: "u_step d sample_queued sample_received"
  using u_step.accept [of sample_queued 0 0 "(u_l sample_queued)\<lparr>acceptCh := []\<rparr>" d]
  by (simp add: sample_received_def sample_queued_def udp_start_def Accept_receive_def)

lemma sample_accept_add: "u_step d sample_received sample_accepted"
  using u_step.accept_add [of sample_received 0 0 d]
  by (simp add: sample_accepted_def sample_received_def sample_queued_def udp_start_def)

lemma sample_run: "(u_step d)\<^sup>*\<^sup>* (udp_start sample_listener) sample_received" "(u_step d)\<^sup>*\<^sup>* (udp_start sample_listener) sample_accepted"
proof -
  show 1: "(u_step d)\<^sup>*\<^sup>* (udp_start sample_listener) sample_received"
    by (rule rtranclp.rtrancl_into_rtrancl [OF r_into_rtranclp]) (rule sample_lookup, rule sample_accept)
  show "(u_step d)\<^sup>*\<^sup>* (udp_start sample_listener) sample_accepted"
    using 1 sample_accept_add by (rule rtranclp.rtrancl_into_rtrancl)
qed

lemmas sample_simps = sample_accepted_def sample_received_def sample_queued_def udp_start_def sample_listener_def Listen_def
  Accept_add_def

text \<open>
  \<open>WriteTo\<close> leaves the lock between the entry in the table and storing the identifier in the connection.  A \<open>Close\<close> in
  between does not find the identifier: after both have returned the entry is still there, and every datagram with that
  identifier goes to the closed connection.
\<close>

definition sample_entered :: udp where
  "sample_entered = sample_accepted\<lparr>u_l := WriteTo_route 0 ''id'' (u_l sample_accepted), u_calls := [1 \<mapsto> W_id 0 ''id'']\<rparr>"

definition sample_closed :: udp where
  "sample_closed = sample_entered\<lparr>u_l := pc_Close_buffer 0 (forget 0 (pc_Close_done 0 (pc_Close_begin 0 (u_l sample_entered)))),
     u_removed := {0}, u_closed := {0}\<rparr>"

definition sample_stale :: udp where
  "sample_stale = sample_closed\<lparr>u_l := WriteTo_id 0 ''id'' (u_l sample_closed), u_calls := Map.empty\<rparr>"

lemma sample_enter: "(u_step Overlap)\<^sup>*\<^sup>* sample_accepted sample_entered"
proof -
  let ?s = "sample_accepted\<lparr>u_calls := [1 \<mapsto> W_route 0 ''id'']\<rparr>"
  have "u_step Overlap sample_accepted ?s"
    using u_step.send [of 0 sample_accepted 1 Overlap "[1]" "''192.0.2.1:1''"]
    by (simp add: sample_simps may_write_def WriteTo_load_def newPacketConn_def)
  moreover have "u_step Overlap ?s sample_entered"
    using u_step.send_route [of ?s 1 0 "''id''" Overlap] by (simp add: sample_entered_def) (simp add: sample_simps)
  ultimately show ?thesis by auto
qed

lemma close_conn_run:
  assumes "c \<in> u_accepted s" "u_calls s t = None" "\<not> pc_once (l_store (u_l s) c)" "may_close d c s" "u_closer s \<noteq> L_locked"
  shows "(u_step d)\<^sup>*\<^sup>* s (s\<lparr>u_l := pc_Close_buffer c (forget c (pc_Close_done c (pc_Close_begin c (u_l s)))),
    u_removed := insert c (u_removed s), u_closed := insert c (u_closed s)\<rparr>)"
proof -
  let ?a = "s\<lparr>u_l := pc_Close_begin c (u_l s), u_calls := (u_calls s)(t \<mapsto> C_done c)\<rparr>"
  let ?b = "s\<lparr>u_l := pc_Close_done c (pc_Close_begin c (u_l s)), u_calls := (u_calls s)(t \<mapsto> C_remove c)\<rparr>"
  let ?c = "s\<lparr>u_l := forget c (pc_Close_done c (pc_Close_begin c (u_l s))), u_calls := (u_calls s)(t \<mapsto> C_buffer c),
    u_removed := insert c (u_removed s)\<rparr>"
  let ?d = "s\<lparr>u_l := pc_Close_buffer c (forget c (pc_Close_done c (pc_Close_begin c (u_l s)))),
    u_removed := insert c (u_removed s), u_closed := insert c (u_closed s)\<rparr>"
  have idle: "(u_calls s)(t := None) = u_calls s" using assms(2) by auto
  have "u_step d s ?a" by (rule u_step.close_conn [OF assms(1-4)])
  moreover have "u_step d ?a ?b" using u_step.close_conn_done [of ?a t c d] by simp
  moreover have "u_step d ?b ?c" using u_step.close_conn_remove [of ?b t c d] assms(5) by simp
  moreover have "u_step d ?c ?d" using u_step.close_conn_buffer [of ?c t c d] idle by (cases s) simp
  ultimately show ?thesis by (meson converse_rtranclp_into_rtranclp r_into_rtranclp)
qed

lemma sample_close: "(u_step Overlap)\<^sup>*\<^sup>* sample_entered sample_closed"
  using close_conn_run [of 0 sample_entered 2 Overlap]
  by (simp add: sample_closed_def) (simp add: sample_entered_def sample_simps may_close_def WriteTo_route_def)

lemma sample_store_id: "u_step Overlap sample_closed sample_stale"
  using u_step.send_id [of sample_closed 1 0 "''id''" Overlap]
  by (simp add: sample_stale_def) (simp add: sample_closed_def sample_entered_def)

theorem stale_route:
  "(u_step Overlap)\<^sup>*\<^sup>* (udp_start sample_listener) sample_stale \<and> u_calls sample_stale = Map.empty \<and> 0 \<in> u_closed sample_stale \<and>
   routed raddr buf (u_l sample_stale) = Some 0"
proof (intro conjI)
  show "(u_step Overlap)\<^sup>*\<^sup>* (udp_start sample_listener) sample_stale"
    using sample_run(2) sample_enter sample_close sample_store_id by (meson rtranclp_trans r_into_rtranclp)
  show "routed raddr buf (u_l sample_stale) = Some 0"
    by (simp add: sample_stale_def sample_closed_def sample_entered_def sample_simps call_simps forget_def set_conn_def
        newPacketConn_def routed_def)
qed (simp_all add: sample_stale_def sample_closed_def)

text \<open>
  \<open>Accept\<close> takes a connection from the channel before it counts it.  A \<open>Close\<close> of the listener in between ends with the
  count at zero, which closes the socket, and \<open>Accept\<close> then returns a connection without one.
\<close>

theorem accepted_without_socket:
  "\<exists>s. (u_step d)\<^sup>*\<^sup>* (udp_start sample_listener) s \<and> u_socket_closed s \<and> 0 \<in> u_accepted s \<and> \<not> pc_once (l_store (u_l s) 0)"
proof -
  let ?l = "Close_count (Close_begin (u_l sample_received))"
  let ?a = "sample_received\<lparr>u_l := Close_begin (u_l sample_received), u_closer := L_begun\<rparr>"
  let ?b = "?a\<lparr>u_closer := L_locked\<rparr>"
  let ?c = "?a\<lparr>u_closer := L_unlocked\<rparr>"
  let ?d = "sample_received\<lparr>u_l := ?l, u_closer := L_closed\<rparr>"
  let ?e = "?d\<lparr>u_socket_closed := True\<rparr>"
  let ?f = "?e\<lparr>u_l := Accept_add ?l, u_calls := (u_calls sample_received)(0 := None), u_accepted := insert 0 (u_accepted sample_received)\<rparr>"
  have "u_step d sample_received ?a" by (rule u_step.close) (simp add: sample_simps)
  moreover have "u_step d ?a ?b" by (rule u_step.close_lock) simp
  moreover have "u_step d ?b ?c" using u_step.close_unlock [of ?b d] by (simp add: Close_begin_def sample_simps)
  moreover have "u_step d ?c ?d" using u_step.close_count [of ?c d] by simp
  moreover have "u_step d ?d ?e" by (rule u_step.close_socket) (simp add: Close_count_def Close_begin_def sample_simps)
  moreover have "u_step d ?e ?f" using u_step.accept_add [of ?e 0 0 d] by (simp add: sample_received_def)
  ultimately have "(u_step d)\<^sup>*\<^sup>* (udp_start sample_listener) ?f"
    using sample_run(1) by (meson rtranclp.rtrancl_into_rtrancl)
  moreover have "\<not> pc_once (l_store (u_l ?f) 0)"
    by (simp add: Accept_add_def Close_count_def Close_begin_def sample_received_def sample_queued_def)
  ultimately show ?thesis by (intro exI [of _ ?f]) simp
qed

section \<open>Witnesses\<close>

theorem route_to_open_witness:
  "(u_step Serial)\<^sup>*\<^sup>* (udp_start sample_listener) sample_accepted \<and> routed ''192.0.2.1:1'' [1] (u_l sample_accepted) = Some 0 \<and>
   0 \<notin> u_closed sample_accepted"
proof -
  have r: "routed ''192.0.2.1:1'' [1] (u_l sample_accepted) = Some 0" by (simp add: sample_simps routed_def)
  show ?thesis
    using route_to_open [OF sample_run(2) [unfolded sample_listener_def] r] r sample_run(2) by simp
qed

theorem socket_count_witness:
  "(u_step Free)\<^sup>*\<^sup>* (udp_start sample_listener) sample_accepted \<and> 0 < connWG (u_l sample_accepted)"
  using socket_count [OF sample_run(2) [of Free, unfolded sample_listener_def]] sample_run(2) [of Free]
  by (simp add: sample_simps)

end
